(* ===== verification/Py_Value.thy ===== *)
theory Py_Value
  imports Complex_Main "HOL-Library.AList"
begin

text \<open>
  The prelude of the development: the Python values the program exchanges (JSON values, as
  \<open>json.loads\<close> returns them), the built-in operations the sources apply to them, and the two
  result types every component uses, \<open>'a res\<close> for code that may raise and \<open>('s, 'a) py\<close> for a
  method that may raise and changes the state \<open>'s\<close> of its object.  The rules about the two
  combinators are collected in \<open>py_simps\<close>, and \<open>keeps\<close> with its rules \<open>keeps_intro\<close> carries
  the invariant proofs of the components.

  A dictionary is an association list in insertion order (the order Python iterates it in); the
  keys of a JSON object are strings.  A string is a list of 8-bit characters, so it stands for an
  ASCII string of the program.  A float is an exact rational, an infinity or NaN: comparisons
  (all the search code does with scores) are exact, the rounding of arithmetic is not modelled.
\<close>

section \<open>Collections of facts\<close>

named_theorems py_simps \<open>rewrite rules of the result and state combinators\<close>
named_theorems keeps_intro \<open>rules that lift a state invariant through the combinators\<close>
named_theorems returns_intro \<open>rules that lift a property of returned values through the combinators\<close>
named_theorems raises_intro \<open>rules that lift a property of exceptions through the combinators\<close>

section \<open>Values\<close>

datatype pyfloat = Fin rat | PosInf | NegInf | NaN

datatype pyval =
    PNone
  | PBool bool
  | PInt int
  | PFloat pyfloat
  | PStr string
  | PList "pyval list"
  | PDict "(string \<times> pyval) list"

type_synonym pydict = "(string \<times> pyval) list"

subsection \<open>Type tests, as the sources write them\<close>

text \<open>\<open>isinstance(x, int) and not isinstance(x, bool)\<close>\<close>

fun is_int :: "pyval \<Rightarrow> bool" where
  "is_int (PInt _) = True"
| "is_int _ = False"

text \<open>\<open>isinstance(x, str)\<close>, and with \<open>and x\<close> the non-empty strings\<close>

fun is_str :: "pyval \<Rightarrow> bool" where
  "is_str (PStr _) = True"
| "is_str _ = False"

fun is_nonempty_str :: "pyval \<Rightarrow> bool" where
  "is_nonempty_str (PStr s) = (s \<noteq> [])"
| "is_nonempty_str _ = False"

fun is_bool :: "pyval \<Rightarrow> bool" where
  "is_bool (PBool _) = True"
| "is_bool _ = False"

fun is_dict :: "pyval \<Rightarrow> bool" where
  "is_dict (PDict _) = True"
| "is_dict _ = False"

fun is_list :: "pyval \<Rightarrow> bool" where
  "is_list (PList _) = True"
| "is_list _ = False"

fun is_positive_int :: "pyval \<Rightarrow> bool" where
  "is_positive_int (PInt i) = (0 < i)"
| "is_positive_int _ = False"

fun str_opt :: "pyval \<Rightarrow> string option" where
  "str_opt (PStr s) = Some s"
| "str_opt _ = None"

fun of_opt_str :: "string option \<Rightarrow> pyval" where
  "of_opt_str None = PNone"
| "of_opt_str (Some s) = PStr s"

fun of_opt_int :: "int option \<Rightarrow> pyval" where
  "of_opt_int None = PNone"
| "of_opt_int (Some i) = PInt i"

fun of_opt_rat :: "rat option \<Rightarrow> pyval" where
  "of_opt_rat None = PNone"
| "of_opt_rat (Some r) = PFloat (Fin r)"

lemma str_opt_Some [simp]: "str_opt v = Some s \<longleftrightarrow> v = PStr s"
  by (cases v) auto

lemma is_nonempty_strE:
  assumes "is_nonempty_str v"
  obtains s where "v = PStr s" and "s \<noteq> []"
  using assms by (cases v) auto

lemma is_dictE:
  assumes "is_dict v"
  obtains d where "v = PDict d"
  using assms by (cases v) auto

lemma is_listE:
  assumes "is_list v"
  obtains xs where "v = PList xs"
  using assms by (cases v) auto

subsection \<open>Numbers\<close>

text \<open>
  The numeric value of a bool, int or float; Python compares these types with each other.
  \<open>float(i)\<close> raises \<open>OverflowError\<close> exactly when the integer rounds to \<open>2 ^ 1024\<close> or more.
\<close>

fun num_of :: "pyval \<Rightarrow> pyfloat option" where
  "num_of (PBool b) = Some (Fin (if b then 1 else 0))"
| "num_of (PInt i) = Some (Fin (of_int i))"
| "num_of (PFloat f) = Some f"
| "num_of _ = None"

fun float_eq :: "pyfloat \<Rightarrow> pyfloat \<Rightarrow> bool" where
  "float_eq NaN _ = False"
| "float_eq _ NaN = False"
| "float_eq f g = (f = g)"

definition float_overflows :: "int \<Rightarrow> bool" where
  "float_overflows i \<longleftrightarrow> 2 ^ 1024 - 2 ^ 970 \<le> \<bar>i\<bar>"

text \<open>the helper \<open>_finite_number\<close> of many modules: a finite number as a float, \<open>None\<close> for everything else\<close>

fun finite_number :: "pyval \<Rightarrow> rat option" where
  "finite_number (PInt i) = (if float_overflows i then None else Some (of_int i))"
| "finite_number (PFloat (Fin r)) = Some r"
| "finite_number _ = None"

subsection \<open>Equality and truth value\<close>

text \<open>
  \<open>==\<close>: numbers by value across the numeric types (so \<open>True == 1\<close>), lists element by element,
  dictionaries as unordered maps.
\<close>

lemma size_zip_fst [termination_simp]:
  "(a, b) \<in> set (zip xs ys) \<Longrightarrow> size a < Suc (size_list size xs)"
  by (drule set_zip_leftD) (metis le_imp_less_Suc order_refl size_list_estimation')

lemma size_zip_snd [termination_simp]:
  "(a, b) \<in> set (zip xs ys) \<Longrightarrow> size b < Suc (size_list size ys)"
  by (drule set_zip_rightD) (metis le_imp_less_Suc order_refl size_list_estimation')

lemma size_map_of [termination_simp]:
  "map_of e a = Some w \<Longrightarrow> size w < Suc (size_list (\<lambda>x. Suc (size (snd x))) e)"
  by (induction e) (auto split: if_splits)

fun py_eq :: "pyval \<Rightarrow> pyval \<Rightarrow> bool" where
  "py_eq PNone PNone = True"
| "py_eq (PStr a) (PStr b) = (a = b)"
| "py_eq (PList xs) (PList ys) =
     (length xs = length ys \<and> (\<forall>p \<in> set (zip xs ys). py_eq (fst p) (snd p)))"
| "py_eq (PDict d) (PDict e) =
     (length d = length e \<and>
      (\<forall>p \<in> set d. case map_of e (fst p) of None \<Rightarrow> False | Some w \<Rightarrow> py_eq (snd p) w))"
| "py_eq x y =
     (case num_of x of
        None \<Rightarrow> False
      | Some f \<Rightarrow> (case num_of y of None \<Rightarrow> False | Some g \<Rightarrow> float_eq f g))"

lemma py_eq_PStr [simp]: "py_eq v (PStr s) \<longleftrightarrow> v = PStr s"
  by (cases v) (auto split: option.splits)

lemma py_eq_PStr_left [simp]: "py_eq (PStr s) v \<longleftrightarrow> v = PStr s"
  by (cases v) auto

lemma py_eq_PInt_PInt [simp]: "py_eq (PInt i) (PInt j) \<longleftrightarrow> i = j"
  by auto

lemma py_eq_PNone_left [simp]: "py_eq PNone v \<longleftrightarrow> v = PNone"
  by (cases v) auto

fun py_truthy :: "pyval \<Rightarrow> bool" where
  "py_truthy PNone = False"
| "py_truthy (PBool b) = b"
| "py_truthy (PInt i) = (i \<noteq> 0)"
| "py_truthy (PFloat f) = (f \<noteq> Fin 0)"
| "py_truthy (PStr s) = (s \<noteq> [])"
| "py_truthy (PList xs) = (xs \<noteq> [])"
| "py_truthy (PDict d) = (d \<noteq> [])"

text \<open>Lists and dictionaries cannot be members of a set: \<open>x in {...}\<close> raises \<open>TypeError\<close>.\<close>

fun hashable :: "pyval \<Rightarrow> bool" where
  "hashable (PList _) = False"
| "hashable (PDict _) = False"
| "hashable _ = True"

subsection \<open>Dictionaries\<close>

text \<open>\<open>d.get(k)\<close>, \<open>d.get(k, v)\<close>, \<open>k in d\<close> and \<open>d[k] = v\<close>\<close>

definition dget :: "pydict \<Rightarrow> string \<Rightarrow> pyval" where
  "dget d k = (case map_of d k of None \<Rightarrow> PNone | Some v \<Rightarrow> v)"

definition dget_default :: "pydict \<Rightarrow> string \<Rightarrow> pyval \<Rightarrow> pyval" where
  "dget_default d k v = (case map_of d k of None \<Rightarrow> v | Some w \<Rightarrow> w)"

definition dhas :: "pydict \<Rightarrow> string \<Rightarrow> bool" where
  "dhas d k \<longleftrightarrow> map_of d k \<noteq> None"

definition dset :: "pydict \<Rightarrow> string \<Rightarrow> pyval \<Rightarrow> pydict" where
  "dset d k v = AList.update k v d"

definition dkeys :: "pydict \<Rightarrow> string list" where
  "dkeys d = map fst d"

text \<open>\<open>v.get(k)\<close> on a value that the code has tested to be a mapping; used as \<open>v.get(k) if isinstance(v, Mapping) else None\<close>\<close>

fun vget :: "pyval \<Rightarrow> string \<Rightarrow> pyval" where
  "vget (PDict d) k = dget d k"
| "vget _ k = PNone"

lemma dget_Nil [simp]: "dget [] k = PNone"
  by (simp add: dget_def)

lemma dget_Cons [simp]: "dget ((k', v) # d) k = (if k' = k then v else dget d k)"
  by (simp add: dget_def)

lemma dget_dset [simp]: "dget (dset d k v) k' = (if k' = k then v else dget d k')"
  by (simp add: dget_def dset_def update_conv')

lemma dhas_Nil [simp]: "\<not> dhas [] k"
  by (simp add: dhas_def)

lemma dhas_Cons [simp]: "dhas ((k', v) # d) k \<longleftrightarrow> k' = k \<or> dhas d k"
  by (simp add: dhas_def)

lemma dget_not_dhas: "\<not> dhas d k \<Longrightarrow> dget d k = PNone"
  by (simp add: dget_def dhas_def)

lemma dget_append: "dget (d @ e) k = (if dhas d k then dget d k else dget e k)"
  by (auto simp: dget_def dhas_def map_add_def split: option.splits)

subsection \<open>Strings\<close>

text \<open>\<open>str.lower\<close> on ASCII\<close>

definition lower_char :: "char \<Rightarrow> char" where
  "lower_char c =
     (if 65 \<le> (of_char c :: nat) \<and> (of_char c :: nat) \<le> 90
      then char_of ((of_char c :: nat) + 32) else c)"

definition py_lower :: "string \<Rightarrow> string" where
  "py_lower s = map lower_char s"

text \<open>The decimal digits of a counter, as an f-string prints it\<close>

fun show_nat :: "nat \<Rightarrow> string" where
  "show_nat n =
     (if n < 10 then [char_of (48 + n)] else show_nat (n div 10) @ [char_of (48 + n mod 10)])"

declare show_nat.simps [simp del]

definition show_int :: "int \<Rightarrow> string" where
  "show_int i = (if i < 0 then CHR ''-'' # show_nat (nat (- i)) else show_nat (nat i))"

lemma char_digit_inj: "a < 10 \<Longrightarrow> b < 10 \<Longrightarrow> (char_of (48 + a) :: char) = char_of (48 + b) \<Longrightarrow> a = (b::nat)"
  by (drule arg_cong [where f = "of_char :: char \<Rightarrow> nat"]) simp

lemma show_nat_nonempty [simp]: "show_nat n \<noteq> []"
  by (subst show_nat.simps) simp

lemma show_nat_nonempty' [simp]: "[] \<noteq> show_nat n"
  using show_nat_nonempty [of n] by metis

lemma show_nat_inj: "show_nat m = show_nat n \<Longrightarrow> m = n"
proof (induction m arbitrary: n rule: show_nat.induct)
  case (1 m)
  have unf: "show_nat k = (if k < 10 then [char_of (48 + k)]
      else show_nat (k div 10) @ [char_of (48 + k mod 10)])" for k
    by (rule show_nat.simps)
  from "1.prems" have eq: "(if m < 10 then [char_of (48 + m)]
      else show_nat (m div 10) @ [char_of (48 + m mod 10)]) =
      (if n < 10 then [char_of (48 + n)] else show_nat (n div 10) @ [char_of (48 + n mod 10)])"
    by (simp add: unf [of m] unf [of n])
  show ?case
  proof (cases "m < 10")
    case True
    with eq show ?thesis
      by (cases "n < 10") (auto intro: char_digit_inj)
  next
    case m: False
    with eq have n: "\<not> n < 10" by (cases "n < 10") auto
    from m n eq have "show_nat (m div 10) = show_nat (n div 10)"
      and last: "(char_of (48 + m mod 10) :: char) = char_of (48 + n mod 10)" by auto
    with "1.IH" m have "m div 10 = n div 10" by blast
    moreover from last have "m mod 10 = n mod 10" by (intro char_digit_inj) auto
    ultimately show ?thesis by (metis div_mult_mod_eq)
  qed
qed

section \<open>Code that may raise\<close>

text \<open>\<open>'e + 'a\<close>: \<open>Inl\<close> is the exception, \<open>Inr\<close> the returned value.\<close>

definition then_r :: "'e + 'a \<Rightarrow> ('a \<Rightarrow> 'e + 'b) \<Rightarrow> 'e + 'b" where
  "then_r r f = (case r of Inl e \<Rightarrow> Inl e | Inr x \<Rightarrow> f x)"

definition raise_if :: "bool \<Rightarrow> 'e \<Rightarrow> 'e + unit" where
  "raise_if b e = (if b then Inl e else Inr ())"

text \<open>A \<open>for\<close> loop whose body only checks\<close>

fun for_r :: "('a \<Rightarrow> 'e + unit) \<Rightarrow> 'a list \<Rightarrow> 'e + unit" where
  "for_r f [] = Inr ()"
| "for_r f (x # xs) = then_r (f x) (\<lambda>_. for_r f xs)"

text \<open>A list comprehension whose element expression may raise\<close>

fun map_r :: "('a \<Rightarrow> 'e + 'b) \<Rightarrow> 'a list \<Rightarrow> 'e + 'b list" where
  "map_r f [] = Inr []"
| "map_r f (x # xs) = then_r (f x) (\<lambda>y. then_r (map_r f xs) (\<lambda>ys. Inr (y # ys)))"

text \<open>A list comprehension whose condition may raise\<close>

fun filter_r :: "('a \<Rightarrow> 'e + bool) \<Rightarrow> 'a list \<Rightarrow> 'e + 'a list" where
  "filter_r f [] = Inr []"
| "filter_r f (x # xs) =
     then_r (f x) (\<lambda>b. then_r (filter_r f xs) (\<lambda>ys. Inr (if b then x # ys else ys)))"

lemma then_r_Inl [simp]: "then_r (Inl e) f = Inl e"
  by (simp add: then_r_def)

lemma then_r_Inr [simp]: "then_r (Inr x) f = f x"
  by (simp add: then_r_def)

lemma then_r_eq_Inr [py_simps]: "then_r r f = Inr y \<longleftrightarrow> (\<exists>x. r = Inr x \<and> f x = Inr y)"
  by (cases r) auto

lemma then_r_eq_Inl [py_simps]: "then_r r f = Inl e \<longleftrightarrow> r = Inl e \<or> (\<exists>x. r = Inr x \<and> f x = Inl e)"
  by (cases r) auto

lemma raise_if_eq_Inr [simp]: "raise_if b e = Inr u \<longleftrightarrow> \<not> b"
  by (simp add: raise_if_def)

lemma raise_if_eq_Inl [simp]: "raise_if b e = Inl e' \<longleftrightarrow> b \<and> e' = e"
  by (auto simp: raise_if_def)

lemma raise_if_True [simp]: "raise_if True e = Inl e"
  by (simp add: raise_if_def)

lemma raise_if_False [simp]: "raise_if False e = Inr ()"
  by (simp add: raise_if_def)

lemma for_r_eq_Inr [py_simps]: "for_r f xs = Inr u \<longleftrightarrow> (\<forall>x \<in> set xs. f x = Inr ())"
  by (induction xs) (auto simp: then_r_eq_Inr)

lemma for_r_eq_Inl: "for_r f xs = Inl e \<Longrightarrow> \<exists>x \<in> set xs. f x = Inl e"
  by (induction xs) (auto simp: then_r_eq_Inl)

lemma map_r_eq_Inr: "map_r f xs = Inr ys \<longleftrightarrow> list_all2 (\<lambda>x y. f x = Inr y) xs ys"
  by (induction xs arbitrary: ys) (auto simp: then_r_eq_Inr list_all2_Cons1)

lemma all2_partner: "list_all2 R xs ys \<Longrightarrow> y \<in> set ys \<Longrightarrow> \<exists>x \<in> set xs. R x y"
  by (induction rule: list_all2_induct) auto

lemma map_r_elem: "map_r f xs = Inr ys \<Longrightarrow> y \<in> set ys \<Longrightarrow> \<exists>x \<in> set xs. f x = Inr y"
  by (induction xs arbitrary: ys) (auto simp: then_r_eq_Inr)

lemma filter_r_Inr: "filter_r f xs = Inr ys \<longleftrightarrow> (\<forall>x \<in> set xs. \<exists>b. f x = Inr b) \<and> ys = filter (\<lambda>x. f x = Inr True) xs"
proof (induction xs arbitrary: ys)
  case (Cons x xs)
  show ?case
  proof (cases "f x")
    case (Inr b)
    with Cons.IH show ?thesis by (auto simp: then_r_eq_Inr)
  qed simp
qed auto

lemma map_r_length: "map_r f xs = Inr ys \<Longrightarrow> length ys = length xs"
  by (auto simp: map_r_eq_Inr dest: list_all2_lengthD)

section \<open>Methods: code that may raise and changes the state of its object\<close>

text \<open>
  The state after a raise is the state the raising statement left behind, as in Python: a
  handler further up sees every assignment made before the exception.
\<close>

type_synonym ('s, 'e, 'a) py = "'s \<Rightarrow> ('e + 'a) \<times> 's"

definition ret_p :: "'a \<Rightarrow> ('s, 'e, 'a) py" where
  "ret_p x = (\<lambda>s. (Inr x, s))"

definition raise_p :: "'e \<Rightarrow> ('s, 'e, 'a) py" where
  "raise_p e = (\<lambda>s. (Inl e, s))"

definition lift_p :: "'e + 'a \<Rightarrow> ('s, 'e, 'a) py" where
  "lift_p r = (\<lambda>s. (r, s))"

definition bind_p :: "('s, 'e, 'a) py \<Rightarrow> ('a \<Rightarrow> ('s, 'e, 'b) py) \<Rightarrow> ('s, 'e, 'b) py" where
  "bind_p m f = (\<lambda>s. case m s of (Inl e, t) \<Rightarrow> (Inl e, t) | (Inr x, t) \<Rightarrow> f x t)"

text \<open>reading \<open>self\<close> and assigning to it\<close>

definition with_p :: "('s \<Rightarrow> ('s, 'e, 'a) py) \<Rightarrow> ('s, 'e, 'a) py" where
  "with_p f = (\<lambda>s. f s s)"

definition modify_p :: "('s \<Rightarrow> 's) \<Rightarrow> ('s, 'e, unit) py" where
  "modify_p f = (\<lambda>s. (Inr (), f s))"

text \<open>\<open>try: m except ...: h\<close>; a handler that re-raises ends in \<open>raise_p\<close>\<close>

definition try_p :: "('s, 'e, 'a) py \<Rightarrow> ('e \<Rightarrow> ('s, 'e, 'a) py) \<Rightarrow> ('s, 'e, 'a) py" where
  "try_p m h = (\<lambda>s. case m s of (Inl e, t) \<Rightarrow> h e t | (Inr x, t) \<Rightarrow> (Inr x, t))"

text \<open>\<open>try: x = m except ...: h else: f x\<close>; an exception of \<open>f\<close> does not reach \<open>h\<close>\<close>

definition try_else :: "('s, 'e, 'a) py \<Rightarrow> ('a \<Rightarrow> ('s, 'e, 'b) py) \<Rightarrow> ('e \<Rightarrow> ('s, 'e, 'b) py) \<Rightarrow> ('s, 'e, 'b) py" where
  "try_else m f h = (\<lambda>s. case m s of (Inl e, t) \<Rightarrow> h e t | (Inr x, t) \<Rightarrow> f x t)"

definition then_p :: "('s, 'e, 'a) py \<Rightarrow> ('s, 'e, 'b) py \<Rightarrow> ('s, 'e, 'b) py" where
  "then_p m n = bind_p m (\<lambda>_. n)"

text \<open>a \<open>for\<close> loop over effects\<close>

fun for_p :: "('a \<Rightarrow> ('s, 'e, unit) py) \<Rightarrow> 'a list \<Rightarrow> ('s, 'e, unit) py" where
  "for_p f [] = ret_p ()"
| "for_p f (x # xs) = then_p (f x) (for_p f xs)"

text \<open>a list comprehension over effects\<close>

fun collect_p :: "('a \<Rightarrow> ('s, 'e, 'b) py) \<Rightarrow> 'a list \<Rightarrow> ('s, 'e, 'b list) py" where
  "collect_p f [] = ret_p []"
| "collect_p f (x # xs) = bind_p (f x) (\<lambda>y. bind_p (collect_p f xs) (\<lambda>ys. ret_p (y # ys)))"

lemma bind_p_returned [simp]: "bind_p (ret_p x) f = f x" "bind_p (lift_p (Inr x)) f = f x"
  by (simp_all add: bind_p_def ret_p_def lift_p_def)

subsection \<open>Weakest preconditions\<close>

text \<open>
  \<open>wp m Q E s\<close>: from \<open>s\<close>, \<open>m\<close> returns with \<open>Q\<close> or raises with \<open>E\<close>.  The rules turn a method
  body into conditions on its primitive steps, so an invariant proof is one \<open>simp\<close> over
  \<open>py_simps\<close> and the \<open>wp\<close> facts of the methods it calls.
\<close>

definition wp :: "('s, 'e, 'a) py \<Rightarrow> ('a \<Rightarrow> 's \<Rightarrow> bool) \<Rightarrow> ('e \<Rightarrow> 's \<Rightarrow> bool) \<Rightarrow> 's \<Rightarrow> bool" where
  "wp m Q E s \<longleftrightarrow> (case m s of (Inl e, t) \<Rightarrow> E e t | (Inr x, t) \<Rightarrow> Q x t)"

lemma wp_ret [py_simps]: "wp (ret_p x) Q E = Q x"
  by (simp add: wp_def ret_p_def fun_eq_iff)

lemma wp_raise [py_simps]: "wp (raise_p e) Q E = E e"
  by (simp add: wp_def raise_p_def fun_eq_iff)

lemma wp_lift [py_simps]: "wp (lift_p r) Q E s = (case r of Inl e \<Rightarrow> E e s | Inr x \<Rightarrow> Q x s)"
  by (simp add: wp_def lift_p_def split: sum.splits)

lemma wp_bind [py_simps]: "wp (bind_p m f) Q E = wp m (\<lambda>x. wp (f x) Q E) E"
  by (auto simp: wp_def bind_p_def fun_eq_iff split: prod.splits sum.splits)

lemma wp_then [py_simps]: "wp (then_p m n) Q E = wp m (\<lambda>_. wp n Q E) E"
  by (simp add: then_p_def wp_bind)

lemma wp_with [py_simps]: "wp (with_p f) Q E s = wp (f s) Q E s"
  by (simp add: wp_def with_p_def)

lemma wp_modify [py_simps]: "wp (modify_p f) Q E s = Q () (f s)"
  by (simp add: wp_def modify_p_def)

lemma wp_modify_then: "wp (then_p (modify_p f) n) Q E s = wp n Q E (f s)"
  by (simp add: wp_then wp_modify)

lemma wp_try [py_simps]: "wp (try_p m h) Q E = wp m Q (\<lambda>e. wp (h e) Q E)"
  by (auto simp: wp_def try_p_def fun_eq_iff split: prod.splits sum.splits)

lemma wp_try_else [py_simps]:
  "wp (try_else m f h) Q E = wp m (\<lambda>x. wp (f x) Q E) (\<lambda>e. wp (h e) Q E)"
  by (auto simp: wp_def try_else_def fun_eq_iff split: prod.splits sum.splits)

lemma wp_try_else_step:
  assumes "m s = (r, t)"
  shows "wp (try_else m f h) Q E s =
    (case r of Inl e \<Rightarrow> wp (h e) Q E t | Inr x \<Rightarrow> wp (f x) Q E t)"
  using assms by (simp add: wp_def try_else_def split: sum.splits)

lemma wp_if [py_simps]: "wp (if b then m else n) Q E s = (if b then wp m Q E s else wp n Q E s)"
  by simp

lemma wp_mono:
  assumes "wp m Q E s"
    and "\<And>x t. Q x t \<Longrightarrow> Q' x t"
    and "\<And>e t. E e t \<Longrightarrow> E' e t"
  shows "wp m Q' E' s"
  using assms by (auto simp: wp_def split: prod.splits sum.splits)

lemma wp_conj: "wp m Q E s \<Longrightarrow> wp m Q' E' s \<Longrightarrow> wp m (\<lambda>x t. Q x t \<and> Q' x t) (\<lambda>e t. E e t \<and> E' e t) s"
  by (auto simp: wp_def split: prod.splits sum.splits)

lemma wp_total: "wp m (\<lambda>_ _. True) (\<lambda>_ _. True) s"
  by (simp add: wp_def split: prod.splits sum.splits)

lemma collect_length: "wp (collect_p f xs) (\<lambda>ys _. length ys = length xs) (\<lambda>_ _. True) s"
proof (induction xs arbitrary: s)
  case (Cons x xs)
  have "wp (collect_p f xs) (\<lambda>ys. wp (ret_p (y # ys)) (\<lambda>ys _. length ys = length (x # xs)) (\<lambda>_ _. True))
      (\<lambda>_ _. True) t" for y t
    by (rule wp_mono [OF Cons.IH]) (auto simp: wp_ret)
  note rest = this
  have "wp (f x) (\<lambda>y. wp (collect_p f xs) (\<lambda>ys. wp (ret_p (y # ys)) (\<lambda>ys _. length ys = length (x # xs))
      (\<lambda>_ _. True)) (\<lambda>_ _. True)) (\<lambda>_ _. True) s"
    by (rule wp_mono [OF wp_total]) (rule rest, simp)
  then show ?case by (simp only: collect_p.simps wp_bind)
qed (simp add: wp_ret)

text \<open>a comprehension whose element expression does not raise\<close>

lemma wp_collect_all2:
  assumes "\<And>x s. wp (f x) (\<lambda>y _. R x y) (\<lambda>_ _. False) s"
  shows "wp (collect_p f xs) (\<lambda>ys _. list_all2 R xs ys) (\<lambda>_ _. False) s"
proof (induction xs arbitrary: s)
  case (Cons x xs)
  have rest: "wp (collect_p f xs) (\<lambda>ys. wp (ret_p (y # ys)) (\<lambda>ys _. list_all2 R (x # xs) ys) (\<lambda>_ _. False))
      (\<lambda>_ _. False) t" if "R x y" for y t
    by (rule wp_mono [OF Cons.IH]) (use that in \<open>auto simp: wp_ret\<close>)
  show ?case
    unfolding collect_p.simps wp_bind by (rule wp_mono [OF assms rest]) auto
qed (simp add: wp_ret)

lemma wpD_Inr: "wp m Q E s \<Longrightarrow> m s = (Inr x, t) \<Longrightarrow> Q x t"
  by (simp add: wp_def)

lemma wpD_Inl: "wp m Q E s \<Longrightarrow> m s = (Inl e, t) \<Longrightarrow> E e t"
  by (simp add: wp_def)

lemma wpI:
  assumes "\<And>x t. m s = (Inr x, t) \<Longrightarrow> Q x t"
    and "\<And>e t. m s = (Inl e, t) \<Longrightarrow> E e t"
  shows "wp m Q E s"
  using assms by (simp add: wp_def split: prod.splits sum.splits)

subsection \<open>Invariants of methods\<close>

definition keeps :: "('s \<Rightarrow> bool) \<Rightarrow> ('s, 'e, 'a) py \<Rightarrow> bool" where
  "keeps I m \<longleftrightarrow> (\<forall>s. I s \<longrightarrow> I (snd (m s)))"

lemma keeps_wp: "keeps I m \<longleftrightarrow> (\<forall>s. I s \<longrightarrow> wp m (\<lambda>_. I) (\<lambda>_. I) s)"
  by (auto simp: keeps_def wp_def split: prod.splits sum.splits)
    (metis prod.collapse sum.exhaust)

lemma keepsD: "keeps I m \<Longrightarrow> I s \<Longrightarrow> I (snd (m s))"
  by (simp add: keeps_def)

lemma keeps_ret [keeps_intro]: "keeps I (ret_p x)"
  by (simp add: keeps_def ret_p_def)

lemma keeps_raise [keeps_intro]: "keeps I (raise_p e)"
  by (simp add: keeps_def raise_p_def)

lemma keeps_lift [keeps_intro]: "keeps I (lift_p r)"
  by (simp add: keeps_def lift_p_def)

lemma keeps_bind [keeps_intro]: "keeps I m \<Longrightarrow> (\<And>x. keeps I (f x)) \<Longrightarrow> keeps I (bind_p m f)"
  unfolding keeps_wp wp_bind by (blast intro: wp_mono)

lemma keeps_then [keeps_intro]: "keeps I m \<Longrightarrow> keeps I n \<Longrightarrow> keeps I (then_p m n)"
  unfolding keeps_wp wp_then by (blast intro: wp_mono)

lemma keeps_try [keeps_intro]: "keeps I m \<Longrightarrow> (\<And>e. keeps I (h e)) \<Longrightarrow> keeps I (try_p m h)"
  unfolding keeps_wp wp_try by (blast intro: wp_mono)

lemma keeps_try_else [keeps_intro]:
  "keeps I m \<Longrightarrow> (\<And>x. keeps I (f x)) \<Longrightarrow> (\<And>e. keeps I (h e)) \<Longrightarrow> keeps I (try_else m f h)"
  unfolding keeps_wp wp_try_else by (blast intro: wp_mono)

lemma keeps_with: "(\<And>s. I s \<Longrightarrow> I (snd (f s s))) \<Longrightarrow> keeps I (with_p f)"
  by (simp add: keeps_def with_p_def)

lemma keeps_with_all [keeps_intro]: "(\<And>s. keeps I (f s)) \<Longrightarrow> keeps I (with_p f)"
  by (simp add: keeps_def with_p_def)

lemma keeps_if [keeps_intro]: "(b \<Longrightarrow> keeps I m) \<Longrightarrow> (\<not> b \<Longrightarrow> keeps I n) \<Longrightarrow> keeps I (if b then m else n)"
  by simp

lemma keeps_modify: "(\<And>s. I s \<Longrightarrow> I (f s)) \<Longrightarrow> keeps I (modify_p f)"
  by (simp add: keeps_def modify_p_def)

lemma keeps_for [keeps_intro]: "(\<And>x. keeps I (f x)) \<Longrightarrow> keeps I (for_p f xs)"
  by (induction xs) (auto intro: keeps_ret keeps_then)

lemma keeps_collect [keeps_intro]: "(\<And>x. keeps I (f x)) \<Longrightarrow> keeps I (collect_p f xs)"
  by (induction xs) (auto intro!: keeps_ret keeps_bind)

subsection \<open>Properties of returned values\<close>

definition returns :: "('a \<Rightarrow> bool) \<Rightarrow> ('s, 'e, 'a) py \<Rightarrow> bool" where
  "returns P m \<longleftrightarrow> (\<forall>s x t. m s = (Inr x, t) \<longrightarrow> P x)"

lemma returnsD: "returns P m \<Longrightarrow> m s = (Inr x, t) \<Longrightarrow> P x"
  by (auto simp: returns_def)

lemma returns_ret [returns_intro]: "P x \<Longrightarrow> returns P (ret_p x)"
  by (simp add: returns_def ret_p_def)

lemma returns_raise [returns_intro]: "returns P (raise_p e)"
  by (simp add: returns_def raise_p_def)

lemma returns_bind [returns_intro]: "(\<And>x. returns P (f x)) \<Longrightarrow> returns P (bind_p m f)"
  by (auto simp: returns_def bind_p_def split: prod.splits sum.splits)

lemma returns_bind_dep:
  "(\<And>s x t. m s = (Inr x, t) \<Longrightarrow> returns P (f x)) \<Longrightarrow> returns P (bind_p m f)"
  by (auto simp: returns_def bind_p_def split: prod.splits sum.splits)

lemma returns_then [returns_intro]: "returns P n \<Longrightarrow> returns P (then_p m n)"
  unfolding then_p_def by (rule returns_bind)

lemma returns_try [returns_intro]: "returns P m \<Longrightarrow> (\<And>e. returns P (h e)) \<Longrightarrow> returns P (try_p m h)"
  by (auto simp: returns_def try_p_def split: prod.splits sum.splits)

lemma returns_try_else [returns_intro]:
  "(\<And>x. returns P (f x)) \<Longrightarrow> (\<And>e. returns P (h e)) \<Longrightarrow> returns P (try_else m f h)"
  by (auto simp: returns_def try_else_def split: prod.splits sum.splits)

lemma returns_with [returns_intro]: "(\<And>s. returns P (f s)) \<Longrightarrow> returns P (with_p f)"
  by (auto simp: returns_def with_p_def)

lemma returns_if [returns_intro]:
  "(b \<Longrightarrow> returns P m) \<Longrightarrow> (\<not> b \<Longrightarrow> returns P n) \<Longrightarrow> returns P (if b then m else n)"
  by simp

subsection \<open>Properties of exceptions\<close>

definition raises_only :: "('e \<Rightarrow> bool) \<Rightarrow> ('s, 'e, 'a) py \<Rightarrow> bool" where
  "raises_only E m \<longleftrightarrow> (\<forall>s e t. m s = (Inl e, t) \<longrightarrow> E e)"

lemma raises_onlyD: "raises_only E m \<Longrightarrow> m s = (Inl e, t) \<Longrightarrow> E e"
  by (auto simp: raises_only_def)

lemma raises_ret [raises_intro]: "raises_only E (ret_p x)"
  by (simp add: raises_only_def ret_p_def)

lemma raises_raise [raises_intro]: "E e \<Longrightarrow> raises_only E (raise_p e)"
  by (simp add: raises_only_def raise_p_def)

lemma raises_lift [raises_intro]: "(\<And>e. r = Inl e \<Longrightarrow> E e) \<Longrightarrow> raises_only E (lift_p r)"
  by (auto simp: raises_only_def lift_p_def)

lemma raises_bind [raises_intro]:
  "raises_only E m \<Longrightarrow> (\<And>x. raises_only E (f x)) \<Longrightarrow> raises_only E (bind_p m f)"
  by (auto simp: raises_only_def bind_p_def split: prod.splits sum.splits)

lemma raises_bind_dep:
  "raises_only E m \<Longrightarrow> (\<And>s x t. m s = (Inr x, t) \<Longrightarrow> raises_only E (f x)) \<Longrightarrow> raises_only E (bind_p m f)"
  by (auto simp: raises_only_def bind_p_def split: prod.splits sum.splits)

lemma raises_if [raises_intro]:
  "(b \<Longrightarrow> raises_only E m) \<Longrightarrow> (\<not> b \<Longrightarrow> raises_only E n) \<Longrightarrow> raises_only E (if b then m else n)"
  by simp

section \<open>Random choices\<close>

text \<open>
  \<open>random.Random\<close>: the generator draws numbers from the world; \<open>random()\<close> is a multiple of
  \<open>2 ^ -53\<close> below 1, and \<open>randrange(n)\<close> a number below \<open>n\<close>, which raises for an empty range.  Every
  sequence of such numbers is the result of some draws.
\<close>

definition rng_random :: "('w \<Rightarrow> nat \<times> 'w) \<Rightarrow> ('w, 'e, rat) py" where
  "rng_random draw = (\<lambda>w. case draw w of (k, w') \<Rightarrow> (Inr (of_nat (k mod 2 ^ 53) / 2 ^ 53), w'))"

definition rng_range :: "'e \<Rightarrow> ('w \<Rightarrow> nat \<times> 'w) \<Rightarrow> nat \<Rightarrow> ('w, 'e, nat) py" where
  "rng_range error draw n =
     (\<lambda>w. if n = 0 then (Inl error, w) else case draw w of (k, w') \<Rightarrow> (Inr (k mod n), w'))"

text \<open>\<open>xs[rng.randrange(len(xs))]\<close>\<close>

definition rng_choose :: "'e \<Rightarrow> ('w \<Rightarrow> nat \<times> 'w) \<Rightarrow> 'a list \<Rightarrow> ('w, 'e, 'a) py" where
  "rng_choose error draw xs = bind_p (rng_range error draw (length xs)) (\<lambda>i. ret_p (xs ! i))"

lemma returns_choose [returns_intro]: "(\<And>x. x \<in> set xs \<Longrightarrow> P x) \<Longrightarrow> returns P (rng_choose error draw xs)"
  by (auto simp: returns_def rng_choose_def rng_range_def bind_p_def ret_p_def split: prod.splits if_splits)

lemma raises_choose [raises_intro]: "xs \<noteq> [] \<Longrightarrow> raises_only E (rng_choose error draw xs)"
  by (auto simp: raises_only_def rng_choose_def rng_range_def bind_p_def ret_p_def split: prod.splits)

lemma raises_random [raises_intro]: "raises_only E (rng_random draw)"
  by (auto simp: raises_only_def rng_random_def split: prod.splits)

lemma rng_choose_returns: "xs \<noteq> [] \<Longrightarrow> \<exists>x \<in> set xs. fst (rng_choose error draw xs w) = Inr x"
  by (auto simp: rng_choose_def rng_range_def bind_p_def ret_p_def split: prod.splits)

lemma rng_random_range: "wp (rng_random draw) (\<lambda>r _. 0 \<le> r \<and> r < 1) (\<lambda>_ _. False) w"
proof -
  have "(of_nat (k mod 2 ^ 53) :: rat) < of_nat (2 ^ 53)" for k :: nat
    unfolding of_nat_less_iff by simp
  then show ?thesis by (simp add: wp_def rng_random_def split: prod.splits)
qed

end
