(* ===== verification/Transport.thy ===== *)
theory Transport
  imports Py_Value
begin

text \<open>
  \<open>api/transport.py\<close> and \<open>api/response_router.py\<close>: the replay token \<open>RetryRequest\<close>, the
  exceptions of the program (one constructor per class the handlers tell apart, with the
  attributes the handlers read; message texts are not modelled), and the router of late responses.

  A \<open>RetryRequest\<close> holds the text \<open>json.dumps(dict(message))\<close>.  The model keeps the JSON value the
  text denotes: \<open>dumps\<close> is injective on JSON values and \<open>loads\<close> inverts it, and the program uses
  the text only to compare tokens, to rebuild the message and to send it.
\<close>

section \<open>The replay token\<close>

datatype retry_request = RetryRequest (serialized_payload: pyval)

datatype transport_kind = TransportPlain | ServerEpochChanged | TransportClosed | RuntimeExited

text \<open>
  \<open>TransportError\<close> and its subclasses carry \<open>completion_uncertain\<close> and \<open>retry_request\<close>;
  \<open>TcpConnection.exchange\<close> sets the same two attributes on a \<open>CancelledError\<close> it passes on.
\<close>

datatype exn =
    ValueError
  | TypeError
  | KeyError
  | AttributeError
  | OverflowError
  | RuntimeError
  | AllBranchesFaultedError
  | NoAvailableActionError pyval
  | EpisodeLimitExceeded
  | TimeoutError
  | ConnectionOSError
  | ApiProtocolError
  | RequestRejectedError pydict
  | RequestFaultedError pydict
  | TransportError transport_kind bool "retry_request option"
  | CancelledError bool "retry_request option"

text \<open>\<open>except ApiOperationError as exc\<close>: the response of the two subclasses\<close>

fun api_operation_response :: "exn \<Rightarrow> pydict option" where
  "api_operation_response (RequestRejectedError r) = Some r"
| "api_operation_response (RequestFaultedError r) = Some r"
| "api_operation_response _ = None"

fun is_transport_error :: "exn \<Rightarrow> bool" where
  "is_transport_error (TransportError _ _ _) = True"
| "is_transport_error _ = False"

text \<open>\<open>except Exception\<close>: every class but \<open>CancelledError\<close>, a direct subclass of \<open>BaseException\<close>\<close>

fun is_exception :: "exn \<Rightarrow> bool" where
  "is_exception (CancelledError _ _) = False"
| "is_exception _ = True"

text \<open>\<open>completion_uncertain\<close> of the two kinds of exceptions that carry it\<close>

fun completion_uncertain :: "exn \<Rightarrow> bool" where
  "completion_uncertain (TransportError _ u _) = u"
| "completion_uncertain (CancelledError u _) = u"
| "completion_uncertain _ = False"

fun exn_retry_request :: "exn \<Rightarrow> retry_request option" where
  "exn_retry_request (TransportError _ _ r) = r"
| "exn_retry_request (CancelledError _ r) = r"
| "exn_retry_request _ = None"

definition from_message :: "pydict \<Rightarrow> retry_request" where
  "from_message m = RetryRequest (PDict m)"

definition to_message :: "retry_request \<Rightarrow> exn + pydict" where
  "to_message r = (case serialized_payload r of PDict d \<Rightarrow> Inr d | _ \<Rightarrow> Inl ValueError)"

definition rr_str_field :: "string \<Rightarrow> retry_request \<Rightarrow> exn + string option" where
  "rr_str_field k r = then_r (to_message r) (\<lambda>m. Inr (str_opt (dget m k)))"

definition rr_request_id :: "retry_request \<Rightarrow> exn + string option" where
  "rr_request_id r = rr_str_field ''request_id'' r"

definition rr_operation :: "retry_request \<Rightarrow> exn + string option" where
  "rr_operation r = rr_str_field ''operation'' r"

definition rr_request_seq :: "retry_request \<Rightarrow> exn + int option" where
  "rr_request_seq r =
     then_r (to_message r) (\<lambda>m. Inr (case dget m ''request_seq'' of PInt i \<Rightarrow> Some i | _ \<Rightarrow> None))"

definition rr_client_session_id :: "retry_request \<Rightarrow> exn + string option" where
  "rr_client_session_id r = rr_str_field ''client_session_id'' r"

lemma to_message_from_message [simp]: "to_message (from_message m) = Inr m"
  by (simp add: to_message_def from_message_def)

lemma from_message_inject [simp]: "from_message m = from_message m' \<longleftrightarrow> m = m'"
  by (simp add: from_message_def)

lemma rr_fields_from_message [simp]:
  "rr_request_id (from_message m) = Inr (str_opt (dget m ''request_id''))"
  "rr_operation (from_message m) = Inr (str_opt (dget m ''operation''))"
  "rr_client_session_id (from_message m) = Inr (str_opt (dget m ''client_session_id''))"
  "rr_request_seq (from_message m) =
     Inr (case dget m ''request_seq'' of PInt i \<Rightarrow> Some i | _ \<Rightarrow> None)"
  by (simp_all add: rr_request_id_def rr_operation_def rr_client_session_id_def
      rr_request_seq_def rr_str_field_def)

text \<open>membership in a set of string constants; an unhashable left operand raises\<close>

definition in_str_set :: "pyval \<Rightarrow> string list \<Rightarrow> exn + bool" where
  "in_str_set v xs = (if hashable v then Inr (v \<in> PStr ` set xs) else Inl TypeError)"

lemma in_str_set_PStr [simp]: "in_str_set (PStr s) xs = Inr (s \<in> set xs)"
  by (auto simp: in_str_set_def)

lemma in_str_set_hashable [simp]: "hashable v \<Longrightarrow> in_str_set v xs = Inr (v \<in> PStr ` set xs)"
  by (simp add: in_str_set_def)

lemma in_str_set_Inl [simp]: "in_str_set v xs = Inl e \<longleftrightarrow> \<not> hashable v \<and> e = TypeError"
  by (auto simp: in_str_set_def)

section \<open>The response router\<close>

record router =
  router_pending :: "int \<rightharpoonup> pydict"
  router_expired :: "int set"

definition router_init :: router where
  "router_init = \<lparr>router_pending = Map.empty, router_expired = {}\<rparr>"

fun validate_internal_id :: "pyval \<Rightarrow> exn + int" where
  "validate_internal_id (PInt i) = (if i \<le> 0 then Inl ValueError else Inr i)"
| "validate_internal_id _ = Inl TypeError"

definition router_expire :: "pyval \<Rightarrow> (router, exn, unit) py" where
  "router_expire v = bind_p (lift_p (validate_internal_id v)) (\<lambda>i.
     modify_p (\<lambda>s. s\<lparr>router_pending := (router_pending s)(i := None),
                     router_expired := insert i (router_expired s)\<rparr>))"

definition router_accept :: "pyval \<Rightarrow> pydict \<Rightarrow> (router, exn, unit) py" where
  "router_accept v payload = bind_p (lift_p (validate_internal_id v)) (\<lambda>i.
     with_p (\<lambda>s.
       if i \<in> router_expired s then
         modify_p (\<lambda>s. s\<lparr>router_expired := router_expired s - {i}\<rparr>)
       else if router_pending s i \<noteq> None then raise_p RuntimeError
       else modify_p (\<lambda>s. s\<lparr>router_pending := (router_pending s)(i \<mapsto> payload)\<rparr>)))"

definition router_pop :: "pyval \<Rightarrow> (router, exn, pydict option) py" where
  "router_pop v = bind_p (lift_p (validate_internal_id v)) (\<lambda>i.
     with_p (\<lambda>s.
       if i \<in> router_expired s then ret_p None
       else then_p (modify_p (\<lambda>s. s\<lparr>router_pending := (router_pending s)(i := None)\<rparr>))
              (ret_p (router_pending s i))))"

text \<open>No id is both expired and pending: \<open>expire\<close> drops the response, \<open>accept\<close> never stores one.\<close>

definition router_inv :: "router \<Rightarrow> bool" where
  "router_inv s \<longleftrightarrow> dom (router_pending s) \<inter> router_expired s = {}"

lemma router_expire_keeps: "keeps router_inv (router_expire v)"
  unfolding router_expire_def
  by (intro keeps_intro keeps_modify) (auto simp: router_inv_def)

lemma router_accept_keeps: "keeps router_inv (router_accept v p)"
  unfolding router_accept_def
  by (intro keeps_bind keeps_lift keeps_with)
    (auto simp: router_inv_def modify_p_def raise_p_def)

lemma router_pop_keeps: "keeps router_inv (router_pop v)"
  unfolding router_pop_def
  by (intro keeps_bind keeps_lift keeps_with)
    (auto simp: router_inv_def modify_p_def ret_p_def then_p_def bind_p_def)

end
