(* ===== verification/Combat_Decision.thy ===== *)
theory Combat_Decision
  imports Transport
begin

text \<open>
  \<open>decision/combat_decision.py\<close> and the reading of decision DTOs in \<open>decision/beam_search.py\<close>:
  which action types a decision offers, whether it is an interactive continuation, whether it is
  terminal, and whether the beam may search it.  A DTO and a legal action are JSON objects.

  A Python set of action types is the list of its elements without repetition.
\<close>

section \<open>The action types of a decision\<close>

definition stable_combat_action_types :: "string list" where
  "stable_combat_action_types = [''system'', ''card'', ''potion'']"

definition continuation_action_types :: "string list" where
  "continuation_action_types = [''choice_target'', ''choice_card'', ''choice_confirm'', ''choice_skip'']"

definition completion_action_types :: "string list" where
  "completion_action_types = [''choice_confirm'', ''choice_skip'']"

definition combat_beam_action_types :: "string list" where
  "combat_beam_action_types = stable_combat_action_types @ continuation_action_types"

text \<open>\<open>action.get(''is_available'') is not False\<close>\<close>

definition is_available :: "pydict \<Rightarrow> bool" where
  "is_available a \<longleftrightarrow> dget a ''is_available'' \<noteq> PBool False"

text \<open>the loop of \<open>available_action_types\<close>; \<open>None\<close> as soon as an entry is malformed\<close>

fun collect_action_types :: "string list \<Rightarrow> pyval list \<Rightarrow> string list option" where
  "collect_action_types acc [] = Some acc"
| "collect_action_types acc (v # vs) =
     (case v of
        PDict a \<Rightarrow>
          if \<not> is_available a then collect_action_types acc vs
          else (case dget a ''action_type'' of
                  PStr t \<Rightarrow> collect_action_types (if t \<in> set acc then acc else acc @ [t]) vs
                | _ \<Rightarrow> None)
      | _ \<Rightarrow> None)"

definition available_action_types :: "pydict \<Rightarrow> string list option" where
  "available_action_types dto =
     (case dget dto ''legal_actions'' of PList vs \<Rightarrow> collect_action_types [] vs | _ \<Rightarrow> None)"

text \<open>\<open>types is not None and bool(types) and types <= allowed\<close>\<close>

definition types_within :: "string list option \<Rightarrow> string list \<Rightarrow> bool" where
  "types_within ts allowed \<longleftrightarrow>
     (case ts of None \<Rightarrow> False | Some ts \<Rightarrow> ts \<noteq> [] \<and> list_all (\<lambda>t. t \<in> set allowed) ts)"

definition is_continuation_decision :: "pydict \<Rightarrow> bool" where
  "is_continuation_decision dto \<longleftrightarrow> types_within (available_action_types dto) continuation_action_types"

fun find_action_type :: "string \<Rightarrow> pyval list \<Rightarrow> string option" where
  "find_action_type aid [] = None"
| "find_action_type aid (v # vs) =
     (case v of
        PDict a \<Rightarrow>
          if \<not> is_available a \<or> dget a ''action_id'' \<noteq> PStr aid then find_action_type aid vs
          else str_opt (dget a ''action_type'')
      | _ \<Rightarrow> find_action_type aid vs)"

definition action_type_for_id :: "pydict \<Rightarrow> string \<Rightarrow> string option" where
  "action_type_for_id dto aid =
     (case dget dto ''legal_actions'' of PList vs \<Rightarrow> find_action_type aid vs | _ \<Rightarrow> None)"

section \<open>The legal actions of a decision\<close>

text \<open>\<open>_legal_action_mappings\<close>, \<open>_available_action_ids\<close>, \<open>_action_for_id\<close>\<close>

fun dict_opt :: "pyval \<Rightarrow> pydict option" where
  "dict_opt (PDict d) = Some d"
| "dict_opt _ = None"

definition legal_action_mappings :: "pydict \<Rightarrow> pydict list" where
  "legal_action_mappings dto =
     (case dget dto ''legal_actions'' of PList vs \<Rightarrow> List.map_filter dict_opt vs | _ \<Rightarrow> [])"

fun nonempty_str_opt :: "pyval \<Rightarrow> string option" where
  "nonempty_str_opt (PStr s) = (if s = [] then None else Some s)"
| "nonempty_str_opt _ = None"

definition available_action_ids :: "pydict \<Rightarrow> string list" where
  "available_action_ids dto =
     List.map_filter (\<lambda>a. nonempty_str_opt (dget a ''action_id''))
       (filter is_available (legal_action_mappings dto))"

definition action_for_id :: "pydict \<Rightarrow> string \<Rightarrow> pydict option" where
  "action_for_id dto aid =
     List.find (\<lambda>a. dget a ''action_id'' = PStr aid) (legal_action_mappings dto)"

text \<open>\<open>_end_turn_action_id\<close>: the first available \<open>system\<close> action with a non-empty id\<close>

definition end_turn_action_id :: "pydict \<Rightarrow> string option" where
  "end_turn_action_id dto =
     (case List.map_filter (\<lambda>a. nonempty_str_opt (dget a ''action_id''))
             (filter (\<lambda>a. is_available a \<and> dget a ''action_type'' = PStr ''system'')
               (legal_action_mappings dto)) of
        [] \<Rightarrow> None | aid # _ \<Rightarrow> Some aid)"

section \<open>Turn and boundary\<close>

fun turn_of :: "pyval \<Rightarrow> int option" where
  "turn_of (PInt i) = Some i"
| "turn_of _ = None"

definition turn_number :: "pydict \<Rightarrow> int option" where
  "turn_number dto = turn_of (dget dto ''turnNumber'')"

definition crossed_turn_boundary :: "pydict \<Rightarrow> int option \<Rightarrow> bool" where
  "crossed_turn_boundary dto root_turn \<longleftrightarrow>
     (case (root_turn, turn_number dto) of (Some r, Some t) \<Rightarrow> r < t | _ \<Rightarrow> False)"

text \<open>an entry that offers an action: \<open>isinstance(action, Mapping) and action.get(...) is not False\<close>\<close>

definition offers_action :: "pyval \<Rightarrow> bool" where
  "offers_action v \<longleftrightarrow> (case v of PDict a \<Rightarrow> is_available a | _ \<Rightarrow> False)"

definition is_terminal :: "pydict \<Rightarrow> bool" where
  "is_terminal dto \<longleftrightarrow>
     dget dto ''run_terminal'' = PBool True \<or> dget dto ''terminal'' = PBool True \<or>
     dget dto ''boundary'' = PStr ''terminal'' \<or> dget dto ''boundary'' = PStr ''run_terminal'' \<or>
     vget (dget dto ''transition'') ''kind'' = PStr ''combat_completed'' \<or>
     (case dget dto ''legal_actions'' of PList vs \<Rightarrow> \<not> list_ex offers_action vs | _ \<Rightarrow> False)"

section \<open>Scope of the beam\<close>

definition resolved_statuses :: "string list" where
  "resolved_statuses = [''completed'', ''partial'']"

definition whole_run_combat_boundaries :: "string list" where
  "whole_run_combat_boundaries = [''stable'', ''pending_choice'']"

definition turn_internal_action_types :: "string list" where
  "turn_internal_action_types = [''card'', ''potion''] @ continuation_action_types"

definition is_beam_searchable :: "pydict \<Rightarrow> string list \<Rightarrow> bool" where
  "is_beam_searchable dto allowed \<longleftrightarrow> types_within (available_action_types dto) allowed"

text \<open>\<open>getattr(client, ''instance_type'', None)\<close> is an argument; a boundary that cannot be hashed raises\<close>

definition is_beam_searchable_for_client :: "string option \<Rightarrow> pydict \<Rightarrow> string list \<Rightarrow> exn + bool" where
  "is_beam_searchable_for_client itype dto allowed =
     (if itype = Some ''whole_run'' then
        then_r (in_str_set (dget dto ''boundary'') whole_run_combat_boundaries)
          (\<lambda>inside. Inr (inside \<and> is_beam_searchable dto allowed))
      else Inr (is_beam_searchable dto allowed))"

definition is_whole_run_unresolved_out_of_scope :: "string option \<Rightarrow> pydict \<Rightarrow> string list \<Rightarrow> exn + bool" where
  "is_whole_run_unresolved_out_of_scope itype dto allowed =
     (if itype = Some ''whole_run'' \<and> \<not> is_terminal dto
      then then_r (is_beam_searchable_for_client itype dto allowed) (\<lambda>b. Inr (\<not> b))
      else Inr False)"

definition is_resolved_branch_result :: "pyval \<Rightarrow> exn + bool" where
  "is_resolved_branch_result result =
     (case result of PDict r \<Rightarrow> in_str_set (dget r ''status'') resolved_statuses | _ \<Rightarrow> Inr False)"

text \<open>the values of \<open>branch_results\<close>, in order, until one is found\<close>

fun any_unresolved_out_of_scope :: "string option \<Rightarrow> string list \<Rightarrow> pyval list \<Rightarrow> exn + bool" where
  "any_unresolved_out_of_scope itype allowed [] = Inr False"
| "any_unresolved_out_of_scope itype allowed (result # rest) =
     then_r (is_resolved_branch_result result) (\<lambda>resolved.
       if \<not> resolved then any_unresolved_out_of_scope itype allowed rest
       else (case vget result ''masked_emulator_dto'' of
               PDict dto \<Rightarrow>
                 then_r (is_whole_run_unresolved_out_of_scope itype dto allowed) (\<lambda>out.
                   if out then Inr True else any_unresolved_out_of_scope itype allowed rest)
             | _ \<Rightarrow> any_unresolved_out_of_scope itype allowed rest))"

definition has_unresolved_out_of_scope_result :: "string option \<Rightarrow> pydict \<Rightarrow> string list \<Rightarrow> exn + bool" where
  "has_unresolved_out_of_scope_result itype branch_results allowed =
     (if itype \<noteq> Some ''whole_run'' then Inr False
      else any_unresolved_out_of_scope itype allowed (map snd branch_results))"

section \<open>Facts about decisions\<close>

lemma set_map_filter: "set (List.map_filter f xs) = {y. \<exists>x \<in> set xs. f x = Some y}"
  by (force simp: List.map_filter_def image_iff)

lemma dict_opt_Some [simp]: "dict_opt v = Some d \<longleftrightarrow> v = PDict d"
  by (cases v) auto

lemma nonempty_str_opt_Some [simp]: "nonempty_str_opt v = Some s \<longleftrightarrow> v = PStr s \<and> s \<noteq> []"
  by (cases v) auto

lemma turn_of_Some [simp]: "turn_of v = Some i \<longleftrightarrow> v = PInt i"
  by (cases v) auto

lemma legal_actions_set:
  "a \<in> set (legal_action_mappings dto) \<longleftrightarrow> (\<exists>vs. dget dto ''legal_actions'' = PList vs \<and> PDict a \<in> set vs)"
  by (cases "dget dto ''legal_actions''") (auto simp: legal_action_mappings_def set_map_filter)

lemma available_ids_set:
  "aid \<in> set (available_action_ids dto) \<longleftrightarrow>
     aid \<noteq> [] \<and> (\<exists>a \<in> set (legal_action_mappings dto). is_available a \<and> dget a ''action_id'' = PStr aid)"
  by (auto simp: available_action_ids_def set_map_filter)

lemma find_action_type_Some:
  "find_action_type aid vs = Some t \<Longrightarrow>
     \<exists>a. PDict a \<in> set vs \<and> is_available a \<and> dget a ''action_id'' = PStr aid \<and> dget a ''action_type'' = PStr t"
  by (induction vs) (fastforce split: pyval.splits if_splits)+

lemma collect_action_types_covers:
  "collect_action_types acc vs = Some ts \<Longrightarrow>
     set ts = set acc \<union> {t. \<exists>a. PDict a \<in> set vs \<and> is_available a \<and> dget a ''action_type'' = PStr t}"
proof (induction vs arbitrary: acc)
  case (Cons v vs)
  from Cons.prems obtain a where v: "v = PDict a" by (auto split: pyval.splits)
  show ?case
  proof (cases "is_available a")
    case False
    with Cons v show ?thesis by auto
  next
    case True
    with Cons.prems v obtain t where t: "dget a ''action_type'' = PStr t"
      by (auto split: pyval.splits)
    with Cons.prems v True
    have "collect_action_types (if t \<in> set acc then acc else acc @ [t]) vs = Some ts" by simp
    from Cons.IH [OF this] t v True show ?thesis by (auto split: if_splits)
  qed
qed simp

lemma end_turn_available:
  assumes "end_turn_action_id dto = Some aid"
  shows "aid \<in> set (available_action_ids dto)"
proof -
  have "aid \<in> set (List.map_filter (\<lambda>a. nonempty_str_opt (dget a ''action_id''))
             (filter (\<lambda>a. is_available a \<and> dget a ''action_type'' = PStr ''system'')
               (legal_action_mappings dto)))"
    using assms by (auto simp: end_turn_action_id_def split: list.splits)
  then show ?thesis by (auto simp: available_ids_set set_map_filter)
qed

text \<open>in a continuation every available action has a continuation type\<close>

lemma continuation_action:
  assumes "is_continuation_decision dto" "action_type_for_id dto aid = Some t"
  shows "t \<in> set continuation_action_types"
proof -
  from assms(2) obtain vs a where a: "dget dto ''legal_actions'' = PList vs" "PDict a \<in> set vs"
    "is_available a" "dget a ''action_type'' = PStr t"
    by (auto simp: action_type_for_id_def split: pyval.splits dest: find_action_type_Some)
  with assms(1) obtain ts where "collect_action_types [] vs = Some ts"
    "list_all (\<lambda>t. t \<in> set continuation_action_types) ts"
    by (auto simp: is_continuation_decision_def types_within_def available_action_types_def
        split: option.splits)
  with a collect_action_types_covers [of "[]" vs ts] show ?thesis
    by (auto simp: list_all_iff)
qed

end
