(* ===== verification/Stable_Pruner.thy ===== *)
theory Stable_Pruner
  imports Combat_Decision "HOL-Library.Multiset"
begin

text \<open>
  \<open>decision/stable_pruner.py\<close>: the public view of a frontier node, the context of one pruning
  step, the contract of a \<open>StableFrontierPruner\<close> and its baseline \<open>ValueTopKPruner\<close>; and the check
  of \<open>decision/beam_search.py\<close> that guards the engine against a pruner that breaks the contract.

  The contract is the locale \<open>frontier_pruner\<close>: \<open>select\<close> returns distinct indices of the frontier,
  at most \<open>k\<close> of them.  \<open>best_keeping_pruner\<close> adds that a node of highest score survives.  Both
  are interpreted on \<open>ValueTopKPruner\<close>.
\<close>

section \<open>Validation helpers\<close>

text \<open>
  \<open>_finite_float\<close>: a number that is not a bool; \<open>float(i)\<close> overflows on a huge integer.  The
  other helpers return the value they have checked.
\<close>

fun finite_float :: "pyval \<Rightarrow> exn + rat" where
  "finite_float (PInt i) = (if float_overflows i then Inl OverflowError else Inr (of_int i))"
| "finite_float (PFloat (Fin r)) = Inr r"
| "finite_float (PFloat _) = Inl ValueError"
| "finite_float _ = Inl TypeError"

fun prune_non_empty_str :: "pyval \<Rightarrow> exn + string" where
  "prune_non_empty_str (PStr s) = (if s = [] then Inl ValueError else Inr s)"
| "prune_non_empty_str _ = Inl ValueError"

text \<open>\<open>if value is not None: check(value)\<close>\<close>

definition optional_check :: "(pyval \<Rightarrow> exn + 'a) \<Rightarrow> pyval \<Rightarrow> exn + 'a option" where
  "optional_check check v =
     (if v = PNone then Inr None else then_r (check v) (\<lambda>x. Inr (Some x)))"

definition optional_non_empty_str :: "pyval \<Rightarrow> exn + string option" where
  "optional_non_empty_str v = optional_check prune_non_empty_str v"

fun positive_int :: "pyval \<Rightarrow> exn + int" where
  "positive_int (PInt i) = (if i \<le> 0 then Inl ValueError else Inr i)"
| "positive_int _ = Inl TypeError"

fun non_negative_int :: "pyval \<Rightarrow> exn + int" where
  "non_negative_int (PInt i) = (if i < 0 then Inl ValueError else Inr i)"
| "non_negative_int _ = Inl TypeError"

definition optional_non_negative_int :: "pyval \<Rightarrow> exn + int option" where
  "optional_non_negative_int v = optional_check non_negative_int v"

fun bool_field :: "pyval \<Rightarrow> exn + bool" where
  "bool_field (PBool b) = Inr b"
| "bool_field _ = Inl TypeError"

definition candidate_sources :: "string list" where
  "candidate_sources = [''policy'', ''structural_coverage'']"

fun candidate_source_field :: "pyval \<Rightarrow> exn + string" where
  "candidate_source_field (PStr s) = (if s \<in> set candidate_sources then Inr s else Inl ValueError)"
| "candidate_source_field _ = Inl TypeError"

section \<open>Views and contexts\<close>

record prune_view =
  pv_value :: rat
  pv_root_action_id :: "string option"
  pv_depth :: int
  pv_combat_depth :: int
  pv_continuation_steps :: int
  pv_terminal :: bool
  pv_action_type :: "string option"
  pv_policy_rank :: "int option"
  pv_policy_score :: "rat option"
  pv_post_coverage_rank :: "int option"
  pv_candidate_source :: "string option"

text \<open>the constructor, whose \<open>__post_init__\<close> checks the fields in this order\<close>

definition prune_view_init ::
  "pyval \<Rightarrow> pyval \<Rightarrow> pyval \<Rightarrow> pyval \<Rightarrow> pyval \<Rightarrow> pyval \<Rightarrow> pyval \<Rightarrow> pyval \<Rightarrow> pyval \<Rightarrow> pyval \<Rightarrow> pyval
     \<Rightarrow> exn + prune_view" where
  "prune_view_init val root_id depth combat_depth steps term atype prank pscore crank source =
     then_r (finite_float val) (\<lambda>val.
     then_r (optional_non_empty_str root_id) (\<lambda>root_id.
     then_r (non_negative_int depth) (\<lambda>depth.
     then_r (non_negative_int combat_depth) (\<lambda>combat_depth.
     then_r (non_negative_int steps) (\<lambda>steps.
     then_r (bool_field term) (\<lambda>term.
     then_r (optional_non_empty_str atype) (\<lambda>atype.
     then_r (optional_non_negative_int prank) (\<lambda>prank.
     then_r (optional_check finite_float pscore) (\<lambda>pscore.
     then_r (optional_non_negative_int crank) (\<lambda>crank.
     then_r (optional_check candidate_source_field source) (\<lambda>source.
     Inr \<lparr>pv_value = val, pv_root_action_id = root_id, pv_depth = depth,
          pv_combat_depth = combat_depth, pv_continuation_steps = steps, pv_terminal = term,
          pv_action_type = atype, pv_policy_rank = prank, pv_policy_score = pscore,
          pv_post_coverage_rank = crank, pv_candidate_source = source\<rparr>)))))))))))"

record prune_context =
  pc_search_id :: string
  pc_prune_step_id :: string
  pc_phase :: string
  pc_beam_width :: int
  pc_max_depth :: int
  pc_depths_completed :: int
  pc_remaining_time_ms :: "rat option"

definition remaining_time_field :: "pyval \<Rightarrow> exn + rat" where
  "remaining_time_field v =
     then_r (finite_float v) (\<lambda>r. then_r (raise_if (r < 0) ValueError) (\<lambda>_. Inr r))"

definition prune_context_init ::
  "pyval \<Rightarrow> pyval \<Rightarrow> pyval \<Rightarrow> pyval \<Rightarrow> pyval \<Rightarrow> pyval \<Rightarrow> pyval \<Rightarrow> exn + prune_context" where
  "prune_context_init search_id step_id phase width max_depth completed remaining =
     then_r (prune_non_empty_str search_id) (\<lambda>search_id.
     then_r (prune_non_empty_str step_id) (\<lambda>step_id.
     then_r (prune_non_empty_str phase) (\<lambda>phase.
     then_r (positive_int width) (\<lambda>width.
     then_r (positive_int max_depth) (\<lambda>max_depth.
     then_r (non_negative_int completed) (\<lambda>completed.
     then_r (optional_check remaining_time_field remaining) (\<lambda>remaining.
     Inr \<lparr>pc_search_id = search_id, pc_prune_step_id = step_id, pc_phase = phase,
          pc_beam_width = width, pc_max_depth = max_depth, pc_depths_completed = completed,
          pc_remaining_time_ms = remaining\<rparr>)))))))"

section \<open>The baseline pruner\<close>

text \<open>\<open>sorted(xs, key=..., reverse=True)\<close> is stable: equal keys keep their order\<close>

definition sorted_desc :: "('a \<Rightarrow> 'b :: linordered_ab_group_add) \<Rightarrow> 'a list \<Rightarrow> 'a list" where
  "sorted_desc key xs = sort_key (\<lambda>x. - key x) xs"

definition value_top_k_ranked :: "prune_view list \<Rightarrow> nat list" where
  "value_top_k_ranked frontier = sorted_desc (\<lambda>i. pv_value (frontier ! i)) [0 ..< length frontier]"

definition index_list :: "nat list \<Rightarrow> pyval" where
  "index_list is = PList (map (\<lambda>i. PInt (int i)) is)"

definition value_top_k_select :: "prune_view list \<Rightarrow> pyval \<Rightarrow> prune_context \<Rightarrow> exn + pyval" where
  "value_top_k_select frontier k ctx =
     then_r (positive_int k) (\<lambda>k. Inr (index_list (take (nat k) (value_top_k_ranked frontier))))"

section \<open>The engine's check of a pruner's answer\<close>

text \<open>the loop of \<open>_validated_pruner_indices\<close>\<close>

fun check_indices :: "nat \<Rightarrow> int list \<Rightarrow> pyval list \<Rightarrow> exn + nat list" where
  "check_indices n seen [] = Inr []"
| "check_indices n seen (v # vs) =
     (case v of
        PInt i \<Rightarrow>
          if i < 0 \<or> int n \<le> i then Inl RuntimeError
          else if i \<in> set seen then Inl RuntimeError
          else then_r (check_indices n (i # seen) vs) (\<lambda>is. Inr (nat i # is))
      | _ \<Rightarrow> Inl RuntimeError)"

definition validated_pruner_indices :: "pyval \<Rightarrow> nat \<Rightarrow> int \<Rightarrow> exn + nat list" where
  "validated_pruner_indices selected frontier_size k =
     (case selected of
        PList vs \<Rightarrow> if k < int (length vs) then Inl RuntimeError else check_indices frontier_size [] vs
      | _ \<Rightarrow> Inl RuntimeError)"

section \<open>Sorting facts\<close>

lemma sorted_desc_set [simp]: "set (sorted_desc key xs) = set xs"
  by (simp add: sorted_desc_def)

lemma sorted_desc_length [simp]: "length (sorted_desc key xs) = length xs"
  by (simp add: sorted_desc_def)

lemma sorted_desc_distinct [simp]: "distinct (sorted_desc key xs) = distinct xs"
  by (simp add: sorted_desc_def)

lemma sorted_desc_mset [simp]: "mset (sorted_desc key xs) = mset xs"
  by (simp add: sorted_desc_def)

lemma sorted_desc_Nil_iff [simp]: "sorted_desc key xs = [] \<longleftrightarrow> xs = []"
  by (metis length_0_conv sorted_desc_length)

lemma sorted_desc_sorted: "sorted (map (\<lambda>x. - key x) (sorted_desc key xs))"
  by (simp add: sorted_desc_def)

lemma sorted_desc_stable:
  "filter (\<lambda>x. key x = v) (sorted_desc key xs) = filter (\<lambda>x. key x = v) xs"
  using sort_key_stable [of "\<lambda>x. - key x" "- v" xs] by (simp add: sorted_desc_def)

lemma sorted_desc_ge:
  assumes "i < j" "j < length xs"
  shows "key (sorted_desc key xs ! j) \<le> key (sorted_desc key xs ! i)"
  using sorted_nth_mono [OF sorted_desc_sorted [of key xs], of i j] assms by simp

lemma sorted_desc_hd:
  assumes "x \<in> set xs"
  shows "key x \<le> key (hd (sorted_desc key xs))"
proof -
  from assms obtain j where j: "j < length xs" "sorted_desc key xs ! j = x"
    by (metis in_set_conv_nth sorted_desc_length sorted_desc_set)
  then have "xs \<noteq> []" by auto
  with j sorted_desc_ge [of 0 j xs key] show ?thesis
    by (cases "j = 0") (auto simp: hd_conv_nth)
qed

text \<open>taking the first \<open>k\<close> of the ranking keeps every element above the ones that are dropped\<close>

lemma take_sorted_desc:
  assumes "x \<in> set (take k (sorted_desc key xs))" "y \<in> set (drop k (sorted_desc key xs))"
  shows "key y \<le> key x"
proof -
  from assms(1) obtain i where i: "i < k" "i < length xs" "sorted_desc key xs ! i = x"
    by (auto simp: in_set_conv_nth)
  from assms(2) obtain j where "j < length xs - k" "drop k (sorted_desc key xs) ! j = y"
    by (auto simp: in_set_conv_nth)
  then have j: "k + j < length xs" "sorted_desc key xs ! (k + j) = y" by auto
  with i sorted_desc_ge [of i "k + j" xs key] show ?thesis by auto
qed

lemma insort_key_cong: "(\<And>y. y \<in> set (x # xs) \<Longrightarrow> f y = g y) \<Longrightarrow> insort_key f x xs = insort_key g x xs"
  by (induction xs) auto

lemma sorted_desc_cong: "(\<And>x. x \<in> set xs \<Longrightarrow> f x = g x) \<Longrightarrow> sorted_desc f xs = sorted_desc g xs"
proof (induction xs)
  case (Cons x xs)
  then have "sorted_desc f xs = sorted_desc g xs" by simp
  then show ?case
    using Cons.prems by (auto simp: sorted_desc_def sort_key_simps intro!: insort_key_cong)
qed (simp add: sorted_desc_def)

section \<open>The first \<open>k\<close> of a stable descending sort\<close>

definition is_top_k :: "(nat \<Rightarrow> 'b :: linordered_ab_group_add) \<Rightarrow> nat \<Rightarrow> nat \<Rightarrow> nat list \<Rightarrow> bool" where
  "is_top_k key n k is \<longleftrightarrow> distinct is \<and> set is \<subseteq> {..< n} \<and> length is = min k n \<and> sorted (map (\<lambda>i. - key i) is) \<and>
     (\<forall>i \<in> set is. \<forall>j < n. j \<notin> set is \<longrightarrow> key j \<le> key i) \<and>
     (\<forall>v. \<exists>m. filter (\<lambda>i. key i = v) is = take m (filter (\<lambda>i. key i = v) [0 ..< n]))"

lemma is_top_k_take: "is_top_k key n k (take k (sorted_desc key [0 ..< n]))"
  unfolding is_top_k_def
proof (intro conjI)
  let ?ranked = "sorted_desc key [0 ..< n]"
  let ?is = "take k ?ranked"
  show "distinct ?is" by (simp add: distinct_take)
  show "set ?is \<subseteq> {..< n}" by (auto dest: in_set_takeD)
  show "length ?is = min k n" by (simp add: min.commute)
  show "sorted (map (\<lambda>i. - key i) ?is)"
    using sorted_desc_sorted [of key "[0 ..< n]"] by (simp add: take_map [symmetric] sorted_wrt_take)
  show "\<forall>i \<in> set ?is. \<forall>j < n. j \<notin> set ?is \<longrightarrow> key j \<le> key i"
  proof (intro ballI allI impI)
    fix i j assume i: "i \<in> set ?is" and j: "j < n" "j \<notin> set ?is"
    from j(1) have "j \<in> set (take k ?ranked @ drop k ?ranked)" by simp
    with j(2) have "j \<in> set (drop k ?ranked)" by (metis UnE set_append)
    with i show "key j \<le> key i" by (rule take_sorted_desc)
  qed
  show "\<forall>v. \<exists>m. filter (\<lambda>i. key i = v) ?is = take m (filter (\<lambda>i. key i = v) [0 ..< n])"
  proof
    fix v
    have "filter (\<lambda>i. key i = v) [0 ..< n] =
      filter (\<lambda>i. key i = v) ?is @ filter (\<lambda>i. key i = v) (drop k ?ranked)"
      using sorted_desc_stable [of key v "[0 ..< n]"] by (metis append_take_drop_id filter_append)
    then show "\<exists>m. filter (\<lambda>i. key i = v) ?is = take m (filter (\<lambda>i. key i = v) [0 ..< n])"
      by (metis append_eq_conv_conj)
  qed
qed

section \<open>Facts about the check\<close>

lemma check_indices_Inr:
  "check_indices n seen vs = Inr is \<Longrightarrow>
     vs = map (\<lambda>i. PInt (int i)) is \<and> distinct is \<and> (\<forall>i \<in> set is. i < n \<and> int i \<notin> set seen)"
proof (induction vs arbitrary: seen "is")
  case (Cons v vs)
  from Cons.prems obtain i where i: "v = PInt i" "0 \<le> i" "i < int n" "i \<notin> set seen"
    by (auto split: pyval.splits if_splits)
  with Cons.prems obtain js where js: "check_indices n (i # seen) vs = Inr js" "is = nat i # js"
    by (auto simp: then_r_eq_Inr)
  from Cons.IH [OF js(1)] i js(2) show ?case by auto
qed simp

lemma check_indices_map:
  "distinct is \<Longrightarrow> \<forall>i \<in> set is. i < n \<and> int i \<notin> set seen \<Longrightarrow>
     check_indices n seen (map (\<lambda>i. PInt (int i)) is) = Inr is"
proof (induction "is" arbitrary: seen)
  case (Cons i "is")
  have "check_indices n (int i # seen) (map (\<lambda>i. PInt (int i)) is) = Inr is"
    by (rule Cons.IH) (use Cons.prems in auto)
  with Cons.prems show ?case by simp
qed simp

lemma validated_indices_iff:
  "validated_pruner_indices v n k = Inr is \<longleftrightarrow>
     v = index_list is \<and> distinct is \<and> (\<forall>i \<in> set is. i < n) \<and> int (length is) \<le> k"
proof
  assume "validated_pruner_indices v n k = Inr is"
  then show "v = index_list is \<and> distinct is \<and> (\<forall>i \<in> set is. i < n) \<and> int (length is) \<le> k"
    by (cases v) (auto simp: validated_pruner_indices_def index_list_def
        dest: check_indices_Inr split: if_splits)
next
  assume "v = index_list is \<and> distinct is \<and> (\<forall>i \<in> set is. i < n) \<and> int (length is) \<le> k"
  then show "validated_pruner_indices v n k = Inr is"
    by (simp add: validated_pruner_indices_def index_list_def check_indices_map)
qed

section \<open>The contract of a pruner\<close>

locale frontier_pruner =
  fixes select :: "prune_view list \<Rightarrow> pyval \<Rightarrow> prune_context \<Rightarrow> exn + pyval"
  assumes select_indices: "0 < k \<Longrightarrow>
    \<exists>is. select frontier (PInt k) ctx = Inr (index_list is) \<and> distinct is \<and>
      (\<forall>i \<in> set is. i < length frontier) \<and> int (length is) \<le> k"
begin

lemma select_accepted:
  assumes "0 < k"
  shows "\<exists>v is. select frontier (PInt k) ctx = Inr v \<and>
    validated_pruner_indices v (length frontier) k = Inr is"
  using select_indices [OF assms, of frontier ctx] by (auto simp: validated_indices_iff)

end

locale best_keeping_pruner = frontier_pruner +
  assumes select_best: "0 < k \<Longrightarrow> select frontier (PInt k) ctx = Inr (index_list is) \<Longrightarrow>
    j < length frontier \<Longrightarrow> \<exists>i \<in> set is. pv_value (frontier ! j) \<le> pv_value (frontier ! i)"
begin

lemma survivor_dominates:
  assumes "0 < k" "select frontier (PInt k) ctx = Inr v"
    and "validated_pruner_indices v (length frontier) k = Inr is" "j < length frontier"
  shows "\<exists>i \<in> set is. pv_value (frontier ! j) \<le> pv_value (frontier ! i)"
  using assms select_best by (simp add: validated_indices_iff)

end

lemma index_list_inject [simp]: "index_list is = index_list js \<longleftrightarrow> is = js"
  by (auto simp: index_list_def inj_map_eq_map inj_def)

lemma value_top_k_distinct: "distinct (take n (value_top_k_ranked frontier))"
  by (simp add: value_top_k_ranked_def distinct_take)

lemma value_top_k_keeps_best:
  assumes "0 < n" "j < length frontier"
  shows "\<exists>i \<in> set (take n (value_top_k_ranked frontier)). pv_value (frontier ! j) \<le> pv_value (frontier ! i)"
proof
  have ne: "value_top_k_ranked frontier \<noteq> []"
    using assms(2) by (auto simp: value_top_k_ranked_def)
  then show "hd (value_top_k_ranked frontier) \<in> set (take n (value_top_k_ranked frontier))"
    using assms(1) by (cases "value_top_k_ranked frontier"; cases n) auto
  show "pv_value (frontier ! j) \<le> pv_value (frontier ! hd (value_top_k_ranked frontier))"
    using sorted_desc_hd [of j "[0 ..< length frontier]" "\<lambda>i. pv_value (frontier ! i)"] assms(2)
    by (simp add: value_top_k_ranked_def)
qed

interpretation top_k: best_keeping_pruner value_top_k_select
proof unfold_locales
  fix k frontier ctx
  assume "0 < (k :: int)"
  then show "\<exists>is. value_top_k_select frontier (PInt k) ctx = Inr (index_list is) \<and> distinct is \<and>
      (\<forall>i \<in> set is. i < length frontier) \<and> int (length is) \<le> k"
    by (intro exI [of _ "take (nat k) (value_top_k_ranked frontier)"])
      (auto simp: value_top_k_select_def value_top_k_distinct dest!: in_set_takeD,
       auto simp: value_top_k_ranked_def)
next
  fix k frontier ctx "is" j
  assume "0 < (k :: int)" "value_top_k_select frontier (PInt k) ctx = Inr (index_list is)"
    "j < length frontier"
  then show "\<exists>i \<in> set is. pv_value (frontier ! j) \<le> pv_value (frontier ! i)"
    using value_top_k_keeps_best [of "nat k" j frontier] by (auto simp: value_top_k_select_def)
qed

section \<open>Properties\<close>

text \<open>The baseline pruner returns the \<open>k\<close> best nodes of the frontier in the order of a stable
  descending sort: the returned indices are distinct and in range, as many as \<open>k\<close> allows; their
  scores do not increase; no dropped node scores higher than a kept one; and among nodes of equal
  score the kept ones are the first of the frontier, in frontier order.\<close>

theorem value_top_k_selects:
  assumes "0 < k"
  shows "\<exists>is. value_top_k_select frontier (PInt k) ctx = Inr (index_list is) \<and> distinct is \<and>
    set is \<subseteq> {..< length frontier} \<and> length is = min (nat k) (length frontier) \<and>
    sorted (map (\<lambda>i. - pv_value (frontier ! i)) is) \<and>
    (\<forall>i \<in> set is. \<forall>j < length frontier. j \<notin> set is \<longrightarrow> pv_value (frontier ! j) \<le> pv_value (frontier ! i)) \<and>
    (\<forall>v. \<exists>m. filter (\<lambda>i. pv_value (frontier ! i) = v) is =
             take m (filter (\<lambda>i. pv_value (frontier ! i) = v) [0 ..< length frontier]))"
  using assms is_top_k_take [of "\<lambda>i. pv_value (frontier ! i)" "length frontier" "nat k"]
  by (auto simp: is_top_k_def value_top_k_select_def value_top_k_ranked_def)

text \<open>three views, two of them with the same score\<close>

definition demo_view :: "rat \<Rightarrow> prune_view" where
  "demo_view v =
     \<lparr>pv_value = v, pv_root_action_id = Some ''a'', pv_depth = 1, pv_combat_depth = 1,
      pv_continuation_steps = 0, pv_terminal = False, pv_action_type = Some ''card'',
      pv_policy_rank = Some 0, pv_policy_score = None, pv_post_coverage_rank = Some 0,
      pv_candidate_source = Some ''policy''\<rparr>"

definition demo_prune_context :: prune_context where
  "demo_prune_context =
     \<lparr>pc_search_id = ''s'', pc_prune_step_id = ''s-ply-1'', pc_phase = ''stable'', pc_beam_width = 2,
      pc_max_depth = 3, pc_depths_completed = 0, pc_remaining_time_ms = None\<rparr>"

theorem value_top_k_selects_witness:
  "\<exists>is. value_top_k_select [demo_view 1, demo_view 2, demo_view 2] (PInt 2) demo_prune_context =
       Inr (index_list is) \<and>
     length is = 2"
  using value_top_k_selects [of 2 "[demo_view 1, demo_view 2, demo_view 2]" demo_prune_context] by auto

end
