(* ===== verification/Candidate_Coverage.thy ===== *)
theory Candidate_Coverage
  imports Stable_Pruner
begin

text \<open>
  \<open>decision/candidate_coverage.py\<close>: the structural coverage applied to a policy's ranking.  A
  \<open>PolicyModel\<close> is a record of its two methods over the state \<open>'w\<close> of the world (a policy may draw
  random numbers or run a model); the coverage policy wraps another one.  An element of a ranking
  is an \<open>ActionCandidate\<close> or some other object, which the code refuses; the attributes of a
  candidate that \<open>getattr\<close> may find are a dictionary.
\<close>

section \<open>Candidates and proposals\<close>

record action_candidate =
  ac_action_id :: string
  ac_attrs :: pydict

datatype proposed = Candidate action_candidate | OtherObject

text \<open>\<open>ActionCandidate(action_id=aid)\<close>\<close>

definition plain_candidate :: "string \<Rightarrow> action_candidate" where
  "plain_candidate aid = \<lparr>ac_action_id = aid, ac_attrs = [(''action_score'', PNone)]\<rparr>"

record candidate_proposal =
  cp_candidate :: action_candidate
  cp_policy_rank :: "int option"
  cp_policy_score :: "rat option"
  cp_post_coverage_rank :: int
  cp_candidate_source :: string

definition cp_action_id :: "candidate_proposal \<Rightarrow> string" where
  "cp_action_id p = ac_action_id (cp_candidate p)"

text \<open>\<open>_action_score\<close>: the first attribute that holds a finite number\<close>

definition score_attributes :: "string list" where
  "score_attributes = [''action_score'', ''policy_score'', ''score'', ''prior'', ''logit'']"

fun first_finite_score :: "pydict \<Rightarrow> string list \<Rightarrow> exn + rat option" where
  "first_finite_score attrs [] = Inr None"
| "first_finite_score attrs (k # ks) =
     (case dget attrs k of
        PInt i \<Rightarrow> if float_overflows i then Inl OverflowError else Inr (Some (of_int i))
      | PFloat (Fin r) \<Rightarrow> Inr (Some r)
      | _ \<Rightarrow> first_finite_score attrs ks)"

definition candidate_action_score :: "action_candidate \<Rightarrow> exn + rat option" where
  "candidate_action_score c = first_finite_score (ac_attrs c) score_attributes"

definition policy_proposal :: "action_candidate \<Rightarrow> nat \<Rightarrow> nat \<Rightarrow> exn + candidate_proposal" where
  "policy_proposal c rank post_rank =
     then_r (candidate_action_score c) (\<lambda>score.
       Inr \<lparr>cp_candidate = c, cp_policy_rank = Some (int rank), cp_policy_score = score,
            cp_post_coverage_rank = int post_rank, cp_candidate_source = ''policy''\<rparr>)"

definition coverage_proposal :: "string \<Rightarrow> candidate_proposal" where
  "coverage_proposal aid =
     \<lparr>cp_candidate = plain_candidate aid, cp_policy_rank = None, cp_policy_score = None,
      cp_post_coverage_rank = -1, cp_candidate_source = ''structural_coverage''\<rparr>"

section \<open>Required actions\<close>

definition action_id_of :: "pydict \<Rightarrow> string" where
  "action_id_of a = (case dget a ''action_id'' of PStr s \<Rightarrow> s | _ \<Rightarrow> [])"

definition action_type_of :: "pydict \<Rightarrow> string" where
  "action_type_of a = (case dget a ''action_type'' of PStr s \<Rightarrow> s | _ \<Rightarrow> [])"

definition coverage_available :: "pydict list \<Rightarrow> pydict list" where
  "coverage_available legal_actions =
     filter (\<lambda>a. is_available a \<and> is_str (dget a ''action_id'') \<and> is_str (dget a ''action_type''))
       legal_actions"

text \<open>\<open>by_id\<close>: a later action with the same id replaces an earlier one\<close>

definition actions_by_id :: "pydict list \<Rightarrow> (string \<times> pydict) list" where
  "actions_by_id available = rev (map (\<lambda>a. (action_id_of a, a)) available)"

definition best_or_first_id ::
  "action_candidate list \<Rightarrow> pydict list \<Rightarrow> (string \<times> pydict) list \<Rightarrow> string list \<Rightarrow> string option" where
  "best_or_first_id selected available by_id types =
     (case List.find (\<lambda>c. case map_of by_id (ac_action_id c) of
                             None \<Rightarrow> False | Some a \<Rightarrow> action_type_of a \<in> set types) selected of
        Some c \<Rightarrow> Some (ac_action_id c)
      | None \<Rightarrow>
          (case List.find (\<lambda>a. action_type_of a \<in> set types) available of
             Some a \<Rightarrow> Some (action_id_of a) | None \<Rightarrow> None))"

fun option_list :: "'a option \<Rightarrow> 'a list" where
  "option_list None = []"
| "option_list (Some x) = [x]"

text \<open>first occurrences, in order\<close>

fun dedup :: "string list \<Rightarrow> string list \<Rightarrow> string list" where
  "dedup acc [] = acc"
| "dedup acc (x # xs) = dedup (if x \<in> set acc then acc else acc @ [x]) xs"

text \<open>the list \<open>required\<close> before repetitions are dropped\<close>

definition combat_action_ids ::
  "action_candidate list \<Rightarrow> pydict list \<Rightarrow> (string \<times> pydict) list \<Rightarrow> int \<Rightarrow> string list" where
  "combat_action_ids selected available by_id top_k =
     (let best = best_or_first_id selected available by_id in
        option_list (best [''system'']) @ option_list (best [''card'']) @
        (if 3 \<le> top_k then option_list (best [''potion'']) else []))"

definition completion_action_ids ::
  "action_candidate list \<Rightarrow> pydict list \<Rightarrow> (string \<times> pydict) list \<Rightarrow> string list" where
  "completion_action_ids selected available by_id =
     option_list (best_or_first_id selected available by_id [''choice_confirm'', ''choice_skip''])"

definition required_action_ids ::
  "action_candidate list \<Rightarrow> pydict list \<Rightarrow> (string \<times> pydict) list \<Rightarrow> int \<Rightarrow> string list" where
  "required_action_ids selected available by_id top_k =
     (if top_k < 2 then []
      else
        let types = map action_type_of available;
            regular_combat = ''system'' \<in> set types \<and> (''card'' \<in> set types \<or> ''potion'' \<in> set types)
        in take (nat top_k) (dedup []
             ((if regular_combat then combat_action_ids selected available by_id top_k else []) @
              (if ''choice_card'' \<in> set types then completion_action_ids selected available by_id else []))))"

section \<open>Applying the coverage\<close>

text \<open>the loop over the ranking: repeated ids are skipped, and it stops at \<open>top_k\<close> proposals\<close>

fun select_ranked ::
  "(string \<times> pydict) list \<Rightarrow> int \<Rightarrow> nat \<Rightarrow> candidate_proposal list \<Rightarrow> proposed list
     \<Rightarrow> exn + candidate_proposal list" where
  "select_ranked by_id top_k rank selected [] = Inr selected"
| "select_ranked by_id top_k rank selected (OtherObject # rest) = Inl RuntimeError"
| "select_ranked by_id top_k rank selected (Candidate c # rest) =
     (if map_of by_id (ac_action_id c) = None then Inl RuntimeError
      else if ac_action_id c \<in> set (map cp_action_id selected)
      then select_ranked by_id top_k (Suc rank) selected rest
      else
        then_r (policy_proposal c rank (length selected)) (\<lambda>p.
          if top_k \<le> int (length selected + 1) then Inr (selected @ [p])
          else select_ranked by_id top_k (Suc rank) (selected @ [p]) rest))"

text \<open>\<open>for index in range(n - 1, -1, -1)\<close>: the last proposal that is not protected is replaced\<close>

fun replace_unprotected ::
  "string list \<Rightarrow> candidate_proposal \<Rightarrow> candidate_proposal list \<Rightarrow> nat \<Rightarrow> candidate_proposal list" where
  "replace_unprotected protected p selected 0 = selected"
| "replace_unprotected protected p selected (Suc i) =
     (if cp_action_id (selected ! i) \<notin> set protected then selected[i := p]
      else replace_unprotected protected p selected i)"

fun add_required ::
  "string list \<Rightarrow> int \<Rightarrow> candidate_proposal list \<Rightarrow> string list \<Rightarrow> candidate_proposal list" where
  "add_required protected top_k selected [] = selected"
| "add_required protected top_k selected (aid # aids) =
     add_required protected top_k
       (if aid \<in> set (map cp_action_id selected) then selected
        else if int (length selected) < top_k then selected @ [coverage_proposal aid]
        else replace_unprotected protected (coverage_proposal aid) selected (length selected))
       aids"

text \<open>the final list, with the ranks after coverage\<close>

definition number_proposals :: "candidate_proposal list \<Rightarrow> candidate_proposal list" where
  "number_proposals ps =
     map (\<lambda>(i, p). p\<lparr>cp_post_coverage_rank := int i\<rparr>) (enumerate 0 ps)"

definition coverage_top_k :: "pyval \<Rightarrow> exn + int" where
  "coverage_top_k v = (case v of PInt i \<Rightarrow> if i \<le> 0 then Inl ValueError else Inr i | _ \<Rightarrow> Inl ValueError)"

definition apply_structural_coverage_with_provenance ::
  "proposed list \<Rightarrow> pydict list \<Rightarrow> pyval \<Rightarrow> exn + candidate_proposal list" where
  "apply_structural_coverage_with_provenance ranked legal_actions top_k =
     then_r (coverage_top_k top_k) (\<lambda>top_k.
       let available = coverage_available legal_actions;
           by_id = actions_by_id available
       in then_r (select_ranked by_id top_k 0 [] ranked) (\<lambda>selected.
            let required = required_action_ids (map cp_candidate selected) available by_id top_k
            in Inr (number_proposals (take (nat top_k) (add_required required top_k selected required)))))"

definition apply_structural_coverage ::
  "proposed list \<Rightarrow> pydict list \<Rightarrow> pyval \<Rightarrow> exn + action_candidate list" where
  "apply_structural_coverage ranked legal_actions top_k =
     then_r (apply_structural_coverage_with_provenance ranked legal_actions top_k)
       (\<lambda>ps. Inr (map cp_candidate ps))"

text \<open>a policy without the adapter\<close>

fun number_ranked :: "nat \<Rightarrow> proposed list \<Rightarrow> exn + candidate_proposal list" where
  "number_ranked rank [] = Inr []"
| "number_ranked rank (OtherObject # rest) = Inl RuntimeError"
| "number_ranked rank (Candidate c # rest) =
     then_r (policy_proposal c rank rank) (\<lambda>p.
     then_r (number_ranked (Suc rank) rest) (\<lambda>ps. Inr (p # ps)))"

definition policy_only_proposals :: "proposed list \<Rightarrow> pyval \<Rightarrow> exn + candidate_proposal list" where
  "policy_only_proposals ranked top_k =
     then_r (coverage_top_k top_k) (\<lambda>_. number_ranked 0 ranked)"

section \<open>Policies\<close>

record 'w policy_model =
  propose :: "pydict list \<Rightarrow> pydict \<Rightarrow> pyval \<Rightarrow> ('w, exn, proposed list) py"
  propose_batch :: "(pydict list \<times> pydict) list \<Rightarrow> pyval \<Rightarrow> ('w, exn, proposed list list) py"

text \<open>\<open>PolicyModel.propose_batch\<close>, which a policy may override\<close>

definition default_propose_batch ::
  "(pydict list \<Rightarrow> pydict \<Rightarrow> pyval \<Rightarrow> ('w, exn, proposed list) py) \<Rightarrow>
   (pydict list \<times> pydict) list \<Rightarrow> pyval \<Rightarrow> ('w, exn, proposed list list) py" where
  "default_propose_batch propose1 requests top_k =
     collect_p (\<lambda>(legal_actions, dto). propose1 legal_actions dto top_k) requests"

definition coverage_propose_with_provenance ::
  "'w policy_model \<Rightarrow> pydict list \<Rightarrow> pydict \<Rightarrow> pyval \<Rightarrow> ('w, exn, candidate_proposal list) py" where
  "coverage_propose_with_provenance inner legal_actions dto top_k =
     bind_p (propose inner legal_actions dto top_k) (\<lambda>ranked.
       lift_p (apply_structural_coverage_with_provenance ranked legal_actions top_k))"

definition coverage_propose_batch_with_provenance ::
  "'w policy_model \<Rightarrow> (pydict list \<times> pydict) list \<Rightarrow> pyval \<Rightarrow> ('w, exn, candidate_proposal list list) py" where
  "coverage_propose_batch_with_provenance inner requests top_k =
     bind_p (propose_batch inner requests top_k) (\<lambda>ranked.
       if length ranked \<noteq> length requests then raise_p RuntimeError
       else lift_p (map_r (\<lambda>(candidates, legal_actions, dto).
              apply_structural_coverage_with_provenance candidates legal_actions top_k)
              (zip ranked requests)))"

text \<open>the adapter is itself a policy\<close>

definition coverage_constrained_policy :: "'w policy_model \<Rightarrow> 'w policy_model" where
  "coverage_constrained_policy inner =
     \<lparr>propose = (\<lambda>legal_actions dto top_k.
        bind_p (coverage_propose_with_provenance inner legal_actions dto top_k)
          (\<lambda>ps. ret_p (map (Candidate \<circ> cp_candidate) ps))),
      propose_batch = (\<lambda>requests top_k.
        bind_p (coverage_propose_batch_with_provenance inner requests top_k)
          (\<lambda>pss. ret_p (map (map (Candidate \<circ> cp_candidate)) pss)))\<rparr>"

datatype 'w policy = PlainPolicy "'w policy_model" | CoverageConstrained "'w policy_model"

fun propose_batch_with_provenance ::
  "'w policy \<Rightarrow> (pydict list \<times> pydict) list \<Rightarrow> pyval \<Rightarrow> ('w, exn, candidate_proposal list list) py" where
  "propose_batch_with_provenance (CoverageConstrained inner) requests top_k =
     coverage_propose_batch_with_provenance inner requests top_k"
| "propose_batch_with_provenance (PlainPolicy policy) requests top_k =
     bind_p (propose_batch policy requests top_k) (\<lambda>ranked.
       if length ranked \<noteq> length requests then raise_p RuntimeError
       else lift_p (map_r (\<lambda>candidates. policy_only_proposals candidates top_k) ranked))"

section \<open>Facts about the selection\<close>

abbreviation proposal_ids :: "candidate_proposal list \<Rightarrow> string list" where
  "proposal_ids ps \<equiv> map cp_action_id ps"

text \<open>a proposal with a rank is the element of the ranking at that rank; ranks ascend\<close>

definition from_ranking :: "proposed list \<Rightarrow> candidate_proposal \<Rightarrow> bool" where
  "from_ranking ranked p \<longleftrightarrow>
     (case cp_policy_rank p of
        Some r \<Rightarrow> 0 \<le> r \<and> nat r < length ranked \<and> ranked ! nat r = Candidate (cp_candidate p) \<and>
          cp_candidate_source p = ''policy''
      | None \<Rightarrow> cp_candidate p = plain_candidate (cp_action_id p) \<and>
          cp_candidate_source p = ''structural_coverage'')"

definition ranks_ascend :: "candidate_proposal list \<Rightarrow> bool" where
  "ranks_ascend ps \<longleftrightarrow> sorted_wrt (<) (List.map_filter cp_policy_rank ps)"

lemma coverage_proposal_fields [simp]:
  "cp_action_id (coverage_proposal aid) = aid" "cp_policy_rank (coverage_proposal aid) = None"
  "from_ranking ranked (coverage_proposal aid)"
  by (simp_all add: coverage_proposal_def cp_action_id_def plain_candidate_def from_ranking_def)

lemma policy_proposal_fields:
  assumes "policy_proposal c rank n = Inr p"
  shows "cp_action_id p = ac_action_id c" "cp_policy_rank p = Some (int rank)"
    "cp_candidate p = c" "cp_candidate_source p = ''policy''"
  using assms by (auto simp: policy_proposal_def cp_action_id_def then_r_eq_Inr)

lemma map_filter_append [simp]: "List.map_filter f (xs @ ys) = List.map_filter f xs @ List.map_filter f ys"
  by (simp add: List.map_filter_def)

lemma map_filter_Cons [simp]:
  "List.map_filter f (x # xs) = option_list (f x) @ List.map_filter f xs"
  by (cases "f x") (simp_all add: List.map_filter_def)

declare List.map_filter_simps [simp del]

lemma map_filter_Nil [simp]: "List.map_filter f [] = []"
  by (simp add: List.map_filter_def)

lemma ranks_ascend_snoc_None: "cp_policy_rank p = None \<Longrightarrow> ranks_ascend ps \<Longrightarrow> ranks_ascend (ps @ [p])"
  by (simp add: ranks_ascend_def)

lemma set_map_filter_update:
  "f p = None \<Longrightarrow> set (List.map_filter f (xs[i := p])) \<subseteq> set (List.map_filter f xs)"
  by (induction xs arbitrary: i) (auto split: nat.splits)

lemma ranks_ascend_update:
  assumes "cp_policy_rank p = None" "ranks_ascend ps"
  shows "ranks_ascend (ps[i := p])"
  using assms(2) unfolding ranks_ascend_def
proof (induction ps arbitrary: i)
  case (Cons q qs)
  then have qs: "sorted_wrt (<) (List.map_filter cp_policy_rank qs)"
    and lt: "\<forall>r \<in> set (option_list (cp_policy_rank q)). \<forall>r' \<in> set (List.map_filter cp_policy_rank qs). r < r'"
    by (auto simp: sorted_wrt_append)
  show ?case
  proof (cases i)
    case 0
    with qs assms(1) show ?thesis by simp
  next
    case (Suc j)
    have "sorted_wrt (<) (option_list (cp_policy_rank q))" by (cases "cp_policy_rank q") auto
    with Suc Cons.IH [OF qs, of j] lt set_map_filter_update [where f = cp_policy_rank, OF assms(1), of qs j]
    show ?thesis by (auto simp: sorted_wrt_append)
  qed
qed simp

text \<open>what the loop over the ranking keeps\<close>

definition selection_ok :: "(string \<times> pydict) list \<Rightarrow> proposed list \<Rightarrow> nat \<Rightarrow> candidate_proposal list \<Rightarrow> bool" where
  "selection_ok by_id ranked rank sel \<longleftrightarrow>
     distinct (proposal_ids sel) \<and> set (proposal_ids sel) \<subseteq> fst ` set by_id \<and>
     (\<forall>p \<in> set sel. from_ranking ranked p) \<and> ranks_ascend sel \<and>
     (\<forall>r \<in> set (List.map_filter cp_policy_rank sel). r < int rank)"

lemma selection_ok_snoc:
  assumes "selection_ok by_id ranked rank sel" "rank < length ranked" "ranked ! rank = Candidate c"
    and "policy_proposal c rank n = Inr p" "map_of by_id (ac_action_id c) \<noteq> None"
    and "ac_action_id c \<notin> set (proposal_ids sel)"
  shows "selection_ok by_id ranked (Suc rank) (sel @ [p])"
proof -
  note p = policy_proposal_fields [OF assms(4)]
  from assms(5) have "ac_action_id c \<in> fst ` set by_id"
    by (auto simp: map_of_eq_None_iff)
  with assms p show ?thesis
    by (auto simp: selection_ok_def from_ranking_def ranks_ascend_def sorted_wrt_append)
qed

lemma selection_ok_Suc: "selection_ok by_id ranked rank sel \<Longrightarrow> selection_ok by_id ranked (Suc rank) sel"
  by (auto simp: selection_ok_def)

lemma select_ranked_ok:
  assumes "select_ranked by_id k rank sel rest = Inr out"
    and "selection_ok by_id ranked rank sel" "int (length sel) < k" "drop rank ranked = rest"
  shows "\<exists>r. selection_ok by_id ranked r out \<and> int (length out) \<le> k"
  using assms
proof (induction by_id k rank sel rest rule: select_ranked.induct)
  case (1 by_id k rank sel)
  then show ?case by (auto intro!: exI [of _ rank])
next
  case (3 by_id k rank sel c rest)
  from "3.prems"(4) have rank: "rank < length ranked" "ranked ! rank = Candidate c" "drop (Suc rank) ranked = rest"
    by (metis drop_all linorder_not_less list.distinct(1), metis nth_via_drop,
        metis drop_Suc list.sel(3) tl_drop)
  show ?case
  proof (cases "ac_action_id c \<in> set (proposal_ids sel)")
    case True
    with 3 rank show ?thesis by (auto simp: selection_ok_Suc split: if_splits)
  next
    case False
    with "3.prems"(1) obtain p where known: "map_of by_id (ac_action_id c) \<noteq> None"
      and p: "policy_proposal c rank (length sel) = Inr p"
      and out: "(if k \<le> int (length sel + 1) then Inr (sel @ [p])
         else select_ranked by_id k (Suc rank) (sel @ [p]) rest) = Inr out"
      by (auto simp: then_r_eq_Inr split: if_splits)
    have ok: "selection_ok by_id ranked (Suc rank) (sel @ [p])"
      by (rule selection_ok_snoc [OF "3.prems"(2) rank(1,2) p known False])
    show ?thesis
    proof (cases "k \<le> int (length sel + 1)")
      case True
      with out ok "3.prems"(3) show ?thesis by (auto intro!: exI [of _ "Suc rank"])
    next
      case more: False
      from "3.IH"(2) [OF _ False more] known out more ok rank(3) show ?thesis by auto
    qed
  qed
qed simp

lemma replace_unprotected_cases:
  assumes "n \<le> length sel"
  shows "(\<exists>i<n. cp_action_id (sel ! i) \<notin> set prot \<and> replace_unprotected prot p sel n = sel[i := p]) \<or>
    (\<forall>i<n. cp_action_id (sel ! i) \<in> set prot) \<and> replace_unprotected prot p sel n = sel"
  using assms by (induction n) (auto simp: less_Suc_eq)

text \<open>the coverage loop: what it keeps, and that every required action ends up selected\<close>

definition coverage_ok :: "(string \<times> pydict) list \<Rightarrow> proposed list \<Rightarrow> int \<Rightarrow> candidate_proposal list \<Rightarrow> bool" where
  "coverage_ok by_id ranked k sel \<longleftrightarrow>
     distinct (proposal_ids sel) \<and> set (proposal_ids sel) \<subseteq> fst ` set by_id \<and>
     (\<forall>p \<in> set sel. from_ranking ranked p) \<and> ranks_ascend sel \<and> int (length sel) \<le> k"

lemma replace_one:
  assumes "coverage_ok by_id ranked k sel" "cp_action_id p \<notin> set (proposal_ids sel)"
    and "cp_action_id p \<in> fst ` set by_id" "from_ranking ranked p" "cp_policy_rank p = None"
    and "i < length sel" "cp_action_id (sel ! i) \<notin> set prot"
  shows "coverage_ok by_id ranked k (sel[i := p])"
    and "cp_action_id p \<in> set (proposal_ids (sel[i := p]))"
    and "set prot \<inter> set (proposal_ids sel) \<subseteq> set (proposal_ids (sel[i := p]))"
proof -
  have "set (proposal_ids (sel[i := p])) \<subseteq> insert (cp_action_id p) (set (proposal_ids sel))"
    by (metis (no_types) map_update set_update_subset_insert)
  moreover have "distinct (proposal_ids (sel[i := p]))"
    using assms(1,2,6) by (simp add: coverage_ok_def map_update distinct_list_update)
  moreover have "\<forall>q \<in> set (sel[i := p]). from_ranking ranked q"
    using assms(1,4) set_update_subset_insert [of sel i p] by (auto simp: coverage_ok_def)
  moreover have "set (proposal_ids sel) \<subseteq> fst ` set by_id"
    using assms(1) by (simp only: coverage_ok_def)
  ultimately show "coverage_ok by_id ranked k (sel[i := p])"
    using assms(1,3,5) ranks_ascend_update [of p sel i] unfolding coverage_ok_def length_list_update
    by blast
  show "cp_action_id p \<in> set (proposal_ids (sel[i := p]))"
    using assms(6) by (simp add: map_update set_update_memI)
  show "set prot \<inter> set (proposal_ids sel) \<subseteq> set (proposal_ids (sel[i := p]))"
  proof
    fix x assume "x \<in> set prot \<inter> set (proposal_ids sel)"
    then obtain j where j: "j < length sel" "cp_action_id (sel ! j) = x" and "x \<in> set prot"
      by (metis IntD1 IntD2 in_set_conv_nth length_map nth_map)
    with assms(7) have "sel[i := p] ! j = sel ! j" by (metis nth_list_update_neq)
    with j show "x \<in> set (proposal_ids (sel[i := p]))"
      by (metis in_set_conv_nth length_list_update length_map nth_map)
  qed
qed

lemma all_protected_full:
  assumes "distinct (proposal_ids sel)" "\<forall>i < length sel. cp_action_id (sel ! i) \<in> set prot"
    and "aid \<in> set prot" "aid \<notin> set (proposal_ids sel)"
  shows "length sel < length prot"
proof -
  have "insert aid (set (proposal_ids sel)) \<subseteq> set prot"
    using assms(2,3) by (auto simp: in_set_conv_nth)
  then have "card (insert aid (set (proposal_ids sel))) \<le> card (set prot)"
    by (rule card_mono [OF finite_set])
  also have "card (set prot) \<le> length prot" by (rule card_length)
  finally show ?thesis
    using distinct_card [OF assms(1)] card_insert_disjoint [OF finite_set assms(4)] by simp
qed

lemma add_required_step:
  assumes "coverage_ok by_id ranked k sel" "aid \<in> set prot" "aid \<in> fst ` set by_id"
    and "int (length prot) \<le> k"
  defines "sel' \<equiv> (if aid \<in> set (proposal_ids sel) then sel
        else if int (length sel) < k then sel @ [coverage_proposal aid]
        else replace_unprotected prot (coverage_proposal aid) sel (length sel))"
  shows "coverage_ok by_id ranked k sel' \<and> aid \<in> set (proposal_ids sel') \<and>
    set prot \<inter> set (proposal_ids sel) \<subseteq> set (proposal_ids sel')"
proof (cases "aid \<in> set (proposal_ids sel)")
  case True
  with assms(1) show ?thesis by (simp add: sel'_def)
next
  case new: False
  show ?thesis
  proof (cases "int (length sel) < k")
    case True
    with new assms(1,3) show ?thesis
      by (auto simp: sel'_def coverage_ok_def ranks_ascend_snoc_None)
  next
    case full: False
    from replace_unprotected_cases [OF order_refl, of sel prot "coverage_proposal aid"]
    show ?thesis
    proof
      assume "\<exists>i<length sel. cp_action_id (sel ! i) \<notin> set prot \<and>
        replace_unprotected prot (coverage_proposal aid) sel (length sel) = sel[i := coverage_proposal aid]"
      then obtain i where i: "i < length sel" "cp_action_id (sel ! i) \<notin> set prot"
        "sel' = sel[i := coverage_proposal aid]"
        using new full by (auto simp: sel'_def)
      show ?thesis
        using replace_one [OF assms(1) _ _ _ _ i(1,2), of "coverage_proposal aid"] new assms(3) i(3)
        by simp
    next
      assume "(\<forall>i<length sel. cp_action_id (sel ! i) \<in> set prot) \<and>
        replace_unprotected prot (coverage_proposal aid) sel (length sel) = sel"
      then have "length sel < length prot"
        using all_protected_full [of sel prot aid] assms(1,2) new by (auto simp: coverage_ok_def)
      with full assms(4) show ?thesis by simp
    qed
  qed
qed

lemma add_required_ok:
  assumes "coverage_ok by_id ranked k sel" "set aids \<subseteq> set prot" "set prot \<subseteq> fst ` set by_id"
    and "int (length prot) \<le> k"
  shows "coverage_ok by_id ranked k (add_required prot k sel aids) \<and>
    set aids \<union> (set prot \<inter> set (proposal_ids sel)) \<subseteq> set (proposal_ids (add_required prot k sel aids))"
  using assms(1,2)
proof (induction aids arbitrary: sel)
  case Nil
  then show ?case by simp
next
  case (Cons aid aids)
  let ?sel = "if aid \<in> set (proposal_ids sel) then sel
        else if int (length sel) < k then sel @ [coverage_proposal aid]
        else replace_unprotected prot (coverage_proposal aid) sel (length sel)"
  from Cons.prems(2) assms(3) have "aid \<in> set prot" "aid \<in> fst ` set by_id" by auto
  have step: "coverage_ok by_id ranked k ?sel" "aid \<in> set (proposal_ids ?sel)"
    "set prot \<inter> set (proposal_ids sel) \<subseteq> set (proposal_ids ?sel)"
    using add_required_step [OF Cons.prems(1) \<open>aid \<in> set prot\<close> \<open>aid \<in> fst ` set by_id\<close> assms(4)]
    by blast+
  have "set aids \<subseteq> set prot" "aid \<in> set prot" using Cons.prems(2) by auto
  with Cons.IH [OF step(1)] step(2,3)
  show ?case unfolding add_required.simps list.set by blast
qed

lemma proposal_ids_number [simp]: "proposal_ids (number_proposals ps) = proposal_ids ps"
proof -
  have "proposal_ids (map (\<lambda>(i, p). p\<lparr>cp_post_coverage_rank := int i\<rparr>) (enumerate n ps)) = proposal_ids ps" for n
    by (induction ps arbitrary: n) (auto simp: cp_action_id_def)
  then show ?thesis by (simp add: number_proposals_def)
qed

section \<open>Facts about the required actions\<close>

lemma dedup_extends: "\<exists>zs. dedup acc xs = acc @ zs \<and> length zs \<le> length xs \<and> set (dedup acc xs) = set acc \<union> set xs"
proof (induction xs arbitrary: acc)
  case (Cons x xs)
  show ?case
  proof (cases "x \<in> set acc")
    case True
    with Cons [of acc] show ?thesis by (auto intro: le_SucI)
  next
    case False
    with Cons [of "acc @ [x]"] show ?thesis by auto
  qed
qed simp

lemma dedup_append: "dedup acc (xs @ ys) = dedup (dedup acc xs) ys"
  by (induction xs arbitrary: acc) auto

lemma dedup_set: "set (dedup acc xs) = set acc \<union> set xs"
  using dedup_extends by blast

text \<open>the first \<open>n\<close> elements of a list are among the first \<open>n\<close> distinct ones\<close>

lemma take_dedup: "set (take n xs) \<subseteq> set (take n (dedup [] xs))"
proof -
  obtain zs where zs: "dedup [] (take n xs) = zs" "length zs \<le> n" "set zs = set (take n xs)"
    using dedup_extends [of "[]" "take n xs"] by auto
  obtain ws where "dedup zs (drop n xs) = zs @ ws"
    using dedup_extends by blast
  then have "dedup [] (take n xs @ drop n xs) = zs @ ws"
    by (simp only: dedup_append zs(1))
  then have "dedup [] xs = zs @ ws" by simp
  with zs(2,3) show ?thesis by auto
qed

lemma map_of_by_id:
  "map_of (actions_by_id available) aid = Some a \<Longrightarrow> a \<in> set available \<and> action_id_of a = aid"
  by (auto simp: actions_by_id_def dest: map_of_SomeD)

lemma by_id_dom: "fst ` set (actions_by_id available) = action_id_of ` set available"
  by (force simp: actions_by_id_def)

definition available_of_type :: "pydict list \<Rightarrow> string list \<Rightarrow> string \<Rightarrow> bool" where
  "available_of_type available types aid \<longleftrightarrow>
     list_ex (\<lambda>a. action_id_of a = aid \<and> action_type_of a \<in> set types) available"

lemma find_SomeD: "List.find P xs = Some x \<Longrightarrow> x \<in> set xs \<and> P x"
  by (auto simp: find_Some_iff)

lemma best_or_first_type:
  assumes "best_or_first_id selected available (actions_by_id available) types = Some aid"
  shows "available_of_type available types aid"
proof -
  let ?P = "\<lambda>c. case map_of (actions_by_id available) (ac_action_id c) of
    None \<Rightarrow> False | Some a \<Rightarrow> action_type_of a \<in> set types"
  show ?thesis
  proof (cases "List.find ?P selected")
    case None
    with assms show ?thesis
      by (auto simp: best_or_first_id_def available_of_type_def list_ex_iff
          dest!: find_SomeD split: option.splits)
  next
    case (Some c)
    with assms have "?P c" "aid = ac_action_id c"
      by (auto simp: best_or_first_id_def dest!: find_SomeD)
    then obtain a where "map_of (actions_by_id available) aid = Some a" "action_type_of a \<in> set types"
      by (auto split: option.splits)
    then show ?thesis by (auto simp: available_of_type_def list_ex_iff dest!: map_of_by_id)
  qed
qed

lemma best_or_first_exists:
  assumes "set types \<inter> action_type_of ` set available \<noteq> {}"
  shows "\<exists>aid. best_or_first_id selected available (actions_by_id available) types = Some aid"
  using assms by (auto simp: best_or_first_id_def find_None_iff split: option.splits)

lemma best_known:
  "set (option_list (best_or_first_id selected available (actions_by_id available) types))
     \<subseteq> action_id_of ` set available"
  by (cases "best_or_first_id selected available (actions_by_id available) types")
    (auto dest!: best_or_first_type simp: available_of_type_def list_ex_iff)

lemma required_length: "length (required_action_ids selected available by_id k) \<le> nat k"
  by (simp add: required_action_ids_def Let_def)

lemma required_known:
  "set (required_action_ids selected available (actions_by_id available) k) \<subseteq> action_id_of ` set available"
proof -
  have "set (combat_action_ids selected available (actions_by_id available) k) \<subseteq> action_id_of ` set available"
    "set (completion_action_ids selected available (actions_by_id available)) \<subseteq> action_id_of ` set available"
    using best_known [of selected available]
    by (auto simp: combat_action_ids_def completion_action_ids_def Let_def)
  then show ?thesis
    unfolding required_action_ids_def Let_def
    by (auto simp: dedup_set dest!: in_set_takeD)
qed

lemma option_list_length: "length (option_list x) \<le> 1"
  by (cases x) auto

lemma combat_ids_length:
  assumes "2 \<le> k"
  shows "length (combat_action_ids selected available by_id k) \<le> nat k"
proof -
  have "length (option_list (best_or_first_id selected available by_id ts)) \<le> 1" for ts
    by (rule option_list_length)
  note this [of "[''system'']"] this [of "[''card'']"] this [of "[''potion'']"]
  moreover have "(if 3 \<le> k then 3 else 2) \<le> nat k" using assms by auto
  ultimately show ?thesis
    by (simp add: combat_action_ids_def Let_def split: if_splits)
qed

text \<open>everything an ordinary combat asks for is required\<close>

lemma combat_ids_required:
  assumes "2 \<le> k" "''system'' \<in> action_type_of ` set available"
    and "{''card'', ''potion''} \<inter> action_type_of ` set available \<noteq> {}"
  shows "set (combat_action_ids selected available by_id k) \<subseteq> set (required_action_ids selected available by_id k)"
proof -
  let ?rest = "if ''choice_card'' \<in> set (map action_type_of available)
    then completion_action_ids selected available by_id else []"
  let ?ids = "combat_action_ids selected available by_id k"
  have "set ?ids \<subseteq> set (take (nat k) (?ids @ ?rest))"
    using combat_ids_length [OF assms(1), of selected available by_id] by simp
  also have "\<dots> \<subseteq> set (take (nat k) (dedup [] (?ids @ ?rest)))" by (rule take_dedup)
  finally show ?thesis using assms by (auto simp: required_action_ids_def Let_def)
qed

text \<open>and the completion of a pending choice, unless the combat actions use up the budget\<close>

lemma completion_ids_required:
  assumes "2 \<le> k" "''choice_card'' \<in> action_type_of ` set available"
    and "''system'' \<notin> action_type_of ` set available \<or> 4 \<le> k"
  shows "set (completion_action_ids selected available by_id) \<subseteq> set (required_action_ids selected available by_id k)"
proof -
  let ?combat = "''system'' \<in> set (map action_type_of available) \<and>
    (''card'' \<in> set (map action_type_of available) \<or> ''potion'' \<in> set (map action_type_of available))"
  let ?ids = "if ?combat then combat_action_ids selected available by_id k else []"
  let ?rest = "completion_action_ids selected available by_id"
  have "length (option_list (best_or_first_id selected available by_id ts)) \<le> 1" for ts
    by (rule option_list_length)
  note this [of "[''system'']"] this [of "[''card'']"] this [of "[''potion'']"]
    this [of "[''choice_confirm'', ''choice_skip'']"]
  then have "length (?ids @ ?rest) \<le> nat k"
    using assms by (auto simp: combat_action_ids_def completion_action_ids_def Let_def)
  then have "set ?rest \<subseteq> set (take (nat k) (?ids @ ?rest))" by simp
  also have "\<dots> \<subseteq> set (take (nat k) (dedup [] (?ids @ ?rest)))" by (rule take_dedup)
  finally show ?thesis using assms(1,2) by (simp add: required_action_ids_def Let_def)
qed

lemma number_proposals_facts [simp]:
  "length (number_proposals ps) = length ps"
  "map cp_post_coverage_rank (number_proposals ps) = map int [0 ..< length ps]"
  "(\<forall>p \<in> set (number_proposals ps). from_ranking ranked p) \<longleftrightarrow> (\<forall>p \<in> set ps. from_ranking ranked p)"
  "ranks_ascend (number_proposals ps) \<longleftrightarrow> ranks_ascend ps"
proof -
  let ?num = "map (\<lambda>(i, p). p\<lparr>cp_post_coverage_rank := int i\<rparr>)"
  have ranking: "from_ranking ranked (p\<lparr>cp_post_coverage_rank := i\<rparr>) = from_ranking ranked p" for p i
    by (simp add: from_ranking_def cp_action_id_def split: option.splits)
  show "length (number_proposals ps) = length ps" by (simp add: number_proposals_def)
  show "map cp_post_coverage_rank (number_proposals ps) = map int [0 ..< length ps]"
    by (rule nth_equalityI) (simp_all add: number_proposals_def nth_enumerate_eq)
  have "(\<forall>p \<in> set (?num (enumerate n ps)). from_ranking ranked p) \<longleftrightarrow> (\<forall>p \<in> set ps. from_ranking ranked p)" for n
    by (induction ps arbitrary: n) (auto simp: ranking)
  then show "(\<forall>p \<in> set (number_proposals ps). from_ranking ranked p) \<longleftrightarrow> (\<forall>p \<in> set ps. from_ranking ranked p)"
    by (simp only: number_proposals_def)
  have "List.map_filter cp_policy_rank (?num (enumerate n ps)) = List.map_filter cp_policy_rank ps" for n
    by (induction ps arbitrary: n) auto
  then show "ranks_ascend (number_proposals ps) \<longleftrightarrow> ranks_ascend ps"
    by (simp add: number_proposals_def ranks_ascend_def)
qed

text \<open>an available action of a type; a proposal of an action that is available with one of the types\<close>

definition offers :: "pydict list \<Rightarrow> string \<Rightarrow> bool" where
  "offers available type \<longleftrightarrow> list_ex (\<lambda>a. action_type_of a = type) available"

lemma offers_image: "offers available type \<longleftrightarrow> type \<in> action_type_of ` set available"
  by (auto simp: offers_def list_ex_iff)

definition covers :: "pydict list \<Rightarrow> candidate_proposal list \<Rightarrow> string list \<Rightarrow> bool" where
  "covers available ps types \<longleftrightarrow> list_ex (\<lambda>p. available_of_type available types (cp_action_id p)) ps"

section \<open>Properties\<close>

lemma coverage_Inr:
  assumes "apply_structural_coverage_with_provenance ranked legal_actions (PInt k) = Inr ps"
  defines "available \<equiv> coverage_available legal_actions"
  obtains sel where "coverage_ok (actions_by_id available) ranked k
      (add_required (required_action_ids (map cp_candidate sel) available (actions_by_id available) k) k sel
        (required_action_ids (map cp_candidate sel) available (actions_by_id available) k))"
    and "ps = number_proposals
      (add_required (required_action_ids (map cp_candidate sel) available (actions_by_id available) k) k sel
        (required_action_ids (map cp_candidate sel) available (actions_by_id available) k))"
    and "set (required_action_ids (map cp_candidate sel) available (actions_by_id available) k)
      \<subseteq> set (proposal_ids ps)"
proof -
  let ?by = "actions_by_id available"
  from assms obtain sel where k: "0 < k" and sel: "select_ranked ?by k 0 [] ranked = Inr sel"
    and ps: "ps = number_proposals (take (nat k) (add_required
        (required_action_ids (map cp_candidate sel) available ?by k) k sel
        (required_action_ids (map cp_candidate sel) available ?by k)))"
    by (auto simp: apply_structural_coverage_with_provenance_def coverage_top_k_def Let_def
        then_r_eq_Inr split: if_splits)
  let ?req = "required_action_ids (map cp_candidate sel) available ?by k"
  have "selection_ok ?by ranked 0 []"
    by (simp add: selection_ok_def ranks_ascend_def)
  from select_ranked_ok [OF sel this] k
  have "coverage_ok ?by ranked k sel" by (auto simp: coverage_ok_def selection_ok_def)
  moreover have "set ?req \<subseteq> fst ` set ?by" by (simp only: by_id_dom required_known)
  moreover have "int (length ?req) \<le> k"
    using required_length [of "map cp_candidate sel" available ?by k] k by (simp add: le_nat_iff)
  ultimately have ok: "coverage_ok ?by ranked k (add_required ?req k sel ?req)"
    "set ?req \<subseteq> set (proposal_ids (add_required ?req k sel ?req))"
    using add_required_ok [OF _ order_refl, of ?by ranked k sel ?req] by blast+
  then have "ps = number_proposals (add_required ?req k sel ?req)"
    by (simp add: ps coverage_ok_def le_nat_iff k)
  with ok show thesis by (intro that) auto
qed

text \<open>C38: The coverage never widens the candidate budget and never invents an action: it returns at most
  \<open>top_k\<close> proposals with pairwise distinct action ids, all of them available, numbered 0, 1, ... in order;
  each is the candidate of the policy's ranking at its recorded rank, or was inserted by the
  coverage; and the policy's own candidates keep their relative order.\<close>

theorem coverage_within_budget:
  assumes "apply_structural_coverage_with_provenance ranked legal_actions (PInt k) = Inr ps"
  shows "int (length ps) \<le> k \<and> distinct (proposal_ids ps) \<and>
    set (proposal_ids ps) \<subseteq> action_id_of ` set (coverage_available legal_actions) \<and>
    map cp_post_coverage_rank ps = map int [0 ..< length ps] \<and>
    (\<forall>p \<in> set ps. from_ranking ranked p) \<and> ranks_ascend ps"
proof -
  obtain qs where qs: "coverage_ok (actions_by_id (coverage_available legal_actions)) ranked k qs"
    and ps: "ps = number_proposals qs"
    by (rule coverage_Inr [OF assms]) (rule that; assumption)
  have ids: "proposal_ids ps = proposal_ids qs" by (simp add: ps)
  from qs show ?thesis
    unfolding coverage_ok_def ids by (simp add: ps number_proposals_facts by_id_dom)
qed

text \<open>C29: With room for two candidates an ordinary combat keeps an End Turn branch and, if a card can be
  played, a card branch; with room for three also a potion branch, if there is one; and a pending
  card choice keeps a branch that completes it, unless a combat leaves no room for it.\<close>

theorem coverage_keeps_branches:
  assumes "apply_structural_coverage_with_provenance ranked legal_actions (PInt k) = Inr ps" "2 \<le> k"
    and "available = coverage_available legal_actions"
  shows "(offers available ''system'' \<and> (offers available ''card'' \<or> offers available ''potion'') \<longrightarrow>
      covers available ps [''system''] \<and>
      (offers available ''card'' \<longrightarrow> covers available ps [''card'']) \<and>
      (offers available ''potion'' \<and> 3 \<le> k \<longrightarrow> covers available ps [''potion''])) \<and>
    (offers available ''choice_card'' \<and>
       (offers available ''choice_confirm'' \<or> offers available ''choice_skip'') \<and>
       (\<not> offers available ''system'' \<or> 4 \<le> k) \<longrightarrow>
     covers available ps [''choice_confirm'', ''choice_skip''])"
proof -
  let ?by = "actions_by_id available"
  obtain sel :: "candidate_proposal list"
    where req: "set (required_action_ids (map cp_candidate sel) available ?by k) \<subseteq> set (proposal_ids ps)"
    by (rule coverage_Inr [OF assms(1), folded assms(3)]) (rule that; assumption)
  let ?sel = "map cp_candidate sel"
  have covers: "covers available ps types"
    if "set (option_list (best_or_first_id ?sel available ?by types)) \<subseteq> set (proposal_ids ps)"
      "list_ex (offers available) types" for types
  proof -
    have "set types \<inter> action_type_of ` set available \<noteq> {}"
      using that(2) by (auto simp: list_ex_iff offers_def)
    from best_or_first_exists [OF this] obtain aid
      where aid: "best_or_first_id ?sel available ?by types = Some aid" by blast
    with that(1) best_or_first_type [OF aid] show ?thesis by (auto simp: covers_def list_ex_iff)
  qed
  have combat: "set (combat_action_ids ?sel available ?by k) \<subseteq> set (proposal_ids ps)"
    if "offers available ''system''" "offers available ''card'' \<or> offers available ''potion''"
    using subset_trans [OF combat_ids_required [OF assms(2), of available ?sel ?by] req] that
    by (auto simp: offers_image)
  have completion: "set (completion_action_ids ?sel available ?by) \<subseteq> set (proposal_ids ps)"
    if "offers available ''choice_card''" "\<not> offers available ''system'' \<or> 4 \<le> k"
    using subset_trans [OF completion_ids_required [OF assms(2), of available ?sel ?by] req] that
    by (auto simp: offers_image)
  show ?thesis
    using combat completion
    by (auto simp: combat_action_ids_def completion_action_ids_def Let_def intro!: covers)
qed

definition demo_action :: "string \<Rightarrow> string \<Rightarrow> pydict" where
  "demo_action aid type = [(''action_id'', PStr aid), (''action_type'', PStr type)]"

text \<open>a combat with two cards; the policy ranks the cards only\<close>

definition demo_combat :: "pydict list" where
  "demo_combat = [demo_action ''end'' ''system'', demo_action ''c1'' ''card'', demo_action ''c2'' ''card'']"

lemma demo_coverage:
  "apply_structural_coverage_with_provenance
     [Candidate (plain_candidate ''c1''), Candidate (plain_candidate ''c2'')] demo_combat (PInt 2) =
   Inr [\<lparr>cp_candidate = plain_candidate ''c1'', cp_policy_rank = Some 0, cp_policy_score = None,
         cp_post_coverage_rank = 0, cp_candidate_source = ''policy''\<rparr>,
        (coverage_proposal ''end'')\<lparr>cp_post_coverage_rank := 1\<rparr>]"
  by code_simp

theorem coverage_within_budget_witness:
  "ranks_ascend [\<lparr>cp_candidate = plain_candidate ''c1'', cp_policy_rank = Some 0, cp_policy_score = None,
         cp_post_coverage_rank = 0, cp_candidate_source = ''policy''\<rparr>,
        (coverage_proposal ''end'')\<lparr>cp_post_coverage_rank := 1\<rparr>]"
  using coverage_within_budget [OF demo_coverage] by blast

theorem coverage_keeps_branches_witness:
  "covers (coverage_available demo_combat)
     [\<lparr>cp_candidate = plain_candidate ''c1'', cp_policy_rank = Some 0, cp_policy_score = None,
         cp_post_coverage_rank = 0, cp_candidate_source = ''policy''\<rparr>,
        (coverage_proposal ''end'')\<lparr>cp_post_coverage_rank := 1\<rparr>] [''system'']"
  using coverage_keeps_branches [OF demo_coverage _ refl]
  by (simp add: offers_def demo_combat_def demo_action_def coverage_available_def is_available_def
      action_type_of_def)

end
