(* ===== verification/Beam_Engine.thy ===== *)
theory Beam_Engine
  imports Candidate_Coverage
begin

text \<open>
  The state of \<open>decision/beam_search.py\<close> and the operations every phase of a search uses: the
  configuration, the nodes and statistics, the allocator of branch and RNG ids, the calls to the
  client and the release of branches.

  The search runs in a world \<open>'w\<close>: the clock, the API client with the server behind it, the policy,
  the value model and the pruner, which may all have a state of their own.  \<open>search_client\<close> holds
  the operations and attributes of the client that the engine uses.  The object's attributes and
  the local variables of \<open>search\<close> that its helpers update are one record, \<open>searching\<close>.  No trace
  collector is attached: recording a trace has no effect on the search.  The clock readings that
  only feed the millisecond statistics, and those statistics, are left out.
\<close>

section \<open>Configuration\<close>

record beam_config =
  beam_width :: int
  top_k_actions :: int
  max_depth :: int
  simulation_options :: pyval
  time_budget_ms :: "rat option"
  max_batch_size :: int
  expand_partial :: bool
  release_branches_on_finish :: bool
  beam_searchable_action_types :: "string list"
  max_continuation_steps :: int
  max_branch_attempts :: int
  turn_aligned_leaves :: bool
  turn_boundary_scoring :: bool

text \<open>a check of \<open>__post_init__\<close>: \<open>isinstance(value, bool) or not isinstance(value, int) or value <= 0\<close>\<close>

definition config_int :: "pyval \<Rightarrow> exn + int" where
  "config_int v = (case v of PInt i \<Rightarrow> if i \<le> 0 then Inl ValueError else Inr i | _ \<Rightarrow> Inl ValueError)"

text \<open>a finite positive number; \<open>float(i)\<close> of a huge integer overflows before the test\<close>

fun finite_positive :: "pyval \<Rightarrow> exn + rat" where
  "finite_positive (PInt i) =
     (if float_overflows i then Inl OverflowError
      else if i \<le> 0 then Inl ValueError else Inr (of_int i))"
| "finite_positive (PFloat (Fin r)) = (if r \<le> 0 then Inl ValueError else Inr r)"
| "finite_positive _ = Inl ValueError"

definition default_simulation_options :: pyval where
  "default_simulation_options = PDict [(''stop_condition'', PStr ''next_decision'')]"

text \<open>the constructor with its \<open>__post_init__\<close>; the first argument holds the fields in the order of the checks\<close>

definition beam_config_init ::
  "pyval \<times> pyval \<times> pyval \<times> pyval \<times> pyval \<times> pyval \<Rightarrow> pyval \<Rightarrow> pyval \<Rightarrow> bool \<Rightarrow> bool \<Rightarrow>
     string list \<Rightarrow> bool \<Rightarrow> bool \<Rightarrow> exn + beam_config" where
  "beam_config_init ints options budget partial_nodes release searchable aligned boundary =
     (case ints of (width, top_k, depth, batch, steps, attempts) \<Rightarrow>
       then_r (config_int width) (\<lambda>width.
       then_r (config_int top_k) (\<lambda>top_k.
       then_r (config_int depth) (\<lambda>depth.
       then_r (config_int batch) (\<lambda>batch.
       then_r (config_int steps) (\<lambda>steps.
       then_r (config_int attempts) (\<lambda>attempts.
       then_r (optional_check finite_positive budget) (\<lambda>budget.
       then_r (raise_if (aligned \<and> boundary) ValueError) (\<lambda>_.
       Inr \<lparr>beam_width = width, top_k_actions = top_k, max_depth = depth,
            simulation_options = (if options = PNone then default_simulation_options else options),
            time_budget_ms = budget, max_batch_size = batch, expand_partial = partial_nodes,
            release_branches_on_finish = release, beam_searchable_action_types = searchable,
            max_continuation_steps = steps, max_branch_attempts = attempts,
            turn_aligned_leaves = aligned, turn_boundary_scoring = boundary\<rparr>)))))))))"

definition config_ok :: "beam_config \<Rightarrow> bool" where
  "config_ok cfg \<longleftrightarrow>
     0 < beam_width cfg \<and> 0 < top_k_actions cfg \<and> 0 < max_depth cfg \<and> 0 < max_batch_size cfg \<and>
     0 < max_continuation_steps cfg \<and> 0 < max_branch_attempts cfg \<and>
     (\<forall>b. time_budget_ms cfg = Some b \<longrightarrow> 0 < b) \<and>
     \<not> (turn_aligned_leaves cfg \<and> turn_boundary_scoring cfg)"

section \<open>Nodes and statistics\<close>

record beam_node =
  bn_branch_id :: string
  bn_parent_branch_id :: string
  bn_rng_id :: int
  bn_decision_point_id :: string
  bn_dto :: pydict
  bn_depth :: int
  bn_value :: rat
  bn_root_action_id :: "string option"
  bn_combat_depth :: int
  bn_continuation_steps :: int
  bn_branch_log :: "pyval list"
  bn_terminal :: bool
  bn_action_id :: "string option"
  bn_action_type :: "string option"
  bn_action :: "pydict option"
  bn_policy_rank :: "int option"
  bn_policy_score :: "rat option"
  bn_post_coverage_rank :: "int option"
  bn_candidate_source :: "string option"

definition is_macro_resolved :: "beam_node \<Rightarrow> bool" where
  "is_macro_resolved node \<longleftrightarrow> bn_terminal node \<or> \<not> is_continuation_decision (bn_dto node)"

record beam_stats =
  depths_completed :: int
  nodes_expanded :: int
  branches_created :: int
  branches_faulted :: int
  branches_out_of_scope :: int
  leaves_turn_aligned :: int
  branch_retry_faults :: int
  branch_retry_recoveries :: int

definition stats_init :: beam_stats where
  "stats_init =
     \<lparr>depths_completed = 0, nodes_expanded = 0, branches_created = 0, branches_faulted = 0,
      branches_out_of_scope = 0, leaves_turn_aligned = 0, branch_retry_faults = 0,
      branch_retry_recoveries = 0\<rparr>"

record beam_result =
  best_root_action_id :: "string option"
  best_value :: "rat option"
  best_node :: "beam_node option"
  result_reason :: string
  result_stats :: beam_stats

text \<open>the id of the root branch, \<open>ROOT_BRANCH_ID\<close> of \<open>api/contract.py\<close>\<close>

definition search_root_id :: string where
  "search_root_id = ''root''"

section \<open>The world of a search\<close>

record 'w search_client =
  sc_now :: "'w \<Rightarrow> rat \<times> 'w"
  sc_emulate_actions :: "string \<Rightarrow> pydict list \<Rightarrow> rat \<Rightarrow> pyval \<Rightarrow> ('w, exn, pydict) py"
  sc_cancel_branches :: "string \<Rightarrow> string list \<Rightarrow> rat \<Rightarrow> ('w, exn, pydict) py"
  sc_release_branches :: "string \<Rightarrow> string list \<Rightarrow> rat \<Rightarrow> ('w, exn, pydict) py"
  sc_instance_type :: "'w \<Rightarrow> string option"
  sc_max_items :: "'w \<Rightarrow> pyval"
  sc_pending_retry :: "'w \<Rightarrow> bool"
  sc_session_invalid :: "'w \<Rightarrow> bool"

text \<open>the attributes of the engine: its client, models, configuration and id prefix\<close>

record 'w beam_engine =
  be_client :: "'w search_client"
  be_policy :: "'w policy"
  be_evaluate_batch :: "pydict list \<Rightarrow> ('w, exn, pyval list) py"
  be_select :: "prune_view list \<Rightarrow> pyval \<Rightarrow> prune_context \<Rightarrow> ('w, exn, pyval) py"
  be_config :: beam_config
  be_prefix :: string

record 'w searching =
  se_world :: 'w
  se_branch_counter :: nat
  se_rng_counter :: nat
  se_stats :: beam_stats
  se_all_ids :: "string list"
  se_released :: "string list"
  se_settled :: "string list"
  se_beam :: "beam_node list"
  se_waiting :: "beam_node list"
  se_finished :: "beam_node list"
  se_prune_step :: nat

type_synonym ('w, 'a) beam = "('w searching, exn, 'a) py"

definition world_p :: "('w, exn, 'a) py \<Rightarrow> ('w, 'a) beam" where
  "world_p m = (\<lambda>s. case m (se_world s) of (r, w) \<Rightarrow> (r, s\<lparr>se_world := w\<rparr>))"

definition now_p :: "'w beam_engine \<Rightarrow> ('w, rat) beam" where
  "now_p en = world_p (\<lambda>w. case sc_now (be_client en) w of (t, w') \<Rightarrow> (Inr t, w'))"

definition count_p :: "(beam_stats \<Rightarrow> beam_stats) \<Rightarrow> ('w, unit) beam" where
  "count_p f = modify_p (\<lambda>s. s\<lparr>se_stats := f (se_stats s)\<rparr>)"

text \<open>reading an attribute of the client\<close>

definition client_attr :: "('w search_client \<Rightarrow> 'w \<Rightarrow> 'b) \<Rightarrow> 'w beam_engine \<Rightarrow> ('b \<Rightarrow> ('w, 'a) beam) \<Rightarrow> ('w, 'a) beam" where
  "client_attr f en k = with_p (\<lambda>s. k (f (be_client en) (se_world s)))"

fun server_batch_limit_of :: "pyval \<Rightarrow> int option" where
  "server_batch_limit_of (PInt i) = (if 0 < i then Some i else None)"
| "server_batch_limit_of _ = None"

definition server_batch_limit :: "'w search_client \<Rightarrow> 'w \<Rightarrow> int option" where
  "server_batch_limit cl w = server_batch_limit_of (sc_max_items cl w)"

definition server_active_branch_capacity :: "'w search_client \<Rightarrow> 'w \<Rightarrow> int option" where
  "server_active_branch_capacity cl w =
     (if sc_instance_type cl w \<noteq> Some ''whole_run'' then None else server_batch_limit cl w)"

definition client_unusable :: "'w search_client \<Rightarrow> 'w \<Rightarrow> bool" where
  "client_unusable cl w \<longleftrightarrow> sc_pending_retry cl w \<or> sc_session_invalid cl w"

section \<open>The allocator\<close>

definition branch_id_of :: "string \<Rightarrow> nat \<Rightarrow> string" where
  "branch_id_of prefix n = ''bs-'' @ prefix @ ''-'' @ show_nat n"

definition next_branch_id :: "'w beam_engine \<Rightarrow> ('w, string) beam" where
  "next_branch_id en = with_p (\<lambda>s.
     then_p (modify_p (\<lambda>s. s\<lparr>se_branch_counter := Suc (se_branch_counter s)\<rparr>))
       (ret_p (branch_id_of (be_prefix en) (Suc (se_branch_counter s)))))"

definition next_rng_id :: "('w, int) beam" where
  "next_rng_id = with_p (\<lambda>s.
     then_p (modify_p (\<lambda>s. s\<lparr>se_rng_counter := Suc (se_rng_counter s)\<rparr>))
       (ret_p (int (Suc (se_rng_counter s)))))"

lemma branch_id_of_inj: "branch_id_of prefix m = branch_id_of prefix n \<longleftrightarrow> m = n"
  by (auto simp: branch_id_of_def dest: show_nat_inj)

lemma branch_id_not_root [simp]: "branch_id_of prefix n \<noteq> search_root_id"
  by (simp add: branch_id_of_def search_root_id_def)

section \<open>Releasing branches\<close>

datatype cleanup_operation = CancelBranches | ReleaseBranches

fun client_cleanup_op ::
  "'w search_client \<Rightarrow> cleanup_operation \<Rightarrow> string \<Rightarrow> string list \<Rightarrow> rat \<Rightarrow> ('w, exn, pydict) py" where
  "client_cleanup_op cl CancelBranches = sc_cancel_branches cl"
| "client_cleanup_op cl ReleaseBranches = sc_release_branches cl"

text \<open>
  \<open>_cleanup_call\<close>: True when the server answered.  A rejection, or a transport error that left no
  doubt, is swallowed unless the client became unusable; everything else propagates.
\<close>

definition cleanup_call ::
  "'w beam_engine \<Rightarrow> cleanup_operation \<Rightarrow> string \<Rightarrow> string list \<Rightarrow> rat \<Rightarrow> ('w, bool) beam" where
  "cleanup_call en operation inst branch_ids deadline =
     bind_p (now_p en) (\<lambda>now.
       let remaining = deadline - now in
       if remaining \<le> 0 then ret_p False
       else
         try_else
           (world_p (client_cleanup_op (be_client en) operation inst branch_ids (min 5 remaining)))
           (\<lambda>_. ret_p True)
           (\<lambda>e. client_attr client_unusable en (\<lambda>unusable.
              case e of
                RequestRejectedError _ \<Rightarrow> if unusable then raise_p e else ret_p False
              | TransportError _ uncertain _ \<Rightarrow>
                  if uncertain \<or> unusable then raise_p e else ret_p False
              | _ \<Rightarrow> raise_p e)))"

definition mark_released :: "string list \<Rightarrow> ('w, unit) beam" where
  "mark_released ids = modify_p (\<lambda>s. s\<lparr>se_released := ids @ se_released s\<rparr>)"

definition cleanup :: "'w beam_engine \<Rightarrow> string \<Rightarrow> string list \<Rightarrow> rat \<Rightarrow> ('w, unit) beam" where
  "cleanup en inst branch_ids deadline =
     (if branch_ids = [] \<or> \<not> release_branches_on_finish (be_config en) then ret_p ()
      else client_attr client_unusable en (\<lambda>unusable.
        if unusable then ret_p ()
        else
          bind_p (cleanup_call en CancelBranches inst branch_ids deadline) (\<lambda>cancelled.
            if \<not> cancelled then ret_p ()
            else client_attr client_unusable en (\<lambda>unusable.
              if unusable then ret_p ()
              else bind_p (cleanup_call en ReleaseBranches inst branch_ids deadline) (\<lambda>_. ret_p ())))))"

text \<open>\<open>_release_unneeded_whole_run_branches\<close>: all but the beam and the waiting nodes\<close>

definition releasable_ids :: "'w searching \<Rightarrow> string list" where
  "releasable_ids s =
     filter (\<lambda>b. b \<notin> set (filter (\<lambda>b. b \<noteq> search_root_id) (map bn_branch_id (se_beam s @ se_waiting s))) \<and>
                 b \<notin> set (se_released s)) (se_all_ids s)"

definition release_unneeded_whole_run_branches ::
  "'w beam_engine \<Rightarrow> string \<Rightarrow> rat \<Rightarrow> ('w, bool) beam" where
  "release_unneeded_whole_run_branches en inst deadline =
     client_attr sc_instance_type en (\<lambda>itype.
       if itype \<noteq> Some ''whole_run'' \<or> \<not> release_branches_on_finish (be_config en) then ret_p True
       else with_p (\<lambda>s.
         let releasable = releasable_ids s in
         if releasable = [] then ret_p True
         else if client_unusable (be_client en) (se_world s) then ret_p False
         else bind_p (cleanup_call en ReleaseBranches inst releasable deadline) (\<lambda>released.
           if released then then_p (mark_released releasable) (ret_p True) else ret_p False)))"

definition release_settled_branches ::
  "'w beam_engine \<Rightarrow> string \<Rightarrow> string list \<Rightarrow> rat \<Rightarrow> ('w, unit) beam" where
  "release_settled_branches en inst branch_ids deadline =
     client_attr sc_instance_type en (\<lambda>itype.
       if itype \<noteq> Some ''whole_run'' \<or> \<not> release_branches_on_finish (be_config en) then ret_p ()
       else with_p (\<lambda>s.
         let releasable = filter (\<lambda>b. b \<notin> set (se_released s)) branch_ids in
         if releasable = [] \<or> client_unusable (be_client en) (se_world s) then ret_p ()
         else bind_p (cleanup_call en ReleaseBranches inst releasable deadline) (\<lambda>released.
           if released then mark_released releasable else ret_p ())))"

section \<open>Scores\<close>

text \<open>\<open>_validated_state_scores\<close>: everything but a finite number is a \<open>RuntimeError\<close>\<close>

fun validated_score :: "pyval \<Rightarrow> exn + rat" where
  "validated_score (PInt i) = (if float_overflows i then Inl RuntimeError else Inr (of_int i))"
| "validated_score (PFloat (Fin r)) = Inr r"
| "validated_score _ = Inl RuntimeError"

definition validated_state_scores :: "pyval list \<Rightarrow> nat \<Rightarrow> exn + rat list" where
  "validated_state_scores scores expected =
     (if length scores \<noteq> expected then Inl RuntimeError else map_r validated_score scores)"

definition evaluate_states :: "'w beam_engine \<Rightarrow> pydict list \<Rightarrow> ('w, rat list) beam" where
  "evaluate_states en dtos =
     bind_p (world_p (be_evaluate_batch en dtos)) (\<lambda>raw.
       lift_p (validated_state_scores raw (length dtos)))"

section \<open>Slicing a batch\<close>

text \<open>\<open>for start in range(0, len(xs), size): xs[start : start + size]\<close>\<close>

function chunks_of :: "nat \<Rightarrow> 'a list \<Rightarrow> 'a list list" where
  "chunks_of n xs = (if n = 0 \<or> xs = [] then [] else take n xs # chunks_of n (drop n xs))"
  by pat_completeness auto
termination by (relation "measure (\<lambda>(n, xs). length xs)") auto

declare chunks_of.simps [simp del]

lemma chunks_of_Nil [simp]: "chunks_of n [] = []"
  by (simp add: chunks_of.simps)

lemma chunks_of_0 [simp]: "chunks_of 0 xs = []"
  by (simp add: chunks_of.simps)

lemma concat_chunks: "0 < n \<Longrightarrow> concat (chunks_of n xs) = xs"
  by (induction n xs rule: chunks_of.induct) (subst chunks_of.simps, simp)

lemma chunk_length: "c \<in> set (chunks_of n xs) \<Longrightarrow> c \<noteq> [] \<and> length c \<le> n"
  by (induction n xs rule: chunks_of.induct) (subst (asm) (2) chunks_of.simps, auto split: if_splits)

definition effective_batch_size :: "'w beam_engine \<Rightarrow> 'w \<Rightarrow> int" where
  "effective_batch_size en w =
     (case server_batch_limit (be_client en) w of
        None \<Rightarrow> max_batch_size (be_config en)
      | Some limit \<Rightarrow> min (max_batch_size (be_config en)) limit)"

lemma server_batch_limit_pos: "server_batch_limit cl w = Some i \<Longrightarrow> 0 < i"
  by (cases "sc_max_items cl w") (auto simp: server_batch_limit_def split: if_splits)

lemma effective_batch_size_pos: "0 < max_batch_size (be_config en) \<Longrightarrow> 0 < effective_batch_size en w"
  by (auto simp: effective_batch_size_def split: option.splits dest: server_batch_limit_pos)

text \<open>the response's \<open>branch_results\<close>: \<open>response.get(...) or {}\<close>, then a \<open>.get\<close> on it\<close>

definition results_mapping :: "pydict \<Rightarrow> exn + pydict" where
  "results_mapping response =
     (let v = dget response ''branch_results'' in
      if \<not> py_truthy v then Inr [] else (case v of PDict d \<Rightarrow> Inr d | _ \<Rightarrow> Inl AttributeError))"

end
