(* ===== verification/Beam_Frontier.thy ===== *)
theory Beam_Frontier
  imports Beam_Engine
begin

text \<open>
  One ply of \<open>BeamSearchEngine\<close> (\<open>decision/beam_search.py\<close>): proposing the children of a beam,
  fitting them into the branches the server keeps alive, emulating them with local retries, scoring
  the results and pruning the stable frontier.  The parallel lists \<open>items\<close> and \<open>item_meta\<close> of the
  code are one list of pairs.
\<close>

section \<open>Proposing\<close>

record branch_meta =
  bm_node :: beam_node
  bm_candidate :: candidate_proposal
  bm_branch_id :: string
  bm_rng_id :: int

type_synonym work = "pydict \<times> branch_meta"

definition branch_item :: "string \<Rightarrow> string \<Rightarrow> int \<Rightarrow> string \<Rightarrow> string \<Rightarrow> pydict" where
  "branch_item parent branch rng decision_point action =
     [(''parent_branch_id'', PStr parent), (''branch_id'', PStr branch), (''rng_id'', PInt rng),
      (''decision_point_id'', PStr decision_point), (''action_id'', PStr action)]"

definition expandable_actions :: "beam_config \<Rightarrow> pydict \<Rightarrow> exn + pydict list" where
  "expandable_actions cfg dto =
     (let actions = legal_action_mappings dto in
      if \<not> turn_boundary_scoring cfg then Inr actions
      else filter_r (\<lambda>a. in_str_set (dget a ''action_type'') turn_internal_action_types) actions)"

text \<open>a child of the root gets a fresh RNG id, every other child keeps its parent's\<close>

definition child_rng_id :: "beam_node \<Rightarrow> ('w, int) beam" where
  "child_rng_id node =
     (if bn_branch_id node \<noteq> search_root_id then ret_p (bn_rng_id node) else next_rng_id)"

fun propose_candidates ::
  "'w beam_engine \<Rightarrow> beam_node \<Rightarrow> string list \<Rightarrow> candidate_proposal list \<Rightarrow> ('w, work list) beam" where
  "propose_candidates en node available [] = ret_p []"
| "propose_candidates en node available (c # cs) =
     (if cp_action_id c \<notin> set available then raise_p RuntimeError
      else
        bind_p (next_branch_id en) (\<lambda>branch_id.
        bind_p (child_rng_id node) (\<lambda>rng_id.
        bind_p (propose_candidates en node available cs) (\<lambda>ws.
        ret_p ((branch_item (bn_branch_id node) branch_id rng_id (bn_decision_point_id node)
                  (cp_action_id c),
                \<lparr>bm_node = node, bm_candidate = c, bm_branch_id = branch_id, bm_rng_id = rng_id\<rparr>) # ws)))))"

text \<open>the children in order, and the nodes with nothing to expand\<close>

fun propose_nodes ::
  "'w beam_engine \<Rightarrow> (beam_node \<times> candidate_proposal list) list \<Rightarrow> ('w, work list \<times> beam_node list) beam" where
  "propose_nodes en [] = ret_p ([], [])"
| "propose_nodes en ((node, candidates) # rest) =
     (if top_k_actions (be_config en) < int (length candidates) then raise_p RuntimeError
      else if candidates = [] then
        bind_p (propose_nodes en rest) (\<lambda>(ws, exhausted). ret_p (ws, node # exhausted))
      else
        bind_p (propose_candidates en node (available_action_ids (bn_dto node)) candidates) (\<lambda>ws.
        bind_p (propose_nodes en rest) (\<lambda>(ws', exhausted). ret_p (ws @ ws', exhausted))))"

definition propose_frontier :: "'w beam_engine \<Rightarrow> beam_node list \<Rightarrow> ('w, work list \<times> beam_node list) beam" where
  "propose_frontier en beam =
     bind_p (lift_p (map_r (\<lambda>node. then_r (expandable_actions (be_config en) (bn_dto node))
                       (\<lambda>actions. Inr (actions, bn_dto node))) beam)) (\<lambda>requests.
     bind_p (world_p (propose_batch_with_provenance (be_policy en) requests
                        (PInt (top_k_actions (be_config en))))) (\<lambda>proposals.
     if length proposals \<noteq> length beam then raise_p RuntimeError
     else propose_nodes en (zip beam proposals)))"

section \<open>Pruning\<close>

definition stable_prune_node_view :: "beam_node \<Rightarrow> exn + prune_view" where
  "stable_prune_node_view node =
     (if is_continuation_decision (bn_dto node) then Inl RuntimeError
      else prune_view_init (PFloat (Fin (bn_value node))) (of_opt_str (bn_root_action_id node))
             (PInt (bn_depth node)) (PInt (bn_combat_depth node)) (PInt (bn_continuation_steps node))
             (PBool (bn_terminal node)) (of_opt_str (bn_action_type node))
             (of_opt_int (bn_policy_rank node)) (of_opt_rat (bn_policy_score node))
             (of_opt_int (bn_post_coverage_rank node)) (of_opt_str (bn_candidate_source node)))"

definition prune_step_id :: "string \<Rightarrow> nat \<Rightarrow> string" where
  "prune_step_id search_id n = search_id @ '':prune:'' @ show_nat n"

definition prune_stable_frontier ::
  "'w beam_engine \<Rightarrow> string \<Rightarrow> string \<Rightarrow> rat \<Rightarrow> beam_node list \<Rightarrow> ('w, beam_node list) beam" where
  "prune_stable_frontier en search_id phase deadline frontier =
     bind_p (now_p en) (\<lambda>now. with_p (\<lambda>s.
       let cfg = be_config en in
       bind_p (lift_p (prune_context_init (PStr search_id) (PStr (prune_step_id search_id (se_prune_step s)))
                 (PStr phase) (PInt (beam_width cfg)) (PInt (max_depth cfg))
                 (PInt (depths_completed (se_stats s)))
                 (PFloat (Fin (max 0 ((deadline - now) * 1000)))))) (\<lambda>context.
       bind_p (lift_p (map_r stable_prune_node_view frontier)) (\<lambda>views.
       bind_p (world_p (be_select en views (PInt (beam_width cfg)) context)) (\<lambda>selected.
       bind_p (lift_p (validated_pruner_indices selected (length frontier) (beam_width cfg))) (\<lambda>indices.
       ret_p (map ((!) frontier) indices)))))))"

section \<open>The active branches of a Whole Run\<close>

definition works_of :: "work list \<Rightarrow> beam_node \<Rightarrow> work list" where
  "works_of works node = filter (\<lambda>w. bn_branch_id (bm_node (snd w)) = bn_branch_id node) works"

text \<open>
  The loop over the beam: each parent that is not the root costs a slot of its own; its children
  take the slots that remain.  The result is the selected parents, their selected children, the
  slots used, and whether anything was left out.
\<close>

definition parent_cost :: "beam_node \<Rightarrow> int" where
  "parent_cost node = (if bn_branch_id node = search_root_id then 0 else 1)"

fun fit_parents ::
  "int \<Rightarrow> work list \<Rightarrow> int \<Rightarrow> beam_node list \<Rightarrow> beam_node list \<times> work list \<times> int \<times> bool" where
  "fit_parents capacity works used [] = ([], [], used, False)"
| "fit_parents capacity works used (node # rest) =
     (let children = works_of works node in
      if children = [] then
        (case fit_parents capacity works used rest of (beam, ws, used', _) \<Rightarrow> (beam, ws, used', True))
      else
        let remaining = capacity - used - parent_cost node
        in if remaining \<le> 0 then ([], [], used, True)
           else
             let taken = min (int (length children)) remaining;
                 used' = used + parent_cost node + taken
             in if taken < int (length children)
                then ([node], take (nat taken) children, used', True)
                else (case fit_parents capacity works used' rest of
                        (beam, ws, used'', limited) \<Rightarrow> (node # beam, children @ ws, used'', limited)))"

record fitted =
  ft_beam :: "beam_node list"
  ft_waiting :: "beam_node list"
  ft_works :: "work list"
  ft_finished :: "beam_node list"
  ft_limited :: bool

definition fit_to_capacity :: "int \<Rightarrow> beam_node list \<Rightarrow> beam_node list \<Rightarrow> work list \<Rightarrow> fitted" where
  "fit_to_capacity capacity beam waiting works =
     (case fit_parents capacity works 0 beam of (selected, ws, used, limited) \<Rightarrow>
        let selected_ids = map bn_branch_id selected;
            pruned_beam = filter (\<lambda>n. bn_branch_id n \<notin> set selected_ids) beam;
            budget = nat (max 0 (capacity - used));
            ranked = sorted_desc bn_value waiting;
            pruned_waiting = drop budget ranked
        in \<lparr>ft_beam = selected, ft_waiting = take budget ranked, ft_works = ws,
            ft_finished = filter is_macro_resolved (pruned_beam @ pruned_waiting),
            ft_limited = (limited \<or> pruned_beam \<noteq> [] \<or> pruned_waiting \<noteq> [] \<or> length ws \<noteq> length works)\<rparr>)"

definition fit_whole_run_frontier_to_active_capacity ::
  "int option \<Rightarrow> beam_node list \<Rightarrow> beam_node list \<Rightarrow> work list \<Rightarrow> fitted" where
  "fit_whole_run_frontier_to_active_capacity capacity beam waiting works =
     (case capacity of
        None \<Rightarrow> \<lparr>ft_beam = beam, ft_waiting = waiting, ft_works = works, ft_finished = [], ft_limited = False\<rparr>
      | Some capacity \<Rightarrow> fit_to_capacity capacity beam waiting works)"

section \<open>Emulating with local retries\<close>

text \<open>a retried child keeps its parent, action and RNG id and gets a fresh branch id\<close>

definition make_retry_item :: "'w beam_engine \<Rightarrow> work \<Rightarrow> ('w, work) beam" where
  "make_retry_item en w =
     bind_p (next_branch_id en) (\<lambda>branch_id.
       ret_p (dset (fst w) ''branch_id'' (PStr branch_id), (snd w)\<lparr>bm_branch_id := branch_id\<rparr>))"

text \<open>\<open>final_results\<close> and \<open>final_meta_by_order\<close>\<close>

record emulated =
  em_results :: pydict
  em_metas :: "(nat \<times> branch_meta) list"

definition keep_result :: "emulated \<Rightarrow> pyval \<Rightarrow> branch_meta \<Rightarrow> nat \<Rightarrow> emulated" where
  "keep_result em result meta order =
     \<lparr>em_results = dset (em_results em) (bm_branch_id meta) result,
      em_metas = AList.update order meta (em_metas em)\<rparr>"

definition ordered_final_meta :: "emulated \<Rightarrow> branch_meta list" where
  "ordered_final_meta em = map snd (sort_key fst (em_metas em))"

text \<open>the results of one chunk; an unresolved child is retried unless this was the last attempt\<close>

fun take_results ::
  "nat \<Rightarrow> bool \<Rightarrow> pydict \<Rightarrow> emulated \<Rightarrow> (work \<times> nat) list \<Rightarrow> ('w, emulated \<times> (work \<times> nat) list) beam" where
  "take_results attempt is_last results em [] = ret_p (em, [])"
| "take_results attempt is_last results em ((w, order) # rest) =
     (let result = dget results (bm_branch_id (snd w)) in
      bind_p (lift_p (is_resolved_branch_result result)) (\<lambda>resolved.
        if resolved then
          then_p (if 0 < attempt
                  then count_p (\<lambda>t. t\<lparr>branch_retry_recoveries := branch_retry_recoveries t + 1\<rparr>)
                  else ret_p ())
            (take_results attempt is_last results (keep_result em result (snd w) order) rest)
        else if is_last then
          take_results attempt is_last results (keep_result em result (snd w) order) rest
        else
          bind_p (take_results attempt is_last results em rest) (\<lambda>(em', retry).
            ret_p (em', (w, order) # retry))))"

definition register_branches :: "string list \<Rightarrow> ('w, unit) beam" where
  "register_branches ids =
     then_p (modify_p (\<lambda>s. s\<lparr>se_all_ids := se_all_ids s @ ids\<rparr>))
       (count_p (\<lambda>t. t\<lparr>branches_created := branches_created t + int (length ids)\<rparr>))"

definition rejection_detail :: "pydict \<Rightarrow> string" where
  "rejection_detail response =
     (case dget response ''fault_kind'' of
        PStr k \<Rightarrow> if k = [] then ''RequestRejectedError'' else k
      | _ \<Rightarrow> ''RequestRejectedError'')"

text \<open>the chunks of one attempt: what was kept, what is retried, and why the batch stopped, if it did\<close>

fun emulate_chunks ::
  "'w beam_engine \<Rightarrow> string \<Rightarrow> rat \<Rightarrow> nat \<Rightarrow> bool \<Rightarrow> emulated \<Rightarrow> (work \<times> nat) list list
     \<Rightarrow> ('w, emulated \<times> (work \<times> nat) list \<times> string option) beam" where
  "emulate_chunks en inst deadline attempt is_last em [] = ret_p (em, [], None)"
| "emulate_chunks en inst deadline attempt is_last em (chunk # chunks) =
     bind_p (now_p en) (\<lambda>now.
       if deadline - now \<le> 0 then ret_p (em, [], Some ''time_budget'')
       else
         try_else
           (world_p (sc_emulate_actions (be_client en) inst (map (fst \<circ> fst) chunk) (deadline - now)
                       (simulation_options (be_config en))))
           (\<lambda>response.
              then_p (register_branches (map (bm_branch_id \<circ> snd \<circ> fst) chunk))
             (bind_p (lift_p (results_mapping response)) (\<lambda>results.
              bind_p (take_results attempt is_last results em chunk) (\<lambda>(em', retry).
              bind_p (emulate_chunks en inst deadline attempt is_last em' chunks) (\<lambda>(em'', retry', fatal).
              ret_p (em'', retry @ retry', fatal))))))
           (\<lambda>e. case e of
              RequestRejectedError response \<Rightarrow>
                client_attr client_unusable en (\<lambda>unusable.
                  if unusable then raise_p e
                  else ret_p (em, [], Some (''emulate_actions_rejected:'' @ rejection_detail response)))
            | _ \<Rightarrow> raise_p e))"

text \<open>\<open>for attempt_index in range(max_branch_attempts)\<close>; \<open>n\<close> attempts are left\<close>

fun emulate_attempts ::
  "'w beam_engine \<Rightarrow> string \<Rightarrow> rat \<Rightarrow> nat \<Rightarrow> nat \<Rightarrow> nat \<Rightarrow> emulated \<Rightarrow> (work \<times> nat) list
     \<Rightarrow> ('w, emulated \<times> string option) beam" where
  "emulate_attempts en inst deadline chunk_size attempt 0 em pending = ret_p (em, None)"
| "emulate_attempts en inst deadline chunk_size attempt (Suc n) em pending =
     bind_p (emulate_chunks en inst deadline attempt (n = 0) em (chunks_of chunk_size pending))
       (\<lambda>(em', retry, fatal).
          if fatal \<noteq> None then ret_p (em', fatal)
          else if retry = [] then ret_p (em', None)
          else
            then_p (count_p (\<lambda>t. t\<lparr>branch_retry_faults := branch_retry_faults t + int (length retry)\<rparr>))
           (bind_p (collect_p (\<lambda>(w, order). bind_p (make_retry_item en w) (\<lambda>w'. ret_p (w', order))) retry)
              (\<lambda>pending'. emulate_attempts en inst deadline chunk_size (Suc attempt) n em' pending')))"

definition emulate_depth_batch ::
  "'w beam_engine \<Rightarrow> string \<Rightarrow> rat \<Rightarrow> work list \<Rightarrow> ('w, pydict \<times> branch_meta list \<times> string option) beam" where
  "emulate_depth_batch en inst deadline works = with_p (\<lambda>s.
     bind_p (emulate_attempts en inst deadline (nat (effective_batch_size en (se_world s))) 0
               (nat (max_branch_attempts (be_config en))) \<lparr>em_results = [], em_metas = []\<rparr>
               (zip works [0 ..< length works]))
       (\<lambda>(em, fatal). ret_p (em_results em, ordered_final_meta em, fatal)))"

section \<open>Scoring\<close>

record resolved_entry =
  re_meta :: branch_meta
  re_result :: pydict
  re_dto :: pydict

text \<open>the resolved branches in order, and the number of faulted ones\<close>

fun resolve_results :: "pydict \<Rightarrow> branch_meta list \<Rightarrow> exn + resolved_entry list \<times> int" where
  "resolve_results results [] = Inr ([], 0)"
| "resolve_results results (m # ms) =
     (let result = dget results (bm_branch_id m) in
      then_r (is_resolved_branch_result result) (\<lambda>resolved.
      then_r (resolve_results results ms) (\<lambda>(entries, faulted).
        case (resolved, result, vget result ''masked_emulator_dto'') of
          (True, PDict r, PDict dto) \<Rightarrow> Inr (\<lparr>re_meta = m, re_result = r, re_dto = dto\<rparr> # entries, faulted)
        | _ \<Rightarrow> Inr (entries, faulted + 1))))"

definition needs_state_score :: "string option \<Rightarrow> string list \<Rightarrow> pydict \<Rightarrow> exn + bool" where
  "needs_state_score itype allowed dto =
     (if is_terminal dto then Inr True
      else if is_continuation_decision dto then Inr False
      else then_r (is_whole_run_unresolved_out_of_scope itype dto allowed) (\<lambda>out. Inr (\<not> out)))"

text \<open>\<open>tuple(value or ())\<close>\<close>

definition py_tuple :: "pyval \<Rightarrow> exn + pyval list" where
  "py_tuple v =
     (if \<not> py_truthy v then Inr []
      else case v of
          PList xs \<Rightarrow> Inr xs
        | PStr s \<Rightarrow> Inr (map (\<lambda>c. PStr [c]) s)
        | PDict d \<Rightarrow> Inr (map PStr (dkeys d))
        | _ \<Rightarrow> Inl TypeError)"

text \<open>\<open>node.root_action_id or candidate.action_id\<close>\<close>

definition root_action_of :: "beam_node \<Rightarrow> string \<Rightarrow> string" where
  "root_action_of node aid =
     (case bn_root_action_id node of Some r \<Rightarrow> if r = [] then aid else r | None \<Rightarrow> aid)"

definition string_or_empty :: "pyval \<Rightarrow> string" where
  "string_or_empty v = (case v of PStr s \<Rightarrow> s | _ \<Rightarrow> [])"

definition is_continuation_type :: "string \<Rightarrow> bool" where
  "is_continuation_type t \<longleftrightarrow> t \<in> set continuation_action_types"

definition child_node :: "resolved_entry \<Rightarrow> string \<Rightarrow> rat \<Rightarrow> pyval list \<Rightarrow> beam_node" where
  "child_node e action_type score blog =
     (let m = re_meta e; node = bm_node m; c = bm_candidate m; aid = cp_action_id c in
      \<lparr>bn_branch_id = bm_branch_id m, bn_parent_branch_id = bn_branch_id node,
       bn_rng_id = bm_rng_id m, bn_decision_point_id = string_or_empty (dget (re_result e) ''decision_point_id''),
       bn_dto = re_dto e, bn_depth = bn_depth node + 1, bn_value = score,
       bn_root_action_id = Some (root_action_of node aid),
       bn_combat_depth = bn_combat_depth node + (if is_continuation_type action_type then 0 else 1),
       bn_continuation_steps =
         (if is_continuation_type action_type then bn_continuation_steps node + 1 else 0),
       bn_branch_log = blog, bn_terminal = is_terminal (re_dto e), bn_action_id = Some aid,
       bn_action_type = Some action_type, bn_action = action_for_id (bn_dto node) aid,
       bn_policy_rank = cp_policy_rank c, bn_policy_score = cp_policy_score c,
       bn_post_coverage_rank = Some (cp_post_coverage_rank c),
       bn_candidate_source = Some (cp_candidate_source c)\<rparr>)"

datatype placement = OutOfScope | Leaf beam_node | DepthLeaf beam_node | Expand beam_node | OverLimit

definition place_node :: "beam_config \<Rightarrow> int option \<Rightarrow> resolved_entry \<Rightarrow> beam_node \<Rightarrow> placement" where
  "place_node cfg root_turn e node =
     (if bn_terminal node \<or> bn_decision_point_id node = [] \<or>
         (dget (re_result e) ''status'' = PStr ''partial'' \<and> \<not> expand_partial cfg) then Leaf node
      else if turn_boundary_scoring cfg \<and> crossed_turn_boundary (re_dto e) root_turn then Leaf node
      else if is_continuation_decision (re_dto e) then
        (if max_continuation_steps cfg \<le> bn_continuation_steps node then OverLimit else Expand node)
      else if max_depth cfg \<le> bn_combat_depth node then DepthLeaf node
      else Expand node)"

definition place_entry ::
  "beam_config \<Rightarrow> string option \<Rightarrow> int option \<Rightarrow> (string \<times> rat) list \<Rightarrow> resolved_entry \<Rightarrow> exn + placement" where
  "place_entry cfg itype root_turn scores e =
     (let m = re_meta e; node = bm_node m in
      case action_type_for_id (bn_dto node) (cp_action_id (bm_candidate m)) of
        None \<Rightarrow> Inl RuntimeError
      | Some action_type \<Rightarrow>
          then_r (is_whole_run_unresolved_out_of_scope itype (re_dto e) (beam_searchable_action_types cfg))
            (\<lambda>out. if out then Inr OutOfScope
              else
                then_r (py_tuple (dget (re_result e) ''branch_log'')) (\<lambda>blog.
                  let score = (case map_of scores (bm_branch_id m) of None \<Rightarrow> bn_value node | Some v \<Rightarrow> v)
                  in Inr (place_node cfg root_turn e (child_node e action_type score blog)))))"

record scored =
  so_next :: "beam_node list"
  so_finished :: "beam_node list"
  so_hit_max_depth :: bool
  so_hit_continuation_limit :: bool
  so_faulted :: int
  so_out_of_scope :: int

fun expand_of :: "placement \<Rightarrow> beam_node option" where
  "expand_of (Expand n) = Some n"
| "expand_of _ = None"

fun leaf_of :: "placement \<Rightarrow> beam_node option" where
  "leaf_of (Leaf n) = Some n"
| "leaf_of (DepthLeaf n) = Some n"
| "leaf_of _ = None"

fun is_depth_leaf :: "placement \<Rightarrow> bool" where
  "is_depth_leaf (DepthLeaf _) = True"
| "is_depth_leaf _ = False"

definition gather_placements :: "int \<Rightarrow> placement list \<Rightarrow> scored" where
  "gather_placements faulted ps =
     \<lparr>so_next = List.map_filter expand_of ps, so_finished = List.map_filter leaf_of ps,
      so_hit_max_depth = list_ex is_depth_leaf ps,
      so_hit_continuation_limit = list_ex (\<lambda>p. p = OverLimit) ps,
      so_faulted = faulted,
      so_out_of_scope = int (length (filter (\<lambda>p. p = OutOfScope) ps))\<rparr>"

definition score_entries ::
  "'w beam_engine \<Rightarrow> resolved_entry list \<Rightarrow> ('w, (string \<times> rat) list) beam" where
  "score_entries en entries =
     (if entries = [] then ret_p []
      else bind_p (evaluate_states en (map re_dto entries)) (\<lambda>scores.
             ret_p (rev (zip (map (bm_branch_id \<circ> re_meta) entries) scores))))"

definition score_frontier ::
  "'w beam_engine \<Rightarrow> branch_meta list \<Rightarrow> pydict \<Rightarrow> int option \<Rightarrow> ('w, scored) beam" where
  "score_frontier en metas results root_turn =
     client_attr sc_instance_type en (\<lambda>itype.
     let cfg = be_config en in
     bind_p (lift_p (resolve_results results metas)) (\<lambda>(entries, faulted).
     bind_p (lift_p (filter_r (\<lambda>e. needs_state_score itype (beam_searchable_action_types cfg) (re_dto e)) entries))
       (\<lambda>scorable.
     bind_p (score_entries en scorable) (\<lambda>scores.
     client_attr sc_instance_type en (\<lambda>itype.
     bind_p (lift_p (map_r (place_entry cfg itype root_turn scores) entries)) (\<lambda>ps.
     ret_p (gather_placements faulted ps)))))))"

section \<open>Facts about the capacity\<close>

abbreviation work_id :: "work \<Rightarrow> string" where
  "work_id w \<equiv> bm_branch_id (snd w)"

abbreviation parent_id :: "work \<Rightarrow> string" where
  "parent_id w \<equiv> bn_branch_id (bm_node (snd w))"

lemma works_of_facts:
  "set (works_of works node) \<subseteq> set works"
  "\<forall>w \<in> set (works_of works node). parent_id w = bn_branch_id node"
  "distinct (map work_id works) \<Longrightarrow> distinct (map work_id (works_of works node))"
  by (auto simp: works_of_def distinct_map_filter)

text \<open>the branches alive while a fitted ply runs: the parents that are not the root, and the children\<close>

definition live_branches :: "beam_node list \<Rightarrow> work list \<Rightarrow> int" where
  "live_branches beam works =
     int (length (filter (\<lambda>n. bn_branch_id n \<noteq> search_root_id) beam)) + int (length works)"

lemma fit_parents_cases:
  obtains (none) b ws u l where "works_of works node = []" "fit_parents cap works used rest = (b, ws, u, l)"
      "fit_parents cap works used (node # rest) = (b, ws, u, True)"
  | (full) "works_of works node \<noteq> []" "fit_parents cap works used (node # rest) = ([], [], used, True)"
  | (partial) k where "0 < k" "k < length (works_of works node)" "used + parent_cost node + int k = cap"
      "fit_parents cap works used (node # rest) = ([node], take k (works_of works node), cap, True)"
  | (all) n b ws u l where "n = int (length (works_of works node))" "0 < n" "used + parent_cost node + n \<le> cap"
      "fit_parents cap works (used + parent_cost node + n) rest = (b, ws, u, l)"
      "fit_parents cap works used (node # rest) = (node # b, works_of works node @ ws, u, l)"
proof -
  let ?ch = "works_of works node"
  obtain r n where r: "r = cap - used - parent_cost node" and n: "n = int (length ?ch)" by blast
  consider "?ch = []" | "?ch \<noteq> []" "r \<le> 0" | "?ch \<noteq> []" "0 < r" "r < n" | "?ch \<noteq> []" "0 < r" "n \<le> r"
    by linarith
  then show thesis
  proof cases
    case 1
    then show thesis by (cases "fit_parents cap works used rest") (auto intro: none)
  next
    case 2
    then show thesis using r by (intro full) (simp_all add: Let_def)
  next
    case 3
    then have "fit_parents cap works used (node # rest) = ([node], take (nat r) ?ch, cap, True)"
      using r n by (simp add: Let_def min_def)
    with 3 r n show thesis by (intro partial [of "nat r"]) auto
  next
    case 4
    obtain b ws u l where rec: "fit_parents cap works (used + parent_cost node + n) rest = (b, ws, u, l)"
      by (cases "fit_parents cap works (used + parent_cost node + n) rest")
    have "min n r = n" "\<not> r \<le> 0" using 4 by auto
    then have "fit_parents cap works used (node # rest) = (node # b, ?ch @ ws, u, l)"
      using 4(1) rec unfolding fit_parents.simps Let_def r [symmetric] n [symmetric] by simp
    with 4 r n rec show thesis by (intro all [of n b ws u l]) auto
  qed
qed

lemma fit_parents_slots:
  assumes "fit_parents capacity works used beam = (beam', ws, used', limited)"
  shows "used' = used + live_branches beam' ws \<and> (ws \<noteq> [] \<longrightarrow> used' \<le> capacity) \<and> (beam' = [] \<longleftrightarrow> ws = [])"
  using assms
proof (induction beam arbitrary: used beam' ws used' limited)
  case Nil
  then show ?case by (simp add: live_branches_def)
next
  case (Cons node rest)
  have cost: "parent_cost node = live_branches [node] []" by (simp add: parent_cost_def live_branches_def)
  show ?case
  proof (cases rule: fit_parents_cases [of works node capacity used rest])
    case none
    with Cons show ?thesis by auto
  next
    case full
    with Cons.prems show ?thesis by (simp add: live_branches_def)
  next
    case (partial k)
    with Cons.prems cost show ?thesis by (auto simp: live_branches_def)
  next
    case (all n b us u l)
    have out: "beam' = node # b" "ws = works_of works node @ us" "used' = u" using Cons.prems all(5) by auto
    with Cons.IH [OF all(4)] all(1-3) cost show ?thesis by (auto simp: live_branches_def)
  qed
qed

lemma fit_parents_sub:
  assumes "fit_parents capacity works used beam = (beam', ws, used', limited)"
    and "distinct (map work_id works)" "distinct (map bn_branch_id beam)"
  shows "set beam' \<subseteq> set beam \<and> distinct (map bn_branch_id beam') \<and> set ws \<subseteq> set works \<and>
    distinct (map work_id ws) \<and> parent_id ` set ws \<subseteq> bn_branch_id ` set beam'"
  using assms(1,3)
proof (induction beam arbitrary: used beam' ws used' limited)
  case (Cons node rest)
  note kids = works_of_facts(1,2) [of works] works_of_facts(3) [OF assms(2)]
  show ?case
  proof (cases rule: fit_parents_cases [of works node capacity used rest])
    case (none b us u l)
    with Cons.IH [OF none(2)] Cons.prems show ?thesis by auto
  next
    case full
    with Cons.prems(1) show ?thesis by simp
  next
    case (partial k)
    with Cons.prems(1) kids [of node]
    show ?thesis by (auto simp: take_map [symmetric] distinct_take dest!: in_set_takeD)
  next
    case (all n b us u l)
    have out: "beam' = node # b" "ws = works_of works node @ us" using Cons.prems(1) all(5) by auto
    have IH: "set b \<subseteq> set rest" "distinct (map bn_branch_id b)" "set us \<subseteq> set works"
      "distinct (map work_id us)" "parent_id ` set us \<subseteq> bn_branch_id ` set b"
      using Cons.IH [OF all(4)] Cons.prems(2) by auto
    have new: "bn_branch_id node \<notin> bn_branch_id ` set b" using IH(1) Cons.prems(2) by auto
    have "parent_id w \<noteq> parent_id w'" if "w \<in> set (works_of works node)" "w' \<in> set us" for w w'
      using that kids(2) [of node] IH(5) new by (metis imageI subsetD)
    moreover have "w = w'" if "w \<in> set works" "w' \<in> set works" "work_id w = work_id w'" for w w'
      using that assms(2) by (auto simp: distinct_map dest: inj_onD)
    ultimately have "work_id ` set (works_of works node) \<inter> work_id ` set us = {}"
      using kids(1) [of node] IH(3) by (fastforce dest: subsetD)
    with IH kids [of node] new out show ?thesis by auto
  qed
qed simp

text \<open>C37: Fitting a ply into a server capacity: as soon as any child is emulated, the parents that are not
  the root, the children and the waiting nodes together fit into the capacity; the children kept are
  proposed ones, each of a selected parent; the waiting nodes kept are the best; and nothing that is
  resolved is lost, since every parent or waiting node left out becomes a finished leaf.\<close>

theorem capacity_is_respected:
  assumes "fit_whole_run_frontier_to_active_capacity (Some capacity) beam waiting works = fit"
    and "distinct (map work_id works)" "distinct (map bn_branch_id beam)"
  shows "(ft_works fit \<noteq> [] \<longrightarrow>
      live_branches (ft_beam fit) (ft_works fit) + int (length (ft_waiting fit)) \<le> capacity) \<and>
    set (ft_works fit) \<subseteq> set works \<and> parent_id ` set (ft_works fit) \<subseteq> bn_branch_id ` set (ft_beam fit) \<and>
    ft_waiting fit = take (length (ft_waiting fit)) (sorted_desc bn_value waiting) \<and>
    set (filter is_macro_resolved (beam @ waiting)) \<subseteq>
      set (ft_beam fit) \<union> set (ft_waiting fit) \<union> set (ft_finished fit)"
proof -
  obtain selected ws used limited where f: "fit_parents capacity works 0 beam = (selected, ws, used, limited)"
    by (cases "fit_parents capacity works 0 beam")
  note slots = fit_parents_slots [OF f] and sub = fit_parents_sub [OF f assms(2,3)]
  let ?budget = "nat (max 0 (capacity - used))" and ?ranked = "sorted_desc bn_value waiting"
  have fit: "ft_beam fit = selected" "ft_works fit = ws" "ft_waiting fit = take ?budget ?ranked"
    "ft_finished fit = filter is_macro_resolved
       (filter (\<lambda>n. bn_branch_id n \<notin> bn_branch_id ` set selected) beam @ drop ?budget ?ranked)"
    using assms(1) f by (auto simp: fit_whole_run_frontier_to_active_capacity_def fit_to_capacity_def Let_def)
  have "int (length (take ?budget ?ranked)) \<le> max 0 (capacity - used)" by simp
  with slots have "ws \<noteq> [] \<longrightarrow> live_branches selected ws + int (length (take ?budget ?ranked)) \<le> capacity"
    by auto
  moreover have "n \<in> set selected" if "n \<in> set beam" "bn_branch_id n \<in> bn_branch_id ` set selected" for n
    using that sub assms(3) by (auto simp: distinct_map dest!: inj_onD)
  moreover have "set waiting = set (take ?budget ?ranked) \<union> set (drop ?budget ?ranked)"
    by (metis append_take_drop_id set_append sorted_desc_set)
  moreover have "take (length (take ?budget ?ranked)) ?ranked = take ?budget ?ranked"
    by (simp add: min_def)
  ultimately show ?thesis
    using sub unfolding fit by auto
qed

text \<open>two parents with three children and two waiting nodes, in a capacity of three\<close>

definition demo_node :: "string \<Rightarrow> rat \<Rightarrow> beam_node" where
  "demo_node bid v =
     \<lparr>bn_branch_id = bid, bn_parent_branch_id = search_root_id, bn_rng_id = 1,
      bn_decision_point_id = ''d'', bn_dto = [], bn_depth = 1, bn_value = v,
      bn_root_action_id = Some ''a'', bn_combat_depth = 1, bn_continuation_steps = 0,
      bn_branch_log = [], bn_terminal = True, bn_action_id = None, bn_action_type = None,
      bn_action = None, bn_policy_rank = None, bn_policy_score = None,
      bn_post_coverage_rank = None, bn_candidate_source = None\<rparr>"

definition demo_work :: "beam_node \<Rightarrow> string \<Rightarrow> work" where
  "demo_work node bid =
     (branch_item (bn_branch_id node) bid 1 ''d'' ''a'',
      \<lparr>bm_node = node, bm_candidate = coverage_proposal ''a'', bm_branch_id = bid, bm_rng_id = 1\<rparr>)"

definition demo_fit :: fitted where
  "demo_fit =
     fit_whole_run_frontier_to_active_capacity (Some 3)
       [demo_node search_root_id 0, demo_node ''p'' 0] [demo_node ''w1'' 1, demo_node ''w2'' 2]
       [demo_work (demo_node search_root_id 0) ''x'', demo_work (demo_node search_root_id 0) ''y'',
        demo_work (demo_node ''p'' 0) ''z'']"

lemma demo_fit_run:
  "ft_works demo_fit \<noteq> [] \<and> map bn_branch_id (ft_waiting demo_fit) = [''w2''] \<and>
   map bn_branch_id (ft_finished demo_fit) = [''p'', ''w1'']"
  by code_simp

theorem capacity_is_respected_witness:
  "live_branches (ft_beam demo_fit) (ft_works demo_fit) + int (length (ft_waiting demo_fit)) \<le> 3 \<and>
   map bn_branch_id (ft_waiting demo_fit) = [''w2'']"
  using capacity_is_respected [OF demo_fit_def [symmetric]] demo_fit_run
  by (simp add: demo_work_def demo_node_def search_root_id_def)

end
