(* ===== verification/Action_Classification.thy ===== *)
theory Action_Classification
  imports Combat_Decision
begin

text \<open>
  \<open>selection/action_classification.py\<close>: the available actions of a decision and their groups by
  \<open>action_type\<close>.  A group is found by the type's string; a type that cannot be a key of a dictionary
  raises \<open>TypeError\<close>.
\<close>

section \<open>Available actions\<close>

definition available_actions :: "pydict list \<Rightarrow> pydict list" where
  "available_actions legal_actions = filter is_available legal_actions"

definition actions_of_type :: "pydict list \<Rightarrow> string \<Rightarrow> pydict list" where
  "actions_of_type legal_actions t =
     filter (\<lambda>a. dget a ''action_type'' = PStr t) (available_actions legal_actions)"

definition reward_card_actions :: "pydict list \<Rightarrow> pydict list" where
  "reward_card_actions legal_actions = actions_of_type legal_actions ''choice_reward_card''"

definition map_room_actions :: "pydict list \<Rightarrow> pydict list" where
  "map_room_actions legal_actions = actions_of_type legal_actions ''map_room''"

definition choice_event_option_actions :: "pydict list \<Rightarrow> pydict list" where
  "choice_event_option_actions legal_actions = actions_of_type legal_actions ''choice_event_option''"

definition rest_option_actions :: "pydict list \<Rightarrow> pydict list" where
  "rest_option_actions legal_actions = actions_of_type legal_actions ''choice_rest_option''"

lemma available_actions_idem [simp]: "available_actions (available_actions xs) = available_actions xs"
  by (simp add: available_actions_def)

lemma actions_of_type_available [simp]: "actions_of_type (available_actions xs) t = actions_of_type xs t"
  by (simp add: actions_of_type_def)

lemma actions_of_type_set:
  "a \<in> set (actions_of_type xs t) \<longleftrightarrow> a \<in> set (available_actions xs) \<and> dget a ''action_type'' = PStr t"
  by (auto simp: actions_of_type_def)

lemma available_actions_set: "a \<in> set (available_actions xs) \<longleftrightarrow> a \<in> set xs \<and> is_available a"
  by (auto simp: available_actions_def)

lemma actions_of_type_idem [simp]:
  "actions_of_type (actions_of_type xs t) u = (if t = u then actions_of_type xs t else [])"
  by (auto simp: actions_of_type_def available_actions_def intro: filter_cong)

section \<open>Groups\<close>

type_synonym action_groups = "(pyval \<times> pydict list) list"

text \<open>\<open>groups.setdefault(k, []).append(a)\<close>\<close>

fun group_insert :: "pyval \<Rightarrow> pydict \<Rightarrow> action_groups \<Rightarrow> action_groups" where
  "group_insert k a [] = [(k, [a])]"
| "group_insert k a ((k', as) # gs) =
     (if py_eq k k' then (k', as @ [a]) # gs else (k', as) # group_insert k a gs)"

fun group_actions :: "action_groups \<Rightarrow> pydict list \<Rightarrow> exn + action_groups" where
  "group_actions gs [] = Inr gs"
| "group_actions gs (a # as) =
     (let k = dget a ''action_type'' in
      if hashable k then group_actions (group_insert k a gs) as else Inl TypeError)"

definition group_by_action_type :: "pydict list \<Rightarrow> exn + action_groups" where
  "group_by_action_type legal_actions = group_actions [] (available_actions legal_actions)"

text \<open>\<open>by_type.get(t)\<close>; no group is the empty list, which is as false as \<open>None\<close>\<close>

definition group_of :: "action_groups \<Rightarrow> string \<Rightarrow> pydict list" where
  "group_of gs t = (case map_of gs (PStr t) of None \<Rightarrow> [] | Some as \<Rightarrow> as)"

lemma group_of_Nil [simp]: "group_of [] t = []"
  by (simp add: group_of_def)

lemma group_of_insert:
  "group_of (group_insert k a gs) t = (if k = PStr t then group_of gs t @ [a] else group_of gs t)"
  by (induction k a gs rule: group_insert.induct) (auto simp: group_of_def)

lemma group_actions_groups:
  "group_actions gs as = Inr gs' \<Longrightarrow>
     group_of gs' t = group_of gs t @ filter (\<lambda>a. dget a ''action_type'' = PStr t) as"
  by (induction gs as rule: group_actions.induct)
    (auto simp: Let_def group_of_insert split: if_splits)

lemma group_actions_hashable:
  "(\<exists>gs'. group_actions gs as = Inr gs') \<longleftrightarrow> (\<forall>a \<in> set as. hashable (dget a ''action_type''))"
  by (induction gs as rule: group_actions.induct) (auto simp: Let_def)

text \<open>grouping finds what filtering by the type finds\<close>

lemma group_by_action_type_group:
  "group_by_action_type xs = Inr gs \<Longrightarrow> group_of gs t = actions_of_type xs t"
  by (simp add: group_by_action_type_def actions_of_type_def group_actions_groups)

end
