(* ===== verification/Event_Branch_Search.thy ===== *)
theory Event_Branch_Search
  imports Beam_Frontier Action_Classification
begin

text \<open>
  \<open>decision/event_branch_search.py\<close>: the options of an event are simulated, each on a branch of its own
  with its own random hypothesis, and the one that leaves the most hit points is preferred.  The
  client is the one of the beam search with the operations this module and the decision engine call in
  addition.  While a search runs, \<open>ee_created\<close> is the list \<open>created_branch_ids\<close>.
\<close>

section \<open>The client and the state\<close>

record 'w decision_client = "'w search_client" +
  dc_emulate_action ::
    "string \<Rightarrow> string \<Rightarrow> string \<Rightarrow> int \<Rightarrow> string \<Rightarrow> string \<Rightarrow> rat \<Rightarrow> ('w, exn, pydict) py"
  dc_boundaries :: "'w \<Rightarrow> string set"
  dc_retry :: "'w \<Rightarrow> retry_request option"
  dc_defer :: "retry_request \<Rightarrow> string \<Rightarrow> string list \<Rightarrow> ('w, exn, unit) py"
  dc_get_decision :: "string \<Rightarrow> string \<Rightarrow> rat \<Rightarrow> ('w, exn, pyval) py"
  dc_commit_action :: "string \<Rightarrow> string \<Rightarrow> string \<Rightarrow> rat \<Rightarrow> ('w, exn, pydict) py"
  dc_uuid_hex :: "'w \<Rightarrow> string \<times> 'w"

record 'w evaluating =
  ee_world :: 'w
  ee_created :: "string list"

type_synonym ('w, 'a) event = "('w evaluating, exn, 'a) py"

definition event_p :: "('w, exn, 'a) py \<Rightarrow> ('w, 'a) event" where
  "event_p m = (\<lambda>s. case m (ee_world s) of (r, w) \<Rightarrow> (r, s\<lparr>ee_world := w\<rparr>))"

definition event_now :: "('w, 'z) search_client_scheme \<Rightarrow> ('w, rat) event" where
  "event_now dc = event_p (\<lambda>w. case sc_now dc w of (t, w') \<Rightarrow> (Inr t, w'))"

definition own_branches :: "string list \<Rightarrow> ('w, unit) event" where
  "own_branches ids = modify_p (\<lambda>s. s\<lparr>ee_created := ee_created s @ ids\<rparr>)"

definition event_client_unusable :: "'w decision_client \<Rightarrow> 'w \<Rightarrow> bool" where
  "event_client_unusable dc w \<longleftrightarrow> dc_retry dc w \<noteq> None \<or> sc_session_invalid dc w"

definition supports_event_batch :: "'w decision_client \<Rightarrow> 'w \<Rightarrow> bool" where
  "supports_event_batch dc w \<longleftrightarrow> ''event_choice'' \<in> dc_boundaries dc w"

section \<open>Candidates\<close>

text \<open>a candidate: its branch, its action and its random hypothesis\<close>

type_synonym event_candidate = "string \<times> string \<times> int"

definition event_branch_id :: "string \<Rightarrow> nat \<Rightarrow> string \<Rightarrow> string" where
  "event_branch_id decision_point index hex =
     ''event-eval-'' @ decision_point @ ''-'' @ show_nat index @ ''-'' @ take 8 hex"

fun event_candidates ::
  "'w decision_client \<Rightarrow> string \<Rightarrow> nat \<Rightarrow> pydict list \<Rightarrow> ('w, exn, event_candidate list) py" where
  "event_candidates dc decision_point index [] = ret_p []"
| "event_candidates dc decision_point index (a # as) =
     (case nonempty_str_opt (dget a ''action_id'') of
        None \<Rightarrow> event_candidates dc decision_point (Suc index) as
      | Some aid \<Rightarrow>
          bind_p (\<lambda>w. case dc_uuid_hex dc w of (hex, w') \<Rightarrow> (Inr hex, w')) (\<lambda>hex.
          bind_p (event_candidates dc decision_point (Suc index) as) (\<lambda>rest.
          ret_p ((event_branch_id decision_point index hex, aid, int index + 1) # rest))))"

definition event_item :: "string \<Rightarrow> event_candidate \<Rightarrow> pydict" where
  "event_item decision_point = (\<lambda>(branch, aid, rng). branch_item search_root_id branch rng decision_point aid)"

section \<open>Hit points of a result\<close>

text \<open>this module's \<open>_finite_number\<close> lets the overflow of a huge integer out\<close>

fun event_finite_number :: "pyval \<Rightarrow> exn + rat option" where
  "event_finite_number (PInt i) = (if float_overflows i then Inl OverflowError else Inr (Some (of_int i)))"
| "event_finite_number (PFloat (Fin r)) = Inr (Some r)"
| "event_finite_number _ = Inr None"

definition hp_from_result :: "pyval \<Rightarrow> exn + rat option" where
  "hp_from_result result =
     (case result of
        PDict d \<Rightarrow>
          if dget d ''status'' \<noteq> PStr ''completed'' then Inr None
          else (case dget d ''masked_emulator_dto'' of
                  PDict dto \<Rightarrow>
                    then_r (event_finite_number (dget dto ''hp'')) (\<lambda>hp.
                      Inr (case hp of Some r \<Rightarrow> if 0 < r then Some r else None | None \<Rightarrow> None))
                | _ \<Rightarrow> Inr None)
      | _ \<Rightarrow> Inr None)"

text \<open>the best hit points so far with their action; only more hit points replace them\<close>

type_synonym best_event = "(rat \<times> string) option"

definition better_event :: "best_event \<Rightarrow> string \<Rightarrow> rat option \<Rightarrow> best_event" where
  "better_event best aid hp =
     (case hp of
        None \<Rightarrow> best
      | Some h \<Rightarrow> (case best of
                     None \<Rightarrow> Some (h, aid)
                   | Some (b, _) \<Rightarrow> if b < h then Some (h, aid) else best))"

fun best_from_batch :: "best_event \<Rightarrow> pydict \<Rightarrow> event_candidate list \<Rightarrow> exn + best_event" where
  "best_from_batch best results [] = Inr best"
| "best_from_batch best results ((branch, aid, rng) # cs) =
     then_r (hp_from_result (dget results branch)) (\<lambda>hp.
       best_from_batch (better_event best aid hp) results cs)"

section \<open>Evaluation\<close>

definition defer_retry_cleanup :: "'w decision_client \<Rightarrow> string \<Rightarrow> string list \<Rightarrow> ('w, unit) event" where
  "defer_retry_cleanup dc inst branch_ids = with_p (\<lambda>s.
     case dc_retry dc (ee_world s) of
       None \<Rightarrow> ret_p ()
     | Some retry \<Rightarrow> event_p (dc_defer dc retry inst branch_ids))"

text \<open>the handlers around an evaluation call, in their order; \<open>owned\<close> are the branches to take over\<close>

definition on_evaluation_error ::
  "'w decision_client \<Rightarrow> string \<Rightarrow> string list \<Rightarrow> ('w, 'a) event \<Rightarrow> exn \<Rightarrow> ('w, 'a) event" where
  "on_evaluation_error dc inst ids skip e = with_p (\<lambda>s.
     let unusable = event_client_unusable dc (ee_world s) in
     case e of
       RequestRejectedError _ \<Rightarrow> if unusable then raise_p e else skip
     | RequestFaultedError _ \<Rightarrow> if unusable then raise_p e else then_p (own_branches ids) skip
     | _ \<Rightarrow> then_p (defer_retry_cleanup dc inst (ee_created s @ ids)) (raise_p e))"

definition evaluate_batch_candidates ::
  "'w decision_client \<Rightarrow> string \<Rightarrow> string \<Rightarrow> event_candidate list \<Rightarrow> rat \<Rightarrow> ('w, best_event) event" where
  "evaluate_batch_candidates dc inst decision_point cs deadline =
     bind_p (event_now dc) (\<lambda>now.
       let remaining = deadline - now in
       if remaining \<le> 0 then ret_p None
       else
         try_else
           (event_p (sc_emulate_actions dc inst (map (event_item decision_point) cs) remaining PNone))
           (\<lambda>response. then_p (own_branches (map fst cs))
              (case dget response ''branch_results'' of
                 PDict results \<Rightarrow> lift_p (best_from_batch None results cs)
               | _ \<Rightarrow> ret_p None))
           (on_evaluation_error dc inst (map fst cs) (ret_p None)))"

fun evaluate_single_candidates ::
  "'w decision_client \<Rightarrow> string \<Rightarrow> string \<Rightarrow> rat \<Rightarrow> best_event \<Rightarrow> event_candidate list \<Rightarrow> ('w, best_event) event" where
  "evaluate_single_candidates dc inst decision_point deadline best [] = ret_p best"
| "evaluate_single_candidates dc inst decision_point deadline best ((branch, aid, rng) # cs) =
     bind_p (event_now dc) (\<lambda>now.
       let remaining = deadline - now in
       if remaining \<le> 0 then ret_p None
       else
         try_else
           (event_p (dc_emulate_action dc inst search_root_id branch rng decision_point aid remaining))
           (\<lambda>result. then_p (own_branches [branch])
              (bind_p (lift_p (hp_from_result (PDict result))) (\<lambda>hp.
                 evaluate_single_candidates dc inst decision_point deadline (better_event best aid hp) cs)))
           (on_evaluation_error dc inst [branch]
              (evaluate_single_candidates dc inst decision_point deadline best cs)))"

section \<open>Cleanup\<close>

text \<open>the \<open>finally\<close> block; \<open>failing\<close> tells whether an exception is on its way out\<close>

definition on_cleanup_error :: "'w decision_client \<Rightarrow> bool \<Rightarrow> exn \<Rightarrow> ('w, unit) event" where
  "on_cleanup_error dc failing e = with_p (\<lambda>s.
     let unusable = event_client_unusable dc (ee_world s) in
     case e of
       RequestRejectedError _ \<Rightarrow> if \<not> failing \<and> unusable then raise_p e else ret_p ()
     | TransportError _ uncertain _ \<Rightarrow>
         if \<not> failing \<and> (uncertain \<or> unusable) then raise_p e else ret_p ()
     | CancelledError _ _ \<Rightarrow> raise_p e
     | _ \<Rightarrow> if failing then ret_p () else raise_p e)"

definition event_cleanup :: "'w decision_client \<Rightarrow> string \<Rightarrow> rat \<Rightarrow> bool \<Rightarrow> ('w, unit) event" where
  "event_cleanup dc inst deadline failing =
     bind_p (event_now dc) (\<lambda>now. with_p (\<lambda>s.
       let remaining = deadline - now in
       if ee_created s \<noteq> [] \<and> 0 < remaining \<and> \<not> event_client_unusable dc (ee_world s)
       then try_else (event_p (sc_release_branches dc inst (ee_created s) remaining))
              (\<lambda>_. ret_p ()) (on_cleanup_error dc failing)
       else ret_p ()))"

definition with_event_cleanup ::
  "'w decision_client \<Rightarrow> string \<Rightarrow> rat \<Rightarrow> ('w, 'a) event \<Rightarrow> ('w, 'a) event" where
  "with_event_cleanup dc inst deadline body =
     try_else body
       (\<lambda>x. then_p (event_cleanup dc inst deadline False) (ret_p x))
       (\<lambda>e. then_p (event_cleanup dc inst deadline True) (raise_p e))"

definition evaluate_events ::
  "'w decision_client \<Rightarrow> string \<Rightarrow> string \<Rightarrow> event_candidate list \<Rightarrow> rat \<Rightarrow> ('w, best_event) event" where
  "evaluate_events dc inst decision_point cs timeout =
     bind_p (event_now dc) (\<lambda>now.
       let overall = now + timeout;
           reserve = min 1 (timeout / (of_nat (length cs) + 1));
           deadline = overall - reserve
       in with_event_cleanup dc inst overall (with_p (\<lambda>s.
            if supports_event_batch dc (ee_world s)
            then evaluate_batch_candidates dc inst decision_point cs deadline
            else evaluate_single_candidates dc inst decision_point deadline None cs)))"

definition run_events :: "('w, 'a) event \<Rightarrow> ('w, exn, 'a) py" where
  "run_events m = (\<lambda>w. case m \<lparr>ee_world = w, ee_created = []\<rparr> of (r, s) \<Rightarrow> (r, ee_world s))"

definition best_event_option ::
  "'w decision_client \<Rightarrow> string \<Rightarrow> string \<Rightarrow> pydict list \<Rightarrow> pyval \<Rightarrow> ('w, exn, string option) py" where
  "best_event_option dc inst decision_point legal_actions timeout_s =
     bind_p (lift_p (finite_positive timeout_s)) (\<lambda>timeout.
       let event_actions = choice_event_option_actions legal_actions in
       if length event_actions \<le> 1 then ret_p None
       else bind_p (event_candidates dc decision_point 0 event_actions) (\<lambda>cs.
         if length cs \<le> 1 then ret_p None
         else bind_p (run_events (evaluate_events dc inst decision_point cs timeout))
                (\<lambda>best. ret_p (map_option snd best))))"

section \<open>The best candidate of a batch\<close>

lemma best_from_batch_sound:
  assumes "best_from_batch best results cs = Inr (Some (h, aid))"
  shows "best = Some (h, aid) \<and> (\<forall>c \<in> set cs. \<forall>h'. hp_from_result (dget results (fst c)) = Inr (Some h') \<longrightarrow> h' \<le> h) \<or>
    (\<exists>before after branch rng. cs = before @ (branch, aid, rng) # after \<and>
       hp_from_result (dget results branch) = Inr (Some h) \<and> (\<forall>h' a. best = Some (h', a) \<longrightarrow> h' < h) \<and>
       (\<forall>c \<in> set before. \<forall>h'. hp_from_result (dget results (fst c)) = Inr (Some h') \<longrightarrow> h' < h) \<and>
       (\<forall>c \<in> set after. \<forall>h'. hp_from_result (dget results (fst c)) = Inr (Some h') \<longrightarrow> h' \<le> h))"
  using assms
proof (induction cs arbitrary: best)
  case (Cons c cs)
  obtain branch a rng where c: "c = (branch, a, rng)" by (cases c) auto
  from Cons.prems obtain hp where hp: "hp_from_result (dget results branch) = Inr hp"
    and rest: "best_from_batch (better_event best a hp) results cs = Inr (Some (h, aid))"
    by (auto simp: c then_r_eq_Inr)
  let ?better = "\<lambda>h'. case best of None \<Rightarrow> True | Some (b, _) \<Rightarrow> b < h'"
  from Cons.IH [OF rest] show ?case
  proof (elim disjE conjE exE)
    assume kept: "better_event best a hp = Some (h, aid)"
      and le: "\<forall>c \<in> set cs. \<forall>h'. hp_from_result (dget results (fst c)) = Inr (Some h') \<longrightarrow> h' \<le> h"
    show ?case
    proof (cases "hp = Some h \<and> a = aid \<and> ?better h")
      case True
      then have "c # cs = [] @ (branch, aid, rng) # cs" "\<forall>h' a. best = Some (h', a) \<longrightarrow> h' < h"
        by (auto simp: c)
      with True hp le show ?thesis by (metis empty_iff empty_set)
    next
      case False
      with kept hp le have "best = Some (h, aid)" "\<forall>h'. hp = Some h' \<longrightarrow> h' \<le> h"
        by (auto simp: better_event_def split: option.splits if_splits)
      with hp le show ?thesis by (auto simp: c)
    qed
  next
    fix before after b r
    assume cs: "cs = before @ (b, aid, r) # after" and h: "hp_from_result (dget results b) = Inr (Some h)"
      and lt: "\<forall>h' a'. better_event best a hp = Some (h', a') \<longrightarrow> h' < h"
      and before: "\<forall>c \<in> set before. \<forall>h'. hp_from_result (dget results (fst c)) = Inr (Some h') \<longrightarrow> h' < h"
      and after: "\<forall>c \<in> set after. \<forall>h'. hp_from_result (dget results (fst c)) = Inr (Some h') \<longrightarrow> h' \<le> h"
    from lt have "\<forall>h' a'. best = Some (h', a') \<longrightarrow> h' < h" "\<forall>h'. hp = Some h' \<longrightarrow> h' < h"
      by (auto simp: better_event_def split: option.splits if_splits)
    moreover have "c # cs = (c # before) @ (b, aid, r) # after" using cs by simp
    moreover have "\<forall>c' \<in> set (c # before). \<forall>h'. hp_from_result (dget results (fst c')) = Inr (Some h') \<longrightarrow> h' < h"
      using before hp calculation(2) by (auto simp: c)
    ultimately show ?case using h after by blast
  qed
qed simp

lemma better_event_None: "better_event best aid hp = None \<longleftrightarrow> best = None \<and> hp = None"
  by (auto simp: better_event_def split: option.splits)

lemma best_from_batch_None:
  "best_from_batch best results cs = Inr None \<Longrightarrow>
     best = None \<and> (\<forall>c \<in> set cs. hp_from_result (dget results (fst c)) = Inr None)"
proof (induction cs arbitrary: best)
  case (Cons c cs)
  from Cons.prems obtain hp where "hp_from_result (dget results (fst c)) = Inr hp"
    and rest: "best_from_batch (better_event best (fst (snd c)) hp) results cs = Inr None"
    by (cases c) (auto simp: then_r_eq_Inr)
  with Cons.IH [OF rest] show ?case by (auto simp: better_event_None)
qed simp

text \<open>A batch of event evaluations proposes the first of its candidates with the most hit points among
  those that are usable, that is, completed alive; it proposes nothing exactly when no candidate is
  usable.\<close>

theorem event_batch_proposes_best:
  assumes "best_from_batch None results cs = Inr best"
  shows "case best of
      None \<Rightarrow> \<forall>c \<in> set cs. hp_from_result (dget results (fst c)) = Inr None
    | Some (h, aid) \<Rightarrow> \<exists>before after branch rng. cs = before @ (branch, aid, rng) # after \<and>
        hp_from_result (dget results branch) = Inr (Some h) \<and> 0 < h \<and>
        (\<forall>c \<in> set before. \<forall>h'. hp_from_result (dget results (fst c)) = Inr (Some h') \<longrightarrow> h' < h) \<and>
        (\<forall>c \<in> set after. \<forall>h'. hp_from_result (dget results (fst c)) = Inr (Some h') \<longrightarrow> h' \<le> h)"
proof (cases best)
  case None
  with best_from_batch_None [of None results cs] assms show ?thesis by simp
next
  case (Some b)
  obtain h aid where b: "b = (h, aid)" by (cases b) auto
  have "0 < h" if "hp_from_result v = Inr (Some h)" for v
    using that by (auto simp: hp_from_result_def then_r_eq_Inr split: pyval.splits if_splits option.splits)
  with best_from_batch_sound [of None results cs h aid] assms Some b show ?thesis by fastforce
qed

definition demo_event_result :: "int \<Rightarrow> pyval" where
  "demo_event_result hp = PDict [(''status'', PStr ''completed''), (''masked_emulator_dto'', PDict [(''hp'', PInt hp)])]"

definition demo_event_results :: pydict where
  "demo_event_results =
     [(''x'', demo_event_result 0), (''y'', demo_event_result 30), (''z'', demo_event_result 30)]"

lemma demo_best_from_batch:
  "best_from_batch None demo_event_results [(''x'', ''a'', 1), (''y'', ''b'', 2), (''z'', ''c'', 3)] = Inr (Some (30, ''b''))"
  by (simp add: demo_event_results_def demo_event_result_def hp_from_result_def better_event_def float_overflows_def)

theorem event_batch_proposes_best_witness:
  "\<exists>before after branch rng. [(''x'', ''a'', 1), (''y'', ''b'', 2), (''z'', ''c'', 3 :: int)] =
     before @ (branch, ''b'', rng) # after \<and> hp_from_result (dget demo_event_results branch) = Inr (Some 30)"
  using event_batch_proposes_best [OF demo_best_from_batch] by auto

section \<open>What an event search proposes\<close>

definition proposes :: "event_candidate list \<Rightarrow> best_event \<Rightarrow> bool" where
  "proposes cs best \<longleftrightarrow> (\<forall>h aid. best = Some (h, aid) \<longrightarrow> aid \<in> set (map (fst \<circ> snd) cs))"

lemma proposes_None [simp]: "proposes cs None"
  by (simp add: proposes_def)

lemma proposes_better:
  "proposes cs best \<Longrightarrow> aid \<in> set (map (fst \<circ> snd) cs) \<Longrightarrow> proposes cs (better_event best aid hp)"
  by (auto simp: proposes_def better_event_def split: option.splits if_splits)

lemma best_from_batch_proposes:
  "best_from_batch best results cs = Inr b \<Longrightarrow> proposes all best \<Longrightarrow> set cs \<subseteq> set all \<Longrightarrow> proposes all b"
proof (induction cs arbitrary: best)
  case (Cons c cs)
  from Cons.prems(1) obtain hp where
    rest: "best_from_batch (better_event best (fst (snd c)) hp) results cs = Inr b"
    by (cases c) (auto simp: then_r_eq_Inr)
  show ?case by (rule Cons.IH [OF rest proposes_better]) (use Cons.prems in \<open>auto simp: comp_def\<close>)
qed simp

lemma evaluation_error_returns:
  "returns P skip \<Longrightarrow> returns P (on_evaluation_error dc inst ids skip e)"
  by (cases e) (auto simp: on_evaluation_error_def Let_def intro!: returns_intro)

lemma batch_proposes: "returns (proposes cs) (evaluate_batch_candidates dc inst dp cs deadline)"
proof -
  have "returns (proposes cs) (case dget response ''branch_results'' of
      PDict results \<Rightarrow> lift_p (best_from_batch None results cs) | _ \<Rightarrow> ret_p None)" for response
    using best_from_batch_proposes [of None _ cs _ cs]
    by (cases "dget response ''branch_results''") (auto simp: returns_def lift_p_def ret_p_def)
  then show ?thesis
    unfolding evaluate_batch_candidates_def Let_def
    by (auto intro!: returns_intro evaluation_error_returns)
qed

lemma single_proposes:
  "proposes all best \<Longrightarrow> set cs \<subseteq> set all \<Longrightarrow>
     returns (proposes all) (evaluate_single_candidates dc inst dp deadline best cs)"
proof (induction cs arbitrary: best)
  case (Cons c cs)
  obtain branch aid rng where c: "c = (branch, aid, rng)" by (cases c) auto
  have "proposes all (better_event best aid hp)" for hp
    using Cons.prems c by (intro proposes_better) force+
  with Cons c show ?case
    by (auto simp: Let_def intro!: returns_intro evaluation_error_returns)
qed (auto intro: returns_intro)

lemma evaluate_events_proposes: "returns (proposes cs) (evaluate_events dc inst dp cs timeout)"
proof -
  have cleanup: "returns (proposes cs) (with_event_cleanup dc inst overall body)"
    if "returns (proposes cs) body" for overall body
    using that by (auto simp: returns_def with_event_cleanup_def try_else_def then_p_def bind_p_def ret_p_def
        raise_p_def split: prod.splits sum.splits)
  show ?thesis
    unfolding evaluate_events_def Let_def
    by (intro returns_bind cleanup returns_with returns_if batch_proposes single_proposes) simp_all
qed

lemma event_candidates_actions:
  "event_candidates dc dp index as w = (Inr cs, w') \<Longrightarrow>
     c \<in> set cs \<Longrightarrow> \<exists>a \<in> set as. dget a ''action_id'' = PStr (fst (snd c))"
proof (induction as arbitrary: index w cs w')
  case (Cons a as)
  show ?case
  proof (cases "nonempty_str_opt (dget a ''action_id'')")
    case None
    with Cons show ?thesis by auto
  next
    case (Some aid)
    with Cons.prems obtain hex w1 rest w2 where "dc_uuid_hex dc w = (hex, w1)"
      and rest: "event_candidates dc dp (Suc index) as w1 = (Inr rest, w2)"
      and "cs = (event_branch_id dp index hex, aid, int index + 1) # rest"
      by (auto simp: bind_p_def ret_p_def split: prod.splits sum.splits)
    with Cons.prems(2) Cons.IH [OF rest] Some show ?thesis by auto
  qed
qed (simp add: ret_p_def)

lemma best_event_returns:
  "returns (\<lambda>r. \<forall>aid. r = Some aid \<longrightarrow>
      (\<exists>a \<in> set (choice_event_option_actions legal_actions). dget a ''action_id'' = PStr aid) \<and>
      1 < length (choice_event_option_actions legal_actions))
    (best_event_option dc inst dp legal_actions timeout_s)" (is "returns ?P _")
proof -
  let ?options = "choice_event_option_actions legal_actions"
  have run: "proposes cs b" if "run_events (evaluate_events dc inst dp cs t) s = (Inr b, s')" for cs b t s s'
    using that returnsD [OF evaluate_events_proposes [of cs dc inst dp t]]
    by (auto simp: run_events_def split: prod.splits)
  have step: "returns ?P (bind_p (run_events (evaluate_events dc inst dp cs t)) (\<lambda>best. ret_p (map_option snd best)))"
    if "event_candidates dc dp 0 ?options s = (Inr cs, s')" "1 < length ?options" for cs s s' t
    using that event_candidates_actions [OF that(1)]
    by (intro returns_bind_dep returns_ret) (fastforce dest!: run simp: proposes_def)
  have "returns ?P (bind_p (event_candidates dc dp 0 ?options) (\<lambda>cs. if length cs \<le> 1 then ret_p None
      else bind_p (run_events (evaluate_events dc inst dp cs t)) (\<lambda>best. ret_p (map_option snd best))))"
    if "\<not> length ?options \<le> 1" for t
    by (rule returns_bind_dep, rule returns_if, simp add: returns_ret, rule step) (use that in auto)
  then show ?thesis
    unfolding best_event_option_def Let_def
    by (intro returns_bind [where m = "lift_p (finite_positive timeout_s)"] returns_if returns_ret) auto
qed

text \<open>Whatever the client answers, an event branch search proposes an action only among the available
  event options of the decision and only when there are at least two of them.\<close>

theorem event_option_is_available:
  assumes "best_event_option dc inst dp legal_actions timeout_s w = (Inr (Some aid), w')"
  shows "\<exists>a \<in> set legal_actions. is_available a \<and> dget a ''action_type'' = PStr ''choice_event_option'' \<and>
    dget a ''action_id'' = PStr aid \<and> 1 < length (choice_event_option_actions legal_actions)"
  using returnsD [OF best_event_returns assms]
  by (auto simp: choice_event_option_actions_def actions_of_type_set available_actions_set)

definition demo_event_options :: "pydict list" where
  "demo_event_options =
     [[(''action_id'', PStr ''a''), (''action_type'', PStr ''choice_event_option'')],
      [(''action_id'', PStr ''b''), (''action_type'', PStr ''choice_event_option'')]]"

definition demo_event_answer :: pydict where
  "demo_event_answer = [(''branch_results'', PDict
     [(''event-eval-d-0-x'', demo_event_result 10), (''event-eval-d-1-x'', demo_event_result 30)])]"

definition demo_event_server :: "unit decision_client" where
  "demo_event_server =
     \<lparr>sc_now = (\<lambda>w. (0, w)), sc_emulate_actions = (\<lambda>_ _ _ _. ret_p demo_event_answer),
      sc_cancel_branches = (\<lambda>_ _ _. ret_p []), sc_release_branches = (\<lambda>_ _ _. ret_p []),
      sc_instance_type = (\<lambda>_. None), sc_max_items = (\<lambda>_. PNone), sc_pending_retry = (\<lambda>_. False),
      sc_session_invalid = (\<lambda>_. False), dc_emulate_action = (\<lambda>_ _ _ _ _ _ _. raise_p RuntimeError),
      dc_boundaries = (\<lambda>_. {''event_choice''}), dc_retry = (\<lambda>_. None), dc_defer = (\<lambda>_ _ _. ret_p ()),
      dc_get_decision = (\<lambda>_ _ _. raise_p RuntimeError), dc_commit_action = (\<lambda>_ _ _ _. ret_p []),
      dc_uuid_hex = (\<lambda>w. (''x'', w))\<rparr>"

lemma demo_event_proposal:
  "best_event_option demo_event_server ''i'' ''d'' demo_event_options (PInt 5) () = (Inr (Some ''b''), ())"
  by code_simp

theorem event_option_is_available_witness:
  "\<exists>a \<in> set demo_event_options. dget a ''action_id'' = PStr ''b''"
  using event_option_is_available [OF demo_event_proposal] by blast

end
