(* ===== verification/Choice_Semantics.thy ===== *)
theory Choice_Semantics
  imports Action_Classification
begin

text \<open>
  \<open>selection/choice_semantics.py\<close>: the public descriptor of a pending card choice, which is parsed
  defensively (everything malformed becomes the neutral \<open>unknown\<close>), with the identity of its options;
  and \<open>selection/choice_card_heuristic.py\<close>: the preference scores of the cards to choose from.
\<close>

section \<open>The descriptor\<close>

definition choice_operations :: "string list" where
  "choice_operations =
     [''gain'', ''discard'', ''exhaust'', ''upgrade'', ''retrieve'', ''play'', ''replay'', ''remove'',
      ''transform'', ''unknown'']"

definition choice_effects :: "string list" where
  "choice_effects = [''move'', ''modify'', ''play'', ''replace'']"

definition choice_zones :: "string list" where
  "choice_zones =
     [''hand'', ''draw'', ''draw_pile'', ''discard'', ''discard_pile'', ''exhaust'', ''exhaust_pile'',
      ''play'', ''play_pile'', ''deck'', ''master_deck'', ''reward'', ''generated'', ''none'', ''unknown'']"

definition choice_modifiers :: "string list" where
  "choice_modifiers = [''upgrade'']"

record choice_card_semantics =
  cs_version :: int
  cs_operation :: string
  cs_effect :: "string option"
  cs_source_zone :: "string option"
  cs_destination_zone :: "string option"
  cs_modifier :: "string option"
  cs_order_matters :: "bool option"
  cs_replacement_allowed :: "bool option"

definition semantics_known :: "choice_card_semantics \<Rightarrow> bool" where
  "semantics_known cs \<longleftrightarrow> cs_operation cs \<noteq> ''unknown''"

definition unknown_semantics :: choice_card_semantics where
  "unknown_semantics =
     \<lparr>cs_version = 1, cs_operation = ''unknown'', cs_effect = None, cs_source_zone = None,
      cs_destination_zone = None, cs_modifier = None, cs_order_matters = None,
      cs_replacement_allowed = None\<rparr>"

fun enum_or_none :: "pyval \<Rightarrow> string list \<Rightarrow> exn + string option" where
  "enum_or_none PNone allowed = Inr None"
| "enum_or_none (PStr s) allowed = (if s \<in> set allowed then Inr (Some s) else Inl ValueError)"
| "enum_or_none _ allowed = Inl ValueError"

fun bool_or_none :: "pyval \<Rightarrow> exn + bool option" where
  "bool_or_none PNone = Inr None"
| "bool_or_none (PBool b) = Inr (Some b)"
| "bool_or_none _ = Inl ValueError"

text \<open>the fields after the operation, which may raise\<close>

definition parse_fields :: "pydict \<Rightarrow> string \<Rightarrow> exn + choice_card_semantics" where
  "parse_fields raw operation =
     then_r (enum_or_none (dget raw ''effect'') choice_effects) (\<lambda>effect.
     then_r (enum_or_none (dget raw ''sourceZone'') choice_zones) (\<lambda>source_zone.
     then_r (enum_or_none (dget raw ''destinationZone'') choice_zones) (\<lambda>destination_zone.
     then_r (enum_or_none (dget raw ''modifier'') choice_modifiers) (\<lambda>modifier.
     then_r (bool_or_none (dget raw ''orderMatters'')) (\<lambda>order_matters.
     then_r (bool_or_none (dget raw ''replacementAllowed'')) (\<lambda>replacement_allowed.
     Inr \<lparr>cs_version = 1, cs_operation = operation, cs_effect = effect, cs_source_zone = source_zone,
          cs_destination_zone = destination_zone, cs_modifier = modifier,
          cs_order_matters = order_matters, cs_replacement_allowed = replacement_allowed\<rparr>))))))"

definition parse_choice_semantics :: "pyval \<Rightarrow> choice_card_semantics" where
  "parse_choice_semantics raw =
     (case raw of
        PDict d \<Rightarrow>
          (case dget d ''operation'' of
             PStr operation \<Rightarrow>
               if dget d ''version'' \<noteq> PInt 1 \<or> operation \<notin> set choice_operations \<or> operation = ''unknown''
               then unknown_semantics
               else (case parse_fields d operation of Inl _ \<Rightarrow> unknown_semantics | Inr cs \<Rightarrow> cs)
           | _ \<Rightarrow> unknown_semantics)
      | _ \<Rightarrow> unknown_semantics)"

section \<open>Tokens\<close>

text \<open>the pattern \<open>[A-Za-z0-9][A-Za-z0-9._:/-]{0,127}\<close>, matched as a whole\<close>

definition is_alnum :: "char \<Rightarrow> bool" where
  "is_alnum c \<longleftrightarrow> c \<in> set ''ABCDEFGHIJKLMNOPQRSTUVWXYZabcdefghijklmnopqrstuvwxyz0123456789''"

definition is_token_char :: "char \<Rightarrow> bool" where
  "is_token_char c \<longleftrightarrow> is_alnum c \<or> c \<in> set ''._:/-''"

definition is_token :: "string \<Rightarrow> bool" where
  "is_token s \<longleftrightarrow> s \<noteq> [] \<and> is_alnum (hd s) \<and> list_all is_token_char s \<and> length s \<le> 128"

definition token_or_none :: "pyval \<Rightarrow> string option" where
  "token_or_none v = (case v of PStr s \<Rightarrow> if is_token s then Some s else None | _ \<Rightarrow> None)"

text \<open>the tokens that \<open>f\<close> finds in a sequence, and whether every element had one\<close>

definition tokens_with :: "(pyval \<Rightarrow> string option) \<Rightarrow> pyval \<Rightarrow> string list \<times> bool" where
  "tokens_with f v =
     (case v of
        PList xs \<Rightarrow> (List.map_filter f xs, list_all (\<lambda>x. f x \<noteq> None) xs)
      | _ \<Rightarrow> ([], False))"

definition token_sequence :: "pyval \<Rightarrow> string list \<times> bool" where
  "token_sequence v = tokens_with token_or_none v"

definition option_token :: "pyval \<Rightarrow> string option" where
  "option_token v = (case v of PDict d \<Rightarrow> token_or_none (dget d ''optionId'') | _ \<Rightarrow> None)"

definition option_id_sequence :: "pyval \<Rightarrow> string list \<times> bool" where
  "option_id_sequence v = tokens_with option_token v"

section \<open>The pending choice\<close>

record choice_context =
  pcc_semantics :: choice_card_semantics
  pcc_source_effect_id :: "string option"
  pcc_selected_option_ids :: "string list"
  pcc_option_ids :: "string list"
  pcc_identity_valid :: bool

definition selected_count_valid :: "pyval \<Rightarrow> string list \<Rightarrow> bool" where
  "selected_count_valid v selected = (case v of PInt i \<Rightarrow> 0 \<le> i \<and> i = int (length selected) | _ \<Rightarrow> False)"

definition pending_choice_context :: "pydict \<Rightarrow> choice_context option" where
  "pending_choice_context dto =
     (case dget dto ''pendingChoice'' of
        PDict pending \<Rightarrow>
          (let semantics = parse_choice_semantics (dget pending ''choiceSemantics'');
               source = (if semantics_known semantics then token_or_none (dget pending ''sourceEffectId'') else None);
               (selected, selected_valid) = token_sequence (dget pending ''selectedOptionIds'');
               (options, options_valid) = option_id_sequence (dget pending ''options'')
           in Some \<lparr>pcc_semantics = semantics, pcc_source_effect_id = source,
                pcc_selected_option_ids = selected, pcc_option_ids = options,
                pcc_identity_valid =
                  (selected_valid \<and> options_valid \<and>
                   selected_count_valid (dget pending ''selectedCount'') selected \<and>
                   distinct selected \<and> distinct options \<and> set selected \<inter> set options = {})\<rparr>)
      | _ \<Rightarrow> None)"

definition choice_option_id :: "pydict \<Rightarrow> string option" where
  "choice_option_id action =
     (if dget action ''action_type'' \<noteq> PStr ''choice_card'' then None
      else token_or_none (vget (dget action ''parameters'') ''optionId''))"

section \<open>Card quality\<close>

text \<open>\<open>table.get(v, 0.0)\<close> for a table keyed by strings: a key that cannot be hashed raises\<close>

definition score_of :: "(string \<times> rat) list \<Rightarrow> pyval \<Rightarrow> exn + rat" where
  "score_of table v =
     (if \<not> hashable v then Inl TypeError
      else (case v of
              PStr s \<Rightarrow> Inr (case map_of table s of None \<Rightarrow> 0 | Some r \<Rightarrow> r)
            | _ \<Rightarrow> Inr 0))"

definition card_type_score :: "(string \<times> rat) list" where
  "card_type_score = [(''Attack'', 8), (''Skill'', 7), (''Power'', 6), (''Curse'', -50), (''Status'', -35)]"

definition rarity_score :: "(string \<times> rat) list" where
  "rarity_score = [(''Rare'', 3), (''Uncommon'', 3 / 2), (''Common'', 1 / 2)]"

definition upgrade_bonus :: "pydict \<Rightarrow> rat" where
  "upgrade_bonus c =
     (if dget c ''upgraded'' = PBool True then 2 else 0) +
     (case finite_number (dget c ''upgradeLevel'') of
        Some level \<Rightarrow> if 1 < level then min 2 ((1 / 2) * (level - 1)) else 0
      | None \<Rightarrow> 0)"

definition card_quality_score :: "pydict \<Rightarrow> exn + rat" where
  "card_quality_score c =
     then_r (score_of card_type_score (dget c ''type'')) (\<lambda>by_type.
     then_r (score_of rarity_score (dget c ''rarity'')) (\<lambda>by_rarity.
     Inr (by_type + by_rarity + upgrade_bonus c)))"

section \<open>Preference scores of a card choice\<close>

definition prefer_high_quality :: "string list" where
  "prefer_high_quality = [''gain'', ''upgrade'', ''retrieve'', ''play'', ''replay'']"

definition prefer_low_quality :: "string list" where
  "prefer_low_quality = [''discard'', ''exhaust'', ''remove'', ''transform'']"

definition preference_direction :: "string \<Rightarrow> rat option" where
  "preference_direction operation =
     (if operation \<in> set prefer_high_quality then Some 1
      else if operation \<in> set prefer_low_quality then Some (- 1) else None)"

text \<open>the loop that fills \<open>options_by_id\<close>; \<open>None\<close> where the code returns \<open>{}\<close>\<close>

fun options_by_id ::
  "string list \<Rightarrow> (string \<times> pydict) list \<Rightarrow> pyval list \<Rightarrow> (string \<times> pydict) list option" where
  "options_by_id known acc [] = Some acc"
| "options_by_id known acc (v # vs) =
     (case v of
        PDict option \<Rightarrow>
          (case dget option ''optionId'' of
             PStr oid \<Rightarrow>
               if oid \<notin> set known \<or> oid \<in> set (map fst acc) then None
               else options_by_id known (acc @ [(oid, option)]) vs
           | _ \<Rightarrow> None)
      | _ \<Rightarrow> None)"

text \<open>the loop over the actions, with the scores and the option ids so far\<close>

fun score_choices ::
  "rat \<Rightarrow> (string \<times> pydict) list \<Rightarrow> (string \<times> rat) list \<Rightarrow> string list \<Rightarrow> pydict list \<Rightarrow>
     exn + (string \<times> rat) list option" where
  "score_choices direction options scores used [] = Inr (Some scores)"
| "score_choices direction options scores used (action # actions) =
     (case (nonempty_str_opt (dget action ''action_id''), choice_option_id action) of
        (Some aid, Some oid) \<Rightarrow>
          if aid \<in> set (map fst scores) \<or> oid \<in> set used then Inr None
          else (case map_of options oid of
                  None \<Rightarrow> Inr None
                | Some option \<Rightarrow>
                    then_r (card_quality_score option) (\<lambda>quality.
                      score_choices direction options (scores @ [(aid, direction * quality)]) (oid # used) actions))
      | _ \<Rightarrow> Inr None)"

definition choice_actions :: "pydict list \<Rightarrow> pydict list" where
  "choice_actions legal_actions =
     filter (\<lambda>a. dget a ''action_type'' = PStr ''choice_card'') legal_actions"

fun scores_or_empty :: "exn + (string \<times> rat) list option \<Rightarrow> exn + (string \<times> rat) list" where
  "scores_or_empty (Inl e) = Inl e"
| "scores_or_empty (Inr None) = Inr []"
| "scores_or_empty (Inr (Some scores)) = Inr scores"

definition choice_card_preference_scores :: "pydict list \<Rightarrow> pydict \<Rightarrow> exn + (string \<times> rat) list" where
  "choice_card_preference_scores legal_actions dto =
     (if choice_actions legal_actions = [] then Inr []
      else (case pending_choice_context dto of
        None \<Rightarrow> Inr []
      | Some context \<Rightarrow>
          if \<not> semantics_known (pcc_semantics context) \<or> \<not> pcc_identity_valid context then Inr []
          else (case preference_direction (cs_operation (pcc_semantics context)) of
            None \<Rightarrow> Inr []
          | Some direction \<Rightarrow>
              (case vget (dget dto ''pendingChoice'') ''options'' of
                 PList raw \<Rightarrow>
                   (case options_by_id (pcc_option_ids context) [] raw of
                      None \<Rightarrow> Inr []
                    | Some options \<Rightarrow>
                        scores_or_empty (score_choices direction options [] [] (choice_actions legal_actions)))
               | _ \<Rightarrow> Inr []))))"

section \<open>Facts about the descriptor\<close>

text \<open>what a descriptor may hold, and the public object that describes it\<close>

definition one_of :: "string option \<Rightarrow> string list \<Rightarrow> bool" where
  "one_of v allowed \<longleftrightarrow> (case v of None \<Rightarrow> True | Some s \<Rightarrow> s \<in> set allowed)"

definition semantics_ok :: "choice_card_semantics \<Rightarrow> bool" where
  "semantics_ok cs \<longleftrightarrow>
     cs_version cs = 1 \<and> cs_operation cs \<in> set choice_operations \<and> semantics_known cs \<and>
     one_of (cs_effect cs) choice_effects \<and> one_of (cs_source_zone cs) choice_zones \<and>
     one_of (cs_destination_zone cs) choice_zones \<and> one_of (cs_modifier cs) choice_modifiers"

fun of_opt_bool :: "bool option \<Rightarrow> pyval" where
  "of_opt_bool None = PNone"
| "of_opt_bool (Some b) = PBool b"

definition public_semantics :: "choice_card_semantics \<Rightarrow> pydict" where
  "public_semantics cs =
     [(''version'', PInt (cs_version cs)), (''operation'', PStr (cs_operation cs)),
      (''effect'', of_opt_str (cs_effect cs)), (''sourceZone'', of_opt_str (cs_source_zone cs)),
      (''destinationZone'', of_opt_str (cs_destination_zone cs)), (''modifier'', of_opt_str (cs_modifier cs)),
      (''orderMatters'', of_opt_bool (cs_order_matters cs)),
      (''replacementAllowed'', of_opt_bool (cs_replacement_allowed cs))]"

lemma enum_or_none_of_opt [simp]: "one_of v allowed \<Longrightarrow> enum_or_none (of_opt_str v) allowed = Inr v"
  by (cases v) (auto simp: one_of_def)

lemma bool_or_none_of_opt [simp]: "bool_or_none (of_opt_bool v) = Inr v"
  by (cases v) auto

lemma enum_or_none_one_of: "enum_or_none v allowed = Inr x \<Longrightarrow> one_of x allowed"
  by (cases v) (auto simp: one_of_def split: if_splits)

lemma parse_fields_ok:
  assumes "parse_fields d operation = Inr cs" "operation \<in> set choice_operations" "operation \<noteq> ''unknown''"
  shows "semantics_ok cs \<and> cs_operation cs = operation"
  using assms by (auto simp: parse_fields_def then_r_eq_Inr semantics_ok_def semantics_known_def
      dest!: enum_or_none_one_of)

text \<open>a parsed descriptor is the neutral one or well formed\<close>

lemma parse_choice_semantics_ok:
  "parse_choice_semantics raw = unknown_semantics \<or> semantics_ok (parse_choice_semantics raw)"
  by (auto simp: parse_choice_semantics_def dest: parse_fields_ok
      split: pyval.split sum.split)

lemma unknown_not_known [simp]: "\<not> semantics_known unknown_semantics"
  by (simp add: semantics_known_def unknown_semantics_def)

section \<open>Facts about scores\<close>

lemma scores_or_empty_nonempty: "scores_or_empty r = Inr scores \<Longrightarrow> scores \<noteq> [] \<Longrightarrow> r = Inr (Some scores)"
  by (cases r rule: scores_or_empty.cases) auto

lemma tokens_with_all:
  assumes "tokens_with f v = (ids, True)"
  shows "\<exists>xs. v = PList xs \<and> map f xs = map Some ids"
proof -
  from assms obtain xs where v: "v = PList xs" and ids: "ids = List.map_filter f xs"
    and all: "list_all (\<lambda>x. f x \<noteq> None) xs"
    by (cases v) (auto simp: tokens_with_def)
  have "map f xs = map Some (List.map_filter f xs)"
    using all by (induction xs) (auto simp: List.map_filter_def)
  with v ids show ?thesis by simp
qed

lemma options_by_id_sound:
  assumes "options_by_id known acc vs = Some options" "\<forall>(oid, c) \<in> set acc. P oid c"
    and "\<And>c oid. PDict c \<in> set vs \<Longrightarrow> dget c ''optionId'' = PStr oid \<Longrightarrow> oid \<in> set known \<Longrightarrow> P oid c"
  shows "\<forall>(oid, c) \<in> set options. P oid c"
  using assms by (induction known acc vs rule: options_by_id.induct)
    (auto split: pyval.splits if_splits)

text \<open>the score an action gets: its option's quality in the direction of the operation\<close>

definition scored_choice ::
  "rat \<Rightarrow> (string \<Rightarrow> pydict \<Rightarrow> bool) \<Rightarrow> pydict \<Rightarrow> string \<times> rat \<Rightarrow> bool" where
  "scored_choice direction option_named a scored \<longleftrightarrow>
     dget a ''action_id'' = PStr (fst scored) \<and> fst scored \<noteq> [] \<and>
     (\<exists>oid c q. choice_option_id a = Some oid \<and> option_named oid c \<and> card_quality_score c = Inr q \<and>
        snd scored = direction * q)"

lemma score_choices_sound:
  assumes "score_choices direction options scores used actions = Inr (Some res)"
    and "\<forall>(oid, c) \<in> set options. P oid c"
    and "distinct (map fst scores)"
  shows "\<exists>new. res = scores @ new \<and> distinct (map fst res) \<and>
     list_all2 (scored_choice direction P) actions new \<and>
     distinct (map choice_option_id actions) \<and> Some ` set used \<inter> choice_option_id ` set actions = {}"
  using assms(1,3)
proof (induction actions arbitrary: scores used)
  case (Cons action actions)
  from Cons.prems(1) obtain aid oid where ids: "dget action ''action_id'' = PStr aid" "aid \<noteq> []"
    "choice_option_id action = Some oid" "aid \<notin> set (map fst scores)" "oid \<notin> set used"
    by (auto split: option.splits if_splits)
  with Cons.prems(1) obtain c q where c: "map_of options oid = Some c" "card_quality_score c = Inr q"
    and rest: "score_choices direction options (scores @ [(aid, direction * q)]) (oid # used) actions = Inr (Some res)"
    by (auto split: option.splits if_splits simp: then_r_eq_Inr)
  have P: "P oid c" using assms(2) map_of_SomeD [OF c(1)] by auto
  have "distinct (map fst (scores @ [(aid, direction * q)]))" using Cons.prems(2) ids(4) by simp
  from Cons.IH [OF rest this] obtain new where "res = scores @ (aid, direction * q) # new" "distinct (map fst res)"
    "list_all2 (scored_choice direction P) actions new" "distinct (map choice_option_id actions)"
    "Some ` set (oid # used) \<inter> choice_option_id ` set actions = {}"
    by auto
  moreover have "scored_choice direction P action (aid, direction * q)"
    using ids c P by (auto simp: scored_choice_def)
  ultimately show ?case using ids by auto
qed simp

section \<open>Properties\<close>

text \<open>C36: The parser of the public descriptor loses nothing: every well-formed descriptor is what parsing
  its public object gives back; and what the parser returns for any other input is the neutral
  \<open>unknown\<close>.\<close>

theorem choice_semantics_roundtrip:
  "(semantics_ok cs \<longrightarrow> parse_choice_semantics (PDict (public_semantics cs)) = cs) \<and>
   (parse_choice_semantics raw = unknown_semantics \<or> semantics_ok (parse_choice_semantics raw))"
proof (intro conjI impI)
  assume "semantics_ok cs"
  then show "parse_choice_semantics (PDict (public_semantics cs)) = cs"
    by (simp add: parse_choice_semantics_def public_semantics_def parse_fields_def semantics_ok_def semantics_known_def)
qed (rule parse_choice_semantics_ok)

definition demo_semantics :: choice_card_semantics where
  "demo_semantics =
     \<lparr>cs_version = 1, cs_operation = ''upgrade'', cs_effect = Some ''modify'', cs_source_zone = Some ''hand'',
      cs_destination_zone = None, cs_modifier = Some ''upgrade'', cs_order_matters = Some False,
      cs_replacement_allowed = None\<rparr>"

theorem choice_semantics_roundtrip_witness:
  "parse_choice_semantics (PDict (public_semantics demo_semantics)) = demo_semantics"
  using choice_semantics_roundtrip [of demo_semantics PNone]
  by (simp add: semantics_ok_def semantics_known_def demo_semantics_def one_of_def choice_operations_def
      choice_effects_def choice_zones_def choice_modifiers_def)

text \<open>C30: The preference scores of a card choice are all or nothing: when there are any, the descriptor is
  known, the identity of the options is valid, every \<open>choice_card\<close> action has exactly one score, under
  its own id and in order, no option is named by two actions, and the score is the quality of an option
  with the action's option id, negated for an operation that gives cards away.\<close>

theorem choice_scores_all_or_nothing:
  assumes "choice_card_preference_scores legal_actions dto = Inr scores" "scores \<noteq> []"
  shows "\<exists>cx direction raw. pending_choice_context dto = Some cx \<and>
     semantics_known (pcc_semantics cx) \<and> pcc_identity_valid cx \<and>
     preference_direction (cs_operation (pcc_semantics cx)) = Some direction \<and>
     vget (dget dto ''pendingChoice'') ''options'' = PList raw \<and>
     list_all2 (scored_choice direction
         (\<lambda>oid c. PDict c \<in> set raw \<and> dget c ''optionId'' = PStr oid \<and> oid \<in> set (pcc_option_ids cx)))
       (choice_actions legal_actions) scores \<and>
     distinct (map fst scores) \<and> distinct (map choice_option_id (choice_actions legal_actions))"
proof -
  from assms obtain cx direction raw options where
    ctx: "pending_choice_context dto = Some cx" "semantics_known (pcc_semantics cx)"
    "pcc_identity_valid cx" "preference_direction (cs_operation (pcc_semantics cx)) = Some direction"
    and raw: "vget (dget dto ''pendingChoice'') ''options'' = PList raw"
    and options: "options_by_id (pcc_option_ids cx) [] raw = Some options"
    and scores: "scores_or_empty (score_choices direction options [] [] (choice_actions legal_actions)) = Inr scores"
    by (auto simp: choice_card_preference_scores_def split: if_splits option.splits pyval.splits)
  let ?P = "\<lambda>oid c. PDict c \<in> set raw \<and> dget c ''optionId'' = PStr oid \<and> oid \<in> set (pcc_option_ids cx)"
  have "score_choices direction options [] [] (choice_actions legal_actions) = Inr (Some scores)"
    using scores assms(2) by (rule scores_or_empty_nonempty)
  moreover have "\<forall>(oid, c) \<in> set options. ?P oid c"
    by (rule options_by_id_sound [OF options]) auto
  ultimately show ?thesis
    using score_choices_sound [of direction options "[]" "[]" "choice_actions legal_actions" scores ?P] ctx raw
    by auto
qed

text \<open>one card to upgrade, of the given type\<close>

definition demo_choice_action :: pydict where
  "demo_choice_action =
     [(''action_id'', PStr ''a''), (''action_type'', PStr ''choice_card''),
      (''parameters'', PDict [(''optionId'', PStr ''o1'')])]"

definition demo_choice_dto :: "pyval \<Rightarrow> pydict" where
  "demo_choice_dto t =
     [(''pendingChoice'', PDict
        [(''choiceSemantics'', PDict (public_semantics demo_semantics)),
         (''selectedOptionIds'', PList []), (''selectedCount'', PInt 0),
         (''options'', PList [PDict [(''optionId'', PStr ''o1''), (''type'', t)]])])]"

lemma demo_choice_context:
  "pending_choice_context (demo_choice_dto t) =
     Some \<lparr>pcc_semantics = demo_semantics, pcc_source_effect_id = None, pcc_selected_option_ids = [],
       pcc_option_ids = [''o1''], pcc_identity_valid = True\<rparr>"
proof -
  have "semantics_ok demo_semantics" by code_simp
  then have "parse_choice_semantics (PDict (public_semantics demo_semantics)) = demo_semantics"
    by (simp add: parse_choice_semantics_def public_semantics_def parse_fields_def semantics_ok_def semantics_known_def)
  then show ?thesis
    by (simp add: pending_choice_context_def demo_choice_dto_def token_sequence_def option_id_sequence_def
        tokens_with_def option_token_def token_or_none_def is_token_def is_token_char_def is_alnum_def
        selected_count_valid_def semantics_known_def demo_semantics_def)
qed

lemma demo_choice_scores:
  "choice_card_preference_scores [demo_choice_action] (demo_choice_dto t) =
     then_r (score_of card_type_score t) (\<lambda>r. Inr [(''a'', r)])"
proof -
  have action: "choice_actions [demo_choice_action] = [demo_choice_action]"
    "dget demo_choice_action ''action_id'' = PStr ''a''" "choice_option_id demo_choice_action = Some ''o1''"
    by (simp_all add: choice_actions_def demo_choice_action_def choice_option_id_def token_or_none_def
        is_token_def is_token_char_def is_alnum_def)
  have quality: "card_quality_score [(''optionId'', PStr ''o1''), (''type'', t)] = score_of card_type_score t"
    by (cases "score_of card_type_score t")
      (simp_all add: card_quality_score_def upgrade_bonus_def score_of_def [of rarity_score])
  have dto: "vget (dget (demo_choice_dto t) ''pendingChoice'') ''options'' =
      PList [PDict [(''optionId'', PStr ''o1''), (''type'', t)]]"
    by (simp add: demo_choice_dto_def)
  have op: "cs_operation demo_semantics = ''upgrade''" by (simp add: demo_semantics_def)
  show ?thesis
    by (cases "score_of card_type_score t")
      (simp_all add: choice_card_preference_scores_def action dto op demo_choice_context semantics_known_def
        preference_direction_def prefer_high_quality_def quality)
qed

theorem choice_scores_all_or_nothing_witness:
  "list_all2 (scored_choice 1 (\<lambda>oid c. oid = ''o1'')) [demo_choice_action] [(''a'', 8)]"
proof -
  have "choice_card_preference_scores [demo_choice_action] (demo_choice_dto (PStr ''Attack'')) = Inr [(''a'', 8)]"
    by (simp add: demo_choice_scores score_of_def card_type_score_def)
  from choice_scores_all_or_nothing [OF this] show ?thesis
    by (auto simp: demo_choice_context demo_semantics_def preference_direction_def prefer_high_quality_def
        scored_choice_def choice_actions_def demo_choice_action_def split: if_splits)
qed

text \<open>Malformed choice metadata is not always neutral: the scores of a card choice raise \<open>TypeError\<close> exactly
  when the type of a card to choose is a list or an object, because the type is looked up as a key of a
  dictionary.\<close>

theorem malformed_card_type_raises:
  "choice_card_preference_scores [demo_choice_action] (demo_choice_dto t) = Inl TypeError \<longleftrightarrow>
     is_list t \<or> is_dict t"
  by (cases t) (simp_all add: demo_choice_scores score_of_def)

end
