(* ===== verification/Combat_Observation.thy ===== *)
theory Combat_Observation
  imports Action_Classification
begin

text \<open>
  \<open>decision/combat_observation.py\<close>: the normalised view of a Combat DTO that the policy and the value
  function share.  With \<open>strict\<close> a malformed field raises, without it the field takes its default.
\<close>

section \<open>Reading fields\<close>

text \<open>\<open>_number\<close>, \<open>_optional_number\<close> and \<open>_mapping_sequence\<close>\<close>

definition obs_number :: "bool \<Rightarrow> rat \<Rightarrow> pyval \<Rightarrow> exn + rat" where
  "obs_number strict dflt v =
     (if v = PNone then Inr dflt
      else (case finite_number v of
              Some r \<Rightarrow> Inr r
            | None \<Rightarrow> if strict then Inl ValueError else Inr dflt))"

definition obs_optional_number :: "bool \<Rightarrow> pyval \<Rightarrow> exn + rat option" where
  "obs_optional_number strict v =
     (if v = PNone then Inr None else then_r (obs_number strict 0 v) (\<lambda>r. Inr (Some r)))"

fun obs_mappings :: "bool \<Rightarrow> pyval list \<Rightarrow> exn + pydict list" where
  "obs_mappings strict [] = Inr []"
| "obs_mappings strict (v # vs) =
     (case v of
        PDict d \<Rightarrow> then_r (obs_mappings strict vs) (\<lambda>ds. Inr (d # ds))
      | _ \<Rightarrow> if strict then Inl ValueError else obs_mappings strict vs)"

definition mapping_sequence :: "bool \<Rightarrow> pyval \<Rightarrow> exn + pydict list" where
  "mapping_sequence strict v =
     (case v of
        PNone \<Rightarrow> Inr []
      | PList vs \<Rightarrow> obs_mappings strict vs
      | _ \<Rightarrow> if strict then Inl ValueError else Inr [])"

text \<open>a field that is bounded from below once it is read\<close>

definition number_at_least :: "bool \<Rightarrow> rat \<Rightarrow> rat \<Rightarrow> pyval \<Rightarrow> exn + rat" where
  "number_at_least strict low dflt v = then_r (obs_number strict dflt v) (\<lambda>r. Inr (max low r))"

text \<open>\<open>int(x)\<close> of a float drops the fraction\<close>

definition trunc :: "rat \<Rightarrow> int" where
  "trunc r = (if 0 \<le> r then \<lfloor>r\<rfloor> else \<lceil>r\<rceil>)"

section \<open>Enemies\<close>

record enemy_observation =
  eo_index :: "int option"
  eo_hp :: rat
  eo_max_hp :: rat
  eo_is_alive :: bool
  eo_attack_damage :: rat
  eo_attack_repeats :: rat
  eo_powers :: "pydict list"
  eo_block :: rat

definition incoming_attack :: "enemy_observation \<Rightarrow> rat" where
  "incoming_attack e = max 0 (eo_attack_damage e) * max 0 (eo_attack_repeats e)"

definition enemy_alive :: "bool \<Rightarrow> pydict \<Rightarrow> exn + bool" where
  "enemy_alive strict enemy =
     (case dget_default enemy ''isAlive'' (PBool True) of
        PBool b \<Rightarrow> Inr b
      | _ \<Rightarrow> if strict then Inl ValueError else Inr True)"

definition enemy_intent :: "bool \<Rightarrow> pydict \<Rightarrow> exn + pydict" where
  "enemy_intent strict enemy =
     (case dget enemy ''intent'' of
        PNone \<Rightarrow> Inr []
      | PDict intent \<Rightarrow> Inr intent
      | _ \<Rightarrow> if strict then Inl ValueError else Inr [])"

definition enemy_powers :: "bool \<Rightarrow> pydict \<Rightarrow> exn + pydict list" where
  "enemy_powers strict enemy =
     mapping_sequence strict
       (if dget enemy ''powers'' = PNone then dget enemy ''enemyPowers'' else dget enemy ''powers'')"

definition observe_enemy :: "bool \<Rightarrow> pydict \<Rightarrow> exn + enemy_observation" where
  "observe_enemy strict enemy =
     then_r (enemy_alive strict enemy) (\<lambda>alive.
     then_r (enemy_intent strict enemy) (\<lambda>intent.
     then_r (number_at_least strict 0 0 (dget intent ''attackDamage'')) (\<lambda>damage.
     then_r (number_at_least strict 0 1 (dget intent ''attackRepeats'')) (\<lambda>repeats.
     then_r (enemy_powers strict enemy) (\<lambda>powers.
     then_r (obs_optional_number False (dget enemy ''index'')) (\<lambda>index.
     then_r (number_at_least strict 0 0 (dget enemy ''hp'')) (\<lambda>hp.
     then_r (number_at_least strict 1 1 (dget enemy ''maxHp'')) (\<lambda>max_hp.
     then_r (number_at_least strict 0 0 (dget enemy ''block'')) (\<lambda>block.
     Inr \<lparr>eo_index = map_option trunc index, eo_hp = hp, eo_max_hp = max_hp, eo_is_alive = alive,
          eo_attack_damage = damage, eo_attack_repeats = repeats, eo_powers = powers,
          eo_block = block\<rparr>)))))))))"

section \<open>The observation\<close>

record combat_observation =
  ob_hp :: rat
  ob_max_hp :: rat
  ob_block :: rat
  ob_energy :: "rat option"
  ob_max_energy :: "rat option"
  ob_turn_number :: "int option"
  ob_enemies :: "enemy_observation list"
  ob_hand :: "pydict list"
  ob_potions :: "pydict list"
  ob_player_powers :: "pydict list"

definition observe_turn :: "bool \<Rightarrow> pyval \<Rightarrow> exn + int option" where
  "observe_turn strict v =
     (case v of
        PInt i \<Rightarrow> Inr (Some i)
      | PNone \<Rightarrow> Inr None
      | _ \<Rightarrow> if strict then Inl ValueError else Inr None)"

definition observe :: "bool \<Rightarrow> pydict \<Rightarrow> exn + combat_observation" where
  "observe strict dto =
     then_r (number_at_least strict 0 0 (dget dto ''hp'')) (\<lambda>hp.
     then_r (number_at_least strict 1 1 (dget dto ''maxHp'')) (\<lambda>max_hp.
     then_r (number_at_least strict 0 0 (dget dto ''block'')) (\<lambda>block.
     then_r (obs_optional_number strict (dget dto ''energy'')) (\<lambda>energy.
     then_r (obs_optional_number strict (dget dto ''maxEnergy'')) (\<lambda>max_energy.
     then_r (observe_turn strict (dget dto ''turnNumber'')) (\<lambda>turn.
     then_r (mapping_sequence strict (dget dto ''enemies'')) (\<lambda>raw.
     then_r (map_r (observe_enemy strict) raw) (\<lambda>enemies.
     then_r (mapping_sequence False (dget dto ''hand'')) (\<lambda>hand.
     then_r (mapping_sequence False (dget dto ''potions'')) (\<lambda>potions.
     then_r (mapping_sequence strict (dget dto ''playerPowers'')) (\<lambda>powers.
     Inr \<lparr>ob_hp = hp, ob_max_hp = max_hp, ob_block = block, ob_energy = energy,
          ob_max_energy = max_energy, ob_turn_number = turn, ob_enemies = enemies, ob_hand = hand,
          ob_potions = potions, ob_player_powers = powers\<rparr>)))))))))))"

definition alive_enemies :: "combat_observation \<Rightarrow> enemy_observation list" where
  "alive_enemies ob = filter eo_is_alive (ob_enemies ob)"

definition incoming_before_block :: "combat_observation \<Rightarrow> rat" where
  "incoming_before_block ob = sum_list (map incoming_attack (alive_enemies ob))"

definition incoming_damage :: "combat_observation \<Rightarrow> rat" where
  "incoming_damage ob = max 0 (incoming_before_block ob - ob_block ob)"

definition danger_ratio :: "combat_observation \<Rightarrow> rat" where
  "danger_ratio ob = incoming_damage ob / max 1 (ob_hp ob)"

definition lethal_threat :: "combat_observation \<Rightarrow> bool" where
  "lethal_threat ob \<longleftrightarrow> 0 < ob_hp ob \<and> ob_hp ob \<le> incoming_damage ob"

definition enemy_by_index :: "combat_observation \<Rightarrow> int \<Rightarrow> enemy_observation option" where
  "enemy_by_index ob i = List.find (\<lambda>e. eo_index e = Some i) (ob_enemies ob)"

section \<open>Strict and tolerant reading\<close>

text \<open>\<open>tolerates f\<close>: without \<open>strict\<close>, \<open>f\<close> returns, and what it returns with \<open>strict\<close> is the same\<close>

definition tolerates :: "(bool \<Rightarrow> exn + 'a) \<Rightarrow> bool" where
  "tolerates f \<longleftrightarrow> (\<exists>x. f False = Inr x \<and> (f True = Inr x \<or> f True = Inl ValueError))"

named_theorems tolerates_intro \<open>strict reading refines tolerant reading\<close>

lemma tolerates_Inr [tolerates_intro]: "tolerates (\<lambda>strict. Inr x)"
  by (simp add: tolerates_def)

lemma tolerates_then [tolerates_intro]:
  "tolerates f \<Longrightarrow> (\<And>x. tolerates (g x)) \<Longrightarrow> tolerates (\<lambda>strict. then_r (f strict) (\<lambda>x. g x strict))"
  unfolding tolerates_def by fastforce

lemma tolerates_number [tolerates_intro]: "tolerates (\<lambda>strict. obs_number strict d v)"
  by (auto simp: tolerates_def obs_number_def split: option.splits)

lemma tolerates_number_at_least [tolerates_intro]: "tolerates (\<lambda>strict. number_at_least strict low d v)"
  unfolding number_at_least_def by (intro tolerates_intro)

lemma tolerates_optional [tolerates_intro]: "tolerates (\<lambda>strict. obs_optional_number strict v)"
  by (auto simp: tolerates_def obs_optional_number_def obs_number_def split: option.splits)

lemma tolerates_lenient: "tolerates f \<Longrightarrow> tolerates (\<lambda>strict. f False)"
  by (auto simp: tolerates_def)

lemma tolerates_mappings [tolerates_intro]: "tolerates (\<lambda>strict. obs_mappings strict vs)"
proof (induction vs)
  case Nil
  show ?case by (simp add: tolerates_def)
next
  case (Cons v vs)
  then obtain ds where "obs_mappings False vs = Inr ds"
    "obs_mappings True vs = Inr ds \<or> obs_mappings True vs = Inl ValueError"
    by (auto simp: tolerates_def)
  then show ?case by (cases v) (auto simp: tolerates_def)
qed

lemma tolerates_mapping_sequence [tolerates_intro]: "tolerates (\<lambda>strict. mapping_sequence strict v)"
  using tolerates_mappings by (cases v) (auto simp: mapping_sequence_def tolerates_def)

lemma tolerates_always_lenient [tolerates_intro]:
  "tolerates (\<lambda>_. obs_optional_number False v)" "tolerates (\<lambda>_. mapping_sequence False v)"
  by (rule tolerates_lenient, rule tolerates_optional) (rule tolerates_lenient, rule tolerates_mapping_sequence)

lemma tolerates_map [tolerates_intro]:
  "(\<And>x. tolerates (\<lambda>strict. f strict x)) \<Longrightarrow> tolerates (\<lambda>strict. map_r (f strict) xs)"
proof (induction xs)
  case (Cons x xs)
  then obtain y ys where "f False x = Inr y" "f True x = Inr y \<or> f True x = Inl ValueError"
    "map_r (f False) xs = Inr ys" "map_r (f True) xs = Inr ys \<or> map_r (f True) xs = Inl ValueError"
    unfolding tolerates_def by metis
  then show ?case by (auto simp: tolerates_def)
qed (simp add: tolerates_def)

lemma tolerates_alive [tolerates_intro]: "tolerates (\<lambda>strict. enemy_alive strict e)"
  by (auto simp: tolerates_def enemy_alive_def split: pyval.split)

lemma tolerates_intent [tolerates_intro]: "tolerates (\<lambda>strict. enemy_intent strict e)"
  by (auto simp: tolerates_def enemy_intent_def split: pyval.split)

lemma tolerates_powers [tolerates_intro]: "tolerates (\<lambda>strict. enemy_powers strict e)"
  unfolding enemy_powers_def by (rule tolerates_mapping_sequence)

lemma tolerates_turn [tolerates_intro]: "tolerates (\<lambda>strict. observe_turn strict v)"
  by (auto simp: tolerates_def observe_turn_def split: pyval.split)

lemma tolerates_enemy [tolerates_intro]: "tolerates (\<lambda>strict. observe_enemy strict e)"
  unfolding observe_enemy_def
  by (intro tolerates_intro)

lemma tolerates_observe: "tolerates (\<lambda>strict. observe strict dto)"
  unfolding observe_def
  by (intro tolerates_intro)

lemma observe_returns: "\<exists>ob. observe False dto = Inr ob"
  using tolerates_observe unfolding tolerates_def by blast

section \<open>Ranges\<close>

definition enemy_ok :: "enemy_observation \<Rightarrow> bool" where
  "enemy_ok e \<longleftrightarrow> 0 \<le> eo_hp e \<and> 1 \<le> eo_max_hp e \<and> 0 \<le> eo_attack_damage e \<and> 0 \<le> eo_attack_repeats e \<and>
     0 \<le> eo_block e"

definition observation_ok :: "combat_observation \<Rightarrow> bool" where
  "observation_ok ob \<longleftrightarrow> 0 \<le> ob_hp ob \<and> 1 \<le> ob_max_hp ob \<and> 0 \<le> ob_block ob \<and> list_all enemy_ok (ob_enemies ob)"

lemma number_at_least_ge: "number_at_least strict low d v = Inr r \<Longrightarrow> low \<le> r"
  by (auto simp: number_at_least_def then_r_eq_Inr)

lemma observe_enemy_ok: "observe_enemy strict e = Inr x \<Longrightarrow> enemy_ok x"
  by (auto simp: observe_enemy_def then_r_eq_Inr enemy_ok_def dest!: number_at_least_ge)

lemma observe_ok: "observe strict dto = Inr ob \<Longrightarrow> observation_ok ob"
  by (auto simp: observe_def then_r_eq_Inr observation_ok_def list_all_iff
      dest!: number_at_least_ge dest: map_r_elem observe_enemy_ok)

lemma incoming_attack_nonneg: "0 \<le> incoming_attack e"
  by (simp add: incoming_attack_def)

lemma incoming_damage_nonneg: "0 \<le> incoming_damage ob"
  by (simp add: incoming_damage_def)

section \<open>Properties\<close>

text \<open>Strict reading refines tolerant reading: the tolerant observation of a DTO always exists, strict
  reading returns the same observation or raises \<open>ValueError\<close>, so the policy and the value function
  never see two different views of one state.\<close>

theorem strict_refines_tolerant:
  "\<exists>ob. observe False dto = Inr ob \<and> (observe True dto = Inr ob \<or> observe True dto = Inl ValueError)"
  using tolerates_observe unfolding tolerates_def by blast

text \<open>Every observation is in range, whatever the DTO holds: hit points, blocks, attack damage and repeats
  are not negative, maxima are at least one, so no ratio divides by zero; the danger ratio is not
  negative, and the threat is lethal only if the damage that comes through the block is positive.\<close>

theorem observation_in_range:
  assumes "observe strict dto = Inr ob"
  shows "observation_ok ob \<and> 0 \<le> danger_ratio ob \<and> (lethal_threat ob \<longrightarrow> 0 < incoming_damage ob \<and>
    ob_block ob < incoming_before_block ob)"
  using observe_ok [OF assms] incoming_damage_nonneg [of ob]
  by (auto simp: danger_ratio_def lethal_threat_def incoming_damage_def max_def split: if_splits)

theorem observation_in_range_witness:
  "\<exists>ob. observe False [(''hp'', PInt (-5)), (''enemies'', PList [PNone, PDict [(''hp'', PStr ''x'')]])] = Inr ob \<and>
     observation_ok ob"
proof -
  obtain ob where "observe False [(''hp'', PInt (-5)), (''enemies'', PList [PNone, PDict [(''hp'', PStr ''x'')]])] = Inr ob"
    using observe_returns by blast
  with observation_in_range [OF this] show ?thesis by blast
qed

end
