(* ===== verification/Prior_Policy.thy ===== *)
theory Prior_Policy
  imports Candidate_Coverage Choice_Semantics Combat_Observation
begin

text \<open>
  \<open>decision/policy.py\<close>: the bootstrap policy \<open>PriorHeuristicPolicy\<close>, which ranks the available actions
  of a decision by a hand-written score of the observation.  Its random generator, when it has one,
  draws from the world; the scores are exact rationals.
\<close>

section \<open>Reading an action\<close>

fun mapping_of :: "pyval \<Rightarrow> pydict" where
  "mapping_of (PDict d) = d"
| "mapping_of _ = []"

definition action_params :: "pydict \<Rightarrow> pydict" where
  "action_params action = mapping_of (dget action ''parameters'')"

text \<open>\<open>_string(a) or _string(b)\<close>\<close>

definition str_or :: "pyval \<Rightarrow> pyval \<Rightarrow> string option" where
  "str_or a b = (case str_opt a of Some s \<Rightarrow> if s = [] then str_opt b else Some s | None \<Rightarrow> str_opt b)"

text \<open>\<open>_finite_number(v) or r\<close>\<close>

definition number_or :: "pyval \<Rightarrow> rat \<Rightarrow> rat" where
  "number_or v r = (case finite_number v of Some x \<Rightarrow> if x = 0 then r else x | None \<Rightarrow> r)"

text \<open>the entries on which all cards agree; the keys are those of the first card\<close>

definition common_card_metadata :: "pydict list \<Rightarrow> pydict" where
  "common_card_metadata cards =
     (case cards of
        [] \<Rightarrow> []
      | c # cs \<Rightarrow>
          filter (\<lambda>(k, v). list_all (\<lambda>d. dhas d k \<and> py_eq (dget d k) (dget c k)) cs) c)"

definition card_matches :: "rat option \<Rightarrow> string option \<Rightarrow> pydict \<Rightarrow> bool" where
  "card_matches cost target c \<longleftrightarrow>
     (cost = None \<or> finite_number (dget c ''cost'') = cost) \<and>
     (target = None \<or> str_opt (dget c ''targetType'') = target)"

definition hand_card_for :: "pydict \<Rightarrow> combat_observation \<Rightarrow> pydict" where
  "hand_card_for action ob =
     (let params = action_params action in
      case str_opt (dget params ''cardId'') of
        None \<Rightarrow> []
      | Some card_id \<Rightarrow>
          (case filter (\<lambda>c. dget c ''id'' = PStr card_id) (ob_hand ob) of
             [] \<Rightarrow> []
           | [c] \<Rightarrow> c
           | matches \<Rightarrow>
               (case filter (card_matches (finite_number (dget params ''cost'')) (str_opt (dget params ''targetType'')))
                       matches of
                  [] \<Rightarrow> common_card_metadata matches
                | [c] \<Rightarrow> c
                | narrowed \<Rightarrow> common_card_metadata narrowed)))"

definition potion_for :: "pydict \<Rightarrow> combat_observation \<Rightarrow> pydict" where
  "potion_for action ob =
     (case finite_number (dget (action_params action) ''potionSlot'') of
        None \<Rightarrow> []
      | Some n \<Rightarrow>
          (let slot = trunc n in
           if slot < 0 \<or> int (length (ob_potions ob)) \<le> slot then [] else ob_potions ob ! nat slot))"

section \<open>Scores\<close>

record combat_context =
  cc_observation :: combat_observation
  cc_playable_cards :: nat
  cc_choice_card_scores :: "(string \<times> rat) list"

definition action_type_base_score :: "(string \<times> rat) list" where
  "action_type_base_score =
     [(''choice_target'', 80), (''card'', 60), (''choice_card'', 55), (''choice_confirm'', 32),
      (''choice_skip'', 12), (''potion'', 30), (''system'', 10)]"

definition table_score :: "(string \<times> rat) list \<Rightarrow> string option \<Rightarrow> rat \<Rightarrow> rat" where
  "table_score table key dflt =
     (case key of None \<Rightarrow> dflt | Some k \<Rightarrow> (case map_of table k of None \<Rightarrow> dflt | Some r \<Rightarrow> r))"

definition all_enemies_bonus :: "string option \<Rightarrow> combat_observation \<Rightarrow> rat" where
  "all_enemies_bonus target ob =
     (let n = length (alive_enemies ob) in
      if target = Some ''AllEnemies'' \<and> 1 < n then 3 * of_nat (min 3 (n - 1)) else 0)"

definition cost_score :: "rat option \<Rightarrow> rat option \<Rightarrow> rat" where
  "cost_score cost energy =
     (case cost of
        None \<Rightarrow> 0
      | Some c \<Rightarrow> max 0 (2 - c) * (3 / 2) +
          (case energy of Some e \<Rightarrow> if e < c then - 100 else 0 | None \<Rightarrow> 0))"

definition danger_score :: "string option \<Rightarrow> rat \<Rightarrow> rat" where
  "danger_score card_type danger =
     (if card_type = Some ''Skill'' then 12 * danger
      else if card_type = Some ''Power'' then 7 * (1 - danger) - 10 * danger
      else if card_type = Some ''Attack'' then 4 * (1 - danger) else 0)"

definition score_playable_card :: "pydict \<Rightarrow> combat_context \<Rightarrow> rat" where
  "score_playable_card action ctx =
     (let ob = cc_observation ctx;
          params = action_params action;
          c = hand_card_for action ob;
          card_type = str_opt (dget c ''type'');
          card_id = str_or (dget params ''cardId'') (dget c ''id'');
          target = str_or (dget params ''targetType'') (dget c ''targetType'');
          cost = (case finite_number (dget params ''cost'') of
                    None \<Rightarrow> finite_number (dget c ''cost'') | Some r \<Rightarrow> Some r);
          danger = min 1 (danger_ratio ob)
      in table_score card_type_score card_type 0 + table_score rarity_score (str_opt (dget c ''rarity'')) 0 +
         upgrade_bonus c + cost_score cost (ob_energy ob) + danger_score card_type danger +
         (case card_id of Some s \<Rightarrow> if take 6 s = ''DEFEND'' then 10 * danger else 0 | None \<Rightarrow> 0) +
         all_enemies_bonus target ob)"

definition score_potion :: "pydict \<Rightarrow> combat_context \<Rightarrow> rat" where
  "score_potion action ctx =
     (let ob = cc_observation ctx;
          rarity = str_opt (dget (potion_for action ob) ''rarity'')
      in 30 * min 1 (danger_ratio ob) + (if lethal_threat ob then 15 else 0) +
         all_enemies_bonus (str_opt (dget (action_params action) ''targetType'')) ob -
         (if rarity = Some ''Rare'' then 4 else if rarity = Some ''Uncommon'' then 2 else 0))"

definition score_end_turn :: "combat_context \<Rightarrow> rat" where
  "score_end_turn ctx =
     (let ob = cc_observation ctx in
      (if cc_playable_cards ctx = 0 then 30 else 0) +
      (case ob_energy ob of
         None \<Rightarrow> 0
       | Some e \<Rightarrow> if e \<le> 0 then 20 else if 0 < cc_playable_cards ctx then - min 12 (4 * e) else 0) +
      (if incoming_damage ob \<le> 0 then 5 else 0) - (if lethal_threat ob then 35 else 0))"

definition score_target :: "pydict \<Rightarrow> combat_observation \<Rightarrow> rat" where
  "score_target action ob =
     (let params = action_params action;
          hp = max 0 (number_or (dget params ''hp'') 0);
          block = max 0 (number_or (dget params ''block'') 0);
          max_hp = max 1 (number_or (dget params ''maxHp'') (max 1 hp));
          ratio = min 2 ((hp + block) / max_hp);
          incoming =
            (case finite_number (dget params ''enemyIndex'') of
               None \<Rightarrow> 0
             | Some i \<Rightarrow> (case enemy_by_index ob (trunc i) of None \<Rightarrow> 0 | Some e \<Rightarrow> incoming_attack e))
      in 20 * (1 - min 1 ratio) + min 25 (incoming * (3 / 4)))"

definition score_choice_completion :: "string \<Rightarrow> pydict \<Rightarrow> rat" where
  "score_choice_completion action_type dto =
     (let pending = mapping_of (dget dto ''pendingChoice'');
          selected = number_or (dget pending ''selectedCount'') 0;
          min_select = number_or (dget pending ''minSelect'') 0;
          full = (case finite_number (dget pending ''maxSelect'') of None \<Rightarrow> False | Some m \<Rightarrow> m \<le> selected)
      in if selected < min_select then - 100
         else if full then (if action_type = ''choice_confirm'' then 40 else 20)
         else if action_type = ''choice_confirm'' then 8 else 0)"

text \<open>\<open>_action_score\<close> of an action whose type is a string\<close>

definition policy_action_score :: "pydict \<Rightarrow> pydict \<Rightarrow> combat_context \<Rightarrow> rat" where
  "policy_action_score action dto ctx =
     (let t = action_type_of action;
          base = table_score action_type_base_score (Some t) (- 10)
      in if t = ''card'' then base + score_playable_card action ctx
         else if t = ''potion'' then base + score_potion action ctx
         else if t = ''system'' then base + score_end_turn ctx
         else if t = ''choice_target'' then base + score_target action (cc_observation ctx)
         else if t = ''choice_card'' then
           (case str_opt (dget action ''action_id'') of
              Some aid \<Rightarrow> base + (case map_of (cc_choice_card_scores ctx) aid of None \<Rightarrow> 0 | Some r \<Rightarrow> r)
            | None \<Rightarrow> base)
         else if t \<in> set [''choice_confirm'', ''choice_skip''] then base + score_choice_completion t dto
         else base)"

section \<open>Proposing\<close>

definition typed_available :: "pydict list \<Rightarrow> pydict list" where
  "typed_available legal_actions =
     filter (\<lambda>a. is_available a \<and> is_str (dget a ''action_type'')) legal_actions"

text \<open>
  One row per action, with its score and its tie break.  Sorting by \<open>(-score, -tie_break, index)\<close> is
  sorting by the tie break and then by the score, both stable.
\<close>

type_synonym scored_row = "(rat \<times> rat) \<times> pydict"

definition tie_break :: "('w \<Rightarrow> nat \<times> 'w) option \<Rightarrow> ('w, exn, rat) py" where
  "tie_break rng = (case rng of None \<Rightarrow> ret_p 0 | Some draw \<Rightarrow> rng_random draw)"

definition score_row ::
  "('w \<Rightarrow> nat \<times> 'w) option \<Rightarrow> pydict \<Rightarrow> combat_context \<Rightarrow> pydict \<Rightarrow> ('w, exn, scored_row) py" where
  "score_row rng dto ctx action =
     bind_p (tie_break rng) (\<lambda>tie. ret_p ((policy_action_score action dto ctx, tie), action))"

definition rank_rows :: "scored_row list \<Rightarrow> scored_row list" where
  "rank_rows rows = sorted_desc (fst \<circ> fst) (sorted_desc (snd \<circ> fst) rows)"

text \<open>
  \<open>ActionCandidate(action_id=action['action_id'])\<close>; a candidate whose id is not a string is one that
  no caller accepts
\<close>

definition candidate_of :: "pydict \<Rightarrow> exn + proposed" where
  "candidate_of action =
     (if \<not> dhas action ''action_id'' then Inl KeyError
      else (case dget action ''action_id'' of
              PStr aid \<Rightarrow> Inr (Candidate (plain_candidate aid))
            | _ \<Rightarrow> Inr OtherObject))"

definition prior_propose ::
  "('w \<Rightarrow> nat \<times> 'w) option \<Rightarrow> pydict list \<Rightarrow> pydict \<Rightarrow> pyval \<Rightarrow> ('w, exn, proposed list) py" where
  "prior_propose rng legal_actions dto top_k =
     bind_p (lift_p (coverage_top_k top_k)) (\<lambda>k.
       let available = typed_available legal_actions in
       if available = [] then ret_p []
       else
         bind_p (lift_p (observe False dto)) (\<lambda>ob.
         bind_p (lift_p (choice_card_preference_scores available dto)) (\<lambda>scores.
           let ctx = \<lparr>cc_observation = ob,
                 cc_playable_cards = length (filter (\<lambda>a. action_type_of a = ''card'') available),
                 cc_choice_card_scores = scores\<rparr>
           in bind_p (collect_p (score_row rng dto ctx) available) (\<lambda>rows.
                lift_p (map_r (candidate_of \<circ> snd) (take (nat k) (rank_rows rows)))))))"

definition prior_heuristic_policy :: "('w \<Rightarrow> nat \<times> 'w) option \<Rightarrow> 'w policy_model" where
  "prior_heuristic_policy rng =
     \<lparr>propose = prior_propose rng, propose_batch = default_propose_batch (prior_propose rng)\<rparr>"

section \<open>Facts about the ranking\<close>

text \<open>best first: a higher score, or the same score and a tie break that is not lower\<close>

definition row_before :: "scored_row \<Rightarrow> scored_row \<Rightarrow> bool" where
  "row_before r r' \<longleftrightarrow> fst (fst r') < fst (fst r) \<or> fst (fst r') = fst (fst r) \<and> snd (fst r') \<le> snd (fst r)"

lemma sorted_desc_lexicographic:
  "sorted_wrt (\<lambda>x y. f y < f x \<or> f y = f x \<and> g y \<le> g x) (sorted_desc f (sorted_desc g xs))"
proof -
  have ties: "sorted_wrt (\<lambda>x y. g y \<le> g x) (filter (\<lambda>x. f x = v) (sorted_desc f (sorted_desc g xs)))" for v
  proof -
    have "sorted_wrt (\<lambda>x y. g y \<le> g x) (sorted_desc g xs)"
      using sorted_desc_sorted [of g xs] by (simp add: sorted_map)
    then show ?thesis by (simp add: sorted_desc_stable sorted_wrt_filter)
  qed
  have "sorted_wrt (\<lambda>x y. f y \<le> f x) (sorted_desc f (sorted_desc g xs))"
    using sorted_desc_sorted [of f "sorted_desc g xs"] by (simp add: sorted_map)
  moreover have "sorted_wrt (\<lambda>x y. f y < f x \<or> f y = f x \<and> g y \<le> g x) ys"
    if "sorted_wrt (\<lambda>x y. f y \<le> f x) ys" "\<And>v. sorted_wrt (\<lambda>x y. g y \<le> g x) (filter (\<lambda>x. f x = v) ys)" for ys
    using that
  proof (induction ys)
    case (Cons y ys)
    have "sorted_wrt (\<lambda>x y. g y \<le> g x) (filter (\<lambda>x. f x = v) ys)" for v
      using Cons.prems(2) [of v] by (auto split: if_splits)
    moreover have "f x < f y \<or> f x = f y \<and> g x \<le> g y" if "x \<in> set ys" for x
      using Cons.prems that Cons.prems(2) [of "f y"] by fastforce
    ultimately show ?case using Cons by simp
  qed simp
  ultimately show ?thesis using ties by blast
qed

lemma rank_rows_before: "sorted_wrt row_before (rank_rows rows)"
  using sorted_desc_lexicographic [of "fst \<circ> fst" "snd \<circ> fst" rows]
  by (simp add: rank_rows_def row_before_def [abs_def])

lemma rank_rows_mset [simp]: "mset (rank_rows rows) = mset rows"
  by (simp add: rank_rows_def)

lemma rank_rows_set [simp]: "set (rank_rows rows) = set rows"
  by (simp add: rank_rows_def)

lemma rank_rows_length [simp]: "length (rank_rows rows) = length rows"
  by (simp add: rank_rows_def)

definition row_of :: "('w \<Rightarrow> nat \<times> 'w) option \<Rightarrow> pydict \<Rightarrow> combat_context \<Rightarrow> pydict \<Rightarrow> scored_row \<Rightarrow> bool" where
  "row_of rng dto ctx a r \<longleftrightarrow>
     snd r = a \<and> fst (fst r) = policy_action_score a dto ctx \<and> (rng = None \<longrightarrow> snd (fst r) = 0)"

lemma score_row_wp: "wp (score_row rng dto ctx a) (\<lambda>r _. row_of rng dto ctx a r) (\<lambda>_ _. False) w"
proof (cases rng)
  case None
  then show ?thesis by (simp add: score_row_def tie_break_def row_of_def wp_ret)
next
  case (Some draw)
  then show ?thesis
    by (auto simp: score_row_def tie_break_def row_of_def wp_bind wp_ret intro: wp_mono [OF rng_random_range])
qed

lemma rows_wp:
  "wp (collect_p (score_row rng dto ctx) xs) (\<lambda>rows _. list_all2 (row_of rng dto ctx) xs rows) (\<lambda>_ _. False) w"
  by (rule wp_collect_all2) (rule score_row_wp)

lemma rows_actions: "list_all2 (row_of rng dto ctx) xs rows \<Longrightarrow> map snd rows = xs"
  by (induction rule: list_all2_induct) (auto simp: row_of_def)

lemma rows_scores:
  "list_all2 (row_of rng dto ctx) xs rows \<Longrightarrow> r \<in> set rows \<Longrightarrow> fst (fst r) = policy_action_score (snd r) dto ctx"
  by (induction rule: list_all2_induct) (auto simp: row_of_def)

text \<open>the candidates of the first \<open>k\<close> rows of some ranking of the available actions\<close>

definition ranking_of ::
  "pydict list \<Rightarrow> pydict \<Rightarrow> combat_context \<Rightarrow> int \<Rightarrow> scored_row list \<Rightarrow> proposed list \<Rightarrow> bool" where
  "ranking_of available dto ctx k rows ps \<longleftrightarrow>
     mset (map snd rows) = mset available \<and> sorted_wrt row_before rows \<and>
     (\<forall>r \<in> set rows. fst (fst r) = policy_action_score (snd r) dto ctx) \<and>
     list_all2 (\<lambda>r p. candidate_of (snd r) = Inr p) (take (nat k) rows) ps"

lemma list_all2_map_r: "map_r f xs = Inr ys \<Longrightarrow> list_all2 (\<lambda>x y. f x = Inr y) xs ys"
  by (simp add: map_r_eq_Inr)

lemma candidate_of_error: "candidate_of a = Inl e \<Longrightarrow> e = KeyError \<and> \<not> dhas a ''action_id''"
  by (auto simp: candidate_of_def split: if_splits pyval.splits)

lemma map_r_error: "map_r f xs = Inl e \<Longrightarrow> \<exists>x \<in> set xs. f x = Inl e"
  by (induction xs) (auto simp: then_r_eq_Inl)

lemma prior_propose_wp:
  "wp (prior_propose rng legal_actions dto (PInt k))
     (\<lambda>ps _. 0 < k \<and> (\<exists>ctx rows. ranking_of (typed_available legal_actions) dto ctx k rows ps))
     (\<lambda>e _. k \<le> 0 \<and> e = ValueError \<or>
        choice_card_preference_scores (typed_available legal_actions) dto = Inl e \<or>
        e = KeyError \<and> (\<exists>a \<in> set (typed_available legal_actions). \<not> dhas a ''action_id'')) w"
proof -
  let ?av = "typed_available legal_actions"
  obtain ob where ob: "observe False dto = Inr ob" using observe_returns by blast
  show ?thesis
  proof (cases "0 < k \<and> ?av \<noteq> []")
    case False
    then show ?thesis
      by (auto simp: prior_propose_def coverage_top_k_def wp_bind wp_lift wp_ret ranking_of_def Let_def)
  next
    case True
    show ?thesis
    proof (cases "choice_card_preference_scores ?av dto")
      case (Inl e)
      with True ob show ?thesis
        by (simp add: prior_propose_def coverage_top_k_def wp_bind wp_lift Let_def)
    next
      case (Inr scores)
      define ctx where "ctx = \<lparr>cc_observation = ob,
        cc_playable_cards = length (filter (\<lambda>a. action_type_of a = ''card'') ?av), cc_choice_card_scores = scores\<rparr>"
      have rank: "ranking_of ?av dto ctx k (rank_rows rows) ps"
        if "list_all2 (row_of rng dto ctx) ?av rows" "map_r (candidate_of \<circ> snd) (take (nat k) (rank_rows rows)) = Inr ps"
        for rows ps
        using list_all2_map_r [OF that(2)] rows_actions [OF that(1), THEN arg_cong, of mset]
          rows_scores [OF that(1)] rank_rows_before [of rows]
        by (auto simp: ranking_of_def)
      have key: "e = KeyError \<and> (\<exists>a \<in> set ?av. \<not> dhas a ''action_id'')"
        if "list_all2 (row_of rng dto ctx) ?av rows" "map_r (candidate_of \<circ> snd) (take (nat k) (rank_rows rows)) = Inl e"
        for rows e
      proof -
        note rows = that(1) and err = that(2)
        obtain r where "r \<in> set (rank_rows rows)" "candidate_of (snd r) = Inl e"
          using map_r_error [OF err] by (auto dest: in_set_takeD)
        moreover from this have "snd r \<in> set ?av" using rows_actions [OF rows, symmetric] by simp
        ultimately show ?thesis by (auto dest: candidate_of_error)
      qed
      have step: "wp (lift_p (map_r (candidate_of \<circ> snd) (take (nat k) (rank_rows rows))))
          (\<lambda>ps _. 0 < k \<and> (\<exists>ctx rows. ranking_of ?av dto ctx k rows ps))
          (\<lambda>e _. e = KeyError \<and> (\<exists>a \<in> set ?av. \<not> dhas a ''action_id'')) t"
        if "list_all2 (row_of rng dto ctx) ?av rows" for rows t
        using True rank [OF that] key [OF that]
        by (cases "map_r (candidate_of \<circ> snd) (take (nat k) (rank_rows rows))") (auto simp: wp_lift)
      have "wp (collect_p (score_row rng dto ctx) ?av)
          (\<lambda>rows. wp (lift_p (map_r (candidate_of \<circ> snd) (take (nat k) (rank_rows rows))))
            (\<lambda>ps _. 0 < k \<and> (\<exists>ctx rows. ranking_of ?av dto ctx k rows ps))
            (\<lambda>e _. e = KeyError \<and> (\<exists>a \<in> set ?av. \<not> dhas a ''action_id'')))
          (\<lambda>e _. e = KeyError \<and> (\<exists>a \<in> set ?av. \<not> dhas a ''action_id'')) w"
        by (rule wp_mono [OF rows_wp]) (auto intro: step)
      with True ob Inr show ?thesis
        by (simp add: prior_propose_def coverage_top_k_def wp_bind wp_lift Let_def ctx_def)
    qed
  qed
qed

section \<open>The policy under the structural coverage\<close>

lemma plain_candidate_score: "candidate_action_score (plain_candidate aid) = Inr None"
  by (simp add: candidate_action_score_def score_attributes_def plain_candidate_def)

lemma select_ranked_plain:
  assumes "\<forall>p \<in> set ranked. \<exists>aid. p = Candidate (plain_candidate aid) \<and> map_of by_id aid \<noteq> None"
  shows "\<exists>sel. select_ranked by_id k rank selected ranked = Inr sel"
  using assms
proof (induction ranked arbitrary: rank selected)
  case (Cons p ranked)
  then obtain aid where "p = Candidate (plain_candidate aid)" "map_of by_id aid \<noteq> None" by auto
  with Cons show ?case
    by (auto simp: policy_proposal_def plain_candidate_score) (simp_all add: plain_candidate_def)
qed simp

lemma coverage_accepts:
  assumes "0 < k" "\<forall>p \<in> set ranked. \<exists>a \<in> set (coverage_available legal_actions).
    p = Candidate (plain_candidate (action_id_of a))"
  shows "\<exists>ps. apply_structural_coverage_with_provenance ranked legal_actions (PInt k) = Inr ps"
proof -
  have "\<exists>sel. select_ranked (actions_by_id (coverage_available legal_actions)) k 0 [] ranked = Inr sel"
    by (rule select_ranked_plain) (use assms(2) by_id_dom [of "coverage_available legal_actions"] in
      \<open>fastforce simp: map_of_eq_None_iff\<close>)
  then show ?thesis
    using assms(1) by (auto simp: apply_structural_coverage_with_provenance_def coverage_top_k_def Let_def)
qed

lemma ranking_covered:
  assumes "ranking_of (typed_available legal_actions) dto ctx k rows ps"
    and "\<forall>a \<in> set (typed_available legal_actions). is_str (dget a ''action_id'')"
  shows "\<forall>p \<in> set ps. \<exists>a \<in> set (coverage_available legal_actions). p = Candidate (plain_candidate (action_id_of a))"
proof
  fix p assume p: "p \<in> set ps"
  have "list_all2 (\<lambda>r p. candidate_of (snd r) = Inr p) (take (nat k) rows) ps"
    using assms(1) by (simp add: ranking_of_def)
  from all2_partner [OF this p]
  obtain r where r: "r \<in> set (take (nat k) rows)" "candidate_of (snd r) = Inr p" by blast
  have "snd r \<in> set (typed_available legal_actions)"
    using in_set_takeD [OF r(1)] assms(1) mset_eq_setD [of "map snd rows"] by (auto simp: ranking_of_def)
  with assms(2) r(2) show "\<exists>a \<in> set (coverage_available legal_actions). p = Candidate (plain_candidate (action_id_of a))"
    by (intro bexI [of _ "snd r"])
      (auto simp: candidate_of_def action_id_of_def typed_available_def coverage_available_def
        split: if_splits pyval.splits)
qed

section \<open>Properties\<close>


definition demo_prior_actions :: "pydict list" where
  "demo_prior_actions =
     [[(''action_id'', PStr ''e''), (''action_type'', PStr ''system'')],
      [(''action_id'', PStr ''p''), (''action_type'', PStr ''potion'')]]"

lemma demo_prior_run:
  "fst (prior_propose None demo_prior_actions [] (PInt 1) ()) = Inr [Candidate (plain_candidate ''e'')]"
  by code_simp


text \<open>The bootstrap policy keeps the contract of the structural coverage: on actions whose ids are
  strings the covered policy returns proposals for every positive budget; the only exception is the one
  the scores of a pending card choice raise, never the coverage's refusal of the ranking.\<close>

theorem prior_policy_is_covered:
  assumes "0 < k" "\<forall>a \<in> set (typed_available legal_actions). is_str (dget a ''action_id'')"
    and "coverage_propose_with_provenance (prior_heuristic_policy rng) legal_actions dto (PInt k) w = (Inl e, w')"
  shows "choice_card_preference_scores (typed_available legal_actions) dto = Inl e"
proof -
  let ?av = "typed_available legal_actions"
  have ids: "\<not> (\<exists>a \<in> set ?av. \<not> dhas a ''action_id'')"
    using assms(2) by (force dest: dget_not_dhas)
  have "wp (coverage_propose_with_provenance (prior_heuristic_policy rng) legal_actions dto (PInt k))
      (\<lambda>_ _. True) (\<lambda>e _. choice_card_preference_scores ?av dto = Inl e) w"
    unfolding coverage_propose_with_provenance_def prior_heuristic_policy_def policy_model.simps wp_bind
  proof (rule wp_mono [OF prior_propose_wp])
    fix ps t
    assume "0 < k \<and> (\<exists>ctx rows. ranking_of ?av dto ctx k rows ps)"
    then obtain out where "apply_structural_coverage_with_provenance ps legal_actions (PInt k) = Inr out"
      using coverage_accepts ranking_covered [OF _ assms(2)] by blast
    then show "wp (lift_p (apply_structural_coverage_with_provenance ps legal_actions (PInt k)))
        (\<lambda>_ _. True) (\<lambda>e _. choice_card_preference_scores ?av dto = Inl e) t"
      by (simp add: wp_lift)
  qed (use assms(1) ids in auto)
  with assms(3) show ?thesis by (simp add: wp_def)
qed

theorem prior_policy_is_covered_witness:
  "choice_card_preference_scores (typed_available [demo_choice_action]) (demo_choice_dto (PList [])) = Inl TypeError"
proof -
  have "observe False (demo_choice_dto (PList [])) \<noteq> Inl x" for x
    using observe_returns [of "demo_choice_dto (PList [])"] by auto
  then obtain ob where ob: "observe False (demo_choice_dto (PList [])) = Inr ob" by (metis sum.exhaust)
  have av: "typed_available [demo_choice_action] = [demo_choice_action]"
    by (simp add: typed_available_def demo_choice_action_def is_available_def)
  have "coverage_propose_with_provenance (prior_heuristic_policy None) [demo_choice_action]
      (demo_choice_dto (PList [])) (PInt 1) () = (Inl TypeError, ())"
    by (simp add: coverage_propose_with_provenance_def prior_heuristic_policy_def prior_propose_def
        coverage_top_k_def bind_p_def lift_p_def av ob demo_choice_scores score_of_def)
  moreover have "is_str (dget demo_choice_action ''action_id'')" by (simp add: demo_choice_action_def)
  ultimately show ?thesis
    using prior_policy_is_covered [of 1 "[demo_choice_action]" None "demo_choice_dto (PList [])" "()" TypeError "()"]
    by (simp add: av)
qed

end
