(* ===== verification/Heuristic_Selector.thy ===== *)
theory Heuristic_Selector
  imports Prior_Policy
begin

text \<open>
  The fallback selection: \<open>selection/heuristic_selector.py\<close> with the preferences of
  \<open>selection/room_heuristic.py\<close>, \<open>selection/rest_heuristic.py\<close>,
  \<open>selection/event_choice_heuristic.py\<close> and \<open>selection/reward_card_selection.py\<close>.  The random generator
  of the selector and its policy live in the world \<open>'w\<close>.  What the selector needs of a policy for card
  rewards is the locale \<open>reward_policy\<close>, interpreted on the two policies of the code.
\<close>

section \<open>Preferences for rooms and rest sites\<close>

text \<open>the score dictionaries: a later action with the same id replaces the score, at the old place\<close>

fun action_scores :: "(pydict \<Rightarrow> rat) \<Rightarrow> (string \<times> rat) list \<Rightarrow> pydict list \<Rightarrow> (string \<times> rat) list" where
  "action_scores f scores [] = scores"
| "action_scores f scores (a # as) =
     action_scores f
       (case nonempty_str_opt (dget a ''action_id'') of
          None \<Rightarrow> scores | Some aid \<Rightarrow> AList.update aid (f a) scores) as"

definition hp_ratio :: "pydict \<Rightarrow> rat option" where
  "hp_ratio dto =
     (case (finite_number (dget dto ''hp''), finite_number (dget dto ''maxHp'')) of
        (Some hp, Some max_hp) \<Rightarrow> if max_hp \<le> 0 then None else Some (max 0 hp / max_hp)
      | _ \<Rightarrow> None)"

definition point_type_score :: "(string \<times> rat) list" where
  "point_type_score =
     [(''Treasure'', 6), (''RestSite'', 5), (''Shop'', 3), (''Unknown'', 2), (''Monster'', 0),
      (''Elite'', - 2), (''Boss'', 0)]"

definition low_hp_adjustment :: "string option \<Rightarrow> rat option \<Rightarrow> rat" where
  "low_hp_adjustment point ratio =
     (case ratio of
        None \<Rightarrow> 0
      | Some r \<Rightarrow>
          if r < 1 / 2
          then (let urgency = (1 / 2 - r) / (1 / 2) in
                if point = Some ''RestSite'' then 10 * urgency
                else if point = Some ''Elite'' then - 8 * urgency else 0)
          else 0)"

definition room_quality_score :: "pydict \<Rightarrow> rat option \<Rightarrow> rat" where
  "room_quality_score action ratio =
     (let point = str_opt (vget (dget action ''parameters'') ''point_type'') in
      table_score point_type_score point 0 + low_hp_adjustment point ratio)"

definition room_preference_scores :: "pydict list \<Rightarrow> pydict \<Rightarrow> (string \<times> rat) list" where
  "room_preference_scores legal_actions dto =
     action_scores (\<lambda>a. room_quality_score a (hp_ratio dto)) [] (map_room_actions legal_actions)"

definition healing_rest_option_ids :: "string list" where
  "healing_rest_option_ids = [''HEAL'', ''MEND'']"

definition rest_option_quality_score :: "string option \<Rightarrow> rat option \<Rightarrow> rat" where
  "rest_option_quality_score option_id ratio =
     (if option_id \<in> Some ` set healing_rest_option_ids then
        (case ratio of None \<Rightarrow> 10 | Some r \<Rightarrow> 10 * max 0 (min 1 (1 - r)))
      else if option_id = Some ''SMITH'' then 3 else 0)"

definition rest_option_id :: "pydict \<Rightarrow> string option" where
  "rest_option_id action =
     (case nonempty_str_opt (vget (dget action ''parameters'') ''restOptionId'') of
        Some s \<Rightarrow> Some s
      | None \<Rightarrow> nonempty_str_opt (dget action ''label''))"

definition rest_option_preference_scores :: "pydict list \<Rightarrow> pydict \<Rightarrow> (string \<times> rat) list" where
  "rest_option_preference_scores legal_actions dto =
     action_scores (\<lambda>a. rest_option_quality_score (rest_option_id a) (hp_ratio dto)) []
       (rest_option_actions legal_actions)"

section \<open>Safe event options\<close>

definition is_confirmed_lethal :: "pydict \<Rightarrow> bool" where
  "is_confirmed_lethal action \<longleftrightarrow>
     vget (dget action ''parameters'') ''willKillPlayer'' = PBool True"

definition safe_event_option_candidates :: "pydict list \<Rightarrow> pydict list" where
  "safe_event_option_candidates legal_actions =
     (let event_actions = choice_event_option_actions legal_actions;
          safe = filter (\<lambda>a. \<not> is_confirmed_lethal a) event_actions
      in if safe = [] then event_actions else safe)"

section \<open>Card rewards\<close>

type_synonym 'w reward_card_policy =
  "('w \<Rightarrow> nat \<times> 'w) \<Rightarrow> pydict list \<Rightarrow> pydict \<Rightarrow> ('w, exn, pydict) py"

definition random_reward_select :: "'w reward_card_policy" where
  "random_reward_select draw legal_actions dto = rng_choose ValueError draw legal_actions"

definition reward_score :: "(string \<times> rat) list \<Rightarrow> pydict \<Rightarrow> rat" where
  "reward_score card_scores action =
     table_score card_scores (str_opt (vget (dget action ''parameters'') ''cardId'')) 0"

fun max_score :: "('a \<Rightarrow> rat) \<Rightarrow> 'a list \<Rightarrow> rat" where
  "max_score f [] = 0"
| "max_score f [x] = f x"
| "max_score f (x # xs) = max (f x) (max_score f xs)"

text \<open>the table of card scores is the one \<open>_card_scores()\<close> reads from a data file\<close>

definition card_data_reward_select :: "(string \<times> rat) list \<Rightarrow> 'w reward_card_policy" where
  "card_data_reward_select card_scores draw legal_actions dto =
     (let candidates = reward_card_actions legal_actions;
          best = max_score (reward_score card_scores) candidates
      in if candidates = [] then rng_choose ValueError draw legal_actions
         else rng_choose ValueError draw (filter (\<lambda>a. reward_score card_scores a = best) candidates))"

section \<open>The selector\<close>

record 'w heuristic_selector =
  hs_draw :: "'w \<Rightarrow> nat \<times> 'w"
  hs_epsilon :: rat
  hs_policy :: "'w policy_model"
  hs_reward_policy :: "'w reward_card_policy"

text \<open>
  the check of the constructor; a value that is not a number does not compare, a NaN or an infinity
  is outside the interval
\<close>

definition epsilon_check :: "pyval \<Rightarrow> exn + rat" where
  "epsilon_check v =
     (case num_of v of
        None \<Rightarrow> Inl TypeError
      | Some (Fin r) \<Rightarrow> if 0 \<le> r \<and> r \<le> 1 then Inr r else Inl ValueError
      | Some _ \<Rightarrow> Inl ValueError)"

definition selector_init ::
  "('w \<Rightarrow> nat \<times> 'w) \<Rightarrow> pyval \<Rightarrow> 'w policy_model option \<Rightarrow> 'w reward_card_policy option \<Rightarrow>
     (string \<times> rat) list \<Rightarrow> exn + 'w heuristic_selector" where
  "selector_init draw epsilon policy reward card_scores =
     then_r (epsilon_check epsilon) (\<lambda>eps.
       Inr \<lparr>hs_draw = draw, hs_epsilon = eps,
            hs_policy = (case policy of Some p \<Rightarrow> p | None \<Rightarrow> prior_heuristic_policy None),
            hs_reward_policy = (case reward of Some r \<Rightarrow> r | None \<Rightarrow> card_data_reward_select card_scores)\<rparr>)"

definition pick :: "'w heuristic_selector \<Rightarrow> pydict list \<Rightarrow> ('w, exn, pydict) py" where
  "pick sel candidates = rng_choose ValueError (hs_draw sel) candidates"

text \<open>\<open>scores.get(action.get('action_id')) == best_score\<close>; an id that is not hashable raises\<close>

definition has_score :: "(string \<times> rat) list \<Rightarrow> rat \<Rightarrow> pydict \<Rightarrow> exn + bool" where
  "has_score scores best action =
     (let aid = dget action ''action_id'' in
      if \<not> hashable aid then Inl TypeError
      else Inr (case aid of PStr s \<Rightarrow> map_of scores s = Some best | _ \<Rightarrow> False))"

definition choose_best_scored ::
  "'w heuristic_selector \<Rightarrow> pydict list \<Rightarrow> (string \<times> rat) list \<Rightarrow> ('w, exn, pydict) py" where
  "choose_best_scored sel candidates scores =
     (if scores = [] then pick sel candidates
      else bind_p (lift_p (filter_r (has_score scores (max_score snd scores)) candidates)) (\<lambda>preferred.
        pick sel (if preferred = [] then candidates else preferred)))"

text \<open>\<open>if self._rng.random() < self._epsilon: return self._choose(candidates)\<close>\<close>

definition epsilon_greedy ::
  "'w heuristic_selector \<Rightarrow> pydict list \<Rightarrow> ('w, exn, pydict) py \<Rightarrow> ('w, exn, pydict) py" where
  "epsilon_greedy sel candidates greedy =
     bind_p (rng_random (hs_draw sel)) (\<lambda>r.
       if r < hs_epsilon sel then pick sel candidates else greedy)"

definition choose_choice_card :: "'w heuristic_selector \<Rightarrow> pydict list \<Rightarrow> pydict \<Rightarrow> ('w, exn, pydict) py" where
  "choose_choice_card sel candidates dto =
     bind_p (lift_p (choice_card_preference_scores candidates dto)) (choose_best_scored sel candidates)"

definition choose_card :: "'w heuristic_selector \<Rightarrow> pydict list \<Rightarrow> pydict \<Rightarrow> ('w, exn, pydict) py" where
  "choose_card sel candidates dto =
     epsilon_greedy sel candidates
       (bind_p (propose (hs_policy sel) candidates dto (PInt 1)) (\<lambda>proposals.
          case proposals of
            [] \<Rightarrow> pick sel candidates
          | OtherObject # _ \<Rightarrow> raise_p AttributeError
          | Candidate c # _ \<Rightarrow>
              (case List.find (\<lambda>a. dget a ''action_id'' = PStr (ac_action_id c)) candidates of
                 Some a \<Rightarrow> ret_p a
               | None \<Rightarrow> pick sel candidates)))"

definition choose_room :: "'w heuristic_selector \<Rightarrow> pydict list \<Rightarrow> pydict \<Rightarrow> ('w, exn, pydict) py" where
  "choose_room sel candidates dto =
     epsilon_greedy sel candidates (choose_best_scored sel candidates (room_preference_scores candidates dto))"

definition choose_rest_option :: "'w heuristic_selector \<Rightarrow> pydict list \<Rightarrow> pydict \<Rightarrow> ('w, exn, pydict) py" where
  "choose_rest_option sel candidates dto =
     epsilon_greedy sel candidates
       (choose_best_scored sel candidates (rest_option_preference_scores candidates dto))"

definition choose_event_option :: "'w heuristic_selector \<Rightarrow> pydict list \<Rightarrow> ('w, exn, pydict) py" where
  "choose_event_option sel candidates = pick sel (safe_event_option_candidates candidates)"

text \<open>the loop over \<open>_CATEGORY_PRIORITY\<close>, in its order\<close>

definition choose_category ::
  "'w heuristic_selector \<Rightarrow> action_groups \<Rightarrow> pydict \<Rightarrow> ('w, exn, pydict) py \<Rightarrow> ('w, exn, pydict) py" where
  "choose_category sel groups dto otherwise =
     (if group_of groups ''card'' \<noteq> [] then choose_card sel (group_of groups ''card'') dto
      else if group_of groups ''choice_card'' \<noteq> [] then choose_choice_card sel (group_of groups ''choice_card'') dto
      else if group_of groups ''choice_confirm'' \<noteq> [] then pick sel (group_of groups ''choice_confirm'')
      else if group_of groups ''choice_skip'' \<noteq> [] then pick sel (group_of groups ''choice_skip'')
      else otherwise)"

definition select_action ::
  "'w heuristic_selector \<Rightarrow> pydict list \<Rightarrow> pydict option \<Rightarrow> ('w, exn, pydict) py" where
  "select_action sel legal_actions masked_dto =
     (let actions = available_actions legal_actions;
          dto = (case masked_dto of None \<Rightarrow> [] | Some d \<Rightarrow> d)
      in if actions = [] then raise_p (NoAvailableActionError PNone)
         else bind_p (lift_p (group_by_action_type actions)) (\<lambda>groups.
           if group_of groups ''choice_reward_potion_take'' \<noteq> []
           then pick sel (group_of groups ''choice_reward_potion_take'')
           else if group_of groups ''choice_reward_potion_replace'' \<noteq> [] then
             (if group_of groups ''choice_reward_skip'' \<noteq> [] then pick sel (group_of groups ''choice_reward_skip'')
              else pick sel (group_of groups ''choice_reward_potion_replace''))
           else if group_of groups ''map_room'' \<noteq> [] then choose_room sel (group_of groups ''map_room'') dto
           else if group_of groups ''choice_rest_option'' \<noteq> []
           then choose_rest_option sel (group_of groups ''choice_rest_option'') dto
           else if group_of groups ''choice_event_option'' \<noteq> []
           then choose_event_option sel (group_of groups ''choice_event_option'')
           else choose_category sel groups dto
             (if group_of groups ''choice_reward_card'' \<noteq> [] then hs_reward_policy sel (hs_draw sel) actions dto
              else pick sel actions)))"

section \<open>What the selector returns\<close>

text \<open>a policy for card rewards returns one of the actions it is given\<close>

locale reward_policy =
  fixes reward :: "'w reward_card_policy"
  assumes reward_returns: "returns (\<lambda>a. a \<in> set legal_actions) (reward draw legal_actions dto)"

interpretation random_reward: reward_policy random_reward_select
  by unfold_locales (auto simp: random_reward_select_def intro!: returns_intro)

lemma card_data_returns:
  "returns (\<lambda>a. a \<in> set legal_actions) (card_data_reward_select scores draw legal_actions dto)"
  by (auto simp: card_data_reward_select_def Let_def reward_card_actions_def actions_of_type_def
      available_actions_def intro!: returns_intro)

interpretation card_data_reward: reward_policy "card_data_reward_select scores" for scores
  by unfold_locales (rule card_data_returns)

lemma returns_mono: "returns P m \<Longrightarrow> (\<And>x. P x \<Longrightarrow> Q x) \<Longrightarrow> returns Q m"
  by (auto simp: returns_def)

lemma pick_returns [returns_intro]: "(\<And>a. a \<in> set as \<Longrightarrow> P a) \<Longrightarrow> returns P (pick sel as)"
  unfolding pick_def by (rule returns_choose)

lemma filter_r_subset: "filter_r f xs = Inr ys \<Longrightarrow> set ys \<subseteq> set xs"
  by (auto simp: filter_r_Inr)

lemma best_scored_returns [returns_intro]:
  "(\<And>a. a \<in> set as \<Longrightarrow> P a) \<Longrightarrow> returns P (choose_best_scored sel as scores)"
  by (auto simp: choose_best_scored_def lift_p_def dest!: filter_r_subset split: if_splits
      intro!: returns_intro returns_bind_dep)

lemma epsilon_returns [returns_intro]:
  "(\<And>a. a \<in> set as \<Longrightarrow> P a) \<Longrightarrow> returns P greedy \<Longrightarrow> returns P (epsilon_greedy sel as greedy)"
  by (auto simp: epsilon_greedy_def intro!: returns_intro)

lemma card_returns [returns_intro]:
  "(\<And>a. a \<in> set as \<Longrightarrow> P a) \<Longrightarrow> returns P (choose_card sel as dto)"
  unfolding choose_card_def
  by (rule epsilon_returns, assumption, rule returns_bind)
    (auto split: list.split proposed.split option.split intro!: returns_intro dest: find_SomeD)

lemma safe_event_subset: "set (safe_event_option_candidates as) \<subseteq> set (choice_event_option_actions as)"
  by (auto simp: safe_event_option_candidates_def Let_def)

text \<open>no option is confirmed lethal, or all are\<close>

lemma safe_event_lethal:
  "a \<in> set (safe_event_option_candidates as) \<Longrightarrow> is_confirmed_lethal a \<Longrightarrow>
     \<forall>b \<in> set (choice_event_option_actions as). is_confirmed_lethal b"
  by (auto simp: safe_event_option_candidates_def Let_def filter_empty_conv split: if_splits)

text \<open>
  what may be selected: an available action; no event option that surely kills while another one is
  open; and no replacement of a potion when the reward can be taken or skipped
\<close>

definition selectable :: "pydict list \<Rightarrow> pydict \<Rightarrow> bool" where
  "selectable legal_actions a \<longleftrightarrow>
     a \<in> set (available_actions legal_actions) \<and>
     (dget a ''action_type'' = PStr ''choice_event_option'' \<and> is_confirmed_lethal a \<longrightarrow>
        (\<forall>b \<in> set (choice_event_option_actions legal_actions). is_confirmed_lethal b)) \<and>
     (dget a ''action_type'' = PStr ''choice_reward_potion_replace'' \<longrightarrow>
        actions_of_type legal_actions ''choice_reward_skip'' = [] \<and>
        actions_of_type legal_actions ''choice_reward_potion_take'' = [])"

lemma selectable_type:
  assumes "a \<in> set (actions_of_type legal_actions t)"
    and "t \<noteq> ''choice_event_option''" "t \<noteq> ''choice_reward_potion_replace''"
  shows "selectable legal_actions a"
  using assms by (auto simp: selectable_def actions_of_type_set)

lemma selectable_other:
  assumes "a \<in> set (available_actions legal_actions)"
    and "actions_of_type legal_actions ''choice_event_option'' = []"
    and "actions_of_type legal_actions ''choice_reward_potion_replace'' = []"
  shows "selectable legal_actions a"
  using assms by (auto simp: selectable_def choice_event_option_actions_def actions_of_type_def filter_empty_conv)

lemma selectable_event:
  assumes "a \<in> set (safe_event_option_candidates (actions_of_type legal_actions ''choice_event_option''))"
  shows "selectable legal_actions a"
proof -
  have "a \<in> set (actions_of_type legal_actions ''choice_event_option'')"
    using subsetD [OF safe_event_subset assms] by (simp add: choice_event_option_actions_def)
  with safe_event_lethal [OF assms] show ?thesis
    by (auto simp: selectable_def choice_event_option_actions_def actions_of_type_set)
qed

lemma selectable_replace:
  assumes "a \<in> set (actions_of_type legal_actions ''choice_reward_potion_replace'')"
    and "actions_of_type legal_actions ''choice_reward_skip'' = []"
    and "actions_of_type legal_actions ''choice_reward_potion_take'' = []"
  shows "selectable legal_actions a"
  using assms by (auto simp: selectable_def actions_of_type_set)

context reward_policy
begin

lemma select_selectable:
  assumes "hs_reward_policy sel = reward"
  shows "returns (selectable legal_actions) (select_action sel legal_actions dto)"
proof -
  have group: "group_of groups t = actions_of_type legal_actions t"
    if "group_by_action_type (available_actions legal_actions) = Inr groups" for groups t
    using group_by_action_type_group [OF that, of t] by simp
  have reward: "returns (selectable legal_actions) (hs_reward_policy sel draw (available_actions legal_actions) d)"
    if "actions_of_type legal_actions ''choice_event_option'' = []"
      "actions_of_type legal_actions ''choice_reward_potion_replace'' = []" for draw d
    unfolding assms by (rule returns_mono [OF reward_returns]) (rule selectable_other [OF _ that])
  show ?thesis
    unfolding select_action_def Let_def choose_category_def choose_room_def choose_rest_option_def
      choose_event_option_def choose_choice_card_def
    by (auto simp: lift_p_def group intro!: returns_intro returns_bind_dep reward
        intro: selectable_type selectable_other selectable_event selectable_replace)
qed

end

section \<open>The best scored candidates\<close>

lemma max_score_ge: "x \<in> set xs \<Longrightarrow> f x \<le> max_score f xs"
  by (induction f xs rule: max_score.induct) auto

lemma max_score_attained: "xs \<noteq> [] \<Longrightarrow> \<exists>x \<in> set xs. f x = max_score f xs"
  by (induction f xs rule: max_score.induct) (auto simp: max_def)

definition string_ids :: "pydict list \<Rightarrow> bool" where
  "string_ids as \<longleftrightarrow> (\<forall>a \<in> set as. is_nonempty_str (dget a ''action_id'')) \<and> distinct (map action_id_of as)"

lemma action_scores_map:
  assumes "string_ids as" "set (map action_id_of as) \<inter> fst ` set scores = {}"
  shows "action_scores f scores as = scores @ map (\<lambda>a. (action_id_of a, f a)) as"
  using assms
proof (induction as arbitrary: scores)
  case (Cons a as)
  then obtain aid where aid: "dget a ''action_id'' = PStr aid" "aid \<noteq> []"
    by (auto simp: string_ids_def elim: is_nonempty_strE)
  then have [simp]: "action_id_of a = aid" by (simp add: action_id_of_def)
  have upd: "AList.update aid (f a) scores = scores @ [(aid, f a)]"
    using Cons.prems(2) by (induction scores) auto
  have "action_scores f (scores @ [(aid, f a)]) as = (scores @ [(aid, f a)]) @ map (\<lambda>a. (action_id_of a, f a)) as"
    using Cons.prems by (intro Cons.IH) (auto simp: string_ids_def)
  with aid upd show ?case by simp
qed simp

lemma has_score_map:
  assumes "string_ids as" "a \<in> set as"
  shows "has_score (map (\<lambda>a. (action_id_of a, f a)) as) best a = Inr (f a = best)"
proof -
  from assms obtain aid where aid: "dget a ''action_id'' = PStr aid" "action_id_of a = aid"
    by (auto simp: string_ids_def action_id_of_def elim!: is_nonempty_strE)
  have "map_of (map (\<lambda>a. (action_id_of a, f a)) as) aid = Some (f a)"
    using assms aid by (intro map_of_is_SomeI) (auto simp: string_ids_def comp_def)
  with aid show ?thesis by (simp add: has_score_def)
qed

text \<open>with a score for every candidate the choice is among the best\<close>

lemma best_scored_is_best:
  assumes "string_ids as" "as \<noteq> []"
  shows "returns (\<lambda>a. a \<in> set as \<and> (\<forall>b \<in> set as. f b \<le> f a))
    (choose_best_scored sel as (map (\<lambda>a. (action_id_of a, f a)) as))"
proof -
  let ?scores = "map (\<lambda>a. (action_id_of a, f a)) as"
  let ?best = "max_score snd ?scores"
  have bound: "f a \<le> ?best" if "a \<in> set as" for a
    using max_score_ge [of "(action_id_of a, f a)" ?scores snd] that by force
  obtain a where a: "a \<in> set as" "f a = ?best"
    using max_score_attained [of ?scores snd] assms(2) by fastforce
  have "filter_r (has_score ?scores ?best) as = Inr (filter (\<lambda>a. f a = ?best) as)"
    using has_score_map [OF assms(1), of _ f ?best] by (auto simp: filter_r_Inr intro!: filter_cong)
  moreover have "filter (\<lambda>a. f a = ?best) as \<noteq> []" using a by (auto simp: filter_empty_conv)
  ultimately show ?thesis
    using assms(2) bound by (auto simp: choose_best_scored_def intro!: returns_intro)
qed

section \<open>What the selector raises\<close>

lemma pick_raises [raises_intro]: "as \<noteq> [] \<Longrightarrow> raises_only E (pick sel as)"
  unfolding pick_def by (rule raises_choose)

lemma filter_r_error: "filter_r f xs = Inl e \<Longrightarrow> \<exists>x \<in> set xs. f x = Inl e"
  by (induction xs) (auto simp: then_r_eq_Inl)

lemma best_scored_raises [raises_intro]:
  assumes "as \<noteq> []" "\<forall>a \<in> set as. is_str (dget a ''action_id'')"
  shows "raises_only E (choose_best_scored sel as scores)"
proof -
  have "\<exists>b. has_score scores best a = Inr b" if "a \<in> set as" for best a
    using assms(2) that by (cases "dget a ''action_id''") (auto simp: has_score_def Let_def)
  then have "filter_r (has_score scores (max_score snd scores)) as \<noteq> Inl e" for e
    by (metis filter_r_error sum.distinct(1))
  then show ?thesis
    using assms(1) by (auto simp: choose_best_scored_def intro!: raises_intro split: if_splits)
qed

lemma epsilon_raises [raises_intro]:
  "as \<noteq> [] \<Longrightarrow> raises_only E greedy \<Longrightarrow> raises_only E (epsilon_greedy sel as greedy)"
  by (auto simp: epsilon_greedy_def intro!: raises_intro)

text \<open>on cards the bootstrap policy does not raise, and what it proposes are candidates\<close>

lemma prior_propose_cards:
  assumes "\<forall>a \<in> set as. is_str (dget a ''action_id'') \<and> dget a ''action_type'' = PStr ''card''"
  shows "wp (prior_propose rng as dto (PInt 1)) (\<lambda>ps _. OtherObject \<notin> set ps) (\<lambda>_ _. False) w"
proof (rule wp_mono [OF prior_propose_wp])
  let ?av = "typed_available as"
  have ids: "\<forall>a \<in> set ?av. is_str (dget a ''action_id'')" using assms by (auto simp: typed_available_def)
  fix ps t assume "0 < (1 :: int) \<and> (\<exists>ctx rows. ranking_of ?av dto ctx 1 rows ps)"
  then obtain ctx rows where "ranking_of ?av dto ctx 1 rows ps" by blast
  from ranking_covered [OF this ids] show "OtherObject \<notin> set ps" by force
next
  fix e t
  have "choice_actions (typed_available as) = []"
    using assms by (auto simp: choice_actions_def typed_available_def filter_empty_conv)
  then have "choice_card_preference_scores (typed_available as) dto = Inr []"
    by (simp add: choice_card_preference_scores_def)
  moreover have "dhas a ''action_id''" if "a \<in> set (typed_available as)" for a
    using assms that dget_not_dhas [of a "''action_id''"] by (force simp: typed_available_def)
  moreover assume "(1 :: int) \<le> 0 \<and> e = ValueError \<or>
    choice_card_preference_scores (typed_available as) dto = Inl e \<or>
    e = KeyError \<and> (\<exists>a \<in> set (typed_available as). \<not> dhas a ''action_id'')"
  ultimately show False by auto
qed

lemma card_raises [raises_intro]:
  assumes "hs_policy sel = prior_heuristic_policy rng" "as \<noteq> []"
    and "\<forall>a \<in> set as. is_str (dget a ''action_id'') \<and> dget a ''action_type'' = PStr ''card''"
  shows "raises_only E (choose_card sel as dto)"
proof -
  let ?run = "prior_propose rng as dto (PInt 1)"
  have "raises_only E ?run"
    using prior_propose_cards [OF assms(3), of rng dto] by (auto simp: raises_only_def dest: wpD_Inl)
  moreover have "OtherObject \<notin> set ps" if "?run w = (Inr ps, t)" for w ps t
    using wpD_Inr [OF prior_propose_cards [OF assms(3)] that] .
  ultimately have "raises_only E (bind_p ?run (\<lambda>proposals.
      case proposals of
        [] \<Rightarrow> pick sel as
      | OtherObject # _ \<Rightarrow> raise_p AttributeError
      | Candidate c # _ \<Rightarrow>
          (case List.find (\<lambda>a. dget a ''action_id'' = PStr (ac_action_id c)) as of
             Some a \<Rightarrow> ret_p a | None \<Rightarrow> pick sel as)))"
    using assms(2) by (intro raises_bind_dep)
      (fastforce split: list.split proposed.split option.split intro!: raises_intro)+
  then show ?thesis
    unfolding choose_card_def assms(1) prior_heuristic_policy_def policy_model.simps
    by (intro epsilon_raises assms(2))
qed

lemma reward_raises:
  assumes "hs_reward_policy sel \<in> {random_reward_select, card_data_reward_select scores}" "as \<noteq> []"
  shows "raises_only E (hs_reward_policy sel draw as dto)"
proof -
  have "filter (\<lambda>a. f a = max_score f xs) xs \<noteq> []" if "xs \<noteq> []" for f :: "pydict \<Rightarrow> rat" and xs
    using max_score_attained [OF that, of f] by (auto simp: filter_empty_conv)
  then show ?thesis
    using assms by (auto simp: random_reward_select_def card_data_reward_select_def Let_def intro!: raises_intro)
qed

lemma safe_event_nonempty:
  "actions_of_type as ''choice_event_option'' \<noteq> [] \<Longrightarrow>
     safe_event_option_candidates (actions_of_type as ''choice_event_option'') \<noteq> []"
  by (auto simp: safe_event_option_candidates_def Let_def choice_event_option_actions_def)

definition selection_errors :: "pydict list \<Rightarrow> pydict \<Rightarrow> exn \<Rightarrow> bool" where
  "selection_errors legal_actions dto e \<longleftrightarrow>
     available_actions legal_actions = [] \<and> e = NoAvailableActionError PNone \<or>
     choice_card_preference_scores (actions_of_type legal_actions ''choice_card'') dto = Inl e"

lemma select_raises:
  assumes "hs_policy sel = prior_heuristic_policy rng"
    and "hs_reward_policy sel \<in> {random_reward_select, card_data_reward_select scores}"
    and "\<forall>a \<in> set (available_actions legal_actions). is_str (dget a ''action_id'') \<and> is_str (dget a ''action_type'')"
  shows "raises_only (selection_errors legal_actions (case dto of None \<Rightarrow> [] | Some d \<Rightarrow> d))
    (select_action sel legal_actions dto)"
proof (cases "available_actions legal_actions = []")
  case True
  then show ?thesis by (auto simp: select_action_def selection_errors_def Let_def intro!: raises_intro)
next
  case False
  have "\<forall>a \<in> set (available_actions legal_actions). hashable (dget a ''action_type'')"
    using assms(3) by (metis hashable.simps(7) is_str.elims(2))
  then obtain groups where groups: "group_by_action_type (available_actions legal_actions) = Inr groups"
    using group_actions_hashable [of "[]"] by (force simp: group_by_action_type_def)
  have group: "group_of groups t = actions_of_type legal_actions t" for t
    using group_by_action_type_group [OF groups, of t] by simp
  have ids: "\<forall>a \<in> set (actions_of_type legal_actions t). is_str (dget a ''action_id'') \<and> dget a ''action_type'' = PStr t"
    for t using assms(3) by (auto simp: actions_of_type_set)
  show ?thesis
    unfolding select_action_def Let_def groups lift_p_def [of "Inr groups", folded ret_p_def] bind_p_returned group
      choose_category_def choose_room_def choose_rest_option_def choose_event_option_def choose_choice_card_def
    by (intro raises_if raises_bind raises_lift raises_raise card_raises [OF assms(1)] reward_raises [OF assms(2)]
        pick_raises best_scored_raises epsilon_raises safe_event_nonempty)
      (use False ids in \<open>simp_all add: selection_errors_def\<close>)
qed

section \<open>Properties\<close>

text \<open>C33: The fallback selection does not fail on a decision that offers an action: with the bootstrap policy and
  either policy for card rewards, on actions whose ids and types are strings, the only exceptions are
  \<open>NoAvailableActionError\<close>, when nothing is available, and the one of the scores of a card choice.\<close>

theorem selection_raises_only:
  assumes "select_action sel legal_actions dto w = (Inl e, w')"
    and "hs_policy sel = prior_heuristic_policy rng"
    and "hs_reward_policy sel \<in> {random_reward_select, card_data_reward_select scores}"
    and "\<forall>a \<in> set (available_actions legal_actions). is_str (dget a ''action_id'') \<and> is_str (dget a ''action_type'')"
  shows "available_actions legal_actions = [] \<and> e = NoAvailableActionError PNone \<or>
    choice_card_preference_scores (actions_of_type legal_actions ''choice_card'')
      (case dto of None \<Rightarrow> [] | Some d \<Rightarrow> d) = Inl e"
  using raises_onlyD [OF select_raises [OF assms(2-4)] assms(1)] by (simp add: selection_errors_def)


text \<open>C11: The fallback selector only ever selects an available action, and it never chooses an event option
  that is marked as killing the player while an option without that mark is open, nor replaces a
  potion when the offered one can be taken or skipped: for every state of the random generator,
  every exploration rate and every policy, with either policy for card rewards.\<close>

theorem selection_is_safe:
  assumes "select_action sel legal_actions dto w = (Inr a, w')"
    and "hs_reward_policy sel \<in> {random_reward_select, card_data_reward_select scores}"
  shows "a \<in> set legal_actions \<and> is_available a \<and>
    (dget a ''action_type'' = PStr ''choice_event_option'' \<and> is_confirmed_lethal a \<longrightarrow>
       (\<forall>b \<in> set (choice_event_option_actions legal_actions). is_confirmed_lethal b)) \<and>
    (dget a ''action_type'' = PStr ''choice_reward_potion_replace'' \<longrightarrow>
       actions_of_type legal_actions ''choice_reward_skip'' = [] \<and>
       actions_of_type legal_actions ''choice_reward_potion_take'' = [])"
proof -
  have "returns (selectable legal_actions) (select_action sel legal_actions dto)"
    using assms(2) random_reward.select_selectable card_data_reward.select_selectable by auto
  from returnsD [OF this assms(1)] show ?thesis
    by (simp add: selectable_def available_actions_set)
qed

text \<open>a generator that always draws 0; two event options, the first one marked as lethal\<close>

definition demo_selector :: "unit heuristic_selector" where
  "demo_selector =
     \<lparr>hs_draw = (\<lambda>w. (0, w)), hs_epsilon = 0, hs_policy = prior_heuristic_policy None,
      hs_reward_policy = card_data_reward_select []\<rparr>"

definition demo_event_option :: "string \<Rightarrow> bool \<Rightarrow> pydict" where
  "demo_event_option aid lethal =
     [(''action_id'', PStr aid), (''action_type'', PStr ''choice_event_option''),
      (''parameters'', PDict [(''willKillPlayer'', PBool lethal)])]"

lemma demo_event_selection:
  "select_action demo_selector [demo_event_option ''a'' True, demo_event_option ''b'' False] None () =
     (Inr (demo_event_option ''b'' False), ())"
  by code_simp

theorem selection_is_safe_witness:
  "is_available (demo_event_option ''b'' False)"
  using selection_is_safe [OF demo_event_selection, of "[]"] by (simp add: demo_selector_def)

text \<open>At a rest site the selector, when it does not explore, takes an option of highest quality: below
  seven tenths of the maximal hit points a healing option if there is one, above it the upgrade if
  there is one.\<close>

theorem rest_heals_when_needed:
  assumes "choose_rest_option sel as dto w = (Inr a, w')" "hs_epsilon sel = 0"
    and "rest_option_actions as = as" "string_ids as" "as \<noteq> []" "hp_ratio dto = Some r"
  shows "a \<in> set as \<and>
    (r < 7 / 10 \<and> (\<exists>b \<in> set as. rest_option_id b \<in> Some ` set healing_rest_option_ids) \<longrightarrow>
       rest_option_id a \<in> Some ` set healing_rest_option_ids) \<and>
    (7 / 10 < r \<and> (\<exists>b \<in> set as. rest_option_id b = Some ''SMITH'') \<longrightarrow> rest_option_id a = Some ''SMITH'')"
proof -
  let ?q = "\<lambda>a. rest_option_quality_score (rest_option_id a) (hp_ratio dto)"
  have scores: "rest_option_preference_scores as dto = map (\<lambda>a. (action_id_of a, ?q a)) as"
    using action_scores_map [OF assms(4), of "[]" ?q] assms(3) by (simp add: rest_option_preference_scores_def)
  have "wp (choose_rest_option sel as dto) (\<lambda>a _. a \<in> set as \<and> (\<forall>b \<in> set as. ?q b \<le> ?q a)) (\<lambda>_ _. True) w"
    unfolding choose_rest_option_def epsilon_greedy_def wp_bind
  proof (rule wp_mono [OF rng_random_range])
    fix x :: rat and t assume x: "0 \<le> x \<and> x < 1"
    show "wp (if x < hs_epsilon sel then pick sel as
        else choose_best_scored sel as (rest_option_preference_scores as dto))
        (\<lambda>a _. a \<in> set as \<and> (\<forall>b \<in> set as. ?q b \<le> ?q a)) (\<lambda>_ _. True) t"
      using x assms(2) best_scored_is_best [OF assms(4,5), of ?q sel]
      by (auto simp: scores returns_def intro!: wpI)
  qed simp
  from wpD_Inr [OF this assms(1)] have best: "a \<in> set as" "\<forall>b \<in> set as. ?q b \<le> ?q a" by auto
  have quality: "?q b = (if rest_option_id b \<in> Some ` set healing_rest_option_ids then 10 * max 0 (min 1 (1 - r))
      else if rest_option_id b = Some ''SMITH'' then 3 else 0)" for b
    by (simp add: rest_option_quality_score_def assms(6))
  have "rest_option_id a \<in> Some ` set healing_rest_option_ids"
    if "r < 7 / 10" "b \<in> set as" "rest_option_id b \<in> Some ` set healing_rest_option_ids" for b
    using best(2) [rule_format, OF that(2)] that(1,3) unfolding quality
    by (auto simp: max_def min_def split: if_splits)
  moreover have "rest_option_id a = Some ''SMITH''"
    if "7 / 10 < r" "b \<in> set as" "rest_option_id b = Some ''SMITH''" for b
    using best(2) [rule_format, OF that(2)] that(1,3) unfolding quality
    by (auto simp: max_def min_def healing_rest_option_ids_def split: if_splits)
  ultimately show ?thesis using best(1) by blast
qed

definition demo_rest_option :: "string \<Rightarrow> string \<Rightarrow> pydict" where
  "demo_rest_option aid option_id =
     [(''action_id'', PStr aid), (''action_type'', PStr ''choice_rest_option''),
      (''parameters'', PDict [(''restOptionId'', PStr option_id)])]"

definition demo_rest :: "pydict list" where
  "demo_rest = [demo_rest_option ''a'' ''SMITH'', demo_rest_option ''b'' ''HEAL'']"

lemma demo_rest_choice:
  "choose_rest_option demo_selector demo_rest [(''hp'', PInt 6), (''maxHp'', PInt 10)] () =
     (Inr (demo_rest_option ''b'' ''HEAL''), ())"
proof -
  have scores: "rest_option_preference_scores demo_rest [(''hp'', PInt 6), (''maxHp'', PInt 10)] = [(''a'', 3), (''b'', 4)]"
    by code_simp
  have best: "choose_best_scored demo_selector demo_rest [(''a'', 3), (''b'', 4)] () =
      (Inr (demo_rest_option ''b'' ''HEAL''), ())"
    by (simp add: choose_best_scored_def demo_rest_def demo_rest_option_def has_score_def pick_def
        rng_choose_def rng_range_def bind_p_def lift_p_def ret_p_def demo_selector_def)
  have "(rng_random (hs_draw demo_selector) :: (unit, exn, rat) py) () = (Inr 0, ())" "\<not> (0 < hs_epsilon demo_selector)"
    by (simp_all add: rng_random_def demo_selector_def)
  with best show ?thesis
    by (simp add: choose_rest_option_def epsilon_greedy_def scores bind_p_def)
qed

theorem rest_heals_when_needed_witness:
  "rest_option_id (demo_rest_option ''b'' ''HEAL'') \<in> Some ` set healing_rest_option_ids"
proof -
  have "hp_ratio [(''hp'', PInt 6), (''maxHp'', PInt 10)] = Some (6 / 10)" by code_simp
  moreover have "rest_option_actions demo_rest = demo_rest" "string_ids demo_rest" "demo_rest \<noteq> []"
    by (simp_all add: demo_rest_def demo_rest_option_def rest_option_actions_def actions_of_type_def
        available_actions_def is_available_def string_ids_def action_id_of_def)
  moreover have "\<exists>b \<in> set demo_rest. rest_option_id b \<in> Some ` set healing_rest_option_ids"
    by (auto simp: demo_rest_def demo_rest_option_def rest_option_id_def healing_rest_option_ids_def)
  ultimately show ?thesis
    using rest_heals_when_needed [OF demo_rest_choice, of "6 / 10"] by (simp add: demo_selector_def)
qed

theorem selection_raises_only_witness:
  "\<exists>e. select_action demo_selector [] None () = (Inl e, ()) \<and> e = NoAvailableActionError PNone"
proof -
  have run: "select_action demo_selector [] None () = (Inl (NoAvailableActionError PNone), ())"
    by (simp add: select_action_def available_actions_def raise_p_def)
  have "available_actions [] = [] \<and> NoAvailableActionError PNone = NoAvailableActionError PNone \<or>
      choice_card_preference_scores (actions_of_type [] ''choice_card'') [] = Inl (NoAvailableActionError PNone)"
    using selection_raises_only [OF run, of None "[]"] by (simp add: demo_selector_def available_actions_def)
  with run show ?thesis by blast
qed

end
