(* ===== verification/Heuristic_Value.thy ===== *)
theory Heuristic_Value
  imports Combat_Observation
begin

text \<open>
  \<open>decision/value.py\<close>: the interface of a value model and \<open>HeuristicValueFunction\<close>, the hand-written
  value of a resolved Combat state.  Its docstring argues that one \<open>effective_hp\<close> term makes leaves
  comparable that stand at different points of a turn; the properties below state that.
\<close>

section \<open>Numbers and powers\<close>

definition validated_finite_number :: "pyval \<Rightarrow> exn + rat" where
  "validated_finite_number v =
     (case finite_number v of None \<Rightarrow> Inl ValueError | Some r \<Rightarrow> Inr r)"

text \<open>\<open>_num(value, default=d)\<close>\<close>

definition value_num :: "rat \<Rightarrow> pyval \<Rightarrow> exn + rat" where
  "value_num d v = (if v = PNone then Inr d else validated_finite_number v)"

text \<open>\<open>power_type is not None and not isinstance(power_type, str)\<close> raises\<close>

definition power_type :: "pydict \<Rightarrow> exn + string option" where
  "power_type pw =
     (case dget pw ''type'' of PNone \<Rightarrow> Inr None | PStr s \<Rightarrow> Inr (Some s) | _ \<Rightarrow> Inl ValueError)"

fun typed_power_score :: "rat \<Rightarrow> pydict list \<Rightarrow> exn + rat" where
  "typed_power_score score [] = Inr score"
| "typed_power_score score (pw # powers) =
     then_r (power_type pw) (\<lambda>t.
     then_r (value_num 1 (dget pw ''amount'')) (\<lambda>raw.
       let amount = min \<bar>raw\<bar> 3 in
       typed_power_score
         (if t = Some ''Buff'' then score + amount else if t = Some ''Debuff'' then score - amount else score)
         powers))"

text \<open>the loop of \<open>_power_id\<close> over the three keys\<close>

fun first_power_id :: "pydict \<Rightarrow> string list \<Rightarrow> exn + string option" where
  "first_power_id pw [] = Inr None"
| "first_power_id pw (k # ks) =
     (case dget pw k of
        PNone \<Rightarrow> first_power_id pw ks
      | PStr s \<Rightarrow> Inr (Some s)
      | _ \<Rightarrow> Inl ValueError)"

definition power_id :: "pydict \<Rightarrow> exn + string option" where
  "power_id pw = first_power_id pw [''power_id'', ''powerId'', ''id'']"

fun named_power_score :: "(string \<times> rat) list \<Rightarrow> rat \<Rightarrow> pydict list \<Rightarrow> exn + rat" where
  "named_power_score vals score [] = Inr score"
| "named_power_score vals score (pw # powers) =
     then_r (power_id pw) (\<lambda>pid.
       case Option.bind pid (map_of vals) of
         None \<Rightarrow> named_power_score vals score powers
       | Some per_stack \<Rightarrow>
           then_r (value_num 1 (dget pw ''amount'')) (\<lambda>raw.
             named_power_score vals (score + per_stack * \<bar>raw\<bar>) powers))"

definition terminal_outcome :: "pydict \<Rightarrow> exn + string option" where
  "terminal_outcome dto =
     (let outcome = dget dto ''outcome'' in
      if outcome = PStr ''run_victory'' then Inr (Some ''victory'')
      else if outcome = PStr ''victory'' then Inr (Some ''victory'')
      else if outcome = PStr ''defeat'' then Inr (Some ''defeat'')
      else (case dget dto ''transition'' of
              PNone \<Rightarrow> Inr None
            | PDict transition \<Rightarrow>
                Inr (if dget transition ''kind'' \<noteq> PStr ''combat_completed'' then None
                     else if dget transition ''victory'' = PBool True then Some ''victory''
                     else if dget transition ''victory'' = PBool False then Some ''defeat''
                     else None)
            | _ \<Rightarrow> Inl ValueError))"

section \<open>The value function\<close>

record heuristic_value =
  hv_weights :: "(string \<times> rat) list"
  hv_power_values :: "(string \<times> rat) list"

definition default_weights :: "(string \<times> rat) list" where
  "default_weights =
     [(''effective_hp_ratio'', 40), (''enemy_hp_ratio'', - 30), (''enemies_alive'', - 2),
      (''buff_debuff_score'', 2), (''enemy_buff_debuff_score'', 2), (''named_power_score'', 1),
      (''victory_bonus'', 100000), (''defeat_penalty'', - 100000)]"

fun set_weights :: "(string \<times> rat) list \<Rightarrow> pydict \<Rightarrow> exn + (string \<times> rat) list" where
  "set_weights table [] = Inr table"
| "set_weights table ((name, raw) # rest) =
     then_r (validated_finite_number raw) (\<lambda>r. set_weights (AList.update name r table) rest)"

fun set_power_values :: "(string \<times> rat) list \<Rightarrow> pydict \<Rightarrow> exn + (string \<times> rat) list" where
  "set_power_values table [] = Inr table"
| "set_power_values table ((name, raw) # rest) =
     (if name = [] then Inl ValueError
      else then_r (validated_finite_number raw) (\<lambda>r. set_power_values (AList.update name r table) rest))"

definition heuristic_value_init :: "pydict \<Rightarrow> pydict \<Rightarrow> exn + heuristic_value" where
  "heuristic_value_init weights power_values =
     then_r (raise_if (list_ex (\<lambda>(name, _). name \<notin> fst ` set default_weights) weights) ValueError) (\<lambda>_.
     then_r (set_weights default_weights weights) (\<lambda>w.
     then_r (set_power_values [] power_values) (\<lambda>p.
     Inr \<lparr>hv_weights = w, hv_power_values = p\<rparr>)))"

definition weight :: "heuristic_value \<Rightarrow> string \<Rightarrow> rat" where
  "weight hv name = (case map_of (hv_weights hv) name of None \<Rightarrow> 0 | Some r \<Rightarrow> r)"

text \<open>the scores of the enemies' powers are subtracted, enemy by enemy\<close>

fun enemy_power_scores ::
  "(string \<times> rat) list \<Rightarrow> rat \<Rightarrow> rat \<Rightarrow> enemy_observation list \<Rightarrow> exn + rat \<times> rat" where
  "enemy_power_scores vals typed named [] = Inr (typed, named)"
| "enemy_power_scores vals typed named (e # es) =
     then_r (typed_power_score 0 (eo_powers e)) (\<lambda>t.
     then_r (named_power_score vals 0 (eo_powers e)) (\<lambda>n.
     enemy_power_scores vals (typed - t) (named - n) es))"

definition effective_hp :: "combat_observation \<Rightarrow> rat" where
  "effective_hp ob = ob_hp ob - incoming_damage ob"

definition enemy_hp_ratio :: "combat_observation \<Rightarrow> rat" where
  "enemy_hp_ratio ob =
     (let total = sum_list (map eo_max_hp (ob_enemies ob)) in
      sum_list (map eo_hp (ob_enemies ob)) / (if total = 0 then 1 else total))"

definition extract_features :: "heuristic_value \<Rightarrow> combat_observation \<Rightarrow> exn + (string \<times> rat) list" where
  "extract_features hv ob =
     then_r (typed_power_score 0 (ob_player_powers ob)) (\<lambda>player_typed.
     then_r (named_power_score (hv_power_values hv) 0 (ob_player_powers ob)) (\<lambda>player_named.
     then_r (enemy_power_scores (hv_power_values hv) 0 player_named (alive_enemies ob)) (\<lambda>(enemy_typed, named).
     Inr [(''effective_hp_ratio'', effective_hp ob / ob_max_hp ob), (''enemy_hp_ratio'', enemy_hp_ratio ob),
          (''enemies_alive'', of_nat (length (alive_enemies ob))), (''buff_debuff_score'', player_typed),
          (''enemy_buff_debuff_score'', enemy_typed), (''named_power_score'', named)])))"

definition exact_terminal_utility :: "heuristic_value \<Rightarrow> pydict \<Rightarrow> exn + rat option" where
  "exact_terminal_utility hv dto =
     then_r (terminal_outcome dto) (\<lambda>outcome.
       Inr (if outcome = Some ''victory'' then Some (weight hv ''victory_bonus'')
            else if outcome = Some ''defeat'' then Some (weight hv ''defeat_penalty'') else None))"

definition weighted_sum :: "heuristic_value \<Rightarrow> (string \<times> rat) list \<Rightarrow> rat" where
  "weighted_sum hv features = sum_list (map (\<lambda>(name, x). weight hv name * x) features)"

definition evaluate :: "heuristic_value \<Rightarrow> pydict \<Rightarrow> exn + rat" where
  "evaluate hv dto =
     then_r (exact_terminal_utility hv dto) (\<lambda>terminal.
       case terminal of
         Some r \<Rightarrow> Inr r
       | None \<Rightarrow>
           then_r (observe True dto) (\<lambda>ob.
           then_r (extract_features hv ob) (\<lambda>features. Inr (weighted_sum hv features))))"

definition evaluate_batch :: "heuristic_value \<Rightarrow> pydict list \<Rightarrow> exn + rat list" where
  "evaluate_batch hv dtos = map_r (evaluate hv) dtos"

section \<open>What the value depends on\<close>

text \<open>two observations of one board: they differ at most in hit points, block, energy, hand and attacks\<close>

definition board_part :: "enemy_observation \<Rightarrow> rat \<times> rat \<times> bool \<times> pydict list" where
  "board_part e = (eo_hp e, eo_max_hp e, eo_is_alive e, eo_powers e)"

definition same_board :: "combat_observation \<Rightarrow> combat_observation \<Rightarrow> bool" where
  "same_board ob ob' \<longleftrightarrow>
     ob_max_hp ob' = ob_max_hp ob \<and> ob_player_powers ob' = ob_player_powers ob \<and>
     map board_part (ob_enemies ob') = map board_part (ob_enemies ob)"

lemma board_part_maps:
  "map eo_hp es = map fst (map board_part es)"
  "map eo_max_hp es = map (fst \<circ> snd) (map board_part es)"
  "map eo_powers (filter eo_is_alive es) =
     map (snd \<circ> snd \<circ> snd) (filter (fst \<circ> snd \<circ> snd) (map board_part es))"
  by (simp_all add: board_part_def filter_map comp_def)

lemma same_board_sums:
  assumes "map board_part es' = map board_part es"
  shows "sum_list (map eo_hp es') = sum_list (map eo_hp es)"
    "sum_list (map eo_max_hp es') = sum_list (map eo_max_hp es)"
    "map eo_powers (filter eo_is_alive es') = map eo_powers (filter eo_is_alive es)"
  unfolding board_part_maps by (simp_all only: assms)

lemma enemy_power_scores_cong:
  "map eo_powers es' = map eo_powers es \<Longrightarrow>
     enemy_power_scores vals typed named es' = enemy_power_scores vals typed named es"
proof (induction es' arbitrary: es typed named)
  case (Cons e' es')
  then obtain e rest where "es = e # rest" "eo_powers e' = eo_powers e" "map eo_powers es' = map eo_powers rest"
    by auto
  with Cons.IH [of rest] show ?case by (simp add: then_r_def split: sum.split)
qed simp

text \<open>the weighted sum of everything but the first feature\<close>

lemma state_value_cong:
  assumes "same_board ob ob'" "extract_features hv ob = Inr fs"
  shows "\<exists>fs'. extract_features hv ob' = Inr fs' \<and>
    weighted_sum hv fs' - weighted_sum hv fs =
      weight hv ''effective_hp_ratio'' * (effective_hp ob' - effective_hp ob) / ob_max_hp ob"
proof -
  from assms(1) have same: "ob_max_hp ob' = ob_max_hp ob" "ob_player_powers ob' = ob_player_powers ob"
    and board: "map board_part (ob_enemies ob') = map board_part (ob_enemies ob)"
    by (auto simp: same_board_def)
  note sums = same_board_sums [OF board]
  have scores: "enemy_power_scores vals typed named (alive_enemies ob') =
      enemy_power_scores vals typed named (alive_enemies ob)" for vals typed named
    by (rule enemy_power_scores_cong) (simp add: alive_enemies_def sums)
  have len: "length (alive_enemies ob') = length (alive_enemies ob)"
    using arg_cong [OF sums(3), of length] by (simp add: alive_enemies_def)
  have ratio: "enemy_hp_ratio ob' = enemy_hp_ratio ob" by (simp add: enemy_hp_ratio_def sums)
  from assms(2) show ?thesis
    by (auto simp: extract_features_def then_r_eq_Inr same scores len ratio weighted_sum_def
        diff_divide_distrib right_diff_distrib)
qed

lemma effective_hp_block:
  assumes "ob_hp ob' = ob_hp ob" "ob_enemies ob' = ob_enemies ob"
  shows "effective_hp ob' - effective_hp ob =
    min (ob_block ob') (incoming_before_block ob) - min (ob_block ob) (incoming_before_block ob)"
proof -
  have "incoming_before_block ob' = incoming_before_block ob"
    using assms(2) by (simp add: incoming_before_block_def alive_enemies_def)
  with assms(1) show ?thesis by (simp add: effective_hp_def incoming_damage_def min_def max_def)
qed

lemma evaluate_nonterminal:
  "terminal_outcome dto = Inr None \<Longrightarrow>
     evaluate hv dto = then_r (observe True dto) (\<lambda>ob. then_r (extract_features hv ob) (\<lambda>fs. Inr (weighted_sum hv fs)))"
  by (simp add: evaluate_def exact_terminal_utility_def)

text \<open>every exception is a \<open>ValueError\<close>\<close>

definition only_value_error :: "exn + 'a \<Rightarrow> bool" where
  "only_value_error r \<longleftrightarrow> (\<forall>e. r = Inl e \<longrightarrow> e = ValueError)"

named_theorems value_errors \<open>the exceptions of the value function\<close>

lemma value_error_then [value_errors]:
  "only_value_error r \<Longrightarrow> (\<And>x. only_value_error (f x)) \<Longrightarrow> only_value_error (then_r r f)"
  by (cases r) (auto simp: only_value_error_def)

lemma value_error_Inr [value_errors]: "only_value_error (Inr x)"
  by (simp add: only_value_error_def)

lemma value_error_if [value_errors]:
  "only_value_error r \<Longrightarrow> only_value_error r' \<Longrightarrow> only_value_error (if b then r else r')"
  by simp

lemma value_error_num [value_errors]: "only_value_error (value_num d v)"
  by (auto simp: only_value_error_def value_num_def validated_finite_number_def split: option.splits if_splits)

lemma value_error_power_type [value_errors]: "only_value_error (power_type p)"
  by (auto simp: only_value_error_def power_type_def split: pyval.splits)

lemma value_error_power_id: "only_value_error (first_power_id p ks)"
  by (induction p ks rule: first_power_id.induct) (auto simp: only_value_error_def split: pyval.splits)

lemma value_error_id [value_errors]: "only_value_error (power_id p)"
  unfolding power_id_def by (rule value_error_power_id)

lemma value_error_typed [value_errors]: "only_value_error (typed_power_score x ps)"
  by (induction x ps rule: typed_power_score.induct) (auto simp: Let_def intro!: value_errors)

lemma value_error_named [value_errors]: "only_value_error (named_power_score vals x ps)"
  by (induction vals x ps rule: named_power_score.induct)
    (auto split: option.split intro!: value_errors)

lemma value_error_enemies [value_errors]: "only_value_error (enemy_power_scores vals t n es)"
  by (induction vals t n es rule: enemy_power_scores.induct) (auto intro!: value_errors)

lemma value_error_outcome [value_errors]: "only_value_error (terminal_outcome dto)"
  by (auto simp: only_value_error_def terminal_outcome_def Let_def split: pyval.splits if_splits)

lemma value_error_observe [value_errors]: "only_value_error (observe True dto)"
  using tolerates_observe [of dto] by (auto simp: tolerates_def only_value_error_def)

lemma evaluate_only_value_error: "only_value_error (evaluate hv dto)"
  unfolding evaluate_def exact_terminal_utility_def extract_features_def
  by (auto split: option.split intro!: value_errors)

section \<open>Properties\<close>

text \<open>C12: On one board the value of a state measures nothing but the effective hit points, the hit points
  left after the enemy turn that is announced: two states that differ in hit points, block, energy,
  hand and announced attacks differ in value by the weight of \<open>effective_hp_ratio\<close> times the
  difference of their effective hit points, over the maximal hit points.  So a state just before an
  enemy turn has the value of the state after it, in which the damage is paid and nothing more is
  announced; and more block against the same attacks earns exactly the damage it prevents, so block
  beyond the announced damage is worth nothing.\<close>

theorem value_measures_effective_hp:
  assumes "terminal_outcome dto = Inr None" "terminal_outcome dto' = Inr None"
    and "observe True dto = Inr ob" "observe True dto' = Inr ob'" "same_board ob ob'"
    and "evaluate hv dto = Inr v"
  shows "\<exists>v'. evaluate hv dto' = Inr v' \<and>
    v' - v = weight hv ''effective_hp_ratio'' * (effective_hp ob' - effective_hp ob) / ob_max_hp ob \<and>
    (ob_hp ob' = ob_hp ob - incoming_damage ob \<and> incoming_damage ob' = 0 \<longrightarrow> v' = v) \<and>
    (ob_hp ob' = ob_hp ob \<and> ob_enemies ob' = ob_enemies ob \<longrightarrow>
       v' - v = weight hv ''effective_hp_ratio'' *
         (min (ob_block ob') (incoming_before_block ob) - min (ob_block ob) (incoming_before_block ob)) /
         ob_max_hp ob)"
proof -
  from assms(1,3,6) obtain fs where fs: "extract_features hv ob = Inr fs" "v = weighted_sum hv fs"
    by (auto simp: evaluate_nonterminal then_r_eq_Inr)
  from state_value_cong [OF assms(5) fs(1)] obtain fs' where fs': "extract_features hv ob' = Inr fs'"
    and diff: "weighted_sum hv fs' - weighted_sum hv fs =
      weight hv ''effective_hp_ratio'' * (effective_hp ob' - effective_hp ob) / ob_max_hp ob"
    by blast
  have "evaluate hv dto' = Inr (weighted_sum hv fs')"
    using assms(2,4) fs' by (simp add: evaluate_nonterminal)
  moreover have "effective_hp ob' = effective_hp ob"
    if "ob_hp ob' = ob_hp ob - incoming_damage ob" "incoming_damage ob' = 0"
    using that by (simp add: effective_hp_def)
  ultimately show ?thesis using diff fs(2) effective_hp_block [of ob' ob] by auto
qed

text \<open>one attacker: 10 hit points and block 3 against an attack of 5, and after that attack\<close>

definition demo_attacker :: "int \<Rightarrow> pyval" where
  "demo_attacker damage =
     PDict [(''hp'', PInt 4), (''maxHp'', PInt 8), (''intent'', PDict [(''attackDamage'', PInt damage)])]"

definition demo_turn :: "int \<Rightarrow> int \<Rightarrow> int \<Rightarrow> pydict" where
  "demo_turn hp block damage =
     [(''hp'', PInt hp), (''maxHp'', PInt 20), (''block'', PInt block), (''enemies'', PList [demo_attacker damage])]"

definition demo_observation :: "int \<Rightarrow> int \<Rightarrow> int \<Rightarrow> combat_observation" where
  "demo_observation hp block damage =
     \<lparr>ob_hp = of_int hp, ob_max_hp = 20, ob_block = of_int block, ob_energy = None, ob_max_energy = None,
      ob_turn_number = None,
      ob_enemies = [\<lparr>eo_index = None, eo_hp = 4, eo_max_hp = 8, eo_is_alive = True,
        eo_attack_damage = of_int damage, eo_attack_repeats = 1, eo_powers = [], eo_block = 0\<rparr>],
      ob_hand = [], ob_potions = [], ob_player_powers = []\<rparr>"

definition demo_value :: heuristic_value where
  "demo_value = \<lparr>hv_weights = default_weights, hv_power_values = []\<rparr>"

lemma demo_turn_observed:
  "observe True (demo_turn 10 3 5) = Inr (demo_observation 10 3 5)"
  "observe True (demo_turn 8 0 0) = Inr (demo_observation 8 0 0)"
  by code_simp+

theorem value_measures_effective_hp_witness:
  "evaluate demo_value (demo_turn 10 3 5) = Inr (- 1) \<and> evaluate demo_value (demo_turn 8 0 0) = Inr (- 1)"
proof -
  have before: "evaluate demo_value (demo_turn 10 3 5) = Inr (- 1)" by code_simp
  have "\<exists>v'. evaluate demo_value (demo_turn 8 0 0) = Inr v' \<and>
    v' - (- 1) = weight demo_value ''effective_hp_ratio'' *
      (effective_hp (demo_observation 8 0 0) - effective_hp (demo_observation 10 3 5)) / ob_max_hp (demo_observation 10 3 5) \<and>
    (ob_hp (demo_observation 8 0 0) = ob_hp (demo_observation 10 3 5) - incoming_damage (demo_observation 10 3 5) \<and>
       incoming_damage (demo_observation 8 0 0) = 0 \<longrightarrow> v' = - 1) \<and>
    (ob_hp (demo_observation 8 0 0) = ob_hp (demo_observation 10 3 5) \<and>
       ob_enemies (demo_observation 8 0 0) = ob_enemies (demo_observation 10 3 5) \<longrightarrow>
       v' - (- 1) = weight demo_value ''effective_hp_ratio'' *
         (min (ob_block (demo_observation 8 0 0)) (incoming_before_block (demo_observation 10 3 5)) -
          min (ob_block (demo_observation 10 3 5)) (incoming_before_block (demo_observation 10 3 5))) /
         ob_max_hp (demo_observation 10 3 5))"
    by (rule value_measures_effective_hp [OF _ _ demo_turn_observed _ before])
      (simp_all add: terminal_outcome_def demo_turn_def same_board_def demo_observation_def board_part_def)
  with before show ?thesis
    by (auto simp: demo_observation_def incoming_damage_def incoming_before_block_def alive_enemies_def
        incoming_attack_def)
qed

text \<open>The value of a terminal state is exact: a won or lost state has the weight of its outcome, whatever
  else its DTO holds, so malformed fields of a finished combat are never looked at; and the only
  exception an evaluation raises is \<open>ValueError\<close>.\<close>

theorem terminal_value_is_exact:
  "(terminal_outcome dto = Inr (Some ''victory'') \<longrightarrow> evaluate hv dto = Inr (weight hv ''victory_bonus'')) \<and>
   (terminal_outcome dto = Inr (Some ''defeat'') \<longrightarrow> evaluate hv dto = Inr (weight hv ''defeat_penalty'')) \<and>
   (\<forall>e. evaluate hv dto = Inl e \<longrightarrow> e = ValueError)"
  using evaluate_only_value_error [of hv dto]
  by (auto simp: evaluate_def exact_terminal_utility_def only_value_error_def)

theorem terminal_value_is_exact_witness:
  "evaluate demo_value [(''outcome'', PStr ''run_victory''), (''hp'', PStr ''x'')] = Inr 100000"
  using terminal_value_is_exact [of "[(''outcome'', PStr ''run_victory''), (''hp'', PStr ''x'')]" demo_value]
  by (simp add: terminal_outcome_def demo_value_def weight_def default_weights_def)

end
