(* ===== verification/Search_Modes.thy ===== *)
theory Search_Modes
  imports Beam_Engine
begin

text \<open>
  \<open>decision/search_modes.py\<close>: the named presets of the search budget, and which of them run the beam.
\<close>

section \<open>Presets\<close>

text \<open>the default field values of \<open>BeamSearchConfig\<close> after \<open>__post_init__\<close>\<close>

definition default_beam_config :: beam_config where
  "default_beam_config =
     \<lparr>beam_width = 8, top_k_actions = 4, max_depth = 2, simulation_options = default_simulation_options,
      time_budget_ms = None, max_batch_size = 64, expand_partial = True, release_branches_on_finish = True,
      beam_searchable_action_types = [''system'', ''card'', ''potion''], max_continuation_steps = 8,
      max_branch_attempts = 3, turn_aligned_leaves = False, turn_boundary_scoring = False\<rparr>"

definition search_mode_templates :: "(string \<times> beam_config) list" where
  "search_mode_templates =
     [(''none'', default_beam_config),
      (''shallow'', default_beam_config\<lparr>max_depth := 1, beam_width := 4, top_k_actions := 3\<rparr>),
      (''standard'', default_beam_config),
      (''deep'', default_beam_config\<lparr>max_depth := 4, beam_width := 8, top_k_actions := 4\<rparr>),
      (''wide'', default_beam_config\<lparr>max_depth := 2, beam_width := 16, top_k_actions := 6\<rparr>)]"

text \<open>the argument \<open>mode\<close>: nothing, a name, or a configuration of the caller's own\<close>

datatype search_mode = NoMode | ModeName string | OwnConfig beam_config

definition default_search_mode :: string where
  "default_search_mode = ''none''"

text \<open>
  \<open>dataclasses.replace\<close> runs the checks of \<open>__post_init__\<close> again, and fills in the default for missing
  simulation options
\<close>

definition replace_config :: "beam_config \<Rightarrow> exn + beam_config" where
  "replace_config cfg =
     (if config_ok cfg
      then Inr (cfg\<lparr>simulation_options :=
             (if simulation_options cfg = PNone then default_simulation_options else simulation_options cfg)\<rparr>)
      else Inl ValueError)"

definition copy_config :: "beam_config \<Rightarrow> pyval \<Rightarrow> exn + beam_config" where
  "copy_config cfg depth =
     then_r (case depth of PNone \<Rightarrow> Inr (max_depth cfg) | _ \<Rightarrow> config_int depth) (\<lambda>d.
       replace_config (cfg\<lparr>max_depth := d\<rparr>))"

definition search_mode_uses_beam :: "search_mode \<Rightarrow> exn + bool" where
  "search_mode_uses_beam mode =
     (case mode of
        OwnConfig _ \<Rightarrow> Inr True
      | NoMode \<Rightarrow> Inr (default_search_mode \<noteq> ''none'')
      | ModeName name \<Rightarrow>
          if name \<notin> set (map fst search_mode_templates) then Inl ValueError else Inr (name \<noteq> ''none''))"

definition named_config :: "string \<Rightarrow> pyval \<Rightarrow> exn + beam_config" where
  "named_config name depth =
     (case map_of search_mode_templates name of None \<Rightarrow> Inl ValueError | Some cfg \<Rightarrow> copy_config cfg depth)"

definition resolve_search_mode :: "search_mode \<Rightarrow> pyval \<Rightarrow> exn + beam_config" where
  "resolve_search_mode mode depth =
     (case mode of
        NoMode \<Rightarrow> named_config default_search_mode depth
      | OwnConfig cfg \<Rightarrow> (case depth of PNone \<Rightarrow> Inr cfg | _ \<Rightarrow> copy_config cfg depth)
      | ModeName name \<Rightarrow> named_config name depth)"

section \<open>Properties\<close>

lemma config_int_Inr: "config_int v = Inr d \<longleftrightarrow> v = PInt d \<and> 0 < d"
  by (cases v) (auto simp: config_int_def)

text \<open>what an override of the depth changes: the depth, and missing simulation options\<close>

definition overrides :: "pyval \<Rightarrow> beam_config \<Rightarrow> beam_config \<Rightarrow> bool" where
  "overrides depth cfg cfg' \<longleftrightarrow> config_ok cfg' \<and>
     (depth = PNone \<and> max_depth cfg' = max_depth cfg \<or> depth = PInt (max_depth cfg')) \<and>
     cfg' = cfg\<lparr>max_depth := max_depth cfg',
       simulation_options := if simulation_options cfg = PNone then default_simulation_options
         else simulation_options cfg\<rparr>"

lemma copy_config_overrides:
  assumes "copy_config cfg depth = Inr cfg'"
  shows "overrides depth cfg cfg'"
proof -
  from assms obtain d where d: "depth = PNone \<and> d = max_depth cfg \<or> depth = PInt d"
    and cfg': "replace_config (cfg\<lparr>max_depth := d\<rparr>) = Inr cfg'"
    by (cases depth) (auto simp: copy_config_def then_r_eq_Inr config_int_Inr)
  from cfg' have ok: "config_ok (cfg\<lparr>max_depth := d\<rparr>)" and
    "cfg' = cfg\<lparr>max_depth := d, simulation_options := if simulation_options cfg = PNone then default_simulation_options
         else simulation_options cfg\<rparr>"
    by (simp_all add: replace_config_def split: if_splits)
  with d show ?thesis by (auto simp: overrides_def config_ok_def)
qed

lemma named_config_overrides:
  "named_config name depth = Inr cfg \<Longrightarrow>
     \<exists>template. map_of search_mode_templates name = Some template \<and> overrides depth template cfg"
  by (auto simp: named_config_def copy_config_overrides split: option.splits)

lemma template_scope:
  "map_of search_mode_templates name = Some cfg \<Longrightarrow>
     beam_searchable_action_types cfg = [''system'', ''card'', ''potion''] \<and> name \<in> set (map fst search_mode_templates)"
  by (auto simp: search_mode_templates_def default_beam_config_def split: if_splits)

text \<open>A preset is a budget and nothing else: whatever mode resolves, every preset yields a valid
  configuration of the same decision scope, a depth given with it sets exactly the depth, a
  configuration of the caller's own keeps its scope and without a depth is returned as it is; and
  the mode that resolved says whether it runs the beam, which only the mode \<open>none\<close>, the default,
  does not.\<close>

theorem search_mode_is_a_budget:
  assumes "resolve_search_mode mode depth = Inr cfg"
  shows "(\<forall>i. depth = PInt i \<longrightarrow> max_depth cfg = i \<and> 0 < i) \<and>
    search_mode_uses_beam mode = Inr (mode \<noteq> NoMode \<and> mode \<noteq> ModeName ''none'') \<and>
    (case mode of
       OwnConfig own \<Rightarrow> beam_searchable_action_types cfg = beam_searchable_action_types own \<and>
         (depth = PNone \<longrightarrow> cfg = own)
     | _ \<Rightarrow> config_ok cfg \<and> beam_searchable_action_types cfg = [''system'', ''card'', ''potion''])"
proof -
  have scope: "beam_searchable_action_types cfg = beam_searchable_action_types own"
    and depth: "\<forall>i. depth = PInt i \<longrightarrow> max_depth cfg = i \<and> 0 < i"
    if "overrides depth own cfg" for own
  proof -
    have "cfg = own\<lparr>max_depth := max_depth cfg, simulation_options :=
        if simulation_options own = PNone then default_simulation_options else simulation_options own\<rparr>"
      using that by (simp add: overrides_def)
    from arg_cong [OF this, of beam_searchable_action_types]
    show "beam_searchable_action_types cfg = beam_searchable_action_types own" by simp
    show "\<forall>i. depth = PInt i \<longrightarrow> max_depth cfg = i \<and> 0 < i"
      using that unfolding overrides_def config_ok_def by auto
  qed
  have ok: "config_ok cfg" if "overrides depth own cfg" for own
    using that by (simp add: overrides_def)
  show ?thesis
  proof (cases mode)
    case NoMode
    with assms have "named_config ''none'' depth = Inr cfg" by (simp add: resolve_search_mode_def default_search_mode_def)
    from named_config_overrides [OF this] obtain template
      where "map_of search_mode_templates ''none'' = Some template" "overrides depth template cfg" by blast
    with scope depth ok template_scope NoMode show ?thesis
      by (simp add: search_mode_uses_beam_def default_search_mode_def)
  next
    case (ModeName name)
    with assms have "named_config name depth = Inr cfg" by (simp add: resolve_search_mode_def)
    from named_config_overrides [OF this] obtain template
      where "map_of search_mode_templates name = Some template" "overrides depth template cfg" by blast
    with scope depth ok template_scope ModeName show ?thesis
      by (simp add: search_mode_uses_beam_def)
  next
    case (OwnConfig own)
    show ?thesis
    proof (cases "depth = PNone")
      case False
      with assms OwnConfig have "overrides depth own cfg"
        by (cases depth) (auto simp: resolve_search_mode_def intro: copy_config_overrides)
      with OwnConfig False scope depth show ?thesis by (simp add: search_mode_uses_beam_def)
    qed (use assms OwnConfig in \<open>simp add: resolve_search_mode_def search_mode_uses_beam_def\<close>)
  qed
qed

theorem search_mode_is_a_budget_witness:
  "\<exists>cfg. resolve_search_mode (ModeName ''deep'') (PInt 3) = Inr cfg \<and> max_depth cfg = 3 \<and> config_ok cfg"
proof -
  obtain cfg where "resolve_search_mode (ModeName ''deep'') (PInt 3) = Inr cfg"
    by (simp add: resolve_search_mode_def named_config_def search_mode_templates_def copy_config_def config_int_def
        replace_config_def config_ok_def default_beam_config_def)
  with search_mode_is_a_budget [OF this] show ?thesis by auto
qed

end
