(* ===== verification/Beam_Search.thy ===== *)
theory Beam_Search
  imports Beam_Frontier
begin

text \<open>
  The search of \<open>BeamSearchEngine\<close> (\<open>decision/beam_search.py\<close>): the loop over plies, the settling of
  leaves at the end of the turn, the choice of the best leaf and the final cleanup.  The \<open>while\<close> loop
  takes fuel, one unit per iteration; a search that runs out of it returns \<open>None\<close>.
\<close>

section \<open>Aligning leaves to the same turn\<close>

text \<open>a leaf that its forced End Turn could extend, with its index, turn and End Turn action\<close>

definition extendable_leaf :: "nat \<times> beam_node \<Rightarrow> (nat \<times> beam_node \<times> int \<times> string) option" where
  "extendable_leaf = (\<lambda>(i, node).
     if bn_root_action_id node = None \<or> bn_terminal node \<or> \<not> is_macro_resolved node \<or>
        bn_decision_point_id node = [] then None
     else (case (turn_number (bn_dto node), end_turn_action_id (bn_dto node)) of
             (Some turn, Some aid) \<Rightarrow> Some (i, node, turn, aid) | _ \<Rightarrow> None))"

definition lagging_of :: "(nat \<times> beam_node \<times> int \<times> string) list \<Rightarrow> (nat \<times> beam_node \<times> int \<times> string) list" where
  "lagging_of extendable =
     (if length extendable < 2 then []
      else
        let target = Min (set (map (\<lambda>(_, _, turn, _). turn) extendable)) + 1;
            lagging = filter (\<lambda>(_, _, turn, _). turn < target) extendable
        in if length lagging = length extendable then [] else lagging)"

definition lagging_leaves :: "beam_node list \<Rightarrow> (nat \<times> beam_node \<times> int \<times> string) list" where
  "lagging_leaves nodes = lagging_of (List.map_filter extendable_leaf (enumerate 0 nodes))"

lemma lagging_of_subset: "set (lagging_of xs) \<subseteq> set xs"
  by (auto simp: lagging_of_def Let_def)

text \<open>the DTOs of the resolved branches of a settling batch, under their keys\<close>

fun settled_dtos :: "pydict \<Rightarrow> ('k \<times> string) list \<Rightarrow> exn + ('k \<times> pydict) list" where
  "settled_dtos results [] = Inr []"
| "settled_dtos results ((key, branch_id) # rest) =
     (let result = dget results branch_id in
      then_r (is_resolved_branch_result result) (\<lambda>resolved.
      then_r (settled_dtos results rest) (\<lambda>ds.
        case (resolved, vget result ''masked_emulator_dto'') of
          (True, PDict dto) \<Rightarrow> Inr ((key, dto) # ds) | _ \<Rightarrow> Inr ds)))"

definition set_leaf_value :: "beam_node list \<Rightarrow> nat \<times> rat \<Rightarrow> beam_node list" where
  "set_leaf_value nodes = (\<lambda>(i, score). nodes[i := (nodes ! i)\<lparr>bn_value := score\<rparr>])"

text \<open>one End Turn item per leaf\<close>

definition end_turn_item :: "'w beam_engine \<Rightarrow> beam_node \<Rightarrow> string \<Rightarrow> ('w, pydict \<times> string) beam" where
  "end_turn_item en node aid =
     bind_p (next_branch_id en) (\<lambda>branch_id.
     bind_p (child_rng_id node) (\<lambda>rng_id.
       ret_p (branch_item (bn_branch_id node) branch_id rng_id (bn_decision_point_id node) aid, branch_id)))"

definition align_item :: "'w beam_engine \<Rightarrow> nat \<times> beam_node \<times> int \<times> string \<Rightarrow> ('w, pydict \<times> nat \<times> string) beam" where
  "align_item en = (\<lambda>(i, node, _, aid).
     bind_p (next_branch_id en) (\<lambda>branch_id.
       ret_p (branch_item (bn_branch_id node) branch_id (bn_rng_id node) (bn_decision_point_id node) aid,
              i, branch_id)))"

definition align_leaf_turns ::
  "'w beam_engine \<Rightarrow> string \<Rightarrow> rat \<Rightarrow> beam_node list \<Rightarrow> ('w, beam_node list) beam" where
  "align_leaf_turns en inst deadline nodes =
     (if lagging_leaves nodes = [] then ret_p nodes
      else
        bind_p (now_p en) (\<lambda>now.
        if deadline - now \<le> 0 then ret_p nodes
        else
          bind_p (collect_p (align_item en) (lagging_leaves nodes)) (\<lambda>works.
          try_else
            (world_p (sc_emulate_actions (be_client en) inst (map fst works) (deadline - now)
                        (simulation_options (be_config en))))
            (\<lambda>response.
               then_p (register_branches (map (snd \<circ> snd) works))
              (bind_p (lift_p (results_mapping response)) (\<lambda>results.
               bind_p (lift_p (settled_dtos results (map snd works))) (\<lambda>aligned.
               if aligned = [] then ret_p nodes
               else
                 bind_p (evaluate_states en (map snd aligned)) (\<lambda>scores.
                 then_p (count_p (\<lambda>t. t\<lparr>leaves_turn_aligned := leaves_turn_aligned t + int (length aligned)\<rparr>))
                   (ret_p (foldl set_leaf_value nodes (zip (map fst aligned) scores))))))))
            (\<lambda>e. case e of
               RequestRejectedError _ \<Rightarrow> ret_p nodes
             | TransportError _ _ _ \<Rightarrow> ret_p nodes
             | _ \<Rightarrow> raise_p e))))"

section \<open>Settling leaves at the turn boundary\<close>

definition turn_boundary_settle_action :: "beam_node \<Rightarrow> int option \<Rightarrow> string option" where
  "turn_boundary_settle_action node root_turn =
     (if bn_branch_id node = search_root_id \<or> bn_terminal node then None
      else if bn_decision_point_id node = [] \<or> \<not> is_macro_resolved node then None
      else if crossed_turn_boundary (bn_dto node) root_turn then None
      else end_turn_action_id (bn_dto node))"

text \<open>the leaves not settled before, each index with its node and action\<close>

fun pending_leaves ::
  "string list \<Rightarrow> int option \<Rightarrow> (nat \<times> beam_node) list \<Rightarrow> string list \<times> (nat \<times> beam_node \<times> string) list" where
  "pending_leaves settled root_turn [] = (settled, [])"
| "pending_leaves settled root_turn ((i, node) # rest) =
     (if bn_branch_id node \<in> set settled then pending_leaves settled root_turn rest
      else
        (case pending_leaves (bn_branch_id node # settled) root_turn rest of (settled', pending) \<Rightarrow>
           (settled',
            (case turn_boundary_settle_action node root_turn of
               None \<Rightarrow> pending | Some aid \<Rightarrow> (i, node, aid) # pending))))"

type_synonym settle_work = "pydict \<times> string \<times> string"
type_synonym settled = "(string \<times> rat \<times> pydict) list"

definition settle_item :: "'w beam_engine \<Rightarrow> beam_node \<times> string \<Rightarrow> ('w, settle_work) beam" where
  "settle_item en = (\<lambda>(node, aid).
     bind_p (end_turn_item en node aid) (\<lambda>(item, branch_id).
       ret_p (item, bn_branch_id node, branch_id)))"

definition settle_batch_size :: "'w beam_engine \<Rightarrow> 'w searching \<Rightarrow> int" where
  "settle_batch_size en s =
     (let size = effective_batch_size en (se_world s) in
      case server_active_branch_capacity (be_client en) (se_world s) of
        None \<Rightarrow> size
      | Some capacity \<Rightarrow>
          max 1 (min size (capacity - int (length (filter (\<lambda>b. b \<notin> set (se_released s)) (se_all_ids s))))))"

fun mapping_or_empty :: "pyval \<Rightarrow> pydict" where
  "mapping_or_empty (PDict d) = d"
| "mapping_or_empty _ = []"

text \<open>scores of one chunk; later entries of the dictionary replace earlier ones\<close>

definition settle_scores :: "'w beam_engine \<Rightarrow> (string \<times> pydict) list \<Rightarrow> settled \<Rightarrow> ('w, settled) beam" where
  "settle_scores en resolved acc =
     (if resolved = [] then ret_p acc
      else
        bind_p (evaluate_states en (map snd resolved)) (\<lambda>scores.
        then_p (count_p (\<lambda>t. t\<lparr>leaves_turn_aligned := leaves_turn_aligned t + int (length resolved)\<rparr>))
          (ret_p (foldl (\<lambda>d ((parent, dto), score). AList.update parent (score, dto) d) acc
                    (zip resolved scores)))))"

fun settle_chunks ::
  "'w beam_engine \<Rightarrow> string \<Rightarrow> rat \<Rightarrow> settled \<Rightarrow> settle_work list list \<Rightarrow> ('w, settled) beam" where
  "settle_chunks en inst deadline acc [] = ret_p acc"
| "settle_chunks en inst deadline acc (chunk # chunks) =
     bind_p (now_p en) (\<lambda>now.
       if deadline - now \<le> 0 then ret_p acc
       else
         try_else
           (world_p (sc_emulate_actions (be_client en) inst (map fst chunk) (deadline - now)
                       (simulation_options (be_config en))))
           (\<lambda>response.
              let branch_ids = map (snd \<circ> snd) chunk in
              then_p (register_branches branch_ids)
             (bind_p (lift_p (settled_dtos (mapping_or_empty (dget response ''branch_results'')) (map snd chunk)))
               (\<lambda>resolved.
              bind_p (settle_scores en resolved acc) (\<lambda>acc'.
              then_p (release_settled_branches en inst branch_ids deadline)
                (settle_chunks en inst deadline acc' chunks)))))
           (\<lambda>e. client_attr client_unusable en (\<lambda>unusable.
              case e of
                RequestRejectedError _ \<Rightarrow> if unusable then ret_p acc else settle_chunks en inst deadline acc chunks
              | TransportError _ _ _ \<Rightarrow> if unusable then ret_p acc else settle_chunks en inst deadline acc chunks
              | _ \<Rightarrow> raise_p e)))"

definition settle_batch ::
  "'w beam_engine \<Rightarrow> string \<Rightarrow> rat \<Rightarrow> (beam_node \<times> string) list \<Rightarrow> ('w, settled) beam" where
  "settle_batch en inst deadline entries =
     bind_p (collect_p (settle_item en) entries) (\<lambda>works.
     with_p (\<lambda>s. settle_chunks en inst deadline [] (chunks_of (nat (settle_batch_size en s)) works)))"

definition settle_leaf :: "settled \<Rightarrow> beam_node list \<Rightarrow> nat \<times> beam_node \<times> string \<Rightarrow> beam_node list" where
  "settle_leaf settled nodes = (\<lambda>(i, node, _).
     case map_of settled (bn_branch_id node) of
       None \<Rightarrow> nodes | Some (score, _) \<Rightarrow> set_leaf_value nodes (i, score))"

definition settle_pending_leaves :: "'w beam_engine \<Rightarrow> string \<Rightarrow> rat \<Rightarrow> int option \<Rightarrow> ('w, unit) beam" where
  "settle_pending_leaves en inst deadline root_turn = with_p (\<lambda>s.
     case pending_leaves (se_settled s) root_turn (enumerate 0 (se_finished s)) of (settled_ids, pending) \<Rightarrow>
       then_p (modify_p (\<lambda>s. s\<lparr>se_settled := settled_ids\<rparr>))
        (if pending = [] then ret_p ()
         else
           bind_p (settle_batch en inst deadline (map snd pending)) (\<lambda>settled.
             modify_p (\<lambda>s. s\<lparr>se_finished := foldl (settle_leaf settled) (se_finished s) pending\<rparr>))))"

definition settled_root :: "beam_node \<Rightarrow> string \<Rightarrow> rat \<Rightarrow> pydict \<Rightarrow> beam_node" where
  "settled_root root_node aid score dto =
     \<lparr>bn_branch_id = bn_branch_id root_node, bn_parent_branch_id = bn_branch_id root_node,
      bn_rng_id = bn_rng_id root_node, bn_decision_point_id = [], bn_dto = dto,
      bn_depth = bn_depth root_node + 1, bn_value = score, bn_root_action_id = Some aid,
      bn_combat_depth = bn_combat_depth root_node + 1, bn_continuation_steps = 0, bn_branch_log = [],
      bn_terminal = is_terminal dto, bn_action_id = Some aid, bn_action_type = Some ''system'',
      bn_action = action_for_id (bn_dto root_node) aid, bn_policy_rank = None, bn_policy_score = None,
      bn_post_coverage_rank = None, bn_candidate_source = None\<rparr>"

definition settle_root_as_a_leaf :: "'w beam_engine \<Rightarrow> string \<Rightarrow> rat \<Rightarrow> beam_node \<Rightarrow> ('w, unit) beam" where
  "settle_root_as_a_leaf en inst deadline root_node =
     (case end_turn_action_id (bn_dto root_node) of
        None \<Rightarrow> ret_p ()
      | Some aid \<Rightarrow>
          if bn_decision_point_id root_node = [] then ret_p ()
          else
            bind_p (settle_batch en inst deadline [(root_node, aid)]) (\<lambda>settled.
              case map_of settled (bn_branch_id root_node) of
                None \<Rightarrow> ret_p ()
              | Some (score, dto) \<Rightarrow>
                  modify_p (\<lambda>s. s\<lparr>se_finished := se_finished s @ [settled_root root_node aid score dto]\<rparr>)))"

section \<open>One iteration of the search\<close>

text \<open>the nodes the beam may expand, and the resolved ones that become leaves\<close>

fun admit_nodes ::
  "string option \<Rightarrow> string list \<Rightarrow> beam_node list \<Rightarrow> exn + beam_node list \<times> beam_node list" where
  "admit_nodes itype allowed [] = Inr ([], [])"
| "admit_nodes itype allowed (node # rest) =
     then_r (is_beam_searchable_for_client itype (bn_dto node) allowed) (\<lambda>searchable.
     then_r (admit_nodes itype allowed rest) (\<lambda>(beam, leaves).
       if searchable then Inr (node # beam, leaves)
       else if is_macro_resolved node then Inr (beam, node # leaves)
       else Inr (beam, leaves)))"

definition add_finished :: "beam_node list \<Rightarrow> ('w, unit) beam" where
  "add_finished nodes = modify_p (\<lambda>s. s\<lparr>se_finished := se_finished s @ nodes\<rparr>)"

definition set_beam :: "beam_node list \<Rightarrow> ('w, unit) beam" where
  "set_beam nodes = modify_p (\<lambda>s. s\<lparr>se_beam := nodes\<rparr>)"

definition set_waiting :: "beam_node list \<Rightarrow> ('w, unit) beam" where
  "set_waiting nodes = modify_p (\<lambda>s. s\<lparr>se_waiting := nodes\<rparr>)"

definition settle_if_boundary :: "'w beam_engine \<Rightarrow> string \<Rightarrow> rat \<Rightarrow> int option \<Rightarrow> ('w, unit) beam" where
  "settle_if_boundary en inst deadline root_turn =
     (if turn_boundary_scoring (be_config en) then settle_pending_leaves en inst deadline root_turn
      else ret_p ())"

text \<open>fitting the proposed children; the branches left out are settled and released first\<close>

definition fit_ply ::
  "'w beam_engine \<Rightarrow> string \<Rightarrow> rat \<Rightarrow> int option \<Rightarrow> work list \<Rightarrow> ('w, string + work list) beam" where
  "fit_ply en inst deadline root_turn works =
     client_attr server_active_branch_capacity en (\<lambda>capacity. with_p (\<lambda>s.
       let fit = fit_whole_run_frontier_to_active_capacity capacity (se_beam s) (se_waiting s) works in
       then_p (set_beam (ft_beam fit)) (then_p (set_waiting (ft_waiting fit))
      (then_p (add_finished (ft_finished fit))
      (bind_p (if ft_limited fit
               then then_p (settle_if_boundary en inst deadline root_turn)
                      (release_unneeded_whole_run_branches en inst deadline)
               else ret_p True) (\<lambda>released.
       ret_p (if \<not> released then Inl ''active_branch_cleanup_failed''
              else if ft_works fit = [] then Inl ''active_branch_capacity''
              else Inr (ft_works fit))))))))"

text \<open>proposing; a node with nothing to expand leaves the beam\<close>

definition expand_beam ::
  "'w beam_engine \<Rightarrow> string \<Rightarrow> rat \<Rightarrow> int option \<Rightarrow> ('w, string + work list) beam" where
  "expand_beam en inst deadline root_turn = with_p (\<lambda>s.
     bind_p (propose_frontier en (se_beam s)) (\<lambda>(works, exhausted).
     then_p (add_finished (filter is_macro_resolved exhausted))
    (then_p (set_beam (filter (\<lambda>n. bn_branch_id n \<notin> bn_branch_id ` set exhausted) (se_beam s)))
    (if works = [] then ret_p (Inl ''no_candidates'') else fit_ply en inst deadline root_turn works))))"

text \<open>the nodes the beam may not expand leave it first\<close>

definition admit_ply ::
  "'w beam_engine \<Rightarrow> string \<Rightarrow> rat \<Rightarrow> int option \<Rightarrow> ('w, string + work list) beam" where
  "admit_ply en inst deadline root_turn =
     client_attr sc_instance_type en (\<lambda>itype. with_p (\<lambda>s.
     bind_p (lift_p (admit_nodes itype (beam_searchable_action_types (be_config en)) (se_beam s))) (\<lambda>(beam, leaves).
     then_p (add_finished leaves) (then_p (set_beam beam)
     (if beam = [] then ret_p (Inl ''not_beam_searchable'')
      else expand_beam en inst deadline root_turn)))))"

text \<open>up to the fitted children of the ply; \<open>Inl\<close> is the reason of a \<open>break\<close>\<close>

definition prepare_ply ::
  "'w beam_engine \<Rightarrow> string \<Rightarrow> rat \<Rightarrow> int option \<Rightarrow> ('w, string + work list) beam" where
  "prepare_ply en inst deadline root_turn =
     bind_p (now_p en) (\<lambda>now.
     if deadline \<le> now then ret_p (Inl ''time_budget'')
     else admit_ply en inst deadline root_turn)"

text \<open>pruning, and the counter of prune steps\<close>

definition prune_step ::
  "'w beam_engine \<Rightarrow> string \<Rightarrow> string \<Rightarrow> rat \<Rightarrow> beam_node list \<Rightarrow> ('w, unit) beam" where
  "prune_step en search_id phase deadline frontier =
     bind_p (prune_stable_frontier en search_id phase deadline frontier) (\<lambda>survivors.
     then_p (set_beam survivors) (modify_p (\<lambda>s. s\<lparr>se_prune_step := Suc (se_prune_step s)\<rparr>)))"

text \<open>the next beam: continuations first, while stable nodes wait\<close>

definition continues :: "beam_node \<Rightarrow> bool" where
  "continues node \<longleftrightarrow> is_continuation_decision (bn_dto node)"

definition next_frontier :: "'w beam_engine \<Rightarrow> string \<Rightarrow> rat \<Rightarrow> beam_node list \<Rightarrow> ('w, unit) beam" where
  "next_frontier en search_id deadline next_beam = with_p (\<lambda>s.
     let continuation = filter continues next_beam; stable = filter (\<lambda>n. \<not> continues n) next_beam in
     if continuation \<noteq> [] then
       then_p (set_waiting (se_waiting s @ stable))
         (set_beam (take (nat (beam_width (be_config en))) continuation))
     else
       then_p (set_waiting [])
         (prune_step en search_id ''stable_frontier'' deadline (stable @ se_waiting s)))"

text \<open>an empty beam falls back on the waiting nodes, or ends the search\<close>

definition refill_beam :: "'w beam_engine \<Rightarrow> string \<Rightarrow> rat \<Rightarrow> scored \<Rightarrow> ('w, string option) beam" where
  "refill_beam en search_id deadline sc = with_p (\<lambda>s.
     if se_beam s \<noteq> [] then ret_p None
     else if se_waiting s \<noteq> [] then
       then_p (prune_step en search_id ''waiting_stable_fallback'' deadline (se_waiting s))
         (then_p (set_waiting []) (ret_p None))
     else if so_hit_continuation_limit sc then ret_p (Some ''max_continuation_steps'')
     else if so_hit_max_depth sc then ret_p (Some ''max_depth'')
     else ret_p (Some ''beam_exhausted''))"

text \<open>no survivor of an emulated frontier: out of scope, or all branches faulted\<close>

definition no_survivor_check :: "'w beam_engine \<Rightarrow> branch_meta list \<Rightarrow> pydict \<Rightarrow> scored \<Rightarrow> ('w, bool) beam" where
  "no_survivor_check en metas results sc =
     (if metas \<noteq> [] \<and> so_next sc = [] \<and> so_finished sc = [] \<and> \<not> so_hit_continuation_limit sc then
        client_attr sc_instance_type en (\<lambda>itype.
          bind_p (lift_p (has_unresolved_out_of_scope_result itype results
                            (beam_searchable_action_types (be_config en)))) (\<lambda>out.
            if out then ret_p True else raise_p AllBranchesFaultedError))
      else ret_p False)"

definition finish_ply ::
  "'w beam_engine \<Rightarrow> string \<Rightarrow> string \<Rightarrow> rat \<Rightarrow> int option \<Rightarrow> string option \<Rightarrow> scored \<Rightarrow> ('w, string option) beam" where
  "finish_ply en inst search_id deadline root_turn fatal sc =
     then_p (add_finished (so_finished sc))
    (then_p (next_frontier en search_id deadline (so_next sc))
    (if fatal \<noteq> None then ret_p fatal
     else
       then_p (count_p (\<lambda>t. t\<lparr>depths_completed := depths_completed t + 1\<rparr>))
      (bind_p (refill_beam en search_id deadline sc) (\<lambda>stop.
       if stop \<noteq> None then ret_p stop
       else
         then_p (settle_if_boundary en inst deadline root_turn)
        (bind_p (release_unneeded_whole_run_branches en inst deadline) (\<lambda>released.
         ret_p (if released then None else Some ''active_branch_cleanup_failed'')))))))"

text \<open>the rest of the iteration once the children are chosen\<close>

definition run_ply ::
  "'w beam_engine \<Rightarrow> string \<Rightarrow> string \<Rightarrow> rat \<Rightarrow> int option \<Rightarrow> string + work list \<Rightarrow> ('w, string option) beam" where
  "run_ply en inst search_id deadline root_turn prepared =
     (case prepared of
        Inl reason \<Rightarrow> ret_p (Some reason)
      | Inr works \<Rightarrow>
          bind_p (emulate_depth_batch en inst deadline works) (\<lambda>(results, metas, fatal).
          bind_p (score_frontier en metas results root_turn) (\<lambda>sc.
          then_p (count_p (\<lambda>t. t\<lparr>branches_faulted := branches_faulted t + so_faulted sc,
                    branches_out_of_scope := branches_out_of_scope t + so_out_of_scope sc,
                    nodes_expanded := nodes_expanded t + int (length results)\<rparr>))
         (bind_p (no_survivor_check en metas results sc) (\<lambda>out.
          if out then ret_p (Some ''not_beam_searchable'')
          else finish_ply en inst search_id deadline root_turn fatal sc)))))"

definition search_step ::
  "'w beam_engine \<Rightarrow> string \<Rightarrow> string \<Rightarrow> rat \<Rightarrow> int option \<Rightarrow> ('w, string option) beam" where
  "search_step en inst search_id deadline root_turn =
     bind_p (prepare_ply en inst deadline root_turn) (run_ply en inst search_id deadline root_turn)"

section \<open>The search\<close>

text \<open>\<open>while beam\<close>; \<open>None\<close> when the fuel runs out\<close>

fun search_loop ::
  "'w beam_engine \<Rightarrow> string \<Rightarrow> string \<Rightarrow> rat \<Rightarrow> int option \<Rightarrow> nat \<Rightarrow> ('w, string option) beam" where
  "search_loop en inst search_id deadline root_turn 0 = ret_p None"
| "search_loop en inst search_id deadline root_turn (Suc n) = with_p (\<lambda>s.
     if se_beam s = [] then ret_p (Some ''max_depth'')
     else
       bind_p (search_step en inst search_id deadline root_turn) (\<lambda>stop.
         if stop \<noteq> None then ret_p stop
         else search_loop en inst search_id deadline root_turn n))"

definition settle_leaves ::
  "'w beam_engine \<Rightarrow> string \<Rightarrow> rat \<Rightarrow> int option \<Rightarrow> beam_node \<Rightarrow> ('w, unit) beam" where
  "settle_leaves en inst deadline root_turn root_node = with_p (\<lambda>s.
     then_p (add_finished (se_waiting s @ filter is_macro_resolved (se_beam s)))
    (if turn_aligned_leaves (be_config en) then with_p (\<lambda>s.
       bind_p (align_leaf_turns en inst deadline (se_finished s)) (\<lambda>nodes.
         modify_p (\<lambda>s. s\<lparr>se_finished := nodes\<rparr>)))
     else if turn_boundary_scoring (be_config en) then
       then_p (settle_pending_leaves en inst deadline root_turn)
         (settle_root_as_a_leaf en inst deadline root_node)
     else ret_p ()))"

definition search_body ::
  "'w beam_engine \<Rightarrow> string \<Rightarrow> string \<Rightarrow> rat \<Rightarrow> int option \<Rightarrow> beam_node \<Rightarrow> nat \<Rightarrow> ('w, string option) beam" where
  "search_body en inst search_id deadline root_turn root_node fuel =
     bind_p (search_loop en inst search_id deadline root_turn fuel) (\<lambda>stop.
       case stop of
         None \<Rightarrow> ret_p None
       | Some reason \<Rightarrow>
           then_p (settle_leaves en inst deadline root_turn root_node) (ret_p (Some reason)))"

text \<open>the \<open>finally\<close> block; an \<open>Exception\<close> of the cleanup does not hide an error of the search\<close>

definition live_ids :: "'w searching \<Rightarrow> string list" where
  "live_ids s = filter (\<lambda>b. b \<notin> set (se_released s)) (se_all_ids s)"

definition with_cleanup :: "'w beam_engine \<Rightarrow> string \<Rightarrow> rat \<Rightarrow> ('w, 'a) beam \<Rightarrow> ('w, 'a) beam" where
  "with_cleanup en inst deadline body =
     try_else body
       (\<lambda>x. with_p (\<lambda>s. then_p (cleanup en inst (live_ids s) deadline) (ret_p x)))
       (\<lambda>e. with_p (\<lambda>s.
          then_p (try_p (cleanup en inst (live_ids s) deadline)
                    (\<lambda>e'. if is_exception e' then ret_p () else raise_p e'))
            (raise_p e)))"

text \<open>\<open>max(nodes, key=...)\<close>: the first of the best\<close>

fun first_max :: "('a \<Rightarrow> rat) \<Rightarrow> 'a \<Rightarrow> 'a list \<Rightarrow> 'a" where
  "first_max key best [] = best"
| "first_max key best (x # xs) = first_max key (if key best < key x then x else best) xs"

definition actionable :: "beam_node \<Rightarrow> bool" where
  "actionable node \<longleftrightarrow> bn_root_action_id node \<noteq> None \<and> is_macro_resolved node"

definition best_result :: "string \<Rightarrow> 'w searching \<Rightarrow> beam_result" where
  "best_result reason s =
     (case filter actionable (se_finished s) of
        [] \<Rightarrow> \<lparr>best_root_action_id = None, best_value = None, best_node = None,
               result_reason = reason, result_stats = se_stats s\<rparr>
      | node # nodes \<Rightarrow>
          let best = first_max bn_value node nodes in
          \<lparr>best_root_action_id = bn_root_action_id best, best_value = Some (bn_value best),
           best_node = Some best, result_reason = reason, result_stats = se_stats s\<rparr>)"

definition empty_result :: "string \<Rightarrow> beam_result" where
  "empty_result reason =
     \<lparr>best_root_action_id = None, best_value = None, best_node = None, result_reason = reason,
      result_stats = stats_init\<rparr>"

definition root_node_of :: "string \<Rightarrow> pydict \<Rightarrow> beam_node" where
  "root_node_of decision_point dto =
     \<lparr>bn_branch_id = search_root_id, bn_parent_branch_id = search_root_id, bn_rng_id = 0,
      bn_decision_point_id = decision_point, bn_dto = dto, bn_depth = 0, bn_value = 0,
      bn_root_action_id = None, bn_combat_depth = 0, bn_continuation_steps = 0, bn_branch_log = [],
      bn_terminal = False, bn_action_id = None, bn_action_type = None, bn_action = None,
      bn_policy_rank = None, bn_policy_score = None, bn_post_coverage_rank = None,
      bn_candidate_source = None\<rparr>"

definition reset_search :: "beam_node \<Rightarrow> ('w, unit) beam" where
  "reset_search root_node = modify_p (\<lambda>s.
     s\<lparr>se_stats := stats_init, se_all_ids := [], se_released := [], se_settled := [],
       se_beam := [root_node], se_waiting := [], se_finished := [], se_prune_step := 0\<rparr>)"

text \<open>the reasons to return before anything is searched\<close>

definition search_refusal :: "'w beam_engine \<Rightarrow> 'w \<Rightarrow> pydict \<Rightarrow> exn + string option" where
  "search_refusal en w root_decision =
     (case (dget root_decision ''masked_emulator_dto'', dget root_decision ''decision_point_id'') of
        (PDict dto, PStr dp) \<Rightarrow>
          if \<not> py_truthy (dget dto ''legal_actions'') then Inr (Some ''no_legal_actions'')
          else if sc_instance_type (be_client en) w = Some ''whole_run'' \<and>
                  server_batch_limit (be_client en) w = None
          then Inr (Some ''emulate_actions_not_supported'')
          else then_r (is_beam_searchable_for_client (sc_instance_type (be_client en) w) dto
                         (beam_searchable_action_types (be_config en)))
                 (\<lambda>ok. Inr (if ok then None else Some ''not_beam_searchable''))
      | _ \<Rightarrow> Inr (Some ''invalid_root_decision''))"

definition search_deadlines :: "'w beam_engine \<Rightarrow> rat \<Rightarrow> ('w, rat \<times> rat) beam" where
  "search_deadlines en timeout_s =
     bind_p (now_p en) (\<lambda>now.
       case time_budget_ms (be_config en) of
         None \<Rightarrow> ret_p (now + timeout_s, now + timeout_s)
       | Some budget \<Rightarrow> bind_p (now_p en) (\<lambda>now'.
           ret_p (now + timeout_s, min (now + timeout_s) (now' + budget / 1000))))"

definition run_search ::
  "'w beam_engine \<Rightarrow> string \<Rightarrow> string \<Rightarrow> beam_node \<Rightarrow> rat \<Rightarrow> rat \<Rightarrow> nat \<Rightarrow> ('w, beam_result option) beam" where
  "run_search en inst search_id root_node overall_deadline deadline fuel =
     then_p (reset_search root_node)
    (bind_p (with_cleanup en inst overall_deadline
               (search_body en inst search_id deadline (turn_number (bn_dto root_node)) root_node fuel))
       (\<lambda>stop. with_p (\<lambda>s. ret_p (case stop of None \<Rightarrow> None | Some reason \<Rightarrow> Some (best_result reason s)))))"

definition search ::
  "'w beam_engine \<Rightarrow> string \<Rightarrow> string \<Rightarrow> pydict \<Rightarrow> pyval \<Rightarrow> nat \<Rightarrow> ('w, beam_result option) beam" where
  "search en inst search_id root_decision timeout_s fuel =
     bind_p (lift_p (finite_positive timeout_s)) (\<lambda>timeout.
     bind_p (search_deadlines en timeout) (\<lambda>(overall_deadline, deadline). with_p (\<lambda>s.
     bind_p (lift_p (search_refusal en (se_world s) root_decision)) (\<lambda>refusal.
     case refusal of
       Some reason \<Rightarrow> ret_p (Some (empty_result reason))
     | None \<Rightarrow>
         run_search en inst search_id
           (root_node_of (string_or_empty (dget root_decision ''decision_point_id''))
              (mapping_or_empty (dget root_decision ''masked_emulator_dto'')))
           overall_deadline deadline fuel))))"

end
