(* ===== verification/Beam_Safety.thy ===== *)
theory Beam_Safety
  imports Beam_Search
begin

text \<open>
  What a whole search keeps, whatever the server, the policy, the value model and the pruner do.
  The locale \<open>search_world\<close> is the interface of the world: a predicate \<open>J ids w\<close> over the branches
  the server has confirmed and the world, which every operation must keep when the engine calls it
  the way the locale says.  Inside it, one rule per function of the search shows that the engine
  calls it that way.  The rules also follow the nodes: where their ids, RNG ids and root actions
  come from.
\<close>

section \<open>Rules for the search monad\<close>

declare wp_if [py_simps del]

lemma wp_world [py_simps]:
  "wp (world_p m) Q E s =
     wp m (\<lambda>x w. Q x (s\<lparr>se_world := w\<rparr>)) (\<lambda>e w. E e (s\<lparr>se_world := w\<rparr>)) (se_world s)"
  by (simp add: wp_def world_p_def split: prod.splits sum.splits)

lemma wp_client_attr [py_simps]:
  "wp (client_attr f en k) Q E s = wp (k (f (be_client en) (se_world s))) Q E s"
  by (simp add: client_attr_def wp_with)

lemma wp_count [py_simps]: "wp (count_p f) Q E s = Q () (s\<lparr>se_stats := f (se_stats s)\<rparr>)"
  by (simp add: count_p_def wp_modify)

lemma wp_next_branch_id:
  "wp (next_branch_id en) Q E s =
     Q (branch_id_of (be_prefix en) (Suc (se_branch_counter s))) (s\<lparr>se_branch_counter := Suc (se_branch_counter s)\<rparr>)"
  by (simp add: next_branch_id_def py_simps)

lemma wp_register [py_simps]:
  "wp (register_branches ids) Q E s =
     Q () (s\<lparr>se_all_ids := se_all_ids s @ ids,
             se_stats := (se_stats s)\<lparr>branches_created := branches_created (se_stats s) + int (length ids)\<rparr>\<rparr>)"
  by (simp add: register_branches_def py_simps)

lemma wp_return_mono: "wp m Q E s \<Longrightarrow> (\<And>x t. Q x t \<Longrightarrow> Q' x t) \<Longrightarrow> wp m Q' E s"
  by (erule wp_mono) auto

section \<open>Ids, nodes and works\<close>

text \<open>an id the allocator has handed out with a counter above \<open>lo\<close> and up to \<open>hi\<close>\<close>

definition own_id :: "string \<Rightarrow> nat \<Rightarrow> nat \<Rightarrow> string \<Rightarrow> bool" where
  "own_id prefix lo hi b \<longleftrightarrow> (\<exists>n. lo < n \<and> n \<le> hi \<and> b = branch_id_of prefix n)"

lemma own_id_mono: "own_id p lo hi b \<Longrightarrow> lo' \<le> lo \<Longrightarrow> hi \<le> hi' \<Longrightarrow> own_id p lo' hi' b"
  unfolding own_id_def by (blast intro: le_less_trans order_trans)

lemma own_id_new: "lo \<le> n \<Longrightarrow> own_id p lo (Suc n) (branch_id_of p (Suc n))"
  unfolding own_id_def by (rule exI [of _ "Suc n"]) simp

lemma own_id_disjoint: "own_id p lo hi b \<Longrightarrow> own_id p hi hi' b \<Longrightarrow> False"
  by (auto simp: own_id_def branch_id_of_inj)

lemma own_id_not_root [simp]: "\<not> own_id p lo hi search_root_id"
  using branch_id_not_root by (metis own_id_def)

text \<open>
  A node of a search for the root decision \<open>dto\<close>, when the allocator stands at \<open>c\<close>: it is the root
  itself, or it descends from an available action of the root; a branch of its own has an RNG id.
\<close>

definition node_ok :: "string \<Rightarrow> pydict \<Rightarrow> nat \<Rightarrow> beam_node \<Rightarrow> bool" where
  "node_ok prefix dto c n \<longleftrightarrow>
     (case bn_root_action_id n of
        None \<Rightarrow> bn_branch_id n = search_root_id \<and> bn_dto n = dto
      | Some a \<Rightarrow> a \<in> set (available_action_ids dto)) \<and>
     (bn_branch_id n = search_root_id \<and> (bn_root_action_id n = None \<or> bn_decision_point_id n = []) \<or>
      own_id prefix 0 c (bn_branch_id n) \<and> 0 < bn_rng_id n)"

lemma node_ok_mono: "node_ok p dto c n \<Longrightarrow> c \<le> c' \<Longrightarrow> node_ok p dto c' n"
  by (auto simp: node_ok_def intro: own_id_mono)

lemma node_ok_value [simp]: "node_ok p dto c (n\<lparr>bn_value := v\<rparr>) = node_ok p dto c n"
  by (simp add: node_ok_def cong: option.case_cong)

text \<open>a node the beam may expand\<close>

definition live_node :: "string \<Rightarrow> pydict \<Rightarrow> nat \<Rightarrow> beam_node \<Rightarrow> bool" where
  "live_node prefix dto c n \<longleftrightarrow> node_ok prefix dto c n \<and> bn_decision_point_id n \<noteq> []"

definition meta_ok :: "string \<Rightarrow> pydict \<Rightarrow> nat \<Rightarrow> nat \<Rightarrow> branch_meta \<Rightarrow> bool" where
  "meta_ok prefix dto c hi m \<longleftrightarrow>
     live_node prefix dto c (bm_node m) \<and> own_id prefix c hi (bm_branch_id m) \<and> 0 < bm_rng_id m \<and>
     cp_action_id (bm_candidate m) \<in> set (available_action_ids (bn_dto (bm_node m)))"

definition item_of :: "branch_meta \<Rightarrow> pydict" where
  "item_of m =
     branch_item (bn_branch_id (bm_node m)) (bm_branch_id m) (bm_rng_id m)
       (bn_decision_point_id (bm_node m)) (cp_action_id (bm_candidate m))"

definition work_ok :: "string \<Rightarrow> pydict \<Rightarrow> nat \<Rightarrow> nat \<Rightarrow> work \<Rightarrow> bool" where
  "work_ok prefix dto c hi w \<longleftrightarrow> meta_ok prefix dto c hi (snd w) \<and> fst w = item_of (snd w)"

lemma live_node_mono: "live_node p dto c n \<Longrightarrow> c \<le> c' \<Longrightarrow> live_node p dto c' n"
  by (auto simp: live_node_def intro: node_ok_mono)

lemma meta_ok_mono: "meta_ok p dto c hi m \<Longrightarrow> hi \<le> hi' \<Longrightarrow> meta_ok p dto c hi' m"
  by (auto simp: meta_ok_def intro: own_id_mono)

lemma work_ok_mono: "work_ok p dto c hi w \<Longrightarrow> hi \<le> hi' \<Longrightarrow> work_ok p dto c hi' w"
  by (auto simp: work_ok_def intro: meta_ok_mono)

section \<open>Requests\<close>

text \<open>
  An \<open>emulate_actions\<close> item: an own branch below a parent that existed before the batch, with a
  positive RNG id and non-empty ids.
\<close>

definition item_ok :: "string \<Rightarrow> nat \<Rightarrow> nat \<Rightarrow> pydict \<Rightarrow> bool" where
  "item_ok prefix c hi item \<longleftrightarrow>
     (\<exists>parent branch rng dp aid. item = branch_item parent branch rng dp aid \<and>
        (parent = search_root_id \<or> own_id prefix 0 c parent) \<and> own_id prefix c hi branch \<and>
        0 < rng \<and> dp \<noteq> [] \<and> aid \<noteq> [])"

text \<open>a batch below one allocator state: distinct fresh branches, none of them confirmed before\<close>

definition batch_ok :: "string \<Rightarrow> string list \<Rightarrow> pydict list \<Rightarrow> bool" where
  "batch_ok prefix ids items \<longleftrightarrow>
     items \<noteq> [] \<and> (\<exists>c hi. \<forall>item \<in> set items. item_ok prefix c hi item) \<and>
     distinct (map (\<lambda>item. dget item ''branch_id'') items) \<and>
     PStr ` set ids \<inter> (\<lambda>item. dget item ''branch_id'') ` set items = {}"

lemma branch_item_id [simp]: "dget (branch_item parent branch rng dp aid) ''branch_id'' = PStr branch"
  by (simp add: branch_item_def)

lemma item_of_id [simp]: "dget (item_of m) ''branch_id'' = PStr (bm_branch_id m)"
  by (simp add: item_of_def)

lemma live_node_parent:
  "live_node p dto c n \<Longrightarrow> bn_branch_id n = search_root_id \<or> own_id p 0 c (bn_branch_id n)"
  by (auto simp: live_node_def node_ok_def)

lemma available_id_nonempty: "aid \<in> set (available_action_ids dto) \<Longrightarrow> aid \<noteq> []"
  by (simp add: available_ids_set)

lemma meta_ok_item:
  assumes "meta_ok p dto c hi m"
  shows "item_ok p c hi (item_of m)"
  unfolding item_ok_def item_of_def
proof (intro exI conjI)
  show "bn_branch_id (bm_node m) = search_root_id \<or> own_id p 0 c (bn_branch_id (bm_node m))"
    using assms by (auto simp: meta_ok_def dest: live_node_parent)
qed (use assms in \<open>auto simp: meta_ok_def live_node_def dest: available_id_nonempty\<close>)

lemma batch_okI:
  assumes "ws \<noteq> []" "\<forall>w \<in> set ws. item_ok p c hi (fst w) \<and> dget (fst w) ''branch_id'' = PStr (f w)"
    and "distinct (map f ws)" "set ids \<inter> f ` set ws = {}"
  shows "batch_ok p ids (map fst ws)"
proof -
  have eq: "map (\<lambda>item. dget item ''branch_id'') (map fst ws) = map (PStr \<circ> f) ws"
    using assms(2) by simp
  then have "distinct (map (\<lambda>item. dget item ''branch_id'') (map fst ws))"
    using assms(3) by (simp add: distinct_map comp_def inj_on_def)
  moreover have "\<forall>item \<in> set (map fst ws). item_ok p c hi item"
    using assms(2) by auto
  moreover have "(\<lambda>item. dget item ''branch_id'') ` set (map fst ws) = PStr ` f ` set ws"
    using arg_cong [OF eq, of set] by (simp only: set_map image_comp)
  then have "PStr ` set ids \<inter> (\<lambda>item. dget item ''branch_id'') ` set (map fst ws) = {}"
    using assms(4) by auto
  ultimately show ?thesis using assms(1) unfolding batch_ok_def by blast
qed

section \<open>The interface of the world\<close>

text \<open>how many items a call may have: the leaves aligned at the end are not sliced\<close>

definition batch_fits :: "'w beam_engine \<Rightarrow> pydict list \<Rightarrow> bool" where
  "batch_fits en items \<longleftrightarrow>
     turn_aligned_leaves (be_config en) \<or> int (length items) \<le> max 1 (max_batch_size (be_config en))"

definition confirmed :: "string list \<Rightarrow> pydict list \<Rightarrow> string list" where
  "confirmed ids items = ids @ map (\<lambda>item. string_or_empty (dget item ''branch_id'')) items"

locale search_world =
  fixes en :: "'w beam_engine" and J :: "string list \<Rightarrow> 'w \<Rightarrow> bool"
  assumes clock: "J ids w \<Longrightarrow> J ids (snd (sc_now (be_client en) w))"
    and policy: "keeps (J ids) (propose_batch_with_provenance (be_policy en) requests k)"
    and valuation: "keeps (J ids) (be_evaluate_batch en dtos)"
    and pruner: "keeps (J ids) (be_select en views k' ctx)"
    and emulation: "J ids w \<Longrightarrow> batch_ok (be_prefix en) ids items \<Longrightarrow> batch_fits en items \<Longrightarrow>
      wp (sc_emulate_actions (be_client en) inst items t opts) (\<lambda>_. J (confirmed ids items)) (\<lambda>_. J ids) w"
    and cancelling: "J ids w \<Longrightarrow> bs \<noteq> [] \<Longrightarrow> distinct bs \<Longrightarrow> set bs \<subseteq> set ids \<Longrightarrow>
      J ids (snd (sc_cancel_branches (be_client en) inst bs t w))"
    and releasing: "J ids w \<Longrightarrow> bs \<noteq> [] \<Longrightarrow> distinct bs \<Longrightarrow> set bs \<subseteq> set ids \<Longrightarrow>
      J ids (snd (sc_release_branches (be_client en) inst bs t w))"

text \<open>the part of the state every operation keeps, also when it raises\<close>

definition ids_ok :: "'w beam_engine \<Rightarrow> 'w searching \<Rightarrow> bool" where
  "ids_ok en s \<longleftrightarrow>
     distinct (se_all_ids s) \<and> (\<forall>b \<in> set (se_all_ids s). own_id (be_prefix en) 0 (se_branch_counter s) b)"

text \<open>what a helper may change: counters, statistics, the world and the confirmed branches\<close>

definition grows :: "'w searching \<Rightarrow> 'w searching \<Rightarrow> bool" where
  "grows s t \<longleftrightarrow>
     se_beam t = se_beam s \<and> se_waiting t = se_waiting s \<and> se_finished t = se_finished s \<and>
     se_branch_counter s \<le> se_branch_counter t \<and> se_rng_counter s \<le> se_rng_counter t \<and>
     (\<exists>ids. se_all_ids t = se_all_ids s @ ids)"

text \<open>and, for a helper that confirms no branch\<close>

definition frame :: "'w searching \<Rightarrow> 'w searching \<Rightarrow> bool" where
  "frame s t \<longleftrightarrow> grows s t \<and> se_all_ids t = se_all_ids s"

definition still :: "'w searching \<Rightarrow> 'w searching \<Rightarrow> bool" where
  "still s t \<longleftrightarrow> frame s t \<and> se_branch_counter t = se_branch_counter s"

definition grows_only :: "'w searching \<Rightarrow> 'w searching \<Rightarrow> bool" where
  "grows_only s t \<longleftrightarrow> grows s t \<and> se_branch_counter t = se_branch_counter s"

lemma grows_refl [simp]: "grows s s" by (simp add: grows_def)
lemma frame_refl [simp]: "frame s s" by (simp add: frame_def)

lemma grows_trans: "grows s t \<Longrightarrow> grows t u \<Longrightarrow> grows s u"
  by (auto simp: grows_def)

lemma frame_trans: "frame s t \<Longrightarrow> frame t u \<Longrightarrow> frame s u"
  by (auto simp: frame_def intro: grows_trans)

lemma frame_grows: "frame s t \<Longrightarrow> grows s t"
  by (simp add: frame_def)

lemma frame_updates [simp]:
  "frame s (t\<lparr>se_world := w\<rparr>) = frame s t" "frame s (t\<lparr>se_stats := st\<rparr>) = frame s t"
  "frame s (t\<lparr>se_released := rs\<rparr>) = frame s t" "frame s (t\<lparr>se_settled := rs\<rparr>) = frame s t"
  "frame s (t\<lparr>se_prune_step := k\<rparr>) = frame s t"
  "grows s (t\<lparr>se_world := w\<rparr>) = grows s t" "grows s (t\<lparr>se_stats := st\<rparr>) = grows s t"
  "grows s (t\<lparr>se_released := rs\<rparr>) = grows s t" "grows s (t\<lparr>se_settled := rs\<rparr>) = grows s t"
  "grows s (t\<lparr>se_prune_step := k\<rparr>) = grows s t"
  by (simp_all add: frame_def grows_def)

lemma still_refl [simp]: "still s s" "grows_only s s"
  by (simp_all add: still_def grows_only_def)

lemma still_trans: "still s t \<Longrightarrow> still t u \<Longrightarrow> still s u"
  by (auto simp: still_def intro: frame_trans)

lemma grows_only_trans: "grows_only s t \<Longrightarrow> grows_only t u \<Longrightarrow> grows_only s u"
  by (auto simp: grows_only_def intro: grows_trans)

lemma still_grows: "still s t \<Longrightarrow> grows_only s t"
  by (simp add: still_def grows_only_def frame_grows)

lemma grows_only_grows: "grows_only s t \<Longrightarrow> grows s t"
  by (simp add: grows_only_def)

lemma still_stats [simp]: "still s (t\<lparr>se_stats := st\<rparr>) = still s t"
  by (simp add: still_def)

lemma ids_ok_updates [simp]:
  "ids_ok en (t\<lparr>se_world := w\<rparr>) = ids_ok en t" "ids_ok en (t\<lparr>se_stats := st\<rparr>) = ids_ok en t"
  "ids_ok en (t\<lparr>se_released := rs\<rparr>) = ids_ok en t" "ids_ok en (t\<lparr>se_settled := rs\<rparr>) = ids_ok en t"
  "ids_ok en (t\<lparr>se_prune_step := k\<rparr>) = ids_ok en t" "ids_ok en (t\<lparr>se_beam := ns\<rparr>) = ids_ok en t"
  "ids_ok en (t\<lparr>se_waiting := ns\<rparr>) = ids_ok en t" "ids_ok en (t\<lparr>se_finished := ns\<rparr>) = ids_ok en t"
  "ids_ok en (t\<lparr>se_rng_counter := k\<rparr>) = ids_ok en t"
  by (simp_all add: ids_ok_def)

lemma ids_ok_bump [simp]: "ids_ok en s \<Longrightarrow> ids_ok en (s\<lparr>se_branch_counter := Suc (se_branch_counter s)\<rparr>)"
  by (auto simp: ids_ok_def intro: own_id_mono)

text \<open>children allocated between \<open>lo\<close> and \<open>hi\<close> below nodes that existed at \<open>c\<close>\<close>

definition fresh_works :: "string \<Rightarrow> pydict \<Rightarrow> nat \<Rightarrow> nat \<Rightarrow> nat \<Rightarrow> work list \<Rightarrow> bool" where
  "fresh_works p dto c lo hi ws \<longleftrightarrow>
     distinct (map work_id ws) \<and> (\<forall>w \<in> set ws. work_ok p dto c hi w \<and> own_id p lo hi (work_id w))"

lemma fresh_works_Nil [simp]: "fresh_works p dto c lo hi []"
  by (simp add: fresh_works_def)

lemma fresh_works_append:
  assumes "fresh_works p dto c lo mid ws" "fresh_works p dto c mid hi ws'" "lo \<le> mid" "mid \<le> hi"
  shows "fresh_works p dto c lo hi (ws @ ws')"
  using assms unfolding fresh_works_def
  by (auto intro: work_ok_mono own_id_mono dest: own_id_disjoint)
    (metis image_eqI own_id_disjoint snd_conv)+

lemma fresh_works_mono:
  "fresh_works p dto c lo hi ws \<Longrightarrow> lo' \<le> lo \<Longrightarrow> fresh_works p dto c lo' hi ws"
  by (auto simp: fresh_works_def intro: own_id_mono)

text \<open>children that may be sent now: distinct, and none of them confirmed yet\<close>

definition ready :: "string \<Rightarrow> pydict \<Rightarrow> nat \<Rightarrow> 'w searching \<Rightarrow> work list \<Rightarrow> bool" where
  "ready p dto c s ws \<longleftrightarrow>
     distinct (map work_id ws) \<and> (\<forall>w \<in> set ws. work_ok p dto c (se_branch_counter s) w) \<and>
     set (se_all_ids s) \<inter> work_id ` set ws = {}"

lemma fresh_ready:
  assumes "ids_ok en s" "frame s t" "fresh_works (be_prefix en) dto c (se_branch_counter s) (se_branch_counter t) ws"
  shows "ready (be_prefix en) dto c t ws"
  using assms unfolding ready_def fresh_works_def ids_ok_def frame_def
  by (fastforce dest: own_id_disjoint)

definition kept_ids :: "emulated \<Rightarrow> string list" where
  "kept_ids em = map (bm_branch_id \<circ> snd) (em_metas em)"

text \<open>the kept children: confirmed, and each of them once\<close>

definition metas_ok :: "string \<Rightarrow> pydict \<Rightarrow> nat \<Rightarrow> 'w searching \<Rightarrow> emulated \<Rightarrow> bool" where
  "metas_ok p dto c s em \<longleftrightarrow>
     (\<forall>x \<in> set (em_metas em). meta_ok p dto c (se_branch_counter s) (snd x)) \<and>
     distinct (kept_ids em) \<and> set (kept_ids em) \<subseteq> set (se_all_ids s)"

lemma metas_ok_grows: "metas_ok p dto c s em \<Longrightarrow> grows s t \<Longrightarrow> metas_ok p dto c t em"
  by (fastforce simp: metas_ok_def grows_def intro: meta_ok_mono)

lemma metas_ok_stats [simp]: "metas_ok p dto c (t\<lparr>se_stats := st\<rparr>) em = metas_ok p dto c t em"
  by (simp add: metas_ok_def)

lemma set_update_subset: "set (AList.update k v xs) \<subseteq> insert (k, v) (set xs)"
  by (induction xs) auto

lemma kept_ids_keep: "set (kept_ids (keep_result em result m order)) \<subseteq> insert (bm_branch_id m) (set (kept_ids em))"
  using set_update_subset [of order m "em_metas em"] by (auto simp: kept_ids_def keep_result_def)

lemma distinct_update:
  "distinct (map (f \<circ> snd) xs) \<Longrightarrow> f v \<notin> (f \<circ> snd) ` set xs \<Longrightarrow> distinct (map (f \<circ> snd) (AList.update k v xs))"
proof (induction xs)
  case (Cons x xs)
  then have "(f \<circ> snd) x \<notin> (f \<circ> snd) ` set (AList.update k v xs)"
    using set_update_subset [of k v xs] by auto
  with Cons show ?case by (cases x) auto
qed simp

lemma metas_ok_keep:
  assumes "metas_ok p dto c s em" "meta_ok p dto c (se_branch_counter s) m"
    and "bm_branch_id m \<in> set (se_all_ids s)" "bm_branch_id m \<notin> set (kept_ids em)"
  shows "metas_ok p dto c s (keep_result em result m order)"
proof -
  have "distinct (kept_ids (keep_result em result m order))"
    using assms(1,4) by (simp add: metas_ok_def kept_ids_def keep_result_def distinct_update)
  moreover have "\<forall>x \<in> set (em_metas (keep_result em result m order)). meta_ok p dto c (se_branch_counter s) (snd x)"
    using assms(1,2) set_update_subset [of order m "em_metas em"]
    by (fastforce simp: metas_ok_def keep_result_def)
  ultimately show ?thesis
    using assms(1,3) kept_ids_keep [of em result m order] by (auto simp: metas_ok_def)
qed

text \<open>the children of a ply, in logical order\<close>

definition children_ok :: "string \<Rightarrow> pydict \<Rightarrow> nat \<Rightarrow> 'w searching \<Rightarrow> branch_meta list \<Rightarrow> bool" where
  "children_ok p dto c s ms \<longleftrightarrow>
     (\<forall>m \<in> set ms. meta_ok p dto c (se_branch_counter s) m \<and> bm_branch_id m \<in> set (se_all_ids s)) \<and>
     distinct (map bm_branch_id ms)"

lemma metas_ok_children: "metas_ok p dto c s em \<Longrightarrow> children_ok p dto c s (ordered_final_meta em)"
proof -
  have "mset (map (bm_branch_id \<circ> snd) (sort_key fst (em_metas em))) = mset (kept_ids em)"
    by (simp add: kept_ids_def)
  then have "distinct (map (bm_branch_id \<circ> snd) (sort_key fst (em_metas em))) = distinct (kept_ids em)"
    by (rule mset_eq_imp_distinct_iff)
  then show "metas_ok p dto c s em \<Longrightarrow> children_ok p dto c s (ordered_final_meta em)"
    by (auto simp: metas_ok_def children_ok_def ordered_final_meta_def kept_ids_def)
qed

lemma retry_item_of: "dset (item_of m) ''branch_id'' (PStr b) = item_of (m\<lparr>bm_branch_id := b\<rparr>)"
  by (simp add: item_of_def branch_item_def dset_def)

lemma retry_work_ok:
  assumes "work_ok p dto c hi w" "own_id p hi hi' b" "c \<le> hi"
  shows "work_ok p dto c hi' (dset (fst w) ''branch_id'' (PStr b), (snd w)\<lparr>bm_branch_id := b\<rparr>)"
  using assms by (auto simp: work_ok_def meta_ok_def retry_item_of intro: own_id_mono)

lemma child_node_ok:
  assumes "meta_ok p dto c hi (re_meta e)" "c \<le> hi"
  shows "node_ok p dto hi (child_node e action_type score blog)"
proof -
  let ?m = "re_meta e"
  let ?node = "bm_node ?m" and ?aid = "cp_action_id (bm_candidate ?m)"
  have "root_action_of ?node ?aid \<in> set (available_action_ids dto)"
    using assms(1) available_id_nonempty
    by (auto simp: meta_ok_def live_node_def node_ok_def root_action_of_def split: option.splits)
  with assms show ?thesis
    by (auto simp: node_ok_def child_node_def Let_def meta_ok_def intro: own_id_mono)
qed

lemma resolve_results_metas:
  "resolve_results results ms = Inr (es, k) \<Longrightarrow> re_meta ` set es \<subseteq> set ms"
proof (induction ms arbitrary: es k)
  case (Cons m ms)
  then obtain es' k' where "resolve_results results ms = Inr (es', k')" by (auto simp: then_r_eq_Inr Let_def)
  with Cons show ?case
    by (fastforce simp: then_r_eq_Inr Let_def split: bool.splits pyval.splits)
qed simp

definition placed_ok :: "string \<Rightarrow> pydict \<Rightarrow> nat \<Rightarrow> placement \<Rightarrow> bool" where
  "placed_ok p dto hi x \<longleftrightarrow>
     (\<forall>n. expand_of x = Some n \<longrightarrow> live_node p dto hi n) \<and> (\<forall>n. leaf_of x = Some n \<longrightarrow> node_ok p dto hi n)"

lemma place_node_ok:
  "node_ok p dto hi n \<Longrightarrow> placed_ok p dto hi (place_node cfg root_turn e n)"
  by (auto simp: placed_ok_def place_node_def live_node_def split: if_splits)

lemma place_entry_ok:
  assumes "place_entry cfg itype root_turn scores e = Inr x" "meta_ok p dto c hi (re_meta e)" "c \<le> hi"
  shows "placed_ok p dto hi x"
  using assms(1) place_node_ok [OF child_node_ok [OF assms(2,3)]]
  by (auto simp: place_entry_def Let_def then_r_eq_Inr placed_ok_def split: option.splits if_splits)

lemma gather_ok:
  assumes "\<forall>x \<in> set ps. placed_ok p dto hi x"
  shows "\<forall>n \<in> set (so_next (gather_placements k ps)). live_node p dto hi n"
    "\<forall>n \<in> set (so_finished (gather_placements k ps)). node_ok p dto hi n"
  using assms by (auto simp: gather_placements_def set_map_filter placed_ok_def)

text \<open>the next beam has the ids of the children, each once\<close>

lemma place_entry_id:
  "place_entry cfg itype root_turn scores e = Inr x \<Longrightarrow> expand_of x = Some n \<Longrightarrow>
     bn_branch_id n = bm_branch_id (re_meta e)"
  by (auto simp: place_entry_def place_node_def Let_def child_node_def then_r_eq_Inr
      split: option.splits if_splits)

lemma place_entries_ids:
  "map_r (place_entry cfg itype root_turn scores) es = Inr ps \<Longrightarrow>
     distinct (map (bm_branch_id \<circ> re_meta) es) \<Longrightarrow>
     distinct (map bn_branch_id (List.map_filter expand_of ps)) \<and>
     bn_branch_id ` set (List.map_filter expand_of ps) \<subseteq> (bm_branch_id \<circ> re_meta) ` set es"
proof (induction es arbitrary: ps)
  case (Cons e es)
  from Cons.prems(1) obtain x ps' where x: "place_entry cfg itype root_turn scores e = Inr x"
    and ps: "map_r (place_entry cfg itype root_turn scores) es = Inr ps'" "ps = x # ps'"
    by (auto simp: then_r_eq_Inr)
  have IH: "distinct (map bn_branch_id (List.map_filter expand_of ps'))"
    "bn_branch_id ` set (List.map_filter expand_of ps') \<subseteq> (bm_branch_id \<circ> re_meta) ` set es"
    using Cons.IH [OF ps(1)] Cons.prems(2) by auto
  show ?case
  proof (cases "expand_of x")
    case None
    with IH ps(2) show ?thesis by auto
  next
    case (Some n)
    with place_entry_id [OF x Some] IH ps(2) Cons.prems(2) show ?thesis by auto
  qed
qed simp

lemma resolve_results_distinct:
  "resolve_results results ms = Inr (es, k) \<Longrightarrow> distinct (map bm_branch_id ms) \<Longrightarrow>
     distinct (map (bm_branch_id \<circ> re_meta) es)"
proof (induction ms arbitrary: es k)
  case (Cons m ms)
  then obtain es' k' where rec: "resolve_results results ms = Inr (es', k')"
    by (auto simp: then_r_eq_Inr Let_def)
  from Cons.prems(1) rec consider "es = es'" | e where "es = e # es'" "re_meta e = m"
    by (auto simp: then_r_eq_Inr Let_def split: bool.splits pyval.splits)
  then show ?case
    using Cons.IH [OF rec] Cons.prems(2) resolve_results_metas [OF rec] by cases auto
qed simp

definition sc_ok :: "string \<Rightarrow> pydict \<Rightarrow> nat \<Rightarrow> 'w searching \<Rightarrow> scored \<Rightarrow> bool" where
  "sc_ok p dto c s sc \<longleftrightarrow>
     (\<forall>n \<in> set (so_next sc). live_node p dto (se_branch_counter s) n \<and>
        own_id p c (se_branch_counter s) (bn_branch_id n) \<and> bn_branch_id n \<in> set (se_all_ids s)) \<and>
     (\<forall>n \<in> set (so_finished sc). node_ok p dto (se_branch_counter s) n) \<and>
     distinct (map bn_branch_id (so_next sc))"

lemma sc_ok_placed:
  assumes "children_ok p dto c s metas" "c \<le> se_branch_counter s" "resolve_results results metas = Inr (es, k)"
    and ps: "map_r (place_entry cfg itype root_turn scores) es = Inr ps"
  shows "sc_ok p dto c s (gather_placements k' ps)"
proof -
  have metas: "re_meta ` set es \<subseteq> set metas" "distinct (map (bm_branch_id \<circ> re_meta) es)"
    using resolve_results_metas [OF assms(3)] resolve_results_distinct [OF assms(3)] assms(1)
    by (auto simp: children_ok_def)
  have "\<forall>x \<in> set ps. placed_ok p dto (se_branch_counter s) x"
  proof
    fix x assume "x \<in> set ps"
    from map_r_elem [OF ps this] obtain e where "e \<in> set es" "place_entry cfg itype root_turn scores e = Inr x"
      by blast
    with metas(1) assms(1,2) show "placed_ok p dto (se_branch_counter s) x"
      by (intro place_entry_ok [of cfg itype root_turn scores e]) (auto simp: children_ok_def)
  qed
  note placed = gather_ok [OF this, of k']
  note ids = place_entries_ids [OF ps metas(2)]
  have "own_id p c (se_branch_counter s) b \<and> b \<in> set (se_all_ids s)"
    if "b \<in> (bm_branch_id \<circ> re_meta) ` set es" for b
    using that metas(1) assms(1) by (auto simp: children_ok_def meta_ok_def)
  moreover have "so_next (gather_placements k' ps) = List.map_filter expand_of ps"
    by (simp add: gather_placements_def)
  moreover have "bn_branch_id n \<in> (bm_branch_id \<circ> re_meta) ` set es" if "n \<in> set (List.map_filter expand_of ps)" for n
    using ids that by blast
  ultimately show ?thesis
    using placed ids unfolding sc_ok_def by simp
qed

lemma children_ok_still: "children_ok p dto c s ms \<Longrightarrow> still s t \<Longrightarrow> children_ok p dto c t ms"
  by (simp add: children_ok_def still_def frame_def)

context search_world
begin

definition safe :: "'w searching \<Rightarrow> bool" where
  "safe s \<longleftrightarrow> J (se_all_ids s) (se_world s) \<and> ids_ok en s"

lemma safe_updates [simp]:
  "safe (t\<lparr>se_stats := st\<rparr>) = safe t" "safe (t\<lparr>se_released := rs\<rparr>) = safe t"
  "safe (t\<lparr>se_settled := rs\<rparr>) = safe t" "safe (t\<lparr>se_prune_step := k\<rparr>) = safe t"
  "safe (t\<lparr>se_beam := ns\<rparr>) = safe t" "safe (t\<lparr>se_waiting := ns\<rparr>) = safe t"
  "safe (t\<lparr>se_finished := ns\<rparr>) = safe t" "safe (t\<lparr>se_rng_counter := k\<rparr>) = safe t"
  "safe s \<Longrightarrow> safe (s\<lparr>se_branch_counter := Suc (se_branch_counter s)\<rparr>)"
  by (simp_all add: safe_def)

lemma safe_world: "safe s \<Longrightarrow> J (se_all_ids s) w \<Longrightarrow> safe (s\<lparr>se_world := w\<rparr>)"
  by (simp add: safe_def)

text \<open>a step of the world that keeps \<open>J\<close>\<close>

lemma world_still:
  assumes "safe s" "\<And>ids. keeps (J ids) m"
  shows "wp (world_p m) (\<lambda>_ t. safe t \<and> still s t) (\<lambda>_ t. safe t \<and> still s t) s"
proof -
  have "wp m (\<lambda>_. J (se_all_ids s)) (\<lambda>_. J (se_all_ids s)) (se_world s)"
    using assms by (auto simp: keeps_wp safe_def)
  then show ?thesis
    unfolding wp_world by (rule wp_mono) (simp_all add: safe_world assms(1) still_def)
qed

lemma world_wp:
  assumes "safe s" "\<And>ids. keeps (J ids) m"
  shows "wp (world_p m) (\<lambda>_ t. safe t \<and> frame s t) (\<lambda>_ t. safe t \<and> frame s t) s"
  by (rule wp_mono [OF world_still [OF assms]]) (auto simp: still_def)

lemma now_still:
  assumes "safe s"
  shows "wp (now_p en) (\<lambda>_ t. safe t \<and> still s t) (\<lambda>_ t. safe t \<and> still s t) s"
  unfolding now_p_def
  by (rule world_still [OF assms]) (auto simp: keeps_def clock split: prod.split dest: clock)

lemma now_wp:
  assumes "safe s"
  shows "wp (now_p en) (\<lambda>_ t. safe t \<and> frame s t) (\<lambda>_ t. safe t \<and> frame s t) s"
  by (rule wp_mono [OF now_still [OF assms]]) (auto simp: still_def)

text \<open>the postcondition of a helper that confirms no branch and returns nothing of interest\<close>

abbreviation calm :: "'w searching \<Rightarrow> 'x \<Rightarrow> 'w searching \<Rightarrow> bool" where
  "calm s \<equiv> \<lambda>_ t. safe t \<and> frame s t"

lemma calm_bind:
  assumes "wp m (calm s) (calm s) s"
    and "\<And>x t. safe t \<Longrightarrow> frame s t \<Longrightarrow> wp (f x) (\<lambda>y u. safe u \<and> frame t u \<and> Q y u) (calm t) t"
  shows "wp (bind_p m f) (\<lambda>y u. safe u \<and> frame s u \<and> Q y u) (calm s) s"
  unfolding wp_bind
  by (rule wp_mono [OF assms(1)], rule wp_mono [OF assms(2)]) (auto intro: frame_trans)

lemma cleanup_call_wp:
  assumes "safe s" "bs \<noteq> []" "distinct bs" "set bs \<subseteq> set (se_all_ids s)"
  shows "wp (cleanup_call en op inst bs deadline) (calm s) (calm s) s"
proof -
  have call: "wp (world_p (client_cleanup_op (be_client en) op inst bs t)) (calm u) (calm u) u"
    if u: "safe u" "frame s u" for t u
  proof -
    have "J (se_all_ids u) (snd (client_cleanup_op (be_client en) op inst bs t (se_world u)))"
      using u assms cancelling releasing by (cases op) (auto simp: safe_def frame_def)
    then show ?thesis
      unfolding wp_world by (intro wpI) (auto intro!: safe_world [OF u(1)])
  qed
  show ?thesis
    unfolding cleanup_call_def wp_bind
  proof (rule wp_mono [OF now_wp [OF assms(1)]])
    fix now t assume t: "safe t \<and> frame s t"
    have "wp (try_else (world_p (client_cleanup_op (be_client en) op inst bs (min 5 (deadline - now))))
           (\<lambda>_. ret_p True)
           (\<lambda>e. client_attr client_unusable en (\<lambda>unusable.
              case e of
                RequestRejectedError _ \<Rightarrow> if unusable then raise_p e else ret_p False
              | TransportError _ uncertain _ \<Rightarrow>
                  if uncertain \<or> unusable then raise_p e else ret_p False
              | _ \<Rightarrow> raise_p e))) (calm s) (calm s) t"
      unfolding wp_try_else
      by (rule wp_mono [OF call [OF conjunct1 [OF t] conjunct2 [OF t]]])
        (use t in \<open>auto simp: py_simps intro: frame_trans split: exn.split\<close>)
    with t show "wp (let remaining = deadline - now in if remaining \<le> 0 then ret_p False else
        try_else (world_p (client_cleanup_op (be_client en) op inst bs (min 5 remaining)))
           (\<lambda>_. ret_p True)
           (\<lambda>e. client_attr client_unusable en (\<lambda>unusable.
              case e of
                RequestRejectedError _ \<Rightarrow> if unusable then raise_p e else ret_p False
              | TransportError _ uncertain _ \<Rightarrow>
                  if uncertain \<or> unusable then raise_p e else ret_p False
              | _ \<Rightarrow> raise_p e))) (calm s) (calm s) t"
      by (simp add: Let_def py_simps)
  qed auto
qed

lemma safe_distinct: "safe s \<Longrightarrow> distinct (se_all_ids s)"
  by (simp add: safe_def ids_ok_def)

lemma release_unneeded_wp:
  assumes "safe s"
  shows "wp (release_unneeded_whole_run_branches en inst deadline) (calm s) (calm s) s"
proof -
  have rel: "distinct (releasable_ids s)" "set (releasable_ids s) \<subseteq> set (se_all_ids s)"
    using safe_distinct [OF assms] by (auto simp: releasable_ids_def)
  have "wp (cleanup_call en ReleaseBranches inst (releasable_ids s) deadline)
      (\<lambda>released. wp (if released then then_p (mark_released (releasable_ids s)) (ret_p True) else ret_p False)
        (calm s) (calm s)) (calm s) s" if "releasable_ids s \<noteq> []"
    by (rule wp_mono [OF cleanup_call_wp [OF assms that rel]])
      (auto simp: py_simps mark_released_def)
  then show ?thesis
    by (simp add: release_unneeded_whole_run_branches_def py_simps Let_def assms)
qed

lemma release_settled_wp:
  assumes "safe s" "distinct bs" "set bs \<subseteq> set (se_all_ids s)"
  shows "wp (release_settled_branches en inst bs deadline) (calm s) (calm s) s"
proof -
  let ?bs = "filter (\<lambda>b. b \<notin> set (se_released s)) bs"
  have "wp (cleanup_call en ReleaseBranches inst ?bs deadline)
      (\<lambda>released. wp (if released then mark_released ?bs else ret_p ()) (calm s) (calm s)) (calm s) s"
    if "?bs \<noteq> []"
    by (rule wp_mono [OF cleanup_call_wp [OF assms(1) that]])
      (use assms in \<open>auto simp: py_simps mark_released_def\<close>)
  then show ?thesis
    by (simp add: release_settled_branches_def py_simps Let_def assms)
qed

lemma cleanup_wp:
  assumes "safe s" "distinct bs" "set bs \<subseteq> set (se_all_ids s)"
  shows "wp (cleanup en inst bs deadline) (calm s) (calm s) s"
proof -
  have call: "wp (cleanup_call en op inst bs deadline) (calm t) (calm t) t"
    if "safe t" "frame s t" "bs \<noteq> []" for op t
    by (rule cleanup_call_wp) (use that assms in \<open>auto simp: frame_def\<close>)
  have second: "wp (cleanup_call en ReleaseBranches inst bs deadline) (\<lambda>_. calm s ()) (calm s) t"
    if "safe t" "frame s t" "bs \<noteq> []" for t
    by (rule wp_mono [OF call [OF that]]) (use that in \<open>auto intro: frame_trans\<close>)
  have "wp (cleanup_call en CancelBranches inst bs deadline)
      (\<lambda>cancelled t. wp (if \<not> cancelled then ret_p ()
            else client_attr client_unusable en (\<lambda>unusable.
              if unusable then ret_p ()
              else bind_p (cleanup_call en ReleaseBranches inst bs deadline) (\<lambda>_. ret_p ()))) (calm s) (calm s) t)
      (calm s) s" if ne: "bs \<noteq> []"
  proof (rule wp_mono [OF call [OF assms(1) frame_refl ne]])
    fix cancelled :: bool and t assume t: "safe t \<and> frame s t"
    then show "wp (if \<not> cancelled then ret_p ()
            else client_attr client_unusable en (\<lambda>unusable.
              if unusable then ret_p ()
              else bind_p (cleanup_call en ReleaseBranches inst bs deadline) (\<lambda>_. ret_p ()))) (calm s) (calm s) t"
      using second [OF _ _ ne] by (simp add: py_simps)
  qed auto
  then show ?thesis
    by (simp add: cleanup_def py_simps assms(1))
qed

section \<open>Proposing keeps the works fresh\<close>

lemma child_rng_wp:
  assumes "safe s" "node_ok p dto c node"
  shows "wp (child_rng_id node)
    (\<lambda>r t. safe t \<and> frame s t \<and> se_branch_counter t = se_branch_counter s \<and> 0 < r) (\<lambda>_ _. False) s"
  using assms by (auto simp: child_rng_id_def next_rng_id_def py_simps node_ok_def frame_def grows_def)

lemma safe_bump: "safe s \<Longrightarrow> safe (s\<lparr>se_branch_counter := Suc (se_branch_counter s)\<rparr>)"
  by simp

lemma frame_bump: "frame s (s\<lparr>se_branch_counter := Suc (se_branch_counter s)\<rparr>)"
  by (simp add: frame_def grows_def)

abbreviation proposed_wp :: "pydict \<Rightarrow> nat \<Rightarrow> 'w searching \<Rightarrow> work list \<Rightarrow> 'w searching \<Rightarrow> bool" where
  "proposed_wp dto c s ws t \<equiv> safe t \<and> frame s t \<and>
     fresh_works (be_prefix en) dto c (se_branch_counter s) (se_branch_counter t) ws"

lemma propose_candidates_wp:
  assumes "safe s" "live_node (be_prefix en) dto c node" "c \<le> se_branch_counter s"
  shows "wp (propose_candidates en node (available_action_ids (bn_dto node)) cs)
    (proposed_wp dto c s) (calm s) s"
  using assms(1,3)
proof (induction cs arbitrary: s)
  case Nil
  then show ?case by (simp add: py_simps)
next
  case (Cons cand cs)
  let ?avail = "available_action_ids (bn_dto node)" and ?n = "Suc (se_branch_counter s)"
  let ?s = "s\<lparr>se_branch_counter := ?n\<rparr>" and ?b = "branch_id_of (be_prefix en) ?n"
  have "wp (child_rng_id node) (\<lambda>r t. wp (propose_candidates en node ?avail cs)
      (\<lambda>ws u. proposed_wp dto c s
         ((branch_item (bn_branch_id node) ?b r (bn_decision_point_id node) (cp_action_id cand),
           \<lparr>bm_node = node, bm_candidate = cand, bm_branch_id = ?b, bm_rng_id = r\<rparr>) # ws) u) (calm s) t)
      (\<lambda>_ _. False) ?s" if avail: "cp_action_id cand \<in> set ?avail"
  proof (rule wp_mono [OF child_rng_wp])
    show "safe ?s" using Cons.prems(1) by simp
    show "node_ok (be_prefix en) dto c node" using assms(2) by (simp add: live_node_def)
  next
    fix r :: int and t assume t: "safe t \<and> frame ?s t \<and> se_branch_counter t = se_branch_counter ?s \<and> 0 < r"
    then have st: "frame s t" "se_branch_counter t = ?n" using frame_trans [OF frame_bump] by auto
    let ?m = "\<lparr>bm_node = node, bm_candidate = cand, bm_branch_id = ?b, bm_rng_id = r\<rparr>"
    have "own_id (be_prefix en) (se_branch_counter s) ?n ?b" by (rule own_id_new) simp
    with t assms(2) avail Cons.prems(2)
    have one: "fresh_works (be_prefix en) dto c (se_branch_counter s) ?n [(item_of ?m, ?m)]"
      by (auto simp: fresh_works_def work_ok_def meta_ok_def intro: own_id_mono)
    show "wp (propose_candidates en node ?avail cs) (\<lambda>ws u. proposed_wp dto c s
         ((branch_item (bn_branch_id node) ?b r (bn_decision_point_id node) (cp_action_id cand), ?m) # ws) u) (calm s) t"
    proof (rule wp_mono [OF Cons.IH])
      fix ws u assume u: "proposed_wp dto c t ws u"
      then have "?n \<le> se_branch_counter u" using st(2) by (auto simp: frame_def grows_def)
      with fresh_works_append [OF one, of _ ws] u st
      show "proposed_wp dto c s ((branch_item (bn_branch_id node) ?b r (bn_decision_point_id node)
          (cp_action_id cand), ?m) # ws) u"
        by (auto simp: item_of_def intro: frame_trans)
    qed (use t st Cons.prems(2) in \<open>auto intro: frame_trans\<close>)
  qed simp
  then show ?case
    using Cons.prems(1) unfolding propose_candidates.simps
    by (auto simp: py_simps wp_next_branch_id elim!: wp_mono)
qed

lemma propose_nodes_wp:
  assumes "safe s" "\<forall>x \<in> set xs. live_node (be_prefix en) dto c (fst x)" "c \<le> se_branch_counter s"
  shows "wp (propose_nodes en xs)
    (\<lambda>r t. proposed_wp dto c s (fst r) t \<and> set (snd r) \<subseteq> fst ` set xs) (calm s) s"
  using assms
proof (induction xs arbitrary: s)
  case Nil
  then show ?case by (simp add: py_simps)
next
  case (Cons x xs)
  let ?post = "\<lambda>r t. proposed_wp dto c s (fst r) t \<and> set (snd r) \<subseteq> fst ` set (x # xs)"
  obtain node cands where x: "x = (node, cands)" by (cases x)
  have rest: "wp (propose_nodes en xs)
      (\<lambda>r u. proposed_wp dto c s (ws @ fst r) u \<and> set (snd r) \<subseteq> fst ` set xs) (calm s) t"
    if t: "proposed_wp dto c s ws t" for ws t
  proof (rule wp_mono [OF Cons.IH])
    show "safe t" using t by simp
    show "\<forall>x \<in> set xs. live_node (be_prefix en) dto c (fst x)" using Cons.prems(2) by simp
    show "c \<le> se_branch_counter t" using t Cons.prems(3) by (auto simp: frame_def grows_def)
  next
    fix r u assume u: "proposed_wp dto c t (fst r) u \<and> set (snd r) \<subseteq> fst ` set xs"
    have "fresh_works (be_prefix en) dto c (se_branch_counter s) (se_branch_counter u) (ws @ fst r)"
      by (rule fresh_works_append [of _ _ _ _ "se_branch_counter t"])
        (use t u in \<open>auto simp: frame_def grows_def\<close>)
    with t u show "proposed_wp dto c s (ws @ fst r) u \<and> set (snd r) \<subseteq> fst ` set xs"
      by (auto intro: frame_trans)
  qed (use t in \<open>auto intro: frame_trans\<close>)
  show ?case
  proof (cases "cands = []")
    case True
    have "wp (propose_nodes en xs) (\<lambda>r. wp (case r of (ws, ex) \<Rightarrow> ret_p (ws, node # ex)) ?post (calm s)) (calm s) s"
      by (rule wp_mono [OF rest [of s "[]"]]) (use Cons.prems(1) x in \<open>auto simp: py_simps\<close>)
    with True x Cons.prems show ?thesis by (auto simp: py_simps)
  next
    case False
    have "wp (propose_candidates en node (available_action_ids (bn_dto node)) cands)
      (\<lambda>ws. wp (propose_nodes en xs) (\<lambda>r. wp (case r of (ws', ex) \<Rightarrow> ret_p (ws @ ws', ex)) ?post (calm s))
        (calm s)) (calm s) s"
    proof (rule wp_mono [OF propose_candidates_wp [OF Cons.prems(1) _ Cons.prems(3)]])
      show "live_node (be_prefix en) dto c node" using Cons.prems(2) x by simp
    next
      fix ws t assume "proposed_wp dto c s ws t"
      from rest [OF this]
      show "wp (propose_nodes en xs) (\<lambda>r. wp (case r of (ws', ex) \<Rightarrow> ret_p (ws @ ws', ex)) ?post (calm s))
        (calm s) t"
        by (rule wp_mono) (auto simp: py_simps)
    qed auto
    with False x Cons.prems(1) show ?thesis by (auto simp: py_simps)
  qed
qed

lemma propose_frontier_wp:
  assumes "safe s" "\<forall>n \<in> set beam. live_node (be_prefix en) dto (se_branch_counter s) n"
  shows "wp (propose_frontier en beam)
    (\<lambda>r t. safe t \<and> frame s t \<and> ready (be_prefix en) dto (se_branch_counter s) t (fst r) \<and>
       set (snd r) \<subseteq> set beam) (calm s) s"
proof -
  let ?c = "se_branch_counter s"
  let ?post = "\<lambda>r u. safe u \<and> frame s u \<and> ready (be_prefix en) dto ?c u (fst r) \<and> set (snd r) \<subseteq> set beam"
  have "wp (propose_nodes en (zip beam props)) ?post (calm s) t"
    if t: "safe t" "frame s t" for props t
  proof (rule wp_mono [OF propose_nodes_wp [OF t(1)]])
    have zip: "fst ` set (zip beam props) \<subseteq> set beam" by (auto dest: set_zip_leftD)
    then show "\<forall>x \<in> set (zip beam props). live_node (be_prefix en) dto ?c (fst x)"
      using assms(2) by blast
    show le: "?c \<le> se_branch_counter t" using t by (auto simp: frame_def grows_def)
    fix r u
    assume u: "proposed_wp dto ?c t (fst r) u \<and> set (snd r) \<subseteq> fst ` set (zip beam props)"
    from u have "fresh_works (be_prefix en) dto ?c ?c (se_branch_counter u) (fst r)" "frame s u"
      using fresh_works_mono [OF _ le] t by (auto intro: frame_trans)
    with fresh_ready [of en s u] assms(1) u zip show "?post r u"
      by (auto simp: safe_def)
  qed (use t in \<open>auto intro: frame_trans\<close>)
  then have "wp (world_p (propose_batch_with_provenance (be_policy en) requests k))
      (\<lambda>props. wp (if length props \<noteq> length beam then raise_p RuntimeError else propose_nodes en (zip beam props))
        ?post (calm s)) (calm s) s" for requests k
    by (intro wp_mono [OF world_wp [OF assms(1) policy]]) (auto simp: wp_raise)
  then show ?thesis
    using assms(1) by (auto simp: propose_frontier_def py_simps split: sum.split)
qed

section \<open>Emulating keeps the ids distinct\<close>

text \<open>a batch that succeeds confirms its branches\<close>

lemma emulate_wp:
  fixes ws :: "(pydict \<times> 'x) list"
  assumes "safe s" "ws \<noteq> []" "batch_fits en (map fst ws)"
    and items: "\<forall>w \<in> set ws. item_ok (be_prefix en) c (se_branch_counter s) (fst w) \<and>
      dget (fst w) ''branch_id'' = PStr (f w)"
    and "distinct (map f ws)" "set (se_all_ids s) \<inter> f ` set ws = {}"
  shows "wp (world_p (sc_emulate_actions (be_client en) inst (map fst ws) t opts))
    (\<lambda>_ u. still s u \<and> safe (u\<lparr>se_all_ids := se_all_ids u @ map f ws\<rparr>))
    (\<lambda>_ u. safe u \<and> still s u) s"
proof -
  have conf: "confirmed (se_all_ids s) (map fst ws) = se_all_ids s @ map f ws"
    using items by (simp add: confirmed_def string_or_empty_def)
  have "batch_ok (be_prefix en) (se_all_ids s) (map fst ws)"
    using assms(2) items assms(5,6) by (rule batch_okI)
  from emulation [OF _ this assms(3)] assms(1)
  have "wp (sc_emulate_actions (be_client en) inst (map fst ws) t opts)
      (\<lambda>_. J (se_all_ids s @ map f ws)) (\<lambda>_. J (se_all_ids s)) (se_world s)"
    by (simp add: safe_def conf)
  moreover have "own_id (be_prefix en) 0 (se_branch_counter s) (f w)" if "w \<in> set ws" for w
  proof -
    from items that obtain parent branch rng dp aid where "fst w = branch_item parent branch rng dp aid"
      "own_id (be_prefix en) c (se_branch_counter s) branch" "dget (fst w) ''branch_id'' = PStr (f w)"
      unfolding item_ok_def by blast
    then show ?thesis by (auto intro: own_id_mono)
  qed
  then have "ids_ok en (s\<lparr>se_all_ids := se_all_ids s @ map f ws\<rparr>)"
    using assms(1,5,6) by (auto simp: safe_def ids_ok_def)
  ultimately show ?thesis
    unfolding wp_world
    by (elim wp_mono) (auto simp: safe_def ids_ok_def still_def intro: safe_world [OF assms(1)])
qed

text \<open>the children of a confirmed chunk that are not kept yet\<close>

definition takes :: "string \<Rightarrow> pydict \<Rightarrow> nat \<Rightarrow> 'w searching \<Rightarrow> emulated \<Rightarrow> (work \<times> nat) list \<Rightarrow> bool" where
  "takes p dto c s em chunk \<longleftrightarrow>
     metas_ok p dto c s em \<and> distinct (map (work_id \<circ> fst) chunk) \<and>
     (\<forall>x \<in> set chunk. meta_ok p dto c (se_branch_counter s) (snd (fst x)) \<and>
        work_id (fst x) \<in> set (se_all_ids s) \<and> work_id (fst x) \<notin> set (kept_ids em))"

lemma takes_keep:
  assumes "takes p dto c s em ((w, order) # chunk)"
  shows "takes p dto c s (keep_result em result (snd w) order) chunk"
  using assms kept_ids_keep [of em result "snd w" order]
  by (auto simp: takes_def intro!: metas_ok_keep) force

lemma takes_skip: "takes p dto c s em (x # chunk) \<Longrightarrow> takes p dto c s em chunk"
  by (simp add: takes_def)

lemma take_results_wp:
  assumes "safe s" "takes p dto c u em chunk"
  shows "wp (take_results attempt is_last results em chunk)
    (\<lambda>r t. safe t \<and> still s t \<and> metas_ok p dto c u (fst r) \<and> set (snd r) \<subseteq> set chunk)
    (\<lambda>_ t. safe t \<and> still s t) s"
  using assms
proof (induction chunk arbitrary: s em)
  case Nil
  then show ?case by (simp add: py_simps takes_def)
next
  case (Cons x chunk)
  obtain w order where x: "x = (w, order)" by (cases x)
  let ?result = "dget results (bm_branch_id (snd w))"
  have rest: "wp (take_results attempt is_last results em' chunk)
      (\<lambda>r t. safe t \<and> still s t \<and> metas_ok p dto c u (fst r) \<and> set (snd r) \<subseteq> set (x # chunk))
      (\<lambda>_ t. safe t \<and> still s t) t"
    if "safe t" "still s t" "takes p dto c u em' chunk" for t em'
    by (rule wp_mono [OF Cons.IH [OF that(1,3)]])
      (use that in \<open>auto intro: still_trans\<close>)
  have keep: "takes p dto c u (keep_result em ?result (snd w) order) chunk"
    using Cons.prems(2) unfolding x by (rule takes_keep)
  have retry: "wp (take_results attempt is_last results em chunk)
      (\<lambda>r. wp (case r of (em', retry) \<Rightarrow> ret_p (em', (w, order) # retry))
        (\<lambda>r t. safe t \<and> still s t \<and> metas_ok p dto c u (fst r) \<and> set (snd r) \<subseteq> set (x # chunk))
        (\<lambda>_ t. safe t \<and> still s t)) (\<lambda>_ t. safe t \<and> still s t) s"
    by (rule wp_mono [OF rest [OF Cons.prems(1) still_refl(1) takes_skip [OF Cons.prems(2)]]])
      (auto simp: x py_simps)
  show ?case
    unfolding x take_results.simps Let_def
    using rest keep retry Cons.prems(1) x
    by (auto simp: py_simps split: sum.split)
qed

lemma ready_append:
  "ready p dto c s (ws @ ws') \<longleftrightarrow>
     ready p dto c s ws \<and> ready p dto c s ws' \<and> work_id ` set ws \<inter> work_id ` set ws' = {}"
  by (auto simp: ready_def)

lemma ready_register:
  assumes "ready p dto c s (ws @ ws')" "still s t"
  shows "ready p dto c (t\<lparr>se_all_ids := se_all_ids t @ map work_id ws\<rparr>) ws'"
  using assms by (auto simp: ready_def still_def frame_def)

lemma ready_batch:
  assumes "ready (be_prefix en) dto c s (map fst chunk)"
  shows "\<forall>x \<in> set (map fst chunk). item_ok (be_prefix en) c (se_branch_counter s) (fst x) \<and>
      dget (fst x) ''branch_id'' = PStr (work_id x)"
    "distinct (map work_id (map fst chunk))"
    "set (se_all_ids s) \<inter> work_id ` set (map fst chunk) = {}"
  using assms by (auto simp: ready_def work_ok_def intro: meta_ok_item)

lemma takes_registered:
  assumes "metas_ok p dto c s em" "ready p dto c s (map fst chunk @ ws)" "still s v"
  shows "takes p dto c (v\<lparr>se_all_ids := se_all_ids v @ map (bm_branch_id \<circ> snd \<circ> fst) chunk, se_stats := st\<rparr>) em chunk"
proof -
  let ?v = "v\<lparr>se_all_ids := se_all_ids v @ map (bm_branch_id \<circ> snd \<circ> fst) chunk, se_stats := st\<rparr>"
  have "grows s ?v" using assms(3) by (auto simp: still_def frame_def grows_def)
  from metas_ok_grows [OF assms(1) this] have "metas_ok p dto c ?v em" .
  moreover have "work_id (fst x) \<notin> set (kept_ids em)" if "x \<in> set chunk" for x
  proof -
    have "work_id (fst x) \<in> work_id ` set (map fst chunk @ ws)" using that by auto
    with assms(1,2) show ?thesis unfolding ready_def metas_ok_def by blast
  qed
  ultimately show ?thesis
    using assms(2,3) by (auto simp: takes_def ready_def work_ok_def still_def frame_def comp_def)
qed

lemma emulate_chunks_wp:
  assumes "safe s" "ready (be_prefix en) dto c s (map fst (concat chunks))"
    and "\<forall>chunk \<in> set chunks. chunk \<noteq> [] \<and> int (length chunk) \<le> max 1 (max_batch_size (be_config en))"
    and "metas_ok (be_prefix en) dto c s em"
  shows "wp (emulate_chunks en inst deadline attempt is_last em chunks)
    (\<lambda>r t. safe t \<and> grows_only s t \<and> metas_ok (be_prefix en) dto c t (fst r) \<and>
       set (fst (snd r)) \<subseteq> set (concat chunks)) (\<lambda>_ t. safe t \<and> grows s t) s"
  using assms
proof (induction chunks arbitrary: s em)
  case Nil
  then show ?case by (simp add: py_simps)
next
  case (Cons chunk chunks)
  let ?p = "be_prefix en" and ?hi = "se_branch_counter s"
  let ?post = "\<lambda>r t. safe t \<and> grows_only s t \<and> metas_ok ?p dto c t (fst r) \<and>
     set (fst (snd r)) \<subseteq> set (concat (chunk # chunks))"
  let ?err = "\<lambda>_ t. safe t \<and> grows s t"
  let ?ids = "map (bm_branch_id \<circ> snd \<circ> fst) chunk"
  have ids: "?ids = map work_id (map fst chunk)" by simp
  have rest: "wp (emulate_chunks en inst deadline attempt is_last em' chunks)
      (\<lambda>r. wp (case r of (em'', retry', fatal) \<Rightarrow> ret_p (em'', retry @ retry', fatal)) ?post ?err) ?err u"
    if u: "safe u" "grows_only s u" "ready ?p dto c u (map fst (concat chunks))"
      "metas_ok ?p dto c u em'" "set retry \<subseteq> set chunk" for u em' retry
  proof (rule wp_mono [OF Cons.IH])
    show "metas_ok ?p dto c u em'" using u by simp
  next
    fix r t
    assume t: "safe t \<and> grows_only u t \<and> metas_ok ?p dto c t (fst r) \<and>
      set (fst (snd r)) \<subseteq> set (concat chunks)"
    with u have "grows_only s t" by (auto intro: grows_only_trans)
    with t u show "wp (case r of (em'', retry', fatal) \<Rightarrow> ret_p (em'', retry @ retry', fatal)) ?post ?err t"
      by (cases r) (auto simp: py_simps grows_only_def)
  qed (use u Cons.prems(3) in \<open>auto simp: grows_only_def intro: grows_trans\<close>)
  have results: "wp (take_results attempt is_last results em chunk)
      (\<lambda>r. wp (case r of (em', retry) \<Rightarrow> bind_p (emulate_chunks en inst deadline attempt is_last em' chunks)
          (\<lambda>(em'', retry', fatal). ret_p (em'', retry @ retry', fatal))) ?post ?err) ?err u"
    if u: "safe u" "grows_only s u" "ready ?p dto c u (map fst (concat chunks))"
      "takes ?p dto c u em chunk" for u results
  proof (rule wp_mono [OF take_results_wp [OF u(1,4)]])
    fix r t assume t: "safe t \<and> still u t \<and> metas_ok ?p dto c u (fst r) \<and> set (snd r) \<subseteq> set chunk"
    have "ready ?p dto c t (map fst (concat chunks))"
      using u(3) t by (auto simp: ready_def still_def frame_def)
    with rest [of t "fst r" "snd r"] t u metas_ok_grows [of ?p dto c u "fst r" t]
    show "wp (case r of (em', retry) \<Rightarrow> bind_p (emulate_chunks en inst deadline attempt is_last em' chunks)
          (\<lambda>(em'', retry', fatal). ret_p (em'', retry @ retry', fatal))) ?post ?err t"
      by (cases r) (auto simp: py_simps intro: grows_only_trans still_grows grows_only_grows)
  qed (use u in \<open>auto intro: grows_trans frame_grows simp: still_def grows_only_def\<close>)
  have call: "wp (try_else
           (world_p (sc_emulate_actions (be_client en) inst (map (fst \<circ> fst) chunk) t opts))
           (\<lambda>response.
              then_p (register_branches ?ids)
             (bind_p (lift_p (results_mapping response)) (\<lambda>results.
              bind_p (take_results attempt is_last results em chunk) (\<lambda>(em', retry).
              bind_p (emulate_chunks en inst deadline attempt is_last em' chunks) (\<lambda>(em'', retry', fatal).
              ret_p (em'', retry @ retry', fatal))))))
           (\<lambda>e. case e of
              RequestRejectedError response \<Rightarrow>
                client_attr client_unusable en (\<lambda>unusable.
                  if unusable then raise_p e
                  else ret_p (em, [], Some (''emulate_actions_rejected:'' @ rejection_detail response)))
            | _ \<Rightarrow> raise_p e)) ?post ?err u"
    if u: "safe u" "still s u" for u t opts
  proof -
    have ready: "ready ?p dto c u (map fst chunk @ map fst (concat chunks))"
      using Cons.prems(2) u by (simp add: ready_def still_def frame_def)
    then have first: "ready ?p dto c u (map fst chunk)" by (simp only: ready_append)
    have "batch_fits en (map fst (map fst chunk))" "map fst chunk \<noteq> []"
      using Cons.prems(3) by (auto simp: batch_fits_def)
    from emulate_wp [OF u(1) this(2,1) ready_batch [OF first], of inst t opts]
    have "wp (world_p (sc_emulate_actions (be_client en) inst (map (fst \<circ> fst) chunk) t opts))
      (\<lambda>_ v. still u v \<and> safe (v\<lparr>se_all_ids := se_all_ids v @ ?ids\<rparr>)) (\<lambda>_ v. safe v \<and> still u v) u"
      by (simp add: comp_def)
    then show ?thesis
      unfolding wp_try_else
    proof (rule wp_mono)
      fix response v assume v: "still u v \<and> safe (v\<lparr>se_all_ids := se_all_ids v @ ?ids\<rparr>)"
      let ?v = "v\<lparr>se_all_ids := se_all_ids v @ ?ids,
        se_stats := (se_stats v)\<lparr>branches_created := branches_created (se_stats v) + int (length ?ids)\<rparr>\<rparr>"
      have "ready ?p dto c ?v (map fst (concat chunks))"
        using ready_register [of ?p dto c u "map fst chunk" "map fst (concat chunks)" v] ready v
        by (simp add: ready_def comp_def)
      moreover have "grows_only s ?v" "safe ?v"
        using v u by (auto simp: grows_only_def grows_def still_def frame_def)
      moreover have "takes ?p dto c ?v em chunk"
        using takes_registered [OF metas_ok_grows [OF Cons.prems(4)] ready, of v] u(2) v
        by (auto intro: still_grows grows_only_grows)
      ultimately show "wp (then_p (register_branches ?ids)
             (bind_p (lift_p (results_mapping response)) (\<lambda>results.
              bind_p (take_results attempt is_last results em chunk) (\<lambda>(em', retry).
              bind_p (emulate_chunks en inst deadline attempt is_last em' chunks) (\<lambda>(em'', retry', fatal).
              ret_p (em'', retry @ retry', fatal)))))) ?post ?err v"
        using results [of ?v] by (auto simp: py_simps grows_only_def split: sum.split)
    next
      fix e v assume "safe v \<and> still u v"
      then have "still s v" using u(2) by (blast intro: still_trans)
      with \<open>safe v \<and> still u v\<close> metas_ok_grows [OF Cons.prems(4), of v] show "wp (case e of
              RequestRejectedError response \<Rightarrow>
                client_attr client_unusable en (\<lambda>unusable.
                  if unusable then raise_p e
                  else ret_p (em, [], Some (''emulate_actions_rejected:'' @ rejection_detail response)))
            | _ \<Rightarrow> raise_p e) ?post ?err v"
        by (auto simp: py_simps intro: still_trans still_grows grows_only_grows split: exn.split)
    qed
  qed
  show ?case
    unfolding emulate_chunks.simps wp_bind
  proof (rule wp_mono [OF now_still [OF Cons.prems(1)]])
    fix now t assume t: "safe t \<and> still s t"
    then show "wp (if deadline - now \<le> 0 then ret_p (em, [], Some ''time_budget'')
       else
         try_else
           (world_p (sc_emulate_actions (be_client en) inst (map (fst \<circ> fst) chunk) (deadline - now)
                       (simulation_options (be_config en))))
           (\<lambda>response.
              then_p (register_branches ?ids)
             (bind_p (lift_p (results_mapping response)) (\<lambda>results.
              bind_p (take_results attempt is_last results em chunk) (\<lambda>(em', retry).
              bind_p (emulate_chunks en inst deadline attempt is_last em' chunks) (\<lambda>(em'', retry', fatal).
              ret_p (em'', retry @ retry', fatal))))))
           (\<lambda>e. case e of
              RequestRejectedError response \<Rightarrow>
                client_attr client_unusable en (\<lambda>unusable.
                  if unusable then raise_p e
                  else ret_p (em, [], Some (''emulate_actions_rejected:'' @ rejection_detail response)))
            | _ \<Rightarrow> raise_p e)) ?post ?err t"
      using call [of t] metas_ok_grows [OF Cons.prems(4), of t]
      by (auto simp: wp_ret intro: still_grows grows_only_grows)
  qed (auto intro: still_grows grows_only_grows)
qed

lemma retries_wp:
  fixes retry :: "(work \<times> nat) list"
  assumes "safe s" "\<forall>x \<in> set retry. work_ok (be_prefix en) dto c (se_branch_counter s) (fst x)"
    and "c \<le> se_branch_counter s"
  shows "wp (collect_p (\<lambda>(w, order). bind_p (make_retry_item en w) (\<lambda>w'. ret_p (w', order))) retry)
    (\<lambda>pending t. proposed_wp dto c s (map fst pending) t) (calm s) s"
  using assms
proof (induction retry arbitrary: s)
  case Nil
  then show ?case by (simp add: py_simps)
next
  case (Cons x retry)
  obtain w order where x: "x = (w, order)" by (cases x)
  let ?n = "Suc (se_branch_counter s)"
  let ?s = "s\<lparr>se_branch_counter := ?n\<rparr>" and ?b = "branch_id_of (be_prefix en) ?n"
  let ?w = "(dset (fst w) ''branch_id'' (PStr ?b), (snd w)\<lparr>bm_branch_id := ?b\<rparr>)"
  have "own_id (be_prefix en) (se_branch_counter s) ?n ?b" by (rule own_id_new) simp
  then have one: "fresh_works (be_prefix en) dto c (se_branch_counter s) ?n [?w]"
    using retry_work_ok [of "be_prefix en" dto c "se_branch_counter s" w ?n ?b] Cons.prems(2,3) x
    by (simp add: fresh_works_def)
  have "wp (collect_p (\<lambda>(w, order). bind_p (make_retry_item en w) (\<lambda>w'. ret_p (w', order))) retry)
      (\<lambda>pending t. proposed_wp dto c s (map fst ((?w, order) # pending)) t) (calm s) ?s"
  proof (rule wp_mono [OF Cons.IH])
    fix pending :: "(work \<times> nat) list" and t assume t: "proposed_wp dto c ?s (map fst pending) t"
    then have "?n \<le> se_branch_counter t" by (simp add: frame_def grows_def)
    with fresh_works_append [OF one, of _ "map fst pending"] t frame_trans [OF frame_bump]
    show "proposed_wp dto c s (map fst ((?w, order) # pending)) t" by auto
  qed (use Cons.prems in \<open>auto intro: work_ok_mono frame_trans [OF frame_bump]\<close>)
  then show ?case
    by (simp add: x py_simps make_retry_item_def wp_next_branch_id)
qed

lemma emulate_attempts_wp:
  assumes "safe s" "ready (be_prefix en) dto c s (map fst pending)" "c \<le> se_branch_counter s"
    and "metas_ok (be_prefix en) dto c s em"
    and "int chunk_size \<le> max 1 (max_batch_size (be_config en))"
  shows "wp (emulate_attempts en inst deadline chunk_size attempt n em pending)
    (\<lambda>r t. safe t \<and> grows s t \<and> metas_ok (be_prefix en) dto c t (fst r))
    (\<lambda>_ t. safe t \<and> grows s t) s"
  using assms(1-4)
proof (induction n arbitrary: s attempt em pending)
  case 0
  then show ?case by (simp add: py_simps)
next
  case (Suc n)
  let ?p = "be_prefix en"
  let ?post = "\<lambda>r t. safe t \<and> grows s t \<and> metas_ok ?p dto c t (fst r)"
  let ?err = "\<lambda>_ t. safe t \<and> grows s t"
  let ?retry = "collect_p (\<lambda>(w, order). bind_p (make_retry_item en w) (\<lambda>w'. ret_p (w', order)))"
  have chunks: "\<forall>chunk \<in> set (chunks_of chunk_size pending). chunk \<noteq> [] \<and>
      int (length chunk) \<le> max 1 (max_batch_size (be_config en))"
  proof
    fix chunk assume "chunk \<in> set (chunks_of chunk_size pending)"
    from chunk_length [OF this] assms(5)
    show "chunk \<noteq> [] \<and> int (length chunk) \<le> max 1 (max_batch_size (be_config en))" by linarith
  qed
  have sub: "set (concat (chunks_of chunk_size pending)) \<subseteq> set pending"
    by (cases "0 < chunk_size") (simp_all add: concat_chunks)
  have conc: "ready ?p dto c s (map fst (concat (chunks_of chunk_size pending)))"
    using Suc.prems(2) by (cases "0 < chunk_size") (simp_all add: concat_chunks ready_def)
  have again: "wp (bind_p (?retry retry) (\<lambda>pending'.
        emulate_attempts en inst deadline chunk_size (Suc attempt) n em' pending')) ?post ?err t"
    if t: "safe t" "grows_only s t" "metas_ok ?p dto c t em'" "set retry \<subseteq> set pending"
    for t em' retry
    unfolding wp_bind
  proof (rule wp_mono [OF retries_wp [OF t(1)]])
    have counter: "se_branch_counter t = se_branch_counter s" using t(2) by (simp add: grows_only_def)
    show "\<forall>x \<in> set retry. work_ok ?p dto c (se_branch_counter t) (fst x)"
      using Suc.prems(2) t(4) counter by (auto simp: ready_def)
    show "c \<le> se_branch_counter t" using Suc.prems(3) counter by simp
    fix pending' :: "(work \<times> nat) list" and u assume u: "proposed_wp dto c t (map fst pending') u"
    have le: "se_branch_counter t \<le> se_branch_counter u" using u by (simp add: frame_def grows_def)
    have su: "grows s u" by (rule grows_trans [of s t]) (use t u in \<open>auto intro: frame_grows grows_only_grows\<close>)
    show "wp (emulate_attempts en inst deadline chunk_size (Suc attempt) n em' pending') ?post ?err u"
    proof (rule wp_mono [OF Suc.IH])
      show "ready ?p dto c u (map fst pending')"
        using u t(1) by (intro fresh_ready [of en t]) (auto simp: safe_def)
      show "metas_ok ?p dto c u em'" using u by (intro metas_ok_grows [OF t(3)]) (auto intro: frame_grows)
    qed (use u le Suc.prems(3) counter in \<open>auto intro: grows_trans [OF su]\<close>)
  qed (use t in \<open>auto intro: grows_trans frame_grows grows_only_grows\<close>)
  show ?case
    unfolding emulate_attempts.simps wp_bind
  proof (rule wp_mono [OF emulate_chunks_wp [OF Suc.prems(1) conc chunks Suc.prems(4)]])
    fix r :: "emulated \<times> (work \<times> nat) list \<times> string option" and t
    assume t: "safe t \<and> grows_only s t \<and> metas_ok ?p dto c t (fst r) \<and>
      set (fst (snd r)) \<subseteq> set (concat (chunks_of chunk_size pending))"
    obtain em' retry fatal where r: "r = (em', retry, fatal)" by (cases r)
    let ?t = "t\<lparr>se_stats := (se_stats t)\<lparr>branch_retry_faults := branch_retry_faults (se_stats t) + int (length retry)\<rparr>\<rparr>"
    have "wp (bind_p (?retry retry) (\<lambda>pending'.
        emulate_attempts en inst deadline chunk_size (Suc attempt) n em' pending')) ?post ?err ?t"
      by (rule again) (use t r sub in \<open>auto simp: grows_only_def\<close>)
    with t r show "wp (case r of (em', retry, fatal) \<Rightarrow>
          if fatal \<noteq> None then ret_p (em', fatal)
          else if retry = [] then ret_p (em', None)
          else then_p (count_p (\<lambda>t. t\<lparr>branch_retry_faults := branch_retry_faults t + int (length retry)\<rparr>))
            (bind_p (?retry retry) (\<lambda>pending'.
               emulate_attempts en inst deadline chunk_size (Suc attempt) n em' pending'))) ?post ?err t"
      by (auto simp: py_simps grows_only_def)
  qed auto
qed

lemma effective_size_le: "effective_batch_size en w \<le> max_batch_size (be_config en)"
  by (simp add: effective_batch_size_def split: option.split)

lemma emulate_depth_batch_wp:
  assumes "safe s" "ready (be_prefix en) dto c s works" "c \<le> se_branch_counter s"
  shows "wp (emulate_depth_batch en inst deadline works)
    (\<lambda>r t. safe t \<and> grows s t \<and> children_ok (be_prefix en) dto c t (fst (snd r)))
    (\<lambda>_ t. safe t \<and> grows s t) s"
proof -
  let ?pending = "zip works [0 ..< length works]"
  have "int (nat (effective_batch_size en (se_world s))) \<le> max 1 (max_batch_size (be_config en))"
    using effective_size_le [of "se_world s"] by auto
  moreover have "ready (be_prefix en) dto c s (map fst ?pending)" using assms(2) by simp
  moreover have "metas_ok (be_prefix en) dto c s \<lparr>em_results = [], em_metas = []\<rparr>"
    by (simp add: metas_ok_def kept_ids_def)
  ultimately have "wp (emulate_attempts en inst deadline (nat (effective_batch_size en (se_world s))) 0
      (nat (max_branch_attempts (be_config en))) \<lparr>em_results = [], em_metas = []\<rparr> ?pending)
    (\<lambda>r t. safe t \<and> grows s t \<and> metas_ok (be_prefix en) dto c t (fst r))
    (\<lambda>_ t. safe t \<and> grows s t) s"
    using emulate_attempts_wp [OF assms(1) _ assms(3)] by blast
  then show ?thesis
    unfolding emulate_depth_batch_def wp_with wp_bind
    by (rule wp_mono) (auto simp: py_simps intro: metas_ok_children)
qed

section \<open>Scoring and pruning keep the nodes\<close>

lemma evaluate_wp:
  assumes "safe s"
  shows "wp (evaluate_states en dtos) (\<lambda>_ t. safe t \<and> still s t) (\<lambda>_ t. safe t \<and> still s t) s"
  unfolding evaluate_states_def wp_bind
  by (rule wp_mono [OF world_still [OF assms valuation]]) (auto simp: py_simps split: sum.split)

lemma score_frontier_wp:
  assumes "safe s" "children_ok (be_prefix en) dto c s metas" "c \<le> se_branch_counter s"
  shows "wp (score_frontier en metas results root_turn)
    (\<lambda>sc t. safe t \<and> still s t \<and> sc_ok (be_prefix en) dto c t sc) (\<lambda>_ t. safe t \<and> still s t) s"
proof -
  let ?cfg = "be_config en" and ?err = "\<lambda>_ t. safe t \<and> still s t"
  let ?post = "\<lambda>sc t. safe t \<and> still s t \<and> sc_ok (be_prefix en) dto c t sc"
  have scores: "wp (score_entries en scorable) ?err ?err s" for scorable
    using evaluate_wp [OF assms(1)] assms(1)
    by (auto simp: score_entries_def py_simps elim!: wp_mono)
  have place: "wp (bind_p (lift_p (map_r (place_entry ?cfg itype root_turn scores) entries))
      (\<lambda>ps. ret_p (gather_placements faulted ps))) ?post ?err t"
    if t: "safe t" "still s t" and entries: "resolve_results results metas = Inr (entries, faulted)"
    for itype scores entries faulted t
  proof -
    have "c \<le> se_branch_counter t" using t(2) assms(3) by (simp add: still_def)
    note ok = sc_ok_placed [OF children_ok_still [OF assms(2) t(2)] this entries]
    show ?thesis using t by (auto simp: py_simps intro: ok split: sum.split)
  qed
  have "wp (bind_p (score_entries en scorable) (\<lambda>scores.
      client_attr sc_instance_type en (\<lambda>itype.
      bind_p (lift_p (map_r (place_entry ?cfg itype root_turn scores) entries)) (\<lambda>ps.
      ret_p (gather_placements faulted ps))))) ?post ?err s"
    if "resolve_results results metas = Inr (entries, faulted)" for scorable entries faulted
    unfolding wp_bind
    by (rule wp_mono [OF scores]) (use place that in \<open>auto simp: wp_client_attr wp_bind\<close>)
  then show ?thesis
    using assms(1)
    unfolding score_frontier_def Let_def
    by (auto simp: wp_client_attr wp_lift wp_bind split: sum.split)
qed

text \<open>the survivors, in the order of the indices, are nodes of the frontier, each at most once\<close>

definition survivors_of :: "beam_node list \<Rightarrow> beam_node list \<Rightarrow> bool" where
  "survivors_of frontier ns \<longleftrightarrow>
     set ns \<subseteq> set frontier \<and> int (length ns) \<le> int (length frontier) \<and>
     (distinct (map bn_branch_id frontier) \<longrightarrow> distinct (map bn_branch_id ns))"

lemma survivors:
  assumes "distinct is" "\<forall>i \<in> set is. i < length frontier"
  shows "survivors_of frontier (map ((!) frontier) is)"
proof -
  have "length is = card (set is)" using assms(1) by (simp add: distinct_card)
  also have "\<dots> \<le> card {..< length frontier}" using assms(2) by (intro card_mono) auto
  finally have "length is \<le> length frontier" by simp
  moreover have "distinct (map ((!) (map bn_branch_id frontier)) is)" if "distinct (map bn_branch_id frontier)"
    using that assms by (auto simp: distinct_map inj_on_def nth_eq_iff_index_eq simp del: nth_map)
  moreover have "map ((!) (map bn_branch_id frontier)) is = map bn_branch_id (map ((!) frontier) is)"
    using assms(2) by simp
  ultimately show ?thesis using assms(2) by (auto simp: survivors_of_def)
qed

lemma prune_frontier_wp:
  assumes "safe s"
  shows "wp (prune_stable_frontier en search_id phase deadline frontier)
    (\<lambda>ns t. safe t \<and> still s t \<and> survivors_of frontier ns) (\<lambda>_ t. safe t \<and> still s t) s"
proof -
  let ?err = "\<lambda>_ t. safe t \<and> still s t"
  have select: "wp (world_p (be_select en views k ctx)) (\<lambda>selected.
      wp (bind_p (lift_p (validated_pruner_indices selected (length frontier) (beam_width (be_config en))))
        (\<lambda>indices. ret_p (map ((!) frontier) indices)))
      (\<lambda>ns t. safe t \<and> still s t \<and> survivors_of frontier ns) ?err) ?err t"
    if "safe t" "still s t" for views k ctx t
    by (rule wp_mono [OF world_still [OF that(1) pruner]])
      (use that survivors in \<open>auto simp: py_simps validated_indices_iff intro: still_trans split: sum.split\<close>)
  show ?thesis
    unfolding prune_stable_frontier_def wp_bind
    by (rule wp_mono [OF now_still [OF assms]])
      (use select in \<open>auto simp: py_simps Let_def split: sum.split\<close>)
qed

end

end
