(* ===== verification/Beam_Invariant.thy ===== *)
theory Beam_Invariant
  imports Beam_Safety
begin

text \<open>
  The invariant of a whole search (\<open>decision/beam_search.py\<close>), in the locale \<open>search_world\<close> of
  \<open>Beam_Safety\<close>: the settling of leaves, the loop over the plies and the final cleanup.
\<close>

section \<open>Items of a settling batch\<close>

type_synonym 'k keyed_item = "pydict \<times> 'k \<times> string"

abbreviation keyed_id :: "'k keyed_item \<Rightarrow> string" where
  "keyed_id w \<equiv> snd (snd w)"

definition item_for :: "string \<Rightarrow> nat \<Rightarrow> nat \<Rightarrow> 'k keyed_item \<Rightarrow> bool" where
  "item_for p c hi w \<longleftrightarrow> item_ok p c hi (fst w) \<and> dget (fst w) ''branch_id'' = PStr (keyed_id w)"

definition fresh_items :: "string \<Rightarrow> nat \<Rightarrow> nat \<Rightarrow> nat \<Rightarrow> 'k keyed_item list \<Rightarrow> bool" where
  "fresh_items p c lo hi ws \<longleftrightarrow>
     distinct (map keyed_id ws) \<and> (\<forall>w \<in> set ws. item_for p c hi w \<and> own_id p lo hi (keyed_id w))"

definition ready_items :: "string \<Rightarrow> nat \<Rightarrow> 'w searching \<Rightarrow> 'k keyed_item list \<Rightarrow> bool" where
  "ready_items p c s ws \<longleftrightarrow>
     distinct (map keyed_id ws) \<and> (\<forall>w \<in> set ws. item_for p c (se_branch_counter s) w) \<and>
     set (se_all_ids s) \<inter> keyed_id ` set ws = {}"

lemma item_okI:
  "item = branch_item parent branch rng dp aid \<Longrightarrow> parent = search_root_id \<or> own_id p 0 c parent \<Longrightarrow>
   own_id p c hi branch \<Longrightarrow> 0 < rng \<Longrightarrow> dp \<noteq> [] \<Longrightarrow> aid \<noteq> [] \<Longrightarrow> item_ok p c hi item"
  unfolding item_ok_def by blast

lemma item_ok_mono:
  assumes "item_ok p c hi item" "hi \<le> hi'"
  shows "item_ok p c hi' item"
proof -
  from assms(1) obtain parent branch rng dp aid where i: "item = branch_item parent branch rng dp aid"
    "parent = search_root_id \<or> own_id p 0 c parent" "own_id p c hi branch" "0 < rng" "dp \<noteq> []" "aid \<noteq> []"
    unfolding item_ok_def by blast
  show ?thesis
    by (rule item_okI [OF i(1,2) own_id_mono [OF i(3) order_refl assms(2)] i(4-6)])
qed

lemma item_for_mono: "item_for p c hi w \<Longrightarrow> hi \<le> hi' \<Longrightarrow> item_for p c hi' w"
  by (auto simp: item_for_def intro: item_ok_mono)

lemma fresh_items_append:
  assumes "fresh_items p c lo mid ws" "fresh_items p c mid hi ws'" "lo \<le> mid" "mid \<le> hi"
  shows "fresh_items p c lo hi (ws @ ws')"
proof -
  have "keyed_id ` set ws \<inter> keyed_id ` set ws' = {}"
    using assms(1,2) by (fastforce simp: fresh_items_def dest: own_id_disjoint)
  with assms show ?thesis
    by (auto simp: fresh_items_def intro: item_for_mono own_id_mono)
qed

lemma fresh_items_ready:
  assumes "ids_ok en s" "frame s t" "fresh_items (be_prefix en) c (se_branch_counter s) (se_branch_counter t) ws"
  shows "ready_items (be_prefix en) c t ws"
  using assms unfolding ready_items_def fresh_items_def ids_ok_def frame_def
  by (fastforce dest: own_id_disjoint)

lemma ready_items_append:
  "ready_items p c s (ws @ ws') \<Longrightarrow> ready_items p c s ws \<and> ready_items p c s ws'"
  by (auto simp: ready_items_def)

lemma ready_items_frame: "ready_items p c s ws \<Longrightarrow> frame s t \<Longrightarrow> ready_items p c t ws"
  by (auto simp: ready_items_def frame_def grows_def intro: item_for_mono)

lemma ready_items_register:
  assumes "ready_items p c s (ws @ ws')" "frame s t"
  shows "ready_items p c (t\<lparr>se_all_ids := se_all_ids t @ map keyed_id ws\<rparr>) ws'"
  using assms by (auto simp: ready_items_def frame_def grows_def intro: item_for_mono)

text \<open>the End Turn of a leaf\<close>

lemma branch_item_ok:
  assumes "live_node p dto c n" "own_id p c hi b" "0 < r" "aid \<noteq> []"
  shows "item_ok p c hi (branch_item (bn_branch_id n) b r (bn_decision_point_id n) aid)"
  by (rule item_okI [OF refl live_node_parent [OF assms(1)] assms(2,3) _ assms(4)])
    (use assms(1) in \<open>simp add: live_node_def\<close>)

text \<open>a helper that confirms none of the branches \<open>X\<close>\<close>

definition spares :: "string set \<Rightarrow> 'w searching \<Rightarrow> 'w searching \<Rightarrow> bool" where
  "spares X s t \<longleftrightarrow>
     grows s t \<and> (X \<inter> set (se_all_ids s) = {} \<longrightarrow> X \<inter> set (se_all_ids t) = {})"

lemma spares_refl [simp]: "spares X s s"
  by (simp add: spares_def)

lemma spares_trans: "spares X s t \<Longrightarrow> spares X t u \<Longrightarrow> spares X s u"
  by (auto simp: spares_def intro: grows_trans)

lemma frame_spares: "frame s t \<Longrightarrow> spares X s t"
  by (simp add: spares_def frame_def)

lemma spares_grows: "spares X s t \<Longrightarrow> grows s t"
  by (simp add: spares_def)

lemma spares_register:
  "frame s u \<Longrightarrow> X \<inter> set ids = {} \<Longrightarrow> spares X s (u\<lparr>se_all_ids := se_all_ids u @ ids\<rparr>)"
  by (auto simp: spares_def frame_def grows_def)

lemma spares_stats [simp]: "spares X s (t\<lparr>se_stats := st\<rparr>) = spares X s t"
  by (simp add: spares_def)

lemma ready_spared:
  assumes "ready p dto c s ws" "spares (work_id ` set ws) s t"
  shows "ready p dto c t ws"
  using assms by (auto simp: ready_def spares_def grows_def intro: work_ok_mono)

section \<open>The invariant\<close>

definition nodes_ok :: "string \<Rightarrow> pydict \<Rightarrow> 'w searching \<Rightarrow> bool" where
  "nodes_ok p dto s \<longleftrightarrow>
     (\<forall>n \<in> set (se_beam s) \<union> set (se_waiting s). live_node p dto (se_branch_counter s) n) \<and>
     (\<forall>n \<in> set (se_finished s). node_ok p dto (se_branch_counter s) n) \<and>
     distinct (map bn_branch_id (se_beam s @ se_waiting s))"

lemma nodes_ok_grows: "nodes_ok p dto s \<Longrightarrow> grows s t \<Longrightarrow> nodes_ok p dto t"
  by (auto simp: nodes_ok_def grows_def intro: live_node_mono node_ok_mono)

lemma live_node_ok: "live_node p dto c n \<Longrightarrow> node_ok p dto c n"
  by (simp add: live_node_def)

lemma pending_leaves_set:
  "pending_leaves settled root_turn xs = (settled', ps) \<Longrightarrow> (i, n, aid) \<in> set ps \<Longrightarrow>
     (i, n) \<in> set xs \<and> turn_boundary_settle_action n root_turn = Some aid"
proof (induction settled root_turn xs arbitrary: settled' ps rule: pending_leaves.induct)
  case (2 settled root_turn j m rest)
  then show ?case by (fastforce split: if_splits prod.splits option.splits)
qed simp

lemma settle_action_ok:
  assumes "turn_boundary_settle_action n root_turn = Some aid" "node_ok p dto c n"
  shows "live_node p dto c n \<and> aid \<noteq> []"
  using assms end_turn_available available_id_nonempty
  by (fastforce simp: turn_boundary_settle_action_def live_node_def split: if_splits)

lemma set_leaf_value_ok:
  assumes "\<forall>n \<in> set nodes. node_ok p dto c n"
  shows "\<forall>n \<in> set (set_leaf_value nodes (i, v)). node_ok p dto c n"
proof (cases "i < length nodes")
  case True
  with assms have "node_ok p dto c ((nodes ! i)\<lparr>bn_value := v\<rparr>)" by simp
  with assms show ?thesis
    using set_update_subset_insert [of nodes i "(nodes ! i)\<lparr>bn_value := v\<rparr>"]
    by (auto simp: set_leaf_value_def)
qed (use assms in \<open>simp add: set_leaf_value_def list_update_beyond\<close>)

lemma foldl_set_leaf_value_ok:
  "\<forall>n \<in> set nodes. node_ok p dto c n \<Longrightarrow> \<forall>n \<in> set (foldl set_leaf_value nodes xs). node_ok p dto c n"
proof (induction xs arbitrary: nodes)
  case (Cons x xs)
  from Cons.IH [of "set_leaf_value nodes x"] set_leaf_value_ok [OF Cons.prems, of "fst x" "snd x"]
  show ?case by simp
qed simp

lemma foldl_settle_leaf_ok:
  "\<forall>n \<in> set nodes. node_ok p dto c n \<Longrightarrow>
   \<forall>n \<in> set (foldl (settle_leaf settled) nodes xs). node_ok p dto c n"
proof (induction xs arbitrary: nodes)
  case (Cons x xs)
  obtain i m aid where "x = (i, m, aid)" by (cases x)
  with Cons.prems have "\<forall>n \<in> set (settle_leaf settled nodes x). node_ok p dto c n"
    by (auto simp: settle_leaf_def dest: set_leaf_value_ok [THEN bspec] split: option.splits)
  from Cons.IH [OF this] show ?case by simp
qed simp

lemma extendable_leaf_Some:
  assumes "extendable_leaf (i, n) = Some (j, m, turn, aid)"
  shows "j = i \<and> m = n \<and> bn_root_action_id n \<noteq> None \<and> bn_decision_point_id n \<noteq> [] \<and> aid \<noteq> []"
proof -
  from assms have "end_turn_action_id (bn_dto n) = Some aid"
    by (auto simp: extendable_leaf_def split: if_splits option.splits)
  from available_id_nonempty [OF end_turn_available [OF this]] assms show ?thesis
    by (auto simp: extendable_leaf_def split: if_splits option.splits)
qed

lemma lagging_leaves_ok:
  assumes "(i, n, turn, aid) \<in> set (lagging_leaves nodes)" "\<forall>n \<in> set nodes. node_ok p dto c n"
  shows "n \<in> set nodes \<and> live_node p dto c n \<and> aid \<noteq> [] \<and> bn_root_action_id n \<noteq> None"
proof -
  from assms(1) have "(i, n, turn, aid) \<in> set (List.map_filter extendable_leaf (enumerate 0 nodes))"
    unfolding lagging_leaves_def by (rule subsetD [OF lagging_of_subset])
  then obtain j m where x: "(j, m) \<in> set (enumerate 0 nodes)"
    "extendable_leaf (j, m) = Some (i, n, turn, aid)"
    by (auto simp: set_map_filter)
  then have "m \<in> set nodes" by (auto simp: in_set_enumerate_eq)
  with extendable_leaf_Some [OF x(2)] assms(2) show ?thesis by (simp add: live_node_def)
qed

context search_world
begin

text \<open>what a helper that may confirm branches leaves behind\<close>

abbreviation spared :: "string set \<Rightarrow> 'w searching \<Rightarrow> 'x \<Rightarrow> 'w searching \<Rightarrow> bool" where
  "spared X s \<equiv> \<lambda>_ t. safe t \<and> spares X s t"

lemma collect_fresh:
  fixes g :: "'x \<Rightarrow> ('w, 'k keyed_item) beam"
  assumes "\<And>x s. x \<in> set xs \<Longrightarrow> safe s \<Longrightarrow> c \<le> se_branch_counter s \<Longrightarrow>
      wp (g x) (\<lambda>w t. safe t \<and> frame s t \<and>
        fresh_items (be_prefix en) c (se_branch_counter s) (se_branch_counter t) [w]) (calm s) s"
    and "safe s" "c \<le> se_branch_counter s"
  shows "wp (collect_p g xs) (\<lambda>ws t. safe t \<and> frame s t \<and>
    fresh_items (be_prefix en) c (se_branch_counter s) (se_branch_counter t) ws) (calm s) s"
  using assms
proof (induction xs arbitrary: s)
  case Nil
  then show ?case by (simp add: py_simps fresh_items_def)
next
  case (Cons x xs)
  let ?p = "be_prefix en"
  show ?case
    unfolding collect_p.simps wp_bind
  proof (rule wp_mono [OF Cons.prems(1)])
    fix w :: "'k keyed_item" and t
    assume t: "safe t \<and> frame s t \<and> fresh_items ?p c (se_branch_counter s) (se_branch_counter t) [w]"
    then have le: "se_branch_counter s \<le> se_branch_counter t" by (simp add: frame_def grows_def)
    show "wp (collect_p g xs) (\<lambda>ws. wp (ret_p (w # ws)) (\<lambda>ws t. safe t \<and> frame s t \<and>
        fresh_items ?p c (se_branch_counter s) (se_branch_counter t) ws) (calm s)) (calm s) t"
    proof (rule wp_mono [OF Cons.IH])
      fix ws :: "'k keyed_item list" and u
      assume u: "safe u \<and> frame t u \<and> fresh_items ?p c (se_branch_counter t) (se_branch_counter u) ws"
      then have "se_branch_counter t \<le> se_branch_counter u" by (simp add: frame_def grows_def)
      with fresh_items_append [of ?p c "se_branch_counter s" "se_branch_counter t" "[w]" _ ws] t u le
      show "wp (ret_p (w # ws)) (\<lambda>ws t. safe t \<and> frame s t \<and>
        fresh_items ?p c (se_branch_counter s) (se_branch_counter t) ws) (calm s) u"
        by (auto simp: wp_ret intro: frame_trans)
    qed (use t le Cons.prems in \<open>auto intro: frame_trans\<close>)
  qed (use Cons.prems in auto)
qed

lemma settle_item_wp:
  assumes "safe s" "c \<le> se_branch_counter s" "live_node (be_prefix en) dto c n" "aid \<noteq> []"
  shows "wp (settle_item en (n, aid)) (\<lambda>w t. safe t \<and> frame s t \<and>
    fresh_items (be_prefix en) c (se_branch_counter s) (se_branch_counter t) [w]) (calm s) s"
proof -
  let ?n = "Suc (se_branch_counter s)"
  let ?s = "s\<lparr>se_branch_counter := ?n\<rparr>" and ?b = "branch_id_of (be_prefix en) ?n"
  have own: "own_id (be_prefix en) (se_branch_counter s) ?n ?b" by (rule own_id_new) simp
  have "wp (child_rng_id n) (\<lambda>r :: int. \<lambda>t. safe t \<and> frame s t \<and> fresh_items (be_prefix en) c (se_branch_counter s)
      (se_branch_counter t) [(branch_item (bn_branch_id n) ?b r (bn_decision_point_id n) aid, bn_branch_id n, ?b)])
    (calm s) ?s"
  proof (rule wp_mono [OF child_rng_wp])
    show "safe ?s" using assms(1) by simp
    show "node_ok (be_prefix en) dto c n" using assms(3) by (rule live_node_ok)
  next
    fix r :: int and t assume t: "safe t \<and> frame ?s t \<and> se_branch_counter t = se_branch_counter ?s \<and> 0 < r"
    have "item_ok (be_prefix en) c ?n (branch_item (bn_branch_id n) ?b r (bn_decision_point_id n) aid)"
      using own assms(2,4) t by (intro branch_item_ok [OF assms(3)]) (auto intro: own_id_mono)
    with t own frame_trans [OF frame_bump, of s t]
    show "safe t \<and> frame s t \<and> fresh_items (be_prefix en) c (se_branch_counter s)
      (se_branch_counter t) [(branch_item (bn_branch_id n) ?b r (bn_decision_point_id n) aid, bn_branch_id n, ?b)]"
      by (auto simp: fresh_items_def item_for_def)
  qed simp
  then show ?thesis
    by (simp add: settle_item_def end_turn_item_def py_simps wp_next_branch_id)
qed

lemma align_item_wp:
  assumes "safe s" "c \<le> se_branch_counter s" "live_node (be_prefix en) dto c n" "aid \<noteq> []" "0 < bn_rng_id n"
  shows "wp (align_item en (i, n, turn, aid)) (\<lambda>w t. safe t \<and> frame s t \<and>
    fresh_items (be_prefix en) c (se_branch_counter s) (se_branch_counter t) [w]) (calm s) s"
proof -
  let ?n = "Suc (se_branch_counter s)"
  let ?b = "branch_id_of (be_prefix en) ?n"
  have own: "own_id (be_prefix en) (se_branch_counter s) ?n ?b" by (rule own_id_new) simp
  then have "item_ok (be_prefix en) c ?n (branch_item (bn_branch_id n) ?b (bn_rng_id n) (bn_decision_point_id n) aid)"
    using assms by (intro branch_item_ok [OF assms(3)]) (auto intro: own_id_mono)
  with own assms(1) show ?thesis
    by (simp add: align_item_def py_simps wp_next_branch_id fresh_items_def item_for_def frame_bump)
qed

text \<open>sending items that are ready, and registering their branches\<close>

lemma emulate_items_wp:
  assumes "safe s" "ws \<noteq> []" "batch_fits en (map fst ws)" "ready_items (be_prefix en) c s ws"
  shows "wp (world_p (sc_emulate_actions (be_client en) inst (map fst ws) t opts))
    (\<lambda>_ u. frame s u \<and> safe (u\<lparr>se_all_ids := se_all_ids u @ map keyed_id ws\<rparr>)) (\<lambda>_ u. safe u \<and> frame s u) s"
  by (rule wp_mono [OF emulate_wp [OF assms(1-3), where c = c and f = keyed_id]])
    (use assms(4) in \<open>auto simp: ready_items_def item_for_def still_def\<close>)

lemma settle_scores_wp:
  assumes "safe s"
  shows "wp (settle_scores en resolved acc) (calm s) (calm s) s"
proof -
  have "wp (evaluate_states en (map snd resolved)) (calm s) (calm s) s"
    by (rule wp_mono [OF evaluate_wp [OF assms]]) (auto simp: still_def)
  with assms show ?thesis by (auto simp: settle_scores_def py_simps elim!: wp_mono)
qed

section \<open>Settling keeps the invariant\<close>

lemma frame_register:
  "frame s u \<Longrightarrow> grows s (u\<lparr>se_all_ids := se_all_ids u @ ids\<rparr>)"
  by (auto simp: frame_def grows_def)

lemma settle_chunks_wp:
  assumes "safe s" "ready_items (be_prefix en) c s (concat chunks)"
    and "\<forall>chunk \<in> set chunks. chunk \<noteq> [] \<and> int (length chunk) \<le> max 1 (max_batch_size (be_config en))"
    and "X \<inter> keyed_id ` set (concat chunks) = {}"
  shows "wp (settle_chunks en inst deadline acc chunks) (spared X s) (spared X s) s"
  using assms
proof (induction chunks arbitrary: s acc)
  case Nil
  then show ?case by (simp add: py_simps)
next
  case (Cons chunk chunks)
  let ?p = "be_prefix en" and ?ids = "map keyed_id chunk"
  have ids: "map (snd \<circ> snd) chunk = ?ids" by simp
  have go: "wp (settle_chunks en inst deadline acc' chunks) (spared X s) (spared X s) u"
    if u: "safe u" "spares X s u" "ready_items ?p c u (concat chunks)" for u acc'
    by (rule wp_mono [OF Cons.IH [OF u(1,3)]]) (use u Cons.prems(3,4) in \<open>auto intro: spares_trans\<close>)
  let ?after = "\<lambda>response. then_p (register_branches ?ids)
             (bind_p (lift_p (settled_dtos (mapping_or_empty (dget response ''branch_results'')) (map snd chunk)))
               (\<lambda>resolved.
              bind_p (settle_scores en resolved acc) (\<lambda>acc'.
              then_p (release_settled_branches en inst ?ids deadline)
                (settle_chunks en inst deadline acc' chunks))))"
  have d: "distinct ?ids" using Cons.prems(2) by (simp add: ready_items_def)
  have sp: "X \<inter> set ?ids = {}" using Cons.prems(4) by auto
  have release: "wp (then_p (release_settled_branches en inst ?ids deadline)
        (settle_chunks en inst deadline acc' chunks)) (spared X s) (spared X s) v"
    if v: "safe v" "spares X s v" "ready_items ?p c v (concat chunks)" "set ?ids \<subseteq> set (se_all_ids v)" for v acc'
    unfolding wp_then
    by (rule wp_mono [OF release_settled_wp [OF v(1) d v(4)]])
      (auto intro!: go intro: ready_items_frame [OF v(3)] spares_trans [OF v(2)] frame_spares)
  have tail: "wp (settle_scores en resolved acc) (\<lambda>acc'. wp (then_p (release_settled_branches en inst ?ids deadline)
        (settle_chunks en inst deadline acc' chunks)) (spared X s) (spared X s)) (spared X s) v"
    if v: "safe v" "spares X s v" "ready_items ?p c v (concat chunks)" "set ?ids \<subseteq> set (se_all_ids v)" for v resolved
  proof (rule wp_mono [OF settle_scores_wp [OF v(1)]])
    fix acc' t assume t: "safe t \<and> frame v t"
    then have "se_all_ids t = se_all_ids v" by (simp add: frame_def)
    with t v show "wp (then_p (release_settled_branches en inst ?ids deadline)
        (settle_chunks en inst deadline acc' chunks)) (spared X s) (spared X s) t"
      by (intro release) (auto intro: ready_items_frame [OF v(3)] spares_trans [OF v(2)] frame_spares)
  qed (auto intro: spares_trans [OF v(2)] frame_spares)
  have after: "wp (?after response) (spared X s) (spared X s) u"
    if u: "frame s u" "safe (u\<lparr>se_all_ids := se_all_ids u @ ?ids\<rparr>)" for response u
  proof -
    let ?u = "u\<lparr>se_all_ids := se_all_ids u @ ?ids,
      se_stats := (se_stats u)\<lparr>branches_created := branches_created (se_stats u) + int (length ?ids)\<rparr>\<rparr>"
    have su: "safe ?u" "spares X s ?u" using u spares_register [OF u(1) sp] by simp_all
    have "ready_items ?p c ?u (concat chunks)"
      using ready_items_register [of ?p c s chunk "concat chunks" u] Cons.prems(2) u(1)
      by (simp add: ready_items_def)
    from tail [OF su this] su show ?thesis
      by (auto simp: wp_then wp_bind wp_lift wp_register split: sum.split)
  qed
  have call: "wp (try_else (world_p (sc_emulate_actions (be_client en) inst (map fst chunk) t opts)) ?after
           (\<lambda>e. client_attr client_unusable en (\<lambda>unusable.
              case e of
                RequestRejectedError _ \<Rightarrow> if unusable then ret_p acc else settle_chunks en inst deadline acc chunks
              | TransportError _ _ _ \<Rightarrow> if unusable then ret_p acc else settle_chunks en inst deadline acc chunks
              | _ \<Rightarrow> raise_p e))) (spared X s) (spared X s) u"
    if u: "safe u" "frame s u" for u t opts
    unfolding wp_try_else
  proof (rule wp_mono [OF emulate_items_wp [OF u(1)]])
    show "ready_items ?p c u chunk"
      using ready_items_append [of ?p c s chunk "concat chunks"] Cons.prems(2) u(2)
      by (auto intro: ready_items_frame)
    show "batch_fits en (map fst chunk)" "chunk \<noteq> []"
      using Cons.prems(3) by (auto simp: batch_fits_def)
    fix e v assume v: "safe v \<and> frame u v"
    have "ready_items ?p c v (concat chunks)"
      using ready_items_append [of ?p c s chunk "concat chunks"] Cons.prems(2) u(2) v
      by (auto intro: ready_items_frame frame_trans)
    with v u go [of v acc] show "wp (client_attr client_unusable en (\<lambda>unusable.
              case e of
                RequestRejectedError _ \<Rightarrow> if unusable then ret_p acc else settle_chunks en inst deadline acc chunks
              | TransportError _ _ _ \<Rightarrow> if unusable then ret_p acc else settle_chunks en inst deadline acc chunks
              | _ \<Rightarrow> raise_p e)) (spared X s) (spared X s) v"
      by (auto simp: py_simps intro: frame_trans frame_spares split: exn.split)
  qed (use after u in \<open>auto intro: frame_trans\<close>)
  show ?case
    unfolding settle_chunks.simps wp_bind Let_def ids
    by (rule wp_mono [OF now_wp [OF Cons.prems(1)]])
      (use call in \<open>auto simp: wp_ret intro: frame_spares\<close>)
qed

lemma settle_batch_size_le: "settle_batch_size en s \<le> max 1 (max_batch_size (be_config en))"
  using effective_size_le [of "se_world s"] by (auto simp: settle_batch_size_def Let_def split: option.split)

lemma settle_batch_wp:
  assumes "safe s" "\<forall>(n, aid) \<in> set entries. live_node (be_prefix en) dto (se_branch_counter s) n \<and> aid \<noteq> []"
    and X: "\<forall>b \<in> X. own_id (be_prefix en) 0 (se_branch_counter s) b"
  shows "wp (settle_batch en inst deadline entries) (spared X s) (spared X s) s"
proof -
  let ?p = "be_prefix en" and ?c = "se_branch_counter s"
  have "wp (collect_p (settle_item en) entries) (\<lambda>ws t. safe t \<and> frame s t \<and>
      fresh_items ?p ?c ?c (se_branch_counter t) ws) (calm s) s"
    by (rule collect_fresh [OF _ assms(1) order_refl])
      (use assms(2) in \<open>auto intro!: settle_item_wp\<close>)
  then show ?thesis
    unfolding settle_batch_def wp_bind
  proof (rule wp_mono)
    fix ws :: "settle_work list" and t
    assume t: "safe t \<and> frame s t \<and> fresh_items ?p ?c ?c (se_branch_counter t) ws"
    let ?size = "nat (settle_batch_size en t)"
    have "ready_items ?p ?c t ws"
      using t assms(1) by (intro fresh_items_ready [of en s]) (auto simp: safe_def)
    then have ready: "ready_items ?p ?c t (concat (chunks_of ?size ws))"
      by (cases "0 < ?size") (simp_all add: concat_chunks ready_items_def)
    have "X \<inter> keyed_id ` set ws = {}"
      using t X by (fastforce simp: fresh_items_def dest: own_id_disjoint)
    then have spare: "X \<inter> keyed_id ` set (concat (chunks_of ?size ws)) = {}"
      by (cases "0 < ?size") (simp_all add: concat_chunks)
    have "wp (settle_chunks en inst deadline [] (chunks_of ?size ws)) (spared X t) (spared X t) t"
    proof (rule settle_chunks_wp [OF _ ready _ spare])
      show "\<forall>chunk \<in> set (chunks_of ?size ws). chunk \<noteq> [] \<and> int (length chunk) \<le> max 1 (max_batch_size (be_config en))"
      proof
        fix chunk assume "chunk \<in> set (chunks_of ?size ws)"
        from chunk_length [OF this] settle_batch_size_le [of t]
        show "chunk \<noteq> [] \<and> int (length chunk) \<le> max 1 (max_batch_size (be_config en))" by linarith
      qed
    qed (use t in simp)
    then show "wp (with_p (\<lambda>s. settle_chunks en inst deadline []
        (chunks_of (nat (settle_batch_size en s)) ws))) (spared X s) (spared X s) t"
      unfolding wp_with
      by (rule wp_mono) (use t in \<open>auto intro: spares_trans frame_spares\<close>)
  qed (auto intro: frame_spares)
qed

text \<open>the invariant of the loop\<close>

definition sinv :: "pydict \<Rightarrow> 'w searching \<Rightarrow> bool" where
  "sinv dto s \<longleftrightarrow> safe s \<and> nodes_ok (be_prefix en) dto s"

lemma sinv_grows: "sinv dto s \<Longrightarrow> safe t \<Longrightarrow> grows s t \<Longrightarrow> sinv dto t"
  by (auto simp: sinv_def intro: nodes_ok_grows)

lemma sinv_finished:
  "sinv dto s \<Longrightarrow> \<forall>n \<in> set ns. node_ok (be_prefix en) dto (se_branch_counter s) n \<Longrightarrow>
     sinv dto (s\<lparr>se_finished := ns\<rparr>)"
  by (simp add: sinv_def nodes_ok_def)

lemma sinv_nodes:
  assumes "sinv dto s"
  shows "safe s" "\<forall>n \<in> set (se_beam s). live_node (be_prefix en) dto (se_branch_counter s) n"
    "\<forall>n \<in> set (se_waiting s). live_node (be_prefix en) dto (se_branch_counter s) n"
    "\<forall>n \<in> set (se_finished s). node_ok (be_prefix en) dto (se_branch_counter s) n"
    "distinct (map bn_branch_id (se_beam s @ se_waiting s))"
  using assms by (auto simp: sinv_def nodes_ok_def)

lemma sinv_updates [simp]:
  "sinv dto (s\<lparr>se_settled := x\<rparr>) = sinv dto s" "sinv dto (s\<lparr>se_stats := st\<rparr>) = sinv dto s"
  "sinv dto (s\<lparr>se_prune_step := k\<rparr>) = sinv dto s"
  by (simp_all add: sinv_def nodes_ok_def)

abbreviation kept :: "pydict \<Rightarrow> 'x \<Rightarrow> 'w searching \<Rightarrow> bool" where
  "kept dto \<equiv> \<lambda>_. sinv dto"

abbreviation failed :: "exn \<Rightarrow> 'w searching \<Rightarrow> bool" where
  "failed \<equiv> \<lambda>_. safe"

text \<open>only the finished nodes change, and none of the branches \<open>X\<close> is confirmed\<close>

definition resettles :: "string set \<Rightarrow> 'w searching \<Rightarrow> 'w searching \<Rightarrow> bool" where
  "resettles X s t \<longleftrightarrow> (\<exists>ns. spares X s (t\<lparr>se_finished := ns\<rparr>))"

lemma resettles_frame: "frame s t \<Longrightarrow> resettles X s t"
  unfolding resettles_def by (rule exI [of _ "se_finished t"]) (simp add: frame_spares)

lemma settle_pending_wp:
  assumes "sinv dto s" "\<forall>b \<in> X. own_id (be_prefix en) 0 (se_branch_counter s) b"
  shows "wp (settle_pending_leaves en inst deadline root_turn) (\<lambda>_ t. sinv dto t \<and> resettles X s t) failed s"
proof -
  let ?p = "be_prefix en"
  obtain settled_ids pending where pend:
    "pending_leaves (se_settled s) root_turn (enumerate 0 (se_finished s)) = (settled_ids, pending)"
    by (cases "pending_leaves (se_settled s) root_turn (enumerate 0 (se_finished s))")
  let ?s = "s\<lparr>se_settled := settled_ids\<rparr>"
  have entries: "\<forall>(n, aid) \<in> set (map snd pending). live_node ?p dto (se_branch_counter ?s) n \<and> aid \<noteq> []"
  proof -
    have "live_node ?p dto (se_branch_counter s) n \<and> aid \<noteq> []" if "(i, n, aid) \<in> set pending" for i n aid
    proof -
      from pending_leaves_set [OF pend that] have "n \<in> set (se_finished s)"
        "turn_boundary_settle_action n root_turn = Some aid"
        by (auto simp: in_set_enumerate_eq)
      with sinv_nodes(4) [OF assms(1)] settle_action_ok show ?thesis by blast
    qed
    then show ?thesis by force
  qed
  let ?post = "\<lambda>_ t. sinv dto t \<and> resettles X s t"
  have "wp (settle_batch en inst deadline (map snd pending)) (\<lambda>settled. wp (modify_p
      (\<lambda>s. s\<lparr>se_finished := foldl (settle_leaf settled) (se_finished s) pending\<rparr>)) ?post failed) failed ?s"
  proof (rule wp_mono [OF settle_batch_wp [OF _ entries]])
    show "\<forall>b \<in> X. own_id (be_prefix en) 0 (se_branch_counter ?s) b" using assms(2) by simp
    fix settled t assume t: "safe t \<and> spares X ?s t"
    have inv: "sinv dto t"
      by (rule sinv_grows [of dto ?s]) (use t assms(1) in \<open>simp_all add: spares_def\<close>)
    let ?t = "t\<lparr>se_finished := foldl (settle_leaf settled) (se_finished t) pending\<rparr>"
    have "spares X s (?t\<lparr>se_finished := se_finished t\<rparr>)"
      using t by (simp add: spares_def grows_def)
    then have "resettles X s ?t" unfolding resettles_def by blast
    with sinv_finished [OF inv foldl_settle_leaf_ok [OF sinv_nodes(4) [OF inv]]]
    show "wp (modify_p (\<lambda>s. s\<lparr>se_finished := foldl (settle_leaf settled) (se_finished s) pending\<rparr>)) ?post failed t"
      by (simp add: wp_modify)
  qed (use sinv_nodes(1) [OF assms(1)] in auto)
  moreover have "resettles X s ?s" by (rule resettles_frame) simp
  ultimately show ?thesis
    using assms sinv_nodes(1) [OF assms(1)]
    by (auto simp: settle_pending_leaves_def pend py_simps)
qed

lemma settle_root_wp:
  assumes "sinv dto s" "live_node (be_prefix en) dto (se_branch_counter s) root_node"
    and "bn_branch_id root_node = search_root_id" "bn_dto root_node = dto"
  shows "wp (settle_root_as_a_leaf en inst deadline root_node) (kept dto) failed s"
proof (cases "end_turn_action_id (bn_dto root_node)")
  case None
  then show ?thesis using assms(1) by (simp add: settle_root_as_a_leaf_def py_simps)
next
  case (Some aid)
  note avail = end_turn_available [OF Some]
  have "wp (settle_batch en inst deadline [(root_node, aid)]) (\<lambda>settled.
      wp (case map_of settled (bn_branch_id root_node) of
                None \<Rightarrow> ret_p ()
              | Some (score, dto) \<Rightarrow>
                  modify_p (\<lambda>s. s\<lparr>se_finished := se_finished s @ [settled_root root_node aid score dto]\<rparr>))
        (kept dto) failed) failed s"
  proof (rule wp_mono [OF settle_batch_wp [OF sinv_nodes(1) [OF assms(1)], where X = "{}"]])
    show "\<forall>(n, a) \<in> set [(root_node, aid)]. live_node (be_prefix en) dto (se_branch_counter s) n \<and> a \<noteq> []"
      using assms(2) available_id_nonempty [OF avail] by simp
    fix settled t assume "safe t \<and> spares {} s t"
    then have t: "sinv dto t" by (intro sinv_grows [OF assms(1)]) (simp_all add: spares_def)
    have "node_ok (be_prefix en) dto c (settled_root root_node aid score d)" for c score d
      using avail assms(3,4) by (simp add: node_ok_def settled_root_def)
    with t sinv_nodes(4) [OF t] show "wp (case map_of settled (bn_branch_id root_node) of
                None \<Rightarrow> ret_p ()
              | Some (score, dto) \<Rightarrow>
                  modify_p (\<lambda>s. s\<lparr>se_finished := se_finished s @ [settled_root root_node aid score dto]\<rparr>))
        (kept dto) failed t"
      by (auto simp: py_simps intro!: sinv_finished split: option.split)
  qed auto
  with Some assms(1) show ?thesis
    by (auto simp: settle_root_as_a_leaf_def py_simps)
qed

lemma align_leaves_wp:
  assumes "sinv dto s" "turn_aligned_leaves (be_config en)"
  shows "wp (align_leaf_turns en inst deadline (se_finished s))
    (\<lambda>nodes t. safe t \<and> grows s t \<and> (\<forall>n \<in> set nodes. node_ok (be_prefix en) dto (se_branch_counter t) n)) failed s"
proof (cases "lagging_leaves (se_finished s) = []")
  case True
  then show ?thesis
    using sinv_nodes [OF assms(1)] by (simp add: align_leaf_turns_def py_simps)
next
  case False
  let ?p = "be_prefix en" and ?nodes = "se_finished s" and ?lag = "lagging_leaves (se_finished s)"
  let ?post = "\<lambda>nodes t. safe t \<and> grows s t \<and> (\<forall>n \<in> set nodes. node_ok ?p dto (se_branch_counter t) n)"
  have same: "\<forall>n \<in> set nodes. node_ok ?p dto (se_branch_counter t) n"
    if "grows s t" "\<forall>n \<in> set nodes. node_ok ?p dto (se_branch_counter s) n" for t nodes
    using that by (auto simp: grows_def intro: node_ok_mono)
  have lag: "live_node ?p dto (se_branch_counter s) n \<and> aid \<noteq> [] \<and> 0 < bn_rng_id n"
    if "(i, n, turn, aid) \<in> set ?lag" for i n turn aid
    using lagging_leaves_ok [OF that sinv_nodes(4) [OF assms(1)]]
    by (auto simp: live_node_def node_ok_def)
  let ?call = "\<lambda>works t opts. world_p (sc_emulate_actions (be_client en) inst (map fst works) t opts)"
  let ?done = "\<lambda>aligned scores. foldl set_leaf_value ?nodes (zip (map fst aligned) scores)"
  let ?after = "\<lambda>works response. then_p (register_branches (map (snd \<circ> snd) works))
              (bind_p (lift_p (results_mapping response)) (\<lambda>results.
               bind_p (lift_p (settled_dtos results (map snd works))) (\<lambda>aligned.
               if aligned = [] then ret_p ?nodes
               else
                 bind_p (evaluate_states en (map snd aligned)) (\<lambda>scores.
                 then_p (count_p (\<lambda>t. t\<lparr>leaves_turn_aligned := leaves_turn_aligned t + int (length aligned)\<rparr>))
                   (ret_p (?done aligned scores))))))"
  let ?failed = "\<lambda>e. case e of RequestRejectedError _ \<Rightarrow> ret_p ?nodes | TransportError _ _ _ \<Rightarrow> ret_p ?nodes | _ \<Rightarrow> raise_p e"
  have scored: "wp (evaluate_states en dtos) (\<lambda>scores. wp
      (then_p (count_p (\<lambda>t. t\<lparr>leaves_turn_aligned := leaves_turn_aligned t + int (length aligned)\<rparr>))
         (ret_p (?done aligned scores))) ?post failed) failed u"
    if u: "safe u" "grows s u" for dtos aligned u
  proof (rule wp_mono [OF evaluate_wp [OF u(1)]])
    fix scores t assume "safe t \<and> still u t"
    then have t: "safe t" "grows s t"
      using u by (auto intro: grows_trans frame_grows simp: still_def)
    show "wp (then_p (count_p (\<lambda>t. t\<lparr>leaves_turn_aligned := leaves_turn_aligned t + int (length aligned)\<rparr>))
         (ret_p (?done aligned scores))) ?post failed t"
      using t same [OF t(2) foldl_set_leaf_value_ok [OF sinv_nodes(4) [OF assms(1)]]]
      by (simp add: py_simps)
  qed auto
  have after: "wp (?after works response) ?post failed u"
    if u: "frame s u" "safe (u\<lparr>se_all_ids := se_all_ids u @ map keyed_id works\<rparr>)" for works response u
  proof -
    let ?u = "u\<lparr>se_all_ids := se_all_ids u @ map keyed_id works,
      se_stats := (se_stats u)\<lparr>branches_created := branches_created (se_stats u) + int (length works)\<rparr>\<rparr>"
    have su: "safe ?u" "grows s ?u" using u frame_register [OF u(1), of "map keyed_id works"] by simp_all
    with scored [OF su] same [OF su(2) sinv_nodes(4) [OF assms(1)]] show ?thesis
      by (auto simp: wp_then wp_bind wp_lift wp_register wp_ret comp_def split: sum.split)
  qed
  have call: "wp (try_else (?call works t opts) (?after works) ?failed) ?post failed u"
    if u: "safe u" "frame s u" "ready_items ?p (se_branch_counter s) u works" "works \<noteq> []"
    for works :: "nat keyed_item list" and t opts u
    unfolding wp_try_else
  proof (rule wp_mono [OF emulate_items_wp [OF u(1,4) _ u(3)]])
    show "batch_fits en (map fst works)" using assms(2) by (simp add: batch_fits_def)
    fix e v assume v: "safe v \<and> frame u v"
    then have "grows s v" using u by (auto intro: grows_trans frame_grows)
    with v same [OF this sinv_nodes(4) [OF assms(1)]] show "wp (?failed e) ?post failed v"
      by (auto simp: py_simps split: exn.split)
  qed (use u after in \<open>auto intro: frame_trans\<close>)
  have item: "wp (align_item en x) (\<lambda>w t. safe t \<and> frame v t \<and>
      fresh_items ?p (se_branch_counter s) (se_branch_counter v) (se_branch_counter t) [w]) (calm v) v"
    if "x \<in> set ?lag" "safe v" "se_branch_counter s \<le> se_branch_counter v" for x v
  proof -
    obtain i n turn aid where x: "x = (i, n, turn, aid)" by (cases x)
    with lag [of i n turn aid] that show ?thesis by (auto intro: align_item_wp)
  qed
  have collect: "wp (collect_p (align_item en) ?lag) (\<lambda>works. wp (try_else (?call works t opts) (?after works) ?failed)
      ?post failed) failed u" if u: "safe u" "still s u" for t opts u
  proof -
    have le: "se_branch_counter s \<le> se_branch_counter u" using u(2) by (simp add: still_def)
    from wp_conj [OF collect_fresh [OF item u(1) le] collect_length, of ?lag]
    show ?thesis
    proof (rule wp_mono)
      fix works :: "nat keyed_item list" and v
      assume v: "(safe v \<and> frame u v \<and> fresh_items ?p (se_branch_counter s) (se_branch_counter u)
        (se_branch_counter v) works) \<and> length works = length ?lag"
      then have "ready_items ?p (se_branch_counter s) v works"
        using u(1) by (intro fresh_items_ready [of en u]) (auto simp: safe_def)
      moreover have "frame s v" using v u(2) by (auto simp: still_def intro: frame_trans)
      moreover have "works \<noteq> []" using v False by auto
      ultimately show "wp (try_else (?call works t opts) (?after works) ?failed) ?post failed v"
        using v by (intro call) simp_all
    qed auto
  qed
  show ?thesis
    unfolding align_leaf_turns_def if_not_P [OF False] wp_bind
  proof (rule wp_mono [OF now_still [OF sinv_nodes(1) [OF assms(1)]]])
    fix now t assume t: "safe t \<and> still s t"
    then have "grows s t" by (simp add: still_def frame_grows)
    with t collect [of t] same [OF this sinv_nodes(4) [OF assms(1)]]
    show "wp (if deadline - now \<le> 0 then ret_p ?nodes
        else bind_p (collect_p (align_item en) ?lag) (\<lambda>works.
          try_else (?call works (deadline - now) (simulation_options (be_config en))) (?after works) ?failed)) ?post failed t"
      by (auto simp: wp_ret wp_bind)
  qed auto
qed

end

end
