(* ===== verification/Beam_Loop.thy ===== *)
theory Beam_Loop
  imports Beam_Invariant
begin

text \<open>
  The loop of a search over its plies, in the locale \<open>search_world\<close>: every ply keeps the invariant
  \<open>sinv\<close>, and so do the settling of the leaves, the final cleanup and the whole search.
\<close>

section \<open>The parts of a ply that call nothing\<close>

lemma admit_nodes_ok:
  assumes "admit_nodes itype allowed ns = Inr (b, l)"
  shows "set b \<subseteq> set ns" "set l \<subseteq> set ns" "distinct (map f ns) \<Longrightarrow> distinct (map f b)"
proof -
  have "set b \<subseteq> set ns \<and> set l \<subseteq> set ns \<and> (distinct (map f ns) \<longrightarrow> distinct (map f b))"
    using assms
  proof (induction ns arbitrary: b l)
    case (Cons n ns)
    then obtain b' l' where rec: "admit_nodes itype allowed ns = Inr (b', l')"
      by (auto simp: then_r_eq_Inr)
    with Cons.prems have "b = b' \<or> b = n # b'" "l = l' \<or> l = n # l'"
      by (auto simp: then_r_eq_Inr split: if_splits)
    moreover have "f ` set b' \<subseteq> f ` set ns" using Cons.IH [OF rec] by blast
    ultimately show ?case using Cons.IH [OF rec] Cons.prems by auto
  qed simp
  then show "set b \<subseteq> set ns" "set l \<subseteq> set ns" "distinct (map f ns) \<Longrightarrow> distinct (map f b)" by blast+
qed

lemma fit_to_capacity_ok:
  assumes "fit_to_capacity capacity beam waiting works = fit"
    and works: "distinct (map work_id works)" and nodes: "distinct (map bn_branch_id (beam @ waiting))"
  shows "set (ft_beam fit) \<subseteq> set beam \<and> set (ft_waiting fit) \<subseteq> set waiting \<and>
    set (ft_finished fit) \<subseteq> set beam \<union> set waiting \<and> set (ft_works fit) \<subseteq> set works \<and>
    distinct (map work_id (ft_works fit)) \<and> distinct (map bn_branch_id (ft_beam fit @ ft_waiting fit))"
proof -
  obtain selected ws used limited where f: "fit_parents capacity works 0 beam = (selected, ws, used, limited)"
    by (cases "fit_parents capacity works 0 beam")
  have "distinct (map bn_branch_id beam)" using nodes by simp
  note sub = fit_parents_sub [OF f works this]
  let ?k = "nat (max 0 (capacity - used))"
  have fit: "ft_beam fit = selected" "ft_works fit = ws" "ft_waiting fit = take ?k (sorted_desc bn_value waiting)"
    "set (ft_finished fit) \<subseteq> set beam \<union> set (drop ?k (sorted_desc bn_value waiting))"
    using assms(1) f by (auto simp: fit_to_capacity_def Let_def)
  have take: "set (take ?k (sorted_desc bn_value waiting)) \<subseteq> set waiting"
    using set_take_subset [of ?k "sorted_desc bn_value waiting"] by simp
  have drop: "set (drop ?k (sorted_desc bn_value waiting)) \<subseteq> set waiting"
    using set_drop_subset [of ?k "sorted_desc bn_value waiting"] by simp
  have "distinct (map bn_branch_id (sorted_desc bn_value waiting))"
  proof -
    have "mset (map bn_branch_id (sorted_desc bn_value waiting)) = mset (map bn_branch_id waiting)" by simp
    from mset_eq_imp_distinct_iff [OF this] nodes show ?thesis by simp
  qed
  then have "distinct (map bn_branch_id (take ?k (sorted_desc bn_value waiting)))"
    by (simp add: take_map [symmetric])
  moreover have "bn_branch_id ` set selected \<inter> bn_branch_id ` set (take ?k (sorted_desc bn_value waiting)) = {}"
    using nodes sub take by auto
  ultimately show ?thesis
    using sub fit take drop by auto
qed

lemma fit_frontier_ok:
  assumes "distinct (map work_id works)" "distinct (map bn_branch_id (beam @ waiting))"
    and "fit = fit_whole_run_frontier_to_active_capacity capacity beam waiting works"
  shows "set (ft_beam fit) \<subseteq> set beam \<and> set (ft_waiting fit) \<subseteq> set waiting \<and>
    set (ft_finished fit) \<subseteq> set beam \<union> set waiting \<and> set (ft_works fit) \<subseteq> set works \<and>
    distinct (map work_id (ft_works fit)) \<and> distinct (map bn_branch_id (ft_beam fit @ ft_waiting fit))"
proof (cases capacity)
  case None
  with assms show ?thesis by (simp add: fit_whole_run_frontier_to_active_capacity_def)
next
  case (Some cap)
  with assms(3) have "fit_to_capacity cap beam waiting works = fit"
    by (simp add: fit_whole_run_frontier_to_active_capacity_def)
  from fit_to_capacity_ok [OF this assms(1,2)] show ?thesis .
qed

lemma ready_subset:
  "ready p dto c s ws \<Longrightarrow> set ws' \<subseteq> set ws \<Longrightarrow> distinct (map work_id ws') \<Longrightarrow> ready p dto c s ws'"
  unfolding ready_def by blast

lemma ready_updates [simp]:
  "ready p dto c (t\<lparr>se_beam := ns\<rparr>) ws = ready p dto c t ws"
  "ready p dto c (t\<lparr>se_waiting := ns\<rparr>) ws = ready p dto c t ws"
  "ready p dto c (t\<lparr>se_finished := ns\<rparr>) ws = ready p dto c t ws"
  by (simp_all add: ready_def)

lemma ready_own:
  assumes "ready p dto c s ws" "b \<in> work_id ` set ws"
  shows "own_id p 0 (se_branch_counter s) b"
  using assms by (auto simp: ready_def work_ok_def meta_ok_def intro: own_id_mono)

lemma ready_frame: "ready p dto c s ws \<Longrightarrow> frame s t \<Longrightarrow> ready p dto c t ws"
  by (auto simp: ready_def frame_def grows_def intro: work_ok_mono)

context search_world
begin

lemma resettles_fields:
  assumes "resettles X s t"
  shows "se_beam t = se_beam s" "se_waiting t = se_waiting s" "se_branch_counter s \<le> se_branch_counter t"
  using assms by (auto simp: resettles_def spares_def grows_def)

lemma ready_resettled:
  assumes "ready p dto c s ws" "resettles (work_id ` set ws) s t"
  shows "ready p dto c t ws"
proof -
  from assms(2) obtain ns where "spares (work_id ` set ws) s (t\<lparr>se_finished := ns\<rparr>)"
    by (auto simp: resettles_def)
  from ready_spared [OF assms(1) this] show ?thesis by simp
qed

text \<open>a state of a ply that began when the allocator stood at \<open>c\<close>\<close>

definition ply_ok :: "pydict \<Rightarrow> nat \<Rightarrow> 'w searching \<Rightarrow> bool" where
  "ply_ok dto c t \<longleftrightarrow> sinv dto t \<and> c \<le> se_branch_counter t \<and>
     (\<forall>n \<in> set (se_waiting t). live_node (be_prefix en) dto c n)"

lemma ply_ok_start: "sinv dto s \<Longrightarrow> ply_ok dto (se_branch_counter s) s"
  by (simp add: ply_ok_def sinv_nodes)

lemma ply_ok_grows:
  assumes "ply_ok dto c s" "safe t" "grows s t"
  shows "ply_ok dto c t"
  using assms sinv_grows [of dto s t] by (auto simp: ply_ok_def grows_def)

lemma ply_ok_frame: "ply_ok dto c s \<Longrightarrow> safe t \<Longrightarrow> frame s t \<Longrightarrow> ply_ok dto c t"
  by (rule ply_ok_grows) (auto intro: frame_grows)

lemma ply_ok_resettled: "ply_ok dto c s \<Longrightarrow> sinv dto t \<Longrightarrow> resettles X s t \<Longrightarrow> ply_ok dto c t"
  using resettles_fields [of X s t] by (auto simp: ply_ok_def)

text \<open>a change of the three node lists by sublists\<close>

lemma ply_ok_nodes:
  assumes "ply_ok dto c s" "set b \<subseteq> set (se_beam s)" "set w \<subseteq> set (se_waiting s)"
    and "set f \<subseteq> set (se_finished s) \<union> set (se_beam s) \<union> set (se_waiting s)"
    and "distinct (map bn_branch_id (b @ w))"
  shows "ply_ok dto c (s\<lparr>se_beam := b, se_waiting := w, se_finished := f\<rparr>)"
proof -
  have "sinv dto s" using assms(1) by (simp add: ply_ok_def)
  note nodes = sinv_nodes [OF this]
  have "\<forall>n \<in> set f. node_ok (be_prefix en) dto (se_branch_counter s) n"
    using nodes(2-4) assms(4) live_node_ok by blast
  with nodes assms show ?thesis
    by (auto simp: ply_ok_def sinv_def nodes_ok_def)
qed

lemma ply_ok_shrink:
  assumes "ply_ok dto c s" "set b \<subseteq> set (se_beam s)"
    and "set f \<subseteq> set (se_finished s) \<union> set (se_beam s) \<union> set (se_waiting s)"
    and "distinct (map bn_branch_id (b @ se_waiting s))"
  shows "ply_ok dto c (s\<lparr>se_finished := f, se_beam := b\<rparr>)"
proof -
  have "s\<lparr>se_finished := f, se_beam := b\<rparr> = s\<lparr>se_beam := b, se_waiting := se_waiting s, se_finished := f\<rparr>"
    by simp
  with ply_ok_nodes [OF assms(1,2) order_refl assms(3,4)] show ?thesis by metis
qed

lemma settle_if_boundary_wp:
  assumes "ply_ok dto c s" "\<forall>b \<in> X. own_id (be_prefix en) 0 (se_branch_counter s) b"
  shows "wp (settle_if_boundary en inst deadline root_turn) (\<lambda>_ t. ply_ok dto c t \<and> resettles X s t) failed s"
proof (cases "turn_boundary_scoring (be_config en)")
  case True
  have "sinv dto s" using assms(1) by (simp add: ply_ok_def)
  then have "wp (settle_pending_leaves en inst deadline root_turn) (\<lambda>_ t. ply_ok dto c t \<and> resettles X s t) failed s"
    by (rule wp_return_mono [OF settle_pending_wp [OF _ assms(2)]]) (use assms(1) ply_ok_resettled in blast)
  with True show ?thesis by (simp add: settle_if_boundary_def)
next
  case False
  then show ?thesis
    using assms(1) by (simp add: settle_if_boundary_def py_simps resettles_frame)
qed

lemma ply_ok_safe: "ply_ok dto c s \<Longrightarrow> safe s"
  by (auto simp: ply_ok_def dest: sinv_nodes(1))

text \<open>the second half of \<open>prepare_ply\<close>: fitting the children into the capacity\<close>

abbreviation prepared :: "pydict \<Rightarrow> nat \<Rightarrow> string + work list \<Rightarrow> 'w searching \<Rightarrow> bool" where
  "prepared dto c \<equiv> \<lambda>r t. ply_ok dto c t \<and> (\<forall>ws. r = Inr ws \<longrightarrow> ready (be_prefix en) dto c t ws)"

lemma limited_wp:
  assumes "ply_ok dto c s" "ready (be_prefix en) dto c s ws"
  shows "wp (then_p (settle_if_boundary en inst deadline root_turn)
      (release_unneeded_whole_run_branches en inst deadline))
    (\<lambda>_ t. ply_ok dto c t \<and> ready (be_prefix en) dto c t ws) failed s"
  unfolding wp_then
proof (rule wp_mono [OF settle_if_boundary_wp [OF assms(1)]])
  show "\<forall>b \<in> work_id ` set ws. own_id (be_prefix en) 0 (se_branch_counter s) b"
    using ready_own [OF assms(2)] by blast
  fix x :: unit and t assume "ply_ok dto c t \<and> resettles (work_id ` set ws) s t"
  then have t: "ply_ok dto c t" "ready (be_prefix en) dto c t ws"
    using ready_resettled [OF assms(2)] by auto
  show "wp (release_unneeded_whole_run_branches en inst deadline)
    (\<lambda>_ t. ply_ok dto c t \<and> ready (be_prefix en) dto c t ws) failed t"
    by (rule wp_mono [OF release_unneeded_wp [OF ply_ok_safe [OF t(1)]]])
      (use t in \<open>auto intro: ply_ok_frame ready_frame\<close>)
qed auto

lemma fit_ply_wp:
  assumes "ply_ok dto c s" "ready (be_prefix en) dto c s works"
  shows "wp (fit_ply en inst deadline root_turn works) (prepared dto c) failed s"
proof -
  obtain fit where fit: "fit = fit_whole_run_frontier_to_active_capacity
      (server_active_branch_capacity (be_client en) (se_world s)) (se_beam s) (se_waiting s) works" by blast
  have sinv: "sinv dto s" using assms(1) by (simp add: ply_ok_def)
  have "distinct (map work_id works)" using assms(2) by (simp add: ready_def)
  note ok = fit_frontier_ok [OF this sinv_nodes(5) [OF sinv] fit]
  let ?s = "s\<lparr>se_beam := ft_beam fit, se_waiting := ft_waiting fit, se_finished := se_finished s @ ft_finished fit\<rparr>"
  have s: "ply_ok dto c ?s" by (rule ply_ok_nodes [OF assms(1)]) (use ok in auto)
  have r: "ready (be_prefix en) dto c ?s (ft_works fit)"
    using ready_subset [OF assms(2)] ok by simp
  have "wp (if ft_limited fit then then_p (settle_if_boundary en inst deadline root_turn)
                         (release_unneeded_whole_run_branches en inst deadline)
                  else ret_p True)
     (\<lambda>_ t. ply_ok dto c t \<and> ready (be_prefix en) dto c t (ft_works fit)) failed ?s"
    using limited_wp [OF s r] s r by (simp add: wp_ret)
  then have "wp (if ft_limited fit then then_p (settle_if_boundary en inst deadline root_turn)
                         (release_unneeded_whole_run_branches en inst deadline)
                  else ret_p True)
     (\<lambda>released. wp (ret_p (if \<not> released then Inl ''active_branch_cleanup_failed''
              else if ft_works fit = [] then Inl ''active_branch_capacity''
              else Inr (ft_works fit))) (prepared dto c) failed) failed ?s"
    by (rule wp_return_mono) (simp add: wp_ret)
  then show ?thesis
    unfolding fit_ply_def wp_client_attr wp_with Let_def fit [symmetric]
    by (simp add: wp_then wp_bind set_beam_def set_waiting_def add_finished_def wp_modify split del: if_split)
qed

lemma expand_beam_wp:
  assumes "ply_ok dto (se_branch_counter s) s"
  shows "wp (expand_beam en inst deadline root_turn) (prepared dto (se_branch_counter s)) failed s"
proof -
  let ?c = "se_branch_counter s" and ?p = "be_prefix en"
  have sinv: "sinv dto s" using assms by (simp add: ply_ok_def)
  show ?thesis
    unfolding expand_beam_def wp_with wp_bind
  proof (rule wp_mono [OF propose_frontier_wp [OF sinv_nodes(1,2) [OF sinv]]])
    fix r :: "work list \<times> beam_node list" and t
    assume t: "safe t \<and> frame s t \<and> ready ?p dto ?c t (fst r) \<and> set (snd r) \<subseteq> set (se_beam s)"
    obtain works exhausted where r: "r = (works, exhausted)" by (cases r)
    have pt: "ply_ok dto ?c t" using t by (intro ply_ok_frame [OF assms]) auto
    have same: "se_beam t = se_beam s" using t by (simp add: frame_def grows_def)
    let ?b = "filter (\<lambda>n. bn_branch_id n \<notin> bn_branch_id ` set exhausted) (se_beam s)"
    let ?t = "t\<lparr>se_finished := se_finished t @ filter is_macro_resolved exhausted, se_beam := ?b\<rparr>"
    have "sinv dto t" using pt by (simp add: ply_ok_def)
    from sinv_nodes(5) [OF this] same have "distinct (map bn_branch_id (?b @ se_waiting t))"
      by (auto simp: distinct_map_filter)
    then have u: "ply_ok dto ?c ?t" using t r same by (intro ply_ok_shrink [OF pt]) auto
    moreover have "wp (fit_ply en inst deadline root_turn works) (prepared dto ?c) failed ?t"
      using u by (rule fit_ply_wp) (use t r in simp)
    ultimately show "wp (case r of (works, exhausted) \<Rightarrow>
        then_p (add_finished (filter is_macro_resolved exhausted))
       (then_p (set_beam (filter (\<lambda>n. bn_branch_id n \<notin> bn_branch_id ` set exhausted) (se_beam s)))
       (if works = [] then ret_p (Inl ''no_candidates'') else fit_ply en inst deadline root_turn works)))
      (prepared dto ?c) failed t"
      by (simp add: r wp_then add_finished_def set_beam_def wp_modify wp_ret)
  qed auto
qed

lemma admit_ply_wp:
  assumes "ply_ok dto (se_branch_counter s) s"
  shows "wp (admit_ply en inst deadline root_turn) (prepared dto (se_branch_counter s)) failed s"
proof -
  let ?c = "se_branch_counter s"
  have admitted: "ply_ok dto ?c u \<and> wp (expand_beam en inst deadline root_turn) (prepared dto ?c) failed u"
    if adm: "admit_nodes itype allowed (se_beam s) = Inr (b, l)"
      and u: "u = s\<lparr>se_finished := se_finished s @ l, se_beam := b\<rparr>" for itype allowed b l u
  proof
    note ok = admit_nodes_ok [OF adm]
    have "sinv dto s" using assms by (simp add: ply_ok_def)
    from sinv_nodes(5) [OF this] ok(1) ok(3) [of bn_branch_id]
    have "distinct (map bn_branch_id (b @ se_waiting s))" by auto
    with ok show "ply_ok dto ?c u" unfolding u by (intro ply_ok_shrink [OF assms]) auto
    then show "wp (expand_beam en inst deadline root_turn) (prepared dto ?c) failed u"
      using expand_beam_wp [of dto u] u by simp
  qed
  then show ?thesis
    using ply_ok_safe [OF assms]
    by (auto simp: admit_ply_def wp_ret wp_client_attr wp_with wp_bind wp_then wp_lift add_finished_def
        set_beam_def wp_modify split: sum.split)
qed

lemma prepare_ply_wp:
  assumes "sinv dto s"
  shows "wp (prepare_ply en inst deadline root_turn) (prepared dto (se_branch_counter s)) failed s"
  unfolding prepare_ply_def wp_bind
proof (rule wp_mono [OF now_still [OF sinv_nodes(1) [OF assms]]])
  fix now t assume t: "safe t \<and> still s t"
  then have "ply_ok dto (se_branch_counter s) t" "se_branch_counter t = se_branch_counter s"
    using ply_ok_frame [OF ply_ok_start [OF assms]] by (auto simp: still_def)
  with admit_ply_wp [of dto t]
  show "wp (if deadline \<le> now then ret_p (Inl ''time_budget'') else admit_ply en inst deadline root_turn)
    (prepared dto (se_branch_counter s)) failed t"
    by (simp add: wp_ret)
qed auto

text \<open>the second half of a ply: the next beam\<close>

lemma sinvI:
  assumes "safe t" "\<forall>n \<in> set (se_beam t) \<union> set (se_waiting t). live_node (be_prefix en) dto (se_branch_counter t) n"
    and "\<forall>n \<in> set (se_finished t). node_ok (be_prefix en) dto (se_branch_counter t) n"
    and "distinct (map bn_branch_id (se_beam t @ se_waiting t))"
  shows "sinv dto t"
  using assms by (simp add: sinv_def nodes_ok_def)

lemma prune_step_wp:
  assumes "safe s"
  shows "wp (prune_step en search_id phase deadline frontier)
    (\<lambda>_ t. safe t \<and> survivors_of frontier (se_beam t) \<and> se_waiting t = se_waiting s \<and>
       se_finished t = se_finished s \<and> se_branch_counter t = se_branch_counter s) failed s"
  unfolding prune_step_def wp_bind
  by (rule wp_mono [OF prune_frontier_wp [OF assms]])
    (auto simp: wp_then set_beam_def wp_modify still_def frame_def grows_def)

text \<open>a beam chosen from live nodes, while nothing waits\<close>

lemma prune_step_sinv:
  assumes "safe s" "\<forall>n \<in> set frontier. live_node (be_prefix en) dto (se_branch_counter s) n"
    and "\<forall>n \<in> set (se_finished s). node_ok (be_prefix en) dto (se_branch_counter s) n"
    and "distinct (map bn_branch_id frontier)"
  shows "wp (prune_step en search_id phase deadline frontier) (\<lambda>_ t. sinv dto (t\<lparr>se_waiting := []\<rparr>) \<and>
      se_waiting t = se_waiting s) failed s"
  by (rule wp_mono [OF prune_step_wp [OF assms(1)]])
    (use assms in \<open>auto simp: survivors_of_def intro!: sinvI\<close>)

lemma next_frontier_wp:
  assumes "ply_ok dto c s" "sc_ok (be_prefix en) dto c s sc"
  shows "wp (next_frontier en search_id deadline (so_next sc)) (kept dto) failed s"
proof -
  let ?p = "be_prefix en" and ?hi = "se_branch_counter s" and ?next = "so_next sc"
  let ?cont = "filter continues ?next" and ?stable = "filter (\<lambda>n. \<not> continues n) ?next"
  have sinv: "sinv dto s" using assms(1) by (simp add: ply_ok_def)
  note nodes = sinv_nodes [OF sinv]
  have live: "\<forall>n \<in> set ?next. live_node ?p dto ?hi n" and new: "\<forall>n \<in> set ?next. own_id ?p c ?hi (bn_branch_id n)"
    and dist: "distinct (map bn_branch_id ?next)"
    using assms(2) by (auto simp: sc_ok_def)
  have old: "bn_branch_id n = search_root_id \<or> own_id ?p 0 c (bn_branch_id n)" if "n \<in> set (se_waiting s)" for n
    using assms(1) that by (auto simp: ply_ok_def dest: live_node_parent)
  have apart: "bn_branch_id ` set ?next \<inter> bn_branch_id ` set (se_waiting s) = {}"
    using new old by (fastforce dest: own_id_disjoint)
  have split: "bn_branch_id ` set ?cont \<inter> bn_branch_id ` set ?stable = {}"
    using dist by (auto simp: distinct_map dest: inj_onD)
  note dists = distinct_map_filter [OF dist, of continues] distinct_map_filter [OF dist, of "\<lambda>n. \<not> continues n"]
  show ?thesis
  proof (cases "?cont = []")
    case False
    let ?k = "nat (beam_width (be_config en))"
    have sub: "set (take ?k ?cont) \<subseteq> set ?cont" by (rule set_take_subset)
    have "sinv dto (s\<lparr>se_waiting := se_waiting s @ ?stable, se_beam := take ?k ?cont\<rparr>)"
    proof (rule sinvI)
      have "distinct (map bn_branch_id (take ?k ?cont))" using dists(1) by (simp add: take_map [symmetric])
      moreover have "bn_branch_id ` set (take ?k ?cont) \<subseteq> bn_branch_id ` set ?cont" using sub by blast
      moreover have "bn_branch_id ` set ?cont \<subseteq> bn_branch_id ` set ?next"
        "bn_branch_id ` set ?stable \<subseteq> bn_branch_id ` set ?next" by auto
      moreover have "distinct (map bn_branch_id (se_waiting s))" using nodes(5) by simp
      ultimately have "distinct (map bn_branch_id (take ?k ?cont @ se_waiting s @ ?stable))"
        using dists(2) apart split unfolding map_append distinct_append set_append set_map by blast
      then show "distinct (map bn_branch_id
        (se_beam (s\<lparr>se_waiting := se_waiting s @ ?stable, se_beam := take ?k ?cont\<rparr>) @
         se_waiting (s\<lparr>se_waiting := se_waiting s @ ?stable, se_beam := take ?k ?cont\<rparr>)))" by simp
    qed (use nodes live sub in auto)
    with False show ?thesis
      by (simp add: next_frontier_def Let_def wp_with wp_then set_waiting_def set_beam_def wp_modify)
  next
    case True
    let ?s = "s\<lparr>se_waiting := []\<rparr>"
    have d: "distinct (map bn_branch_id (?stable @ se_waiting s))"
      using dists(2) apart nodes(5) by auto
    have "wp (prune_step en search_id ''stable_frontier'' deadline (?stable @ se_waiting s)) (\<lambda>_ t.
        sinv dto (t\<lparr>se_waiting := []\<rparr>) \<and> se_waiting t = se_waiting ?s) failed ?s"
      by (rule prune_step_sinv) (use nodes live d in auto)
    then have "wp (prune_step en search_id ''stable_frontier'' deadline (?stable @ se_waiting s)) (kept dto) failed ?s"
    proof (rule wp_return_mono)
      fix x :: unit and t assume t: "sinv dto (t\<lparr>se_waiting := []\<rparr>) \<and> se_waiting t = se_waiting ?s"
      then have "t\<lparr>se_waiting := []\<rparr> = t" by (cases t) simp
      with t show "sinv dto t" by simp
    qed
    with True show ?thesis
      by (simp add: next_frontier_def Let_def wp_with wp_then set_waiting_def wp_modify)
  qed
qed

lemma refill_beam_wp:
  assumes "sinv dto s"
  shows "wp (refill_beam en search_id deadline sc) (kept dto) failed s"
proof -
  note nodes = sinv_nodes [OF assms]
  have "wp (prune_step en search_id ''waiting_stable_fallback'' deadline (se_waiting s))
      (\<lambda>_. wp (then_p (set_waiting []) (ret_p (None :: string option))) (kept dto) failed) failed s"
    by (rule wp_return_mono [OF prune_step_sinv])
      (use nodes in \<open>auto simp: wp_then set_waiting_def wp_modify wp_ret\<close>)
  then show ?thesis
    using assms by (simp add: refill_beam_def wp_with wp_then [of "prune_step a b c d e" for a b c d e] wp_ret)
qed

lemma no_survivor_check_wp:
  assumes "safe s"
  shows "wp (no_survivor_check en metas results sc) (\<lambda>_ t. t = s) failed s"
  using assms by (simp add: no_survivor_check_def py_simps split: sum.split)

lemma sinv_calm: "sinv dto s \<Longrightarrow> safe t \<Longrightarrow> frame s t \<Longrightarrow> sinv dto t"
  by (rule sinv_grows) (auto intro: frame_grows)

lemma finish_ply_wp:
  assumes "ply_ok dto c s" "sc_ok (be_prefix en) dto c s sc"
  shows "wp (finish_ply en inst search_id deadline root_turn fatal sc) (kept dto) failed s"
proof -
  let ?s = "s\<lparr>se_finished := se_finished s @ so_finished sc\<rparr>"
  have "sinv dto s" using assms(1) by (simp add: ply_ok_def)
  then have "sinv dto ?s"
    by (rule sinv_finished) (use sinv_nodes(4) [OF \<open>sinv dto s\<close>] assms(2) in \<open>auto simp: sc_ok_def\<close>)
  then have s: "ply_ok dto c ?s" "sc_ok (be_prefix en) dto c ?s sc"
    using assms by (simp_all add: ply_ok_def sc_ok_def)
  have release: "wp (release_unneeded_whole_run_branches en inst deadline) (kept dto) failed t" if "sinv dto t" for t
    by (rule wp_mono [OF release_unneeded_wp [OF sinv_nodes(1) [OF that]]]) (use that sinv_calm in auto)
  have settle: "wp (settle_if_boundary en inst deadline root_turn) (kept dto) failed t" if "sinv dto t" for t
    by (rule wp_return_mono [OF settle_if_boundary_wp [OF ply_ok_start [OF that], of "{}"]]) (auto simp: ply_ok_def)
  have last: "wp (then_p (settle_if_boundary en inst deadline root_turn)
        (bind_p (release_unneeded_whole_run_branches en inst deadline) (\<lambda>released.
         ret_p (if released then None else Some ''active_branch_cleanup_failed'')))) (kept dto) failed t"
    if "sinv dto t" for t
    unfolding wp_then wp_bind
    by (rule wp_return_mono [OF settle [OF that]], rule wp_return_mono [OF release]) (auto simp: wp_ret)
  have refill: "wp (bind_p (refill_beam en search_id deadline sc) (\<lambda>stop. if stop \<noteq> None then ret_p stop else
         then_p (settle_if_boundary en inst deadline root_turn)
        (bind_p (release_unneeded_whole_run_branches en inst deadline) (\<lambda>released.
         ret_p (if released then None else Some ''active_branch_cleanup_failed''))))) (kept dto) failed t"
    if "sinv dto t" for t
    unfolding wp_bind [of "refill_beam en search_id deadline sc"]
    by (rule wp_return_mono [OF refill_beam_wp [OF that]]) (use last in \<open>auto simp: wp_ret\<close>)
  have "wp (next_frontier en search_id deadline (so_next sc)) (\<lambda>_. wp (if fatal \<noteq> None then ret_p fatal else
       then_p (count_p (\<lambda>t. t\<lparr>depths_completed := depths_completed t + 1\<rparr>))
      (bind_p (refill_beam en search_id deadline sc) (\<lambda>stop. if stop \<noteq> None then ret_p stop else
         then_p (settle_if_boundary en inst deadline root_turn)
        (bind_p (release_unneeded_whole_run_branches en inst deadline) (\<lambda>released.
         ret_p (if released then None else Some ''active_branch_cleanup_failed'')))))) (kept dto) failed) failed ?s"
    by (rule wp_return_mono [OF next_frontier_wp [OF s]])
      (use refill in \<open>auto simp: wp_ret wp_then [of "count_p f" for f] wp_count\<close>)
  then show ?thesis
    by (simp add: finish_ply_def wp_then [of "add_finished f" for f] wp_then [of "next_frontier a b c d" for a b c d] add_finished_def wp_modify wp_modify_then)
qed

lemma run_ply_wp:
  assumes "prepared dto c r s"
  shows "wp (run_ply en inst search_id deadline root_turn r) (kept dto) failed s"
proof -
  let ?p = "be_prefix en"
  let ?count = "\<lambda>sc results. count_p (\<lambda>t. t\<lparr>branches_faulted := branches_faulted t + so_faulted sc,
      branches_out_of_scope := branches_out_of_scope t + so_out_of_scope sc,
      nodes_expanded := nodes_expanded t + int (length (results :: pydict))\<rparr>)"
  let ?check = "\<lambda>metas results sc fatal. bind_p (no_survivor_check en metas results sc) (\<lambda>out.
         if out then ret_p (Some ''not_beam_searchable'')
         else finish_ply en inst search_id deadline root_turn fatal sc)"
  have check: "wp (?check metas results sc fatal) (kept dto) failed t"
    if "ply_ok dto c t" "sc_ok ?p dto c t sc" for metas results sc fatal t
    unfolding wp_bind
    by (rule wp_return_mono [OF no_survivor_check_wp [OF ply_ok_safe [OF that(1)]]])
      (use that finish_ply_wp in \<open>auto simp: wp_ret ply_ok_def\<close>)
  have score: "wp (bind_p (score_frontier en metas results root_turn) (\<lambda>sc.
      then_p (?count sc results) (?check metas results sc fatal))) (kept dto) failed t"
    if t: "ply_ok dto c t" "children_ok ?p dto c t metas" for metas results fatal t
    unfolding wp_bind [of "score_frontier en metas results root_turn"]
  proof (rule wp_mono [OF score_frontier_wp [OF ply_ok_safe [OF t(1)] t(2)]])
    show "c \<le> se_branch_counter t" using t(1) by (simp add: ply_ok_def)
    fix sc u assume u: "safe u \<and> still t u \<and> sc_ok ?p dto c u sc"
    have pu: "ply_ok dto c u" using u by (intro ply_ok_frame [OF t(1)]) (auto simp: still_def)
    have "ply_ok dto c (u\<lparr>se_stats := st\<rparr>)" "sc_ok ?p dto c (u\<lparr>se_stats := st\<rparr>) sc" for st
      using pu u by (simp_all add: ply_ok_def sc_ok_def)
    from check [OF this] show "wp (then_p (?count sc results) (?check metas results sc fatal)) (kept dto) failed u"
      by (simp add: wp_then wp_count)
  qed auto
  have emulate: "wp (bind_p (emulate_depth_batch en inst deadline works) (\<lambda>(results, metas, fatal).
      bind_p (score_frontier en metas results root_turn) (\<lambda>sc.
      then_p (?count sc results) (?check metas results sc fatal)))) (kept dto) failed t"
    if t: "ply_ok dto c t" "ready ?p dto c t works" for works t
    unfolding wp_bind [of "emulate_depth_batch en inst deadline works"]
  proof (rule wp_mono [OF emulate_depth_batch_wp [OF ply_ok_safe [OF t(1)] t(2)]])
    show "c \<le> se_branch_counter t" using t(1) by (simp add: ply_ok_def)
    fix r :: "pydict \<times> branch_meta list \<times> string option" and u
    assume u: "safe u \<and> grows t u \<and> children_ok ?p dto c u (fst (snd r))"
    have "ply_ok dto c u" using u by (intro ply_ok_grows [OF t(1)]) auto
    with u score [of u "fst (snd r)"] show "wp (case r of (results, metas, fatal) \<Rightarrow>
      bind_p (score_frontier en metas results root_turn) (\<lambda>sc.
      then_p (?count sc results) (?check metas results sc fatal))) (kept dto) failed u"
      by (simp add: case_prod_beta)
  qed auto
  show ?thesis
    using assms emulate
    by (auto simp: run_ply_def wp_ret ply_ok_def split: sum.split)
qed

lemma search_step_wp:
  assumes "sinv dto s"
  shows "wp (search_step en inst search_id deadline root_turn) (kept dto) failed s"
  unfolding search_step_def wp_bind
  by (rule wp_return_mono [OF prepare_ply_wp [OF assms] run_ply_wp])

lemma search_loop_wp:
  "sinv dto s \<Longrightarrow> wp (search_loop en inst search_id deadline root_turn n) (kept dto) failed s"
proof (induction n arbitrary: s)
  case (Suc n)
  have "wp (search_step en inst search_id deadline root_turn) (\<lambda>stop. wp (if stop \<noteq> None then ret_p stop
      else search_loop en inst search_id deadline root_turn n) (kept dto) failed) failed s"
    by (rule wp_return_mono [OF search_step_wp [OF Suc.prems]]) (use Suc.IH in \<open>auto simp: wp_ret\<close>)
  with Suc.prems show ?case by (simp add: wp_with wp_bind wp_ret)
qed (simp add: wp_ret)

text \<open>the leaves that remain are settled\<close>

definition root_ok :: "pydict \<Rightarrow> beam_node \<Rightarrow> bool" where
  "root_ok dto node \<longleftrightarrow> live_node (be_prefix en) dto 0 node \<and> bn_branch_id node = search_root_id \<and> bn_dto node = dto"

lemma settle_leaves_wp:
  assumes "sinv dto s" "root_ok dto root_node"
  shows "wp (settle_leaves en inst deadline root_turn root_node) (kept dto) failed s"
proof -
  note nodes = sinv_nodes [OF assms(1)]
  let ?s = "s\<lparr>se_finished := se_finished s @ se_waiting s @ filter is_macro_resolved (se_beam s)\<rparr>"
  have s: "sinv dto ?s" using nodes by (intro sinv_finished [OF assms(1)]) (auto intro: live_node_ok)
  have align: "wp (align_leaf_turns en inst deadline (se_finished ?s)) (\<lambda>nodes.
      wp (modify_p (\<lambda>s. s\<lparr>se_finished := nodes\<rparr>)) (kept dto) failed) failed ?s"
    if "turn_aligned_leaves (be_config en)"
  proof (rule wp_mono [OF align_leaves_wp [OF s that]])
    fix nodes t
    assume t: "safe t \<and> grows ?s t \<and> (\<forall>n \<in> set nodes. node_ok (be_prefix en) dto (se_branch_counter t) n)"
    then have "sinv dto t" by (intro sinv_grows [OF s]) auto
    with t show "wp (modify_p (\<lambda>s. s\<lparr>se_finished := nodes\<rparr>)) (kept dto) failed t"
      by (simp add: wp_modify sinv_finished)
  qed auto
  have root: "wp (settle_root_as_a_leaf en inst deadline root_node) (kept dto) failed t" if "sinv dto t" for t
    by (rule settle_root_wp [OF that]) (use assms(2) in \<open>auto simp: root_ok_def intro: live_node_mono\<close>)
  have settle: "wp (settle_pending_leaves en inst deadline root_turn)
      (\<lambda>_. wp (settle_root_as_a_leaf en inst deadline root_node) (kept dto) failed) failed ?s"
    by (rule wp_return_mono [OF settle_pending_wp [OF s, of "{}"]]) (use root in auto)
  show ?thesis
    using align settle s
    by (simp add: settle_leaves_def wp_with wp_then wp_bind add_finished_def wp_modify_then wp_modify wp_ret)
qed

lemma search_body_wp:
  assumes "sinv dto s" "root_ok dto root_node"
  shows "wp (search_body en inst search_id deadline root_turn root_node n) (kept dto) failed s"
  unfolding search_body_def wp_bind
  by (rule wp_return_mono [OF search_loop_wp [OF assms(1)]])
    (auto simp: wp_ret wp_then intro: wp_return_mono [OF settle_leaves_wp [OF _ assms(2)]] split: option.split)

lemma live_ids_ok: "safe s \<Longrightarrow> distinct (live_ids s) \<and> set (live_ids s) \<subseteq> set (se_all_ids s)"
  using safe_distinct by (auto simp: live_ids_def)

text \<open>the cleanup runs in every case; what it keeps is what the body kept\<close>

lemma with_cleanup_wp:
  fixes m :: "('w, 'x) beam"
  assumes "wp m (kept dto) failed s"
  shows "wp (with_cleanup en inst deadline m) (kept dto) failed s"
  unfolding with_cleanup_def wp_try_else
proof (rule wp_mono [OF assms])
  fix x :: 'x and t assume t: "sinv dto t"
  note ids = live_ids_ok [OF sinv_nodes(1) [OF t]]
  show "wp (with_p (\<lambda>s. then_p (cleanup en inst (live_ids s) deadline) (ret_p x))) (kept dto) failed t"
    unfolding wp_with wp_then
    by (rule wp_mono [OF cleanup_wp [OF sinv_nodes(1) [OF t] conjunct1 [OF ids] conjunct2 [OF ids]]])
      (use t sinv_calm in \<open>auto simp: wp_ret\<close>)
next
  fix e t assume t: "safe t"
  note ids = live_ids_ok [OF t]
  show "wp (with_p (\<lambda>s. then_p (try_p (cleanup en inst (live_ids s) deadline)
                    (\<lambda>e'. if is_exception e' then ret_p () else raise_p e'))
            (raise_p e))) (kept dto) failed t"
    unfolding wp_with wp_then wp_try
    by (rule wp_mono [OF cleanup_wp [OF t conjunct1 [OF ids] conjunct2 [OF ids]]])
      (auto simp: wp_ret wp_raise)
qed

text \<open>the whole search\<close>

lemma run_start:
  assumes "J [] (se_world s)" "root_ok dto root_node"
  shows "sinv dto (s\<lparr>se_stats := stats_init, se_all_ids := [], se_released := [], se_settled := [],
       se_beam := [root_node], se_waiting := [], se_finished := [], se_prune_step := 0\<rparr>)"
proof -
  have "live_node (be_prefix en) dto (se_branch_counter s) root_node"
    using assms(2) by (auto simp: root_ok_def intro: live_node_mono)
  then show ?thesis
    using assms(1) by (intro sinvI) (simp_all add: safe_def ids_ok_def)
qed

lemma run_search_wp:
  assumes "J [] (se_world s)" "root_ok dto root_node"
  shows "wp (run_search en inst search_id root_node overall deadline n)
    (\<lambda>r t. sinv dto t \<and> (\<forall>res. r = Some res \<longrightarrow> (\<exists>reason. res = best_result reason t))) failed s"
proof -
  let ?s = "s\<lparr>se_stats := stats_init, se_all_ids := [], se_released := [], se_settled := [],
       se_beam := [root_node], se_waiting := [], se_finished := [], se_prune_step := 0\<rparr>"
  have "sinv dto ?s" by (rule run_start [OF assms])
  from with_cleanup_wp [OF search_body_wp [OF this assms(2)]]
  have "wp (with_cleanup en inst overall (search_body en inst search_id deadline (turn_number (bn_dto root_node)) root_node n))
    (\<lambda>stop. wp (with_p (\<lambda>s. ret_p (case stop of None \<Rightarrow> None | Some reason \<Rightarrow> Some (best_result reason s))))
      (\<lambda>r t. sinv dto t \<and> (\<forall>res. r = Some res \<longrightarrow> (\<exists>reason. res = best_result reason t))) failed) failed ?s"
    by (rule wp_return_mono) (auto simp: wp_with wp_ret split: option.split)
  then show ?thesis
    by (simp add: run_search_def reset_search_def wp_modify_then wp_bind)
qed

text \<open>what a caller knows: the world is kept, and the result was read off the invariant\<close>

definition searched :: "pydict \<Rightarrow> beam_result option \<Rightarrow> 'w searching \<Rightarrow> bool" where
  "searched dto r t \<longleftrightarrow> (\<exists>ids. J ids (se_world t)) \<and>
     (\<forall>res. r = Some res \<longrightarrow> (\<exists>reason. res = empty_result reason \<or>
        (\<forall>n \<in> set (se_finished t). node_ok (be_prefix en) dto (se_branch_counter t) n) \<and>
        res = best_result reason t))"

lemma root_node_ok:
  assumes "search_refusal en w root_decision = Inr None" "dget root_decision ''decision_point_id'' \<noteq> PStr []"
  shows "root_ok (mapping_or_empty (dget root_decision ''masked_emulator_dto''))
    (root_node_of (string_or_empty (dget root_decision ''decision_point_id''))
       (mapping_or_empty (dget root_decision ''masked_emulator_dto'')))"
  using assms
  by (auto simp: search_refusal_def root_ok_def live_node_def node_ok_def root_node_of_def string_or_empty_def
      split: pyval.splits if_splits)

lemma search_wp:
  assumes "J [] (se_world s)" "dget root_decision ''decision_point_id'' \<noteq> PStr []"
  shows "wp (search en inst search_id root_decision timeout n)
    (searched (mapping_or_empty (dget root_decision ''masked_emulator_dto'')))
    (\<lambda>_ t. \<exists>ids. J ids (se_world t)) s"
proof -
  let ?dto = "mapping_or_empty (dget root_decision ''masked_emulator_dto'')"
  let ?err = "\<lambda>_ t. \<exists>ids. J ids (se_world t)"
  have now: "wp (now_p en) (\<lambda>_ t. J [] (se_world t)) ?err t" if "J [] (se_world t)" for t
    using clock [OF that] by (auto simp: now_p_def world_p_def wp_def split: prod.splits)
  have deadlines: "wp (search_deadlines en x) (\<lambda>_ t. J [] (se_world t)) ?err s" for x
    unfolding search_deadlines_def wp_bind
    by (rule wp_return_mono [OF now [OF assms(1)]])
      (auto simp: wp_ret wp_bind intro: wp_return_mono [OF now] split: option.split)
  have run: "wp (run_search en inst search_id (root_node_of (string_or_empty (dget root_decision ''decision_point_id'')) ?dto)
      a b n) (searched ?dto) ?err t"
    if t: "J [] (se_world t)" and go: "search_refusal en (se_world t) root_decision = Inr None" for a b t
  proof (rule wp_mono [OF run_search_wp [OF t root_node_ok [OF go assms(2)]]])
    fix r u assume u: "sinv ?dto u \<and> (\<forall>res. r = Some res \<longrightarrow> (\<exists>reason. res = best_result reason u))"
    then have "safe u" by (auto dest: sinv_nodes(1))
    with u sinv_nodes(4) [of ?dto u] show "searched ?dto r u"
      by (auto simp: searched_def safe_def)
  qed (auto simp: safe_def)
  show ?thesis
    unfolding search_def wp_bind
    using assms(1) run
    by (auto simp: wp_lift wp_with wp_bind wp_ret searched_def
        intro!: wp_return_mono [OF deadlines] split: sum.split option.split)
qed

end

end
