(* ===== verification/Beam_Guarantees.thy ===== *)
theory Beam_Guarantees
  imports Beam_Loop
begin

text \<open>
  What a search guarantees, from the rules of \<open>Beam_Loop\<close>: two instances of \<open>search_world\<close>.  The
  first asks nothing of the world and holds for every engine; the second keeps a log of the calls to
  the client, so that the contract of the locale becomes a statement about every call of a search.
\<close>

section \<open>The best leaf\<close>

lemma first_max_ge: "\<forall>y \<in> set (x # xs). key y \<le> key (first_max key x xs)"
proof (induction xs arbitrary: x)
  case (Cons z zs)
  from Cons.IH [of "if key x < key z then z else x"]
  show ?case by (auto split: if_splits)
qed simp

lemma first_max_first:
  "\<exists>ys zs. x # xs = ys @ first_max key x xs # zs \<and> (\<forall>y \<in> set ys. key y < key (first_max key x xs))"
proof (induction xs arbitrary: x)
  case Nil
  then show ?case by (intro exI [of _ "[]"]) simp
next
  case (Cons z zs)
  let ?w = "if key x < key z then z else x"
  obtain m where m: "m = first_max key ?w zs" "first_max key x (z # zs) = m" by simp
  then obtain ys ws where split: "?w # zs = ys @ m # ws" "\<forall>y \<in> set ys. key y < key m"
    using Cons.IH [of ?w] by auto
  have ge: "key ?w \<le> key m" using first_max_ge [of ?w zs key] m(1) by simp
  have "\<exists>us vs. x # z # zs = us @ m # vs \<and> (\<forall>y \<in> set us. key y < key m)"
  proof (cases "key x < key z")
    case True
    with split ge show ?thesis by (intro exI [of _ "x # ys"] exI [of _ ws]) auto
  next
    case False
    show ?thesis
    proof (cases ys)
      case Nil
      with split False show ?thesis by (intro exI [of _ "[]"] exI [of _ "z # ws"]) auto
    next
      case (Cons y ys')
      with split False have "zs = ys' @ m # ws" "key x < key m" by auto
      with split Cons False show ?thesis by (intro exI [of _ "x # z # ys'"] exI [of _ ws]) auto
    qed
  qed
  with m(2) show ?case by simp
qed

text \<open>\<open>best\<close> is the first best of the actionable leaves\<close>

definition chosen :: "beam_node list \<Rightarrow> beam_node \<Rightarrow> bool" where
  "chosen leaves best \<longleftrightarrow> actionable best \<and>
     (\<exists>before after. leaves = before @ best # after \<and>
        (\<forall>n \<in> set before. actionable n \<longrightarrow> bn_value n < bn_value best) \<and>
        (\<forall>n \<in> set after. actionable n \<longrightarrow> bn_value n \<le> bn_value best))"

lemma filter_split: "filter P xs = ys @ y # zs \<Longrightarrow> \<exists>us vs. xs = us @ y # vs \<and> filter P us = ys \<and> P y \<and> filter P vs = zs"
proof (induction xs arbitrary: ys)
  case (Cons a xs)
  show ?case
  proof (cases "P a \<and> ys = []")
    case True
    with Cons.prems show ?thesis by (intro exI [of _ "[]"] exI [of _ xs]) auto
  next
    case False
    then obtain ys' where ys': "filter P xs = ys' @ y # zs" "ys = (if P a then a # ys' else ys')"
      using Cons.prems by (cases "P a"; cases ys) auto
    from Cons.IH [OF ys'(1)] obtain us vs where "xs = us @ y # vs" "filter P us = ys'" "P y" "filter P vs = zs"
      by blast
    with ys'(2) show ?thesis by (intro exI [of _ "a # us"] exI [of _ vs]) auto
  qed
qed simp

lemma first_max_chosen:
  assumes "filter actionable leaves = n # ns"
  shows "chosen leaves (first_max bn_value n ns)"
proof -
  let ?best = "first_max bn_value n ns"
  obtain ys zs where split: "n # ns = ys @ ?best # zs" "\<forall>y \<in> set ys. bn_value y < bn_value ?best"
    using first_max_first [of n ns bn_value] by blast
  have "filter actionable leaves = ys @ ?best # zs" using assms split(1) by simp
  from filter_split [OF this] obtain us vs where parts: "leaves = us @ ?best # vs"
    "filter actionable us = ys" "actionable ?best" "filter actionable vs = zs" by blast
  have "bn_value y \<le> bn_value ?best" if "y \<in> set zs" for y
    using first_max_ge [of n ns bn_value] split(1) that by auto
  moreover have "y \<in> set ys" if "y \<in> set us" "actionable y" for y using that parts(2) by auto
  moreover have "y \<in> set zs" if "y \<in> set vs" "actionable y" for y using that parts(4) by auto
  ultimately show ?thesis
    using split(2) parts(1,3) unfolding chosen_def by blast
qed

lemma best_result_chosen:
  assumes "best_node (best_result reason s) = Some n"
  shows "chosen (se_finished s) n" "best_root_action_id (best_result reason s) = bn_root_action_id n"
    "best_value (best_result reason s) = Some (bn_value n)"
  using assms by (auto simp: best_result_def Let_def split: list.splits intro: first_max_chosen)

lemma best_result_None:
  assumes "best_node (best_result reason s) = None"
  shows "\<forall>n \<in> set (se_finished s). \<not> actionable n" "best_root_action_id (best_result reason s) = None"
    "best_value (best_result reason s) = None"
  using assms by (auto simp: best_result_def Let_def filter_empty_conv split: list.splits)

section \<open>Any world\<close>

interpretation unconstrained: search_world en "\<lambda>_ _. True" for en :: "'w beam_engine"
  by unfold_locales (auto simp: keeps_def wp_total)

section \<open>Logging the calls of a search\<close>

datatype client_call =
    EmulateCall "pydict list" bool
  | CancelCall "string list"
  | ReleaseCall "string list"

text \<open>the branches confirmed after a call; a batch that was not answered confirms none\<close>

fun after_call :: "string list \<Rightarrow> client_call \<Rightarrow> string list" where
  "after_call ids (EmulateCall items answered) = (if answered then confirmed ids items else ids)"
| "after_call ids (CancelCall _) = ids"
| "after_call ids (ReleaseCall _) = ids"

fun call_ok :: "'w beam_engine \<Rightarrow> string list \<Rightarrow> client_call \<Rightarrow> bool" where
  "call_ok en ids (EmulateCall items _) \<longleftrightarrow> batch_ok (be_prefix en) ids items \<and> batch_fits en items"
| "call_ok en ids (CancelCall bs) \<longleftrightarrow> bs \<noteq> [] \<and> distinct bs \<and> set bs \<subseteq> set ids"
| "call_ok en ids (ReleaseCall bs) \<longleftrightarrow> bs \<noteq> [] \<and> distinct bs \<and> set bs \<subseteq> set ids"

fun calls_ok :: "'w beam_engine \<Rightarrow> string list \<Rightarrow> client_call list \<Rightarrow> bool" where
  "calls_ok en ids [] = True"
| "calls_ok en ids (c # cs) = (call_ok en ids c \<and> calls_ok en (after_call ids c) cs)"

lemma calls_ok_snoc:
  "calls_ok en ids (cs @ [c]) \<longleftrightarrow> calls_ok en ids cs \<and> call_ok en (foldl after_call ids cs) c"
  by (induction cs arbitrary: ids) auto

text \<open>the same client, with a log beside its world\<close>

definition beside :: "('w, exn, 'a) py \<Rightarrow> ('w \<times> 'l, exn, 'a) py" where
  "beside m = (\<lambda>(w, l). case m w of (r, w') \<Rightarrow> (r, (w', l)))"

definition logging :: "(bool \<Rightarrow> client_call) \<Rightarrow> ('w, exn, 'a) py \<Rightarrow> ('w \<times> client_call list, exn, 'a) py" where
  "logging c m = (\<lambda>(w, l). case m w of (r, w') \<Rightarrow> (r, (w', l @ [c (\<not> isl r)])))"

definition logged_client :: "'w search_client \<Rightarrow> ('w \<times> client_call list) search_client" where
  "logged_client cl =
     \<lparr>sc_now = (\<lambda>(w, l). case sc_now cl w of (t, w') \<Rightarrow> (t, (w', l))),
      sc_emulate_actions = (\<lambda>inst items t opts.
        logging (EmulateCall items) (sc_emulate_actions cl inst items t opts)),
      sc_cancel_branches = (\<lambda>inst bs t. logging (\<lambda>_. CancelCall bs) (sc_cancel_branches cl inst bs t)),
      sc_release_branches = (\<lambda>inst bs t. logging (\<lambda>_. ReleaseCall bs) (sc_release_branches cl inst bs t)),
      sc_instance_type = sc_instance_type cl \<circ> fst, sc_max_items = sc_max_items cl \<circ> fst,
      sc_pending_retry = sc_pending_retry cl \<circ> fst, sc_session_invalid = sc_session_invalid cl \<circ> fst\<rparr>"

definition beside_policy :: "'w policy_model \<Rightarrow> ('w \<times> 'l) policy_model" where
  "beside_policy p =
     \<lparr>propose = (\<lambda>actions dto k. beside (propose p actions dto k)),
      propose_batch = (\<lambda>requests k. beside (propose_batch p requests k))\<rparr>"

fun logged_policy :: "'w policy \<Rightarrow> ('w \<times> 'l) policy" where
  "logged_policy (PlainPolicy p) = PlainPolicy (beside_policy p)"
| "logged_policy (CoverageConstrained p) = CoverageConstrained (beside_policy p)"

definition logged_engine :: "'w beam_engine \<Rightarrow> ('w \<times> client_call list) beam_engine" where
  "logged_engine en =
     \<lparr>be_client = logged_client (be_client en), be_policy = logged_policy (be_policy en),
      be_evaluate_batch = (\<lambda>dtos. beside (be_evaluate_batch en dtos)),
      be_select = (\<lambda>views k ctx. beside (be_select en views k ctx)),
      be_config = be_config en, be_prefix = be_prefix en\<rparr>"

lemma logged_engine_simps [simp]:
  "be_config (logged_engine en) = be_config en" "be_prefix (logged_engine en) = be_prefix en"
  "be_client (logged_engine en) = logged_client (be_client en)"
  "batch_fits (logged_engine en) items = batch_fits en items"
  by (simp_all add: logged_engine_def batch_fits_def)

text \<open>the log is in order, and \<open>ids\<close> are the branches it confirms\<close>

definition log_inv :: "'w beam_engine \<Rightarrow> string list \<Rightarrow> 'w \<times> client_call list \<Rightarrow> bool" where
  "log_inv en ids wl \<longleftrightarrow> calls_ok en [] (snd wl) \<and> foldl after_call [] (snd wl) = ids"

lemma keeps_beside [keeps_intro]: "keeps (log_inv en ids) (beside m)"
  by (auto simp: keeps_def beside_def log_inv_def split: prod.splits)

lemma logging_wp:
  assumes "log_inv en ids wl" "\<And>b. call_ok en ids (c b)"
  shows "wp (logging c m) (\<lambda>_. log_inv en (after_call ids (c True))) (\<lambda>_. log_inv en (after_call ids (c False))) wl"
  using assms
  by (auto simp: wp_def logging_def log_inv_def calls_ok_snoc split: prod.splits sum.splits)

lemma keeps_logged_policy:
  "keeps (log_inv en ids) (propose_batch_with_provenance (logged_policy pol) requests k)"
proof (cases pol)
  case (PlainPolicy p)
  then show ?thesis by (auto simp: beside_policy_def intro!: keeps_intro)
next
  case (CoverageConstrained p)
  then show ?thesis
    by (auto simp: beside_policy_def coverage_propose_batch_with_provenance_def intro!: keeps_intro)
qed

interpretation logged: search_world "logged_engine en" "log_inv en" for en :: "'w beam_engine"
proof unfold_locales
  fix ids wl
  show "log_inv en ids wl \<Longrightarrow> log_inv en ids (snd (sc_now (be_client (logged_engine en)) wl))"
    by (auto simp: log_inv_def logged_client_def split: prod.splits)
next
  fix ids requests k
  show "keeps (log_inv en ids) (propose_batch_with_provenance (be_policy (logged_engine en)) requests k)"
    by (simp add: logged_engine_def keeps_logged_policy)
next
  fix ids dtos
  show "keeps (log_inv en ids) (be_evaluate_batch (logged_engine en) dtos)"
    by (simp add: logged_engine_def keeps_beside)
next
  fix ids views k ctx
  show "keeps (log_inv en ids) (be_select (logged_engine en) views k ctx)"
    by (simp add: logged_engine_def keeps_beside)
next
  fix ids wl inst items t opts
  assume "log_inv en ids wl" "batch_ok (be_prefix (logged_engine en)) ids items" "batch_fits (logged_engine en) items"
  then show "wp (sc_emulate_actions (be_client (logged_engine en)) inst items t opts)
      (\<lambda>_. log_inv en (confirmed ids items)) (\<lambda>_. log_inv en ids) wl"
    using logging_wp [of en ids wl "EmulateCall items"] by (simp add: logged_client_def)
next
  fix ids wl bs inst t
  assume "log_inv en ids wl" "bs \<noteq> []" "distinct bs" "set bs \<subseteq> set ids"
  then show "log_inv en ids (snd (sc_cancel_branches (be_client (logged_engine en)) inst bs t wl))"
    "log_inv en ids (snd (sc_release_branches (be_client (logged_engine en)) inst bs t wl))"
    by (auto simp: logged_client_def logging_def log_inv_def calls_ok_snoc split: prod.splits)
qed

section \<open>A clock that advances\<close>

text \<open>
  \<open>time w\<close> is the last time read in \<open>w\<close>: every reading of the clock is at least \<open>d\<close> later than the
  one before, and nothing else turns the clock back.
\<close>

definition never_back :: "('w \<Rightarrow> rat) \<Rightarrow> ('w, exn, 'a) py \<Rightarrow> bool" where
  "never_back time m \<longleftrightarrow> (\<forall>w. time w \<le> time (snd (m w)))"

definition clock_advances :: "'w beam_engine \<Rightarrow> ('w \<Rightarrow> rat) \<Rightarrow> rat \<Rightarrow> bool" where
  "clock_advances en time d \<longleftrightarrow> 0 < d \<and>
     (\<forall>w. time w + d \<le> fst (sc_now (be_client en) w) \<and>
        time (snd (sc_now (be_client en) w)) = fst (sc_now (be_client en) w)) \<and>
     (\<forall>requests k. never_back time (propose_batch_with_provenance (be_policy en) requests k)) \<and>
     (\<forall>dtos. never_back time (be_evaluate_batch en dtos)) \<and>
     (\<forall>views k ctx. never_back time (be_select en views k ctx)) \<and>
     (\<forall>inst items t opts. never_back time (sc_emulate_actions (be_client en) inst items t opts)) \<and>
     (\<forall>inst bs t. never_back time (sc_cancel_branches (be_client en) inst bs t)) \<and>
     (\<forall>inst bs t. never_back time (sc_release_branches (be_client en) inst bs t))"

lemma never_back_keeps: "never_back time m \<Longrightarrow> keeps (\<lambda>w. T \<le> time w) m"
  by (auto simp: never_back_def keeps_def intro: order_trans)

lemma never_back_le: "never_back time m \<Longrightarrow> T \<le> time w \<Longrightarrow> T \<le> time (snd (m w))"
  by (auto simp: never_back_def intro: order_trans)

lemma keeps_wpI': "keeps P m \<Longrightarrow> P s \<Longrightarrow> wp m (\<lambda>_. P) (\<lambda>_. P) s"
  by (simp add: keeps_wp)

lemma clock_world:
  assumes "clock_advances en time d"
  shows "search_world en (\<lambda>_ w. T \<le> time w)"
proof unfold_locales
  fix ids :: "string list" and w and inst items t opts
  assume "T \<le> time w"
  with assms show "wp (sc_emulate_actions (be_client en) inst items t opts) (\<lambda>_ w. T \<le> time w) (\<lambda>_ w. T \<le> time w) w"
    by (intro keeps_wpI' never_back_keeps) (simp_all add: clock_advances_def)
next
  fix w assume "T \<le> time w"
  then have "T \<le> time w + d" using assms by (auto simp: clock_advances_def)
  also have "\<dots> \<le> time (snd (sc_now (be_client en) w))" using assms by (simp add: clock_advances_def)
  finally show "T \<le> time (snd (sc_now (be_client en) w))" .
qed (use assms in \<open>auto simp: clock_advances_def intro: never_back_keeps never_back_le\<close>)

lemma sinv_at:
  assumes "clock_advances en time d" "unconstrained.sinv en dto s" "T \<le> time (se_world s)"
  shows "search_world.sinv en (\<lambda>_ w. T \<le> time w) dto s"
  using assms(2,3)
  by (simp add: search_world.sinv_def [OF clock_world [OF assms(1)]] unconstrained.sinv_def
      search_world.safe_def [OF clock_world [OF assms(1)]] unconstrained.safe_def)

lemma sinv_time:
  assumes "clock_advances en time d" "search_world.sinv en (\<lambda>_ w. T \<le> time w) dto s"
  shows "unconstrained.sinv en dto s" "T \<le> time (se_world s)"
  using assms(2)
  by (simp_all add: search_world.sinv_def [OF clock_world [OF assms(1)]] unconstrained.sinv_def
      search_world.safe_def [OF clock_world [OF assms(1)]] unconstrained.safe_def)

lemma now_time:
  assumes "clock_advances en time d"
  shows "wp (now_p en) (\<lambda>now t. now = time (se_world t) \<and> time (se_world s) + d \<le> now) (\<lambda>_ _. False) s"
  using assms
  by (auto simp: wp_def now_p_def world_p_def clock_advances_def split: prod.splits dest!: spec [of _ "se_world s"])

text \<open>an iteration that goes on has read the clock before the deadline\<close>

lemma search_step_time:
  assumes "clock_advances en time d" "unconstrained.sinv en dto s"
  shows "wp (search_step en inst search_id deadline root_turn)
    (\<lambda>stop t. stop = None \<longrightarrow> unconstrained.sinv en dto t \<and> time (se_world s) + d \<le> time (se_world t) \<and>
       time (se_world s) + d < deadline) (\<lambda>_ _. True) s"
proof -
  let ?T = "time (se_world s) + d"
  let ?post = "\<lambda>stop t. stop = None \<longrightarrow> unconstrained.sinv en dto t \<and> ?T \<le> time (se_world t) \<and> ?T < deadline"
  note world = clock_world [OF assms(1), where T = ?T]
  have go: "wp (admit_ply en inst deadline root_turn)
      (\<lambda>r. wp (run_ply en inst search_id deadline root_turn r) ?post (\<lambda>_ _. True)) (\<lambda>_ _. True) t"
    if t: "unconstrained.sinv en dto t" "?T \<le> time (se_world t)" "?T < deadline" for t
  proof -
    note at = search_world.ply_ok_start [OF world sinv_at [OF assms(1) t(1,2)]]
    have run: "wp (run_ply en inst search_id deadline root_turn r) ?post (\<lambda>_ _. True) u"
      if "search_world.ply_ok en (\<lambda>_ w. ?T \<le> time w) dto c u \<and>
        (\<forall>ws. r = Inr ws \<longrightarrow> ready (be_prefix en) dto c u ws)" for r u c
      by (rule wp_mono [OF search_world.run_ply_wp [OF world that]])
        (use t(3) sinv_time [OF assms(1)] in auto)
    show ?thesis
      by (rule wp_mono [OF search_world.admit_ply_wp [OF world at]]) (use run in auto)
  qed
  have "wp (now_p en) (\<lambda>now. wp (if deadline \<le> now then ret_p (Inl ''time_budget'') else admit_ply en inst deadline root_turn)
      (\<lambda>r. wp (run_ply en inst search_id deadline root_turn r) ?post (\<lambda>_ _. True)) (\<lambda>_ _. True)) (\<lambda>_ _. True) s"
  proof (rule wp_mono [OF wp_conj [OF unconstrained.now_still]])
    show "unconstrained.safe en s" using assms(2) by (simp add: unconstrained.sinv_nodes(1))
    show "wp (now_p en) (\<lambda>now t. now = time (se_world t) \<and> ?T \<le> now) (\<lambda>_ _. False) s"
      by (rule now_time [OF assms(1)])
    fix now t assume t: "(unconstrained.safe en t \<and> still s t) \<and> now = time (se_world t) \<and> ?T \<le> now"
    then have "unconstrained.sinv en dto t"
      by (intro unconstrained.sinv_calm [OF assms(2)]) (auto simp: still_def)
    with go [of t] t show "wp (if deadline \<le> now then ret_p (Inl ''time_budget'') else admit_ply en inst deadline root_turn)
      (\<lambda>r. wp (run_ply en inst search_id deadline root_turn r) ?post (\<lambda>_ _. True)) (\<lambda>_ _. True) t"
      by (auto simp: wp_ret run_ply_def)
  qed auto
  then show ?thesis by (simp only: search_step_def prepare_ply_def wp_bind)
qed

lemma search_loop_returns:
  assumes "clock_advances en time d"
  shows "unconstrained.sinv en dto s \<Longrightarrow> 0 < n \<Longrightarrow> deadline - time (se_world s) \<le> of_nat n * d \<Longrightarrow>
    wp (search_loop en inst search_id deadline root_turn n) (\<lambda>r _. r \<noteq> None) (\<lambda>_ _. True) s"
proof (induction n arbitrary: s)
  case (Suc n)
  have "wp (search_step en inst search_id deadline root_turn) (\<lambda>stop. wp (if stop \<noteq> None then ret_p stop
      else search_loop en inst search_id deadline root_turn n) (\<lambda>r _. r \<noteq> None) (\<lambda>_ _. True)) (\<lambda>_ _. True) s"
  proof (rule wp_mono [OF search_step_time [OF assms Suc.prems(1)]])
    fix stop :: "string option" and t
    assume t: "stop = None \<longrightarrow> unconstrained.sinv en dto t \<and> time (se_world s) + d \<le> time (se_world t) \<and>
       time (se_world s) + d < deadline"
    show "wp (if stop \<noteq> None then ret_p stop else search_loop en inst search_id deadline root_turn n)
      (\<lambda>r _. r \<noteq> None) (\<lambda>_ _. True) t"
    proof (cases stop)
      case None
      with t Suc.prems(3) have "d < of_nat (Suc n) * d" by simp
      moreover have "0 < d" using assms by (simp add: clock_advances_def)
      ultimately have "0 < n" by (cases n) auto
      moreover have "deadline - time (se_world t) \<le> of_nat n * d"
        using None t Suc.prems(3) by (simp add: algebra_simps)
      ultimately show ?thesis using None t by (simp add: Suc.IH del: not_None_eq)
    qed (simp add: wp_ret)
  qed auto
  then show ?case by (simp add: wp_with wp_bind wp_ret)
qed simp

text \<open>the rest of a search keeps what the loop returned\<close>

lemma with_cleanup_result:
  fixes m :: "('w, 'x) beam"
  assumes "wp m (\<lambda>r _. P r) (\<lambda>_ _. True) s"
  shows "wp (with_cleanup en inst deadline m) (\<lambda>r _. P r) (\<lambda>_ _. True) s"
  unfolding with_cleanup_def wp_try_else
proof (rule wp_mono [OF assms])
  fix x :: 'x and t assume "P x"
  then show "wp (with_p (\<lambda>s. then_p (cleanup en inst (live_ids s) deadline) (ret_p x))) (\<lambda>r _. P r) (\<lambda>_ _. True) t"
    unfolding wp_with wp_then wp_ret by (intro wp_mono [OF wp_total]) simp_all
next
  fix e t show "wp (with_p (\<lambda>s. then_p (try_p (cleanup en inst (live_ids s) deadline)
                    (\<lambda>e'. if is_exception e' then ret_p () else raise_p e'))
            (raise_p e))) (\<lambda>r _. P r) (\<lambda>_ _. True) t"
    unfolding wp_with wp_then wp_try wp_raise by (intro wp_mono [OF wp_total]) (simp_all add: wp_ret wp_raise)
qed

lemma search_body_returns:
  assumes "wp (search_loop en inst search_id deadline root_turn n) (\<lambda>r _. r \<noteq> None) (\<lambda>_ _. True) s"
  shows "wp (search_body en inst search_id deadline root_turn root_node n) (\<lambda>r _. r \<noteq> None) (\<lambda>_ _. True) s"
  unfolding search_body_def wp_bind
proof (rule wp_mono [OF assms])
  fix r :: "string option" and t assume "r \<noteq> None"
  then obtain reason where "r = Some reason" by blast
  then show "wp (case r of None \<Rightarrow> ret_p None | Some reason \<Rightarrow>
      then_p (settle_leaves en inst deadline root_turn root_node) (ret_p (Some reason)))
    (\<lambda>r _. r \<noteq> None) (\<lambda>_ _. True) t"
    by (simp add: wp_then wp_ret wp_mono [OF wp_total])
qed simp

lemma search_deadlines_time:
  fixes s :: "'w searching"
  assumes "clock_advances en time d"
  shows "wp (search_deadlines en x) (\<lambda>r t. snd r - time (se_world t) \<le> x) (\<lambda>_ _. False) s"
  unfolding search_deadlines_def wp_bind
proof (rule wp_mono [OF now_time [OF assms]])
  have d: "0 < d" using assms by (simp add: clock_advances_def)
  fix now and t :: "'w searching"
  assume t: "now = time (se_world t) \<and> time (se_world s) + d \<le> now"
  have later: "wp (now_p en) (\<lambda>now'. wp (ret_p (now + x, min (now + x) (now' + b / 1000)))
      (\<lambda>r t. snd r - time (se_world t) \<le> x) (\<lambda>_ _. False)) (\<lambda>_ _. False) t" for b
    by (rule wp_mono [OF now_time [OF assms]]) (use t d in \<open>auto simp: wp_ret\<close>)
  with t show "wp (case time_budget_ms (be_config en) of None \<Rightarrow> ret_p (now + x, now + x)
      | Some budget \<Rightarrow> bind_p (now_p en) (\<lambda>now'. ret_p (now + x, min (now + x) (now' + budget / 1000))))
    (\<lambda>r t. snd r - time (se_world t) \<le> x) (\<lambda>_ _. False) t"
    by (simp add: wp_ret wp_bind split: option.split)
qed simp

section \<open>Evaluating a search\<close>

text \<open>code equations that unfold a method only where it is applied to its state\<close>

lemma combinators_run [code]:
  "ret_p x s = (Inr x, s)" "raise_p e s = (Inl e, s)" "lift_p r s = (r, s)"
  "bind_p m f s = (case m s of (Inl e, t) \<Rightarrow> (Inl e, t) | (Inr x, t) \<Rightarrow> f x t)"
  "with_p g s = g s s" "modify_p h s = (Inr (), h s)"
  "try_p m k s = (case m s of (Inl e, t) \<Rightarrow> k e t | (Inr x, t) \<Rightarrow> (Inr x, t))"
  "try_else m' f' k' s = (case m' s of (Inl e, t) \<Rightarrow> k' e t | (Inr x, t) \<Rightarrow> f' x t)"
  by (simp_all add: ret_p_def raise_p_def lift_p_def bind_p_def with_p_def modify_p_def try_p_def try_else_def)

lemma world_run [code]: "world_p m s = (case m (se_world s) of (r, w) \<Rightarrow> (r, s\<lparr>se_world := w\<rparr>))"
  by (simp add: world_p_def)

lemmas beam_run [code] =
  now_p_def [THEN fun_cong] count_p_def [THEN fun_cong] client_attr_def [THEN fun_cong]
  next_branch_id_def [THEN fun_cong] next_rng_id_def [THEN fun_cong] cleanup_call_def [THEN fun_cong]
  mark_released_def [THEN fun_cong] cleanup_def [THEN fun_cong]
  release_unneeded_whole_run_branches_def [THEN fun_cong]
  release_settled_branches_def [THEN fun_cong] evaluate_states_def [THEN fun_cong]
  child_rng_id_def [THEN fun_cong] propose_frontier_def [THEN fun_cong]
  prune_stable_frontier_def [THEN fun_cong] make_retry_item_def [THEN fun_cong]
  register_branches_def [THEN fun_cong] emulate_depth_batch_def [THEN fun_cong]
  score_entries_def [THEN fun_cong] score_frontier_def [THEN fun_cong]
  end_turn_item_def [THEN fun_cong] align_leaf_turns_def [THEN fun_cong]
  settle_item_def [THEN fun_cong] settle_scores_def [THEN fun_cong] settle_batch_def [THEN fun_cong]
  settle_pending_leaves_def [THEN fun_cong] settle_root_as_a_leaf_def [THEN fun_cong]
  add_finished_def [THEN fun_cong] set_beam_def [THEN fun_cong] set_waiting_def [THEN fun_cong]
  settle_if_boundary_def [THEN fun_cong] fit_ply_def [THEN fun_cong] expand_beam_def [THEN fun_cong]
  admit_ply_def [THEN fun_cong] prepare_ply_def [THEN fun_cong] run_ply_def [THEN fun_cong]
  prune_step_def [THEN fun_cong] next_frontier_def [THEN fun_cong] refill_beam_def [THEN fun_cong]
  no_survivor_check_def [THEN fun_cong] finish_ply_def [THEN fun_cong]
  search_step_def [THEN fun_cong] settle_leaves_def [THEN fun_cong] search_body_def [THEN fun_cong]
  with_cleanup_def [THEN fun_cong] reset_search_def [THEN fun_cong]
  search_deadlines_def [THEN fun_cong] run_search_def [THEN fun_cong] search_def [THEN fun_cong]
  then_p_def [THEN fun_cong] propose_candidates.simps [THEN fun_cong]
  propose_nodes.simps [THEN fun_cong] take_results.simps [THEN fun_cong]
  emulate_chunks.simps [THEN fun_cong] emulate_attempts.simps [THEN fun_cong]
  settle_chunks.simps [THEN fun_cong] search_loop.simps [THEN fun_cong]
  collect_p.simps [THEN fun_cong]

text \<open>
  A decision that offers End Turn only, searched with turn-boundary scoring: nothing can be expanded,
  and the root is settled as a leaf.  The world counts the readings of the clock.
\<close>

definition demo_emulate :: "string \<Rightarrow> pydict list \<Rightarrow> rat \<Rightarrow> pyval \<Rightarrow> (nat, exn, pydict) py" where
  "demo_emulate inst items t opts =
     ret_p [(''branch_results'', PDict (map (\<lambda>item. (string_or_empty (dget item ''branch_id''),
       PDict [(''status'', PStr ''completed''), (''masked_emulator_dto'', PDict [])])) items))]"

definition demo_search_client :: "nat search_client" where
  "demo_search_client =
     \<lparr>sc_now = (\<lambda>w. (of_nat w + 1, Suc w)), sc_emulate_actions = demo_emulate,
      sc_cancel_branches = (\<lambda>_ _ _. ret_p []), sc_release_branches = (\<lambda>_ _ _. ret_p []),
      sc_instance_type = (\<lambda>_. None), sc_max_items = (\<lambda>_. PInt 8),
      sc_pending_retry = (\<lambda>_. False), sc_session_invalid = (\<lambda>_. False)\<rparr>"

definition demo_propose :: "pydict list \<Rightarrow> pydict \<Rightarrow> pyval \<Rightarrow> (nat, exn, proposed list) py" where
  "demo_propose actions dto k = ret_p (map (\<lambda>a. Candidate (plain_candidate (action_id_of a))) actions)"

definition demo_policy :: "nat policy_model" where
  "demo_policy = \<lparr>propose = demo_propose, propose_batch = default_propose_batch demo_propose\<rparr>"

definition demo_config :: beam_config where
  "demo_config =
     \<lparr>beam_width = 2, top_k_actions = 4, max_depth = 2, simulation_options = default_simulation_options,
      time_budget_ms = None, max_batch_size = 1, expand_partial = False,
      release_branches_on_finish = True, beam_searchable_action_types = combat_beam_action_types,
      max_continuation_steps = 2, max_branch_attempts = 2, turn_aligned_leaves = False,
      turn_boundary_scoring = True\<rparr>"

definition demo_engine :: "nat beam_engine" where
  "demo_engine =
     \<lparr>be_client = demo_search_client, be_policy = PlainPolicy demo_policy,
      be_evaluate_batch = (\<lambda>dtos. ret_p (map (\<lambda>_. PInt 2) dtos)),
      be_select = (\<lambda>views k ctx. lift_p (value_top_k_select views k ctx)),
      be_config = demo_config, be_prefix = ''x''\<rparr>"

definition demo_decision :: pydict where
  "demo_decision =
     [(''decision_point_id'', PStr ''d''),
      (''masked_emulator_dto'', PDict [(''legal_actions'',
         PList [PDict [(''action_id'', PStr ''e''), (''action_type'', PStr ''system'')]])])]"

definition idle_search :: "'w \<Rightarrow> 'w searching" where
  "idle_search w =
     \<lparr>se_world = w, se_branch_counter = 0, se_rng_counter = 0, se_stats = stats_init, se_all_ids = [],
      se_released = [], se_settled = [], se_beam = [], se_waiting = [], se_finished = [], se_prune_step = 0\<rparr>"

definition demo_run :: "(exn + beam_result option) \<times> nat searching" where
  "demo_run = search demo_engine ''i'' ''s'' demo_decision (PInt 10) 3 (idle_search 0)"

lemma demo_run_result:
  "map_sum id (map_option (\<lambda>r. (map_option bn_value (best_node r), best_root_action_id r, result_reason r)))
     (fst demo_run) = Inr (Some (Some 2, Some ''e'', ''no_candidates''))"
  by code_simp

definition demo_logged_run :: "(exn + beam_result option) \<times> (nat \<times> client_call list) searching" where
  "demo_logged_run = search (logged_engine demo_engine) ''i'' ''s'' demo_decision (PInt 10) 3 (idle_search (0, []))"

lemma demo_logged_log:
  "snd (se_world (snd demo_logged_run)) =
     [EmulateCall [branch_item search_root_id ''bs-x-1'' 1 ''d'' ''e''] True,
      CancelCall [''bs-x-1''], ReleaseCall [''bs-x-1'']]"
  by code_simp

section \<open>Properties\<close>

text \<open>C2: A search that names a best node names the first best of the actionable leaves it has found
  (leaves whose line is resolved and starts at a root action), with that leaf's value, and its root
  action is an available action of the decision searched: whatever the server, the policy, the value
  model and the pruner return, the search never proposes an action the decision does not offer.\<close>

theorem search_chooses_an_available_action:
  assumes "search en inst search_id root_decision timeout n s = (Inr (Some res), t)"
    and "best_node res = Some node" "dget root_decision ''decision_point_id'' \<noteq> PStr []"
  shows "chosen (se_finished t) node \<and> best_value res = Some (bn_value node) \<and>
    best_root_action_id res = bn_root_action_id node \<and>
    (\<exists>aid. bn_root_action_id node = Some aid \<and>
       aid \<in> set (available_action_ids (mapping_or_empty (dget root_decision ''masked_emulator_dto''))))"
proof -
  let ?dto = "mapping_or_empty (dget root_decision ''masked_emulator_dto'')"
  have "unconstrained.searched en ?dto (Some res) t"
    by (rule wpD_Inr [OF unconstrained.search_wp assms(1)]) (use assms(3) in simp_all)
  then obtain reason where res: "res = best_result reason t"
    and ok: "\<forall>n \<in> set (se_finished t). node_ok (be_prefix en) ?dto (se_branch_counter t) n"
    using assms(2) by (auto simp: unconstrained.searched_def empty_result_def)
  note best = best_result_chosen [OF assms(2) [unfolded res], folded res]
  have "node \<in> set (se_finished t)" "actionable node" using best(1) by (auto simp: chosen_def)
  with ok obtain aid where "bn_root_action_id node = Some aid" "aid \<in> set (available_action_ids ?dto)"
    by (fastforce simp: node_ok_def actionable_def)
  with best show ?thesis by simp
qed

theorem search_chooses_an_available_action_witness:
  "\<exists>res node. fst demo_run = Inr (Some res) \<and> best_node res = Some node \<and> bn_value node = 2 \<and>
     chosen (se_finished (snd demo_run)) node \<and> best_root_action_id res = Some ''e''"
proof -
  obtain res node where res: "fst demo_run = Inr (Some res)" "best_node res = Some node"
    "bn_value node = 2" "best_root_action_id res = Some ''e''"
    using demo_run_result by (cases "fst demo_run") auto
  then have run: "search demo_engine ''i'' ''s'' demo_decision (PInt 10) 3 (idle_search 0) = (Inr (Some res), snd demo_run)"
    by (metis demo_run_def prod.collapse)
  have "dget demo_decision ''decision_point_id'' \<noteq> PStr []" by (simp add: demo_decision_def)
  from search_chooses_an_available_action [OF run res(2) this] res show ?thesis by blast
qed



lemma search_returns:
  assumes "clock_advances en time d" "finite_positive timeout = Inr x" "x \<le> of_nat n * d"
    and "dget root_decision ''decision_point_id'' \<noteq> PStr []"
  shows "fst (search en inst search_id root_decision timeout n s) \<noteq> Inr None"
proof -
  let ?dto = "mapping_or_empty (dget root_decision ''masked_emulator_dto'')"
  let ?root = "root_node_of (string_or_empty (dget root_decision ''decision_point_id'')) ?dto"
  have "0 < x" using assms(2) by (cases timeout rule: finite_positive.cases) (auto split: if_splits)
  with assms(3) have n: "0 < n" by (cases n) auto
  have run: "wp (run_search en inst search_id ?root overall deadline n) (\<lambda>r _. r \<noteq> None) (\<lambda>_ _. True) t"
    if t: "deadline - time (se_world t) \<le> x" "search_refusal en (se_world t) root_decision = Inr None"
    for overall deadline and t :: "'a searching"
  proof -
    let ?t = "t\<lparr>se_stats := stats_init, se_all_ids := [], se_released := [], se_settled := [],
       se_beam := [?root], se_waiting := [], se_finished := [], se_prune_step := 0\<rparr>"
    have "unconstrained.sinv en ?dto ?t"
      by (rule unconstrained.run_start) (use unconstrained.root_node_ok [OF t(2) assms(4)] in simp_all)
    moreover have "deadline - time (se_world ?t) \<le> of_nat n * d" using t(1) assms(3) by simp
    ultimately have "wp (search_loop en inst search_id deadline (turn_number (bn_dto ?root)) n)
        (\<lambda>r _. r \<noteq> None) (\<lambda>_ _. True) ?t"
      using n by (intro search_loop_returns [OF assms(1)])
    from with_cleanup_result [OF search_body_returns [OF this], of en inst overall]
    have "wp (with_cleanup en inst overall (search_body en inst search_id deadline (turn_number (bn_dto ?root)) ?root n))
      (\<lambda>stop. wp (with_p (\<lambda>s. ret_p (case stop of None \<Rightarrow> None | Some reason \<Rightarrow> Some (best_result reason s))))
         (\<lambda>r _. r \<noteq> None) (\<lambda>_ _. True)) (\<lambda>_ _. True) ?t"
      by (rule wp_return_mono) (auto simp: wp_with wp_ret)
    then show ?thesis by (simp add: run_search_def reset_search_def wp_modify_then wp_bind)
  qed
  have "wp (search en inst search_id root_decision timeout n) (\<lambda>r _. r \<noteq> None) (\<lambda>_ _. True) s"
    unfolding search_def wp_bind assms(2) wp_lift sum.case
    by (rule wp_mono [OF search_deadlines_time [OF assms(1), of x s]])
      (use run in \<open>auto simp: wp_with wp_bind wp_lift wp_ret split: sum.split option.split\<close>)
  then show ?thesis by (auto simp: wp_def split: prod.splits)
qed

text \<open>C10: With a clock that advances by at least \<open>d\<close> from one reading to the next, a search ends: the loop
  over the plies needs no more than \<open>timeout / d\<close> iterations (and at least one), so with that much
  fuel a search returns a result or raises, for every server, policy, value model and pruner.\<close>

theorem search_terminates:
  assumes "clock_advances en time d" "finite_positive timeout = Inr x" "x \<le> of_nat n * d"
    and "dget root_decision ''decision_point_id'' \<noteq> PStr []"
  shows "fst (search en inst search_id root_decision timeout n s) \<noteq> Inr None"
  using assms by (rule search_returns)

lemma demo_policy_still: "snd (propose_batch_with_provenance (PlainPolicy demo_policy) requests k w) = w"
proof -
  have "snd (collect_p (\<lambda>(actions, dto). demo_propose actions dto k) requests w) = w"
    by (induction requests arbitrary: w)
      (force simp: demo_propose_def ret_p_def bind_p_def split: prod.splits sum.splits dest: arg_cong [where f = snd])+
  then show ?thesis
    by (auto simp: demo_policy_def default_propose_batch_def bind_p_def raise_p_def lift_p_def
        split: prod.splits sum.splits)
qed

lemma demo_clock_advances: "clock_advances demo_engine of_nat 1"
  using demo_policy_still
  by (auto simp: clock_advances_def never_back_def demo_engine_def demo_search_client_def demo_emulate_def
      ret_p_def lift_p_def)

theorem search_terminates_witness:
  "fst (search demo_engine ''i'' ''s'' demo_decision (PInt 10) 10 (idle_search 0)) \<noteq> Inr None"
  by (rule search_terminates [OF demo_clock_advances, of "PInt 10" 10])
    (simp_all add: float_overflows_def demo_decision_def)

end
