(* ===== verification/Decision_Engine.thy ===== *)
theory Decision_Engine
  imports Event_Branch_Search Heuristic_Selector Heuristic_Value Search_Modes Beam_Guarantees
begin

text \<open>
  \<open>decision/engine.py\<close>: \<open>CombatDecisionEngine\<close>, which takes one decision and commits it: a forced
  single action, the event branch search, the beam search, or the fallback selector, in this order.
  The engine runs in the state of its beam search, whose allocator it shares; \<open>search_id\<close> is the
  \<open>uuid\<close> of the search and \<open>fuel\<close> bounds the plies of the beam, which returns \<open>None\<close> without fuel.
\<close>

section \<open>The engine\<close>

text \<open>
  \<open>_select_fallback\<close> asks the selector for its signature: a selector takes the state, or, as legacy ones,
  only the actions
\<close>

datatype 'w fallback =
    ContextAware "pydict list \<Rightarrow> pydict \<Rightarrow> ('w, exn, pyval) py"
  | Legacy "pydict list \<Rightarrow> ('w, exn, pyval) py"

fun select_fallback :: "'w fallback \<Rightarrow> pydict list \<Rightarrow> pydict \<Rightarrow> ('w, exn, pyval) py" where
  "select_fallback (ContextAware select) actions dto = select actions dto"
| "select_fallback (Legacy select) actions dto = select actions"

record 'w decision_engine =
  de_client :: "'w decision_client"
  de_beam :: "'w beam_engine"
  de_fallback :: "'w fallback"
  de_event_branch_search :: bool
  de_beam_search_enabled :: bool

text \<open>the action types of the search: those of the configuration, which an explicit argument must repeat\<close>

definition resolved_action_types :: "beam_config option \<Rightarrow> string list option \<Rightarrow> exn + string list" where
  "resolved_action_types cfg requested =
     (case (cfg, requested) of
        (None, None) \<Rightarrow> Inr combat_beam_action_types
      | (None, Some types) \<Rightarrow> Inr types
      | (Some c, None) \<Rightarrow> Inr (beam_searchable_action_types c)
      | (Some c, Some types) \<Rightarrow>
          if set types \<noteq> set (beam_searchable_action_types c) then Inl ValueError else Inr types)"

definition resolved_beam_config :: "beam_config option \<Rightarrow> string list option \<Rightarrow> exn + beam_config" where
  "resolved_beam_config cfg requested =
     then_r (case cfg of None \<Rightarrow> resolve_search_mode NoMode PNone | Some c \<Rightarrow> Inr c) (\<lambda>budget.
     then_r (resolved_action_types cfg requested) (\<lambda>types.
       replace_config (budget\<lparr>beam_searchable_action_types := types\<rparr>)))"

text \<open>the models an engine is built with by default\<close>

definition heuristic_evaluate_batch :: "heuristic_value \<Rightarrow> pydict list \<Rightarrow> ('w, exn, pyval list) py" where
  "heuristic_evaluate_batch hv dtos = lift_p (then_r (evaluate_batch hv dtos) (\<lambda>vs. Inr (map (PFloat \<circ> Fin) vs)))"

definition heuristic_fallback :: "'w heuristic_selector \<Rightarrow> 'w fallback" where
  "heuristic_fallback sel =
     ContextAware (\<lambda>actions dto. bind_p (select_action sel actions (Some dto)) (\<lambda>a. ret_p (PDict a)))"

text \<open>
  \<open>__init__\<close>; the prefix of the branch ids is drawn by the allocator of the beam, the default selector
  is the heuristic one that is given
\<close>

definition decision_engine_init ::
  "'w decision_client \<Rightarrow> 'w policy_model option \<Rightarrow> (pydict list \<Rightarrow> ('w, exn, pyval list) py) option \<Rightarrow>
     (prune_view list \<Rightarrow> pyval \<Rightarrow> prune_context \<Rightarrow> ('w, exn, pyval) py) \<Rightarrow> beam_config option \<Rightarrow>
     string list option \<Rightarrow> 'w fallback option \<Rightarrow> 'w heuristic_selector \<Rightarrow> bool \<Rightarrow> pyval \<Rightarrow> string \<Rightarrow>
     exn + 'w decision_engine" where
  "decision_engine_init dc policy valuation pruner cfg types fallback default_selector events enabled prefix =
     (case enabled of
        PBool beam_enabled \<Rightarrow>
          then_r (heuristic_value_init [] []) (\<lambda>hv.
          then_r (resolved_beam_config cfg types) (\<lambda>beam_cfg.
          Inr \<lparr>de_client = dc,
               de_beam = \<lparr>be_client = search_client.truncate dc,
                 be_policy = CoverageConstrained (case policy of None \<Rightarrow> prior_heuristic_policy None | Some p \<Rightarrow> p),
                 be_evaluate_batch = (case valuation of None \<Rightarrow> heuristic_evaluate_batch hv | Some v \<Rightarrow> v),
                 be_select = pruner, be_config = beam_cfg, be_prefix = prefix\<rparr>,
               de_fallback = (case fallback of None \<Rightarrow> heuristic_fallback default_selector | Some f \<Rightarrow> f),
               de_event_branch_search = events, de_beam_search_enabled = beam_enabled\<rparr>))
      | _ \<Rightarrow> Inl TypeError)"

record decision_outcome =
  do_decision :: pydict
  do_chosen :: "string option"
  do_source :: string
  do_beam_result :: "beam_result option"

section \<open>Reading the decision\<close>

text \<open>the loop over \<open>legal_actions\<close> with the action ids seen so far\<close>

fun validated_actions :: "string list \<Rightarrow> pyval list \<Rightarrow> exn + pydict list" where
  "validated_actions seen [] = Inr []"
| "validated_actions seen (v # vs) =
     (case v of
        PDict action \<Rightarrow>
          (case nonempty_str_opt (dget action ''action_id'') of
             None \<Rightarrow> Inl RuntimeError
           | Some aid \<Rightarrow>
               if aid \<in> set seen then Inl RuntimeError
               else if dhas action ''is_available'' \<and> \<not> is_bool (dget action ''is_available'') then Inl RuntimeError
               else then_r (validated_actions (aid # seen) vs) (\<lambda>actions. Inr (action # actions)))
      | _ \<Rightarrow> Inl RuntimeError)"

definition decision_actions :: "pydict \<Rightarrow> exn + pydict list" where
  "decision_actions dto =
     (case dget dto ''legal_actions'' of
        PNone \<Rightarrow> if dget dto ''run_terminal'' = PBool True then Inr [] else Inl RuntimeError
      | PList vs \<Rightarrow> then_r (validated_actions [] vs) (\<lambda>actions. Inr (available_actions actions))
      | _ \<Rightarrow> Inl RuntimeError)"

text \<open>the decision as a mapping, its decision point, its state and its available actions\<close>

definition read_decision :: "pyval \<Rightarrow> exn + pydict \<times> string \<times> pydict \<times> pydict list" where
  "read_decision raw =
     (case raw of
        PDict decision \<Rightarrow>
          (case nonempty_str_opt (dget decision ''decision_point_id'') of
             None \<Rightarrow> Inl RuntimeError
           | Some dp \<Rightarrow>
               (case dget decision ''masked_emulator_dto'' of
                  PDict dto \<Rightarrow> then_r (decision_actions dto) (\<lambda>actions. Inr (decision, dp, dto, actions))
                | _ \<Rightarrow> Inl RuntimeError))
      | _ \<Rightarrow> Inl RuntimeError)"

section \<open>Deciding\<close>

definition deadline_from_timeout :: "'w decision_engine \<Rightarrow> pyval \<Rightarrow> ('w, rat) beam" where
  "deadline_from_timeout de timeout_s =
     bind_p (lift_p (finite_positive timeout_s)) (\<lambda>timeout.
     bind_p (now_p (de_beam de)) (\<lambda>now. ret_p (now + timeout)))"

text \<open>\<open>client.get_decision(..., timeout_s=timeout_s)\<close>, unless the caller has the decision\<close>

definition fetch_decision :: "'w decision_engine \<Rightarrow> string \<Rightarrow> pyval \<Rightarrow> pyval \<Rightarrow> ('w, pyval) beam" where
  "fetch_decision de inst timeout_s decision =
     (case decision of
        PNone \<Rightarrow> bind_p (lift_p (finite_positive timeout_s)) (\<lambda>timeout.
                  world_p (dc_get_decision (de_client de) inst search_root_id timeout))
      | _ \<Rightarrow> ret_p decision)"

definition decide_event ::
  "'w decision_engine \<Rightarrow> string \<Rightarrow> string \<Rightarrow> pydict list \<Rightarrow> rat \<Rightarrow> ('w, string option) beam" where
  "decide_event de inst dp actions deadline =
     (if de_event_branch_search de \<and>
         (\<exists>a \<in> set actions. dget a ''action_type'' = PStr ''choice_event_option'')
      then bind_p (now_p (de_beam de)) (\<lambda>now.
             if 0 < deadline - now
             then world_p (best_event_option (de_client de) inst dp actions (PFloat (Fin (deadline - now))))
             else ret_p None)
      else ret_p None)"

definition beam_result_is_actionable :: "beam_result \<Rightarrow> bool" where
  "beam_result_is_actionable res \<longleftrightarrow>
     best_root_action_id res \<noteq> None \<and>
     (let incomplete = (result_reason res = ''time_budget'' \<or>
            take (length ''emulate_actions_rejected:'') (result_reason res) = ''emulate_actions_rejected:'')
      in \<not> incomplete \<or>
         (case best_node res of None \<Rightarrow> False | Some node \<Rightarrow> bn_depth node \<le> depths_completed (result_stats res)))"

text \<open>the outer option is the fuel of the search, the inner one the result when the beam was run\<close>

definition decide_beam ::
  "'w decision_engine \<Rightarrow> string \<Rightarrow> string \<Rightarrow> pydict \<Rightarrow> rat \<Rightarrow> nat \<Rightarrow> ('w, beam_result option option) beam" where
  "decide_beam de inst search_id decision deadline fuel =
     bind_p (now_p (de_beam de)) (\<lambda>now.
       if de_beam_search_enabled de \<and> 0 < deadline - now
       then bind_p (search (de_beam de) inst search_id decision (PFloat (Fin (deadline - now))) fuel) (\<lambda>r.
              ret_p (map_option Some r))
       else ret_p (Some None))"

definition check_fallback :: "pydict list \<Rightarrow> pyval \<Rightarrow> exn + string" where
  "check_fallback actions choice =
     (case choice of
        PDict a \<Rightarrow>
          (case nonempty_str_opt (dget a ''action_id'') of
             None \<Rightarrow> Inl RuntimeError
           | Some aid \<Rightarrow>
               if PStr aid \<in> (\<lambda>b. dget b ''action_id'') ` set actions then Inr aid else Inl RuntimeError)
      | _ \<Rightarrow> Inl RuntimeError)"

definition decide_fallback :: "'w decision_engine \<Rightarrow> pydict list \<Rightarrow> pydict \<Rightarrow> ('w, string) beam" where
  "decide_fallback de actions dto =
     bind_p (world_p (select_fallback (de_fallback de) actions dto)) (\<lambda>choice.
       lift_p (check_fallback actions choice))"

definition outcome :: "pydict \<Rightarrow> string option \<Rightarrow> string \<Rightarrow> beam_result option \<Rightarrow> decision_outcome" where
  "outcome decision choice source result =
     \<lparr>do_decision = decision, do_chosen = choice, do_source = source, do_beam_result = result\<rparr>"

definition decide_search ::
  "'w decision_engine \<Rightarrow> string \<Rightarrow> string \<Rightarrow> pydict \<times> string \<times> pydict \<times> pydict list \<Rightarrow> rat \<Rightarrow> nat \<Rightarrow>
     ('w, decision_outcome option) beam" where
  "decide_search de inst search_id = (\<lambda>(decision, dp, dto, actions) deadline fuel.
     bind_p (decide_event de inst dp actions deadline) (\<lambda>event.
     case event of
       Some aid \<Rightarrow> ret_p (Some (outcome decision (Some aid) ''event_branch_search'' None))
     | None \<Rightarrow>
         bind_p (decide_beam de inst search_id decision deadline fuel) (\<lambda>searched.
         case searched of
           None \<Rightarrow> ret_p None
         | Some result \<Rightarrow>
             (case result of
                Some res \<Rightarrow>
                  if beam_result_is_actionable res
                  then ret_p (Some (outcome decision (best_root_action_id res) ''beam_search'' (Some res)))
                  else bind_p (decide_fallback de actions dto) (\<lambda>aid.
                         ret_p (Some (outcome decision (Some aid) ''heuristic_fallback'' (Some res))))
              | None \<Rightarrow>
                  bind_p (decide_fallback de actions dto) (\<lambda>aid.
                    ret_p (Some (outcome decision (Some aid) ''heuristic_fallback'' None)))))))"

definition decide ::
  "'w decision_engine \<Rightarrow> string \<Rightarrow> string \<Rightarrow> pyval \<Rightarrow> pyval \<Rightarrow> nat \<Rightarrow> ('w, decision_outcome option) beam" where
  "decide de inst search_id timeout_s decision fuel =
     bind_p (deadline_from_timeout de timeout_s) (\<lambda>deadline.
     bind_p (fetch_decision de inst timeout_s decision) (\<lambda>raw.
     bind_p (lift_p (read_decision raw)) (\<lambda>(current, dp, dto, actions).
     case actions of
       [] \<Rightarrow> ret_p (Some (outcome current None ''none'' None))
     | [only] \<Rightarrow>
         (case nonempty_str_opt (dget only ''action_id'') of
            None \<Rightarrow> raise_p RuntimeError
          | Some aid \<Rightarrow> ret_p (Some (outcome current (Some aid) ''forced_single_action'' None)))
     | _ \<Rightarrow> decide_search de inst search_id (current, dp, dto, actions) deadline fuel)))"

definition commit_decision ::
  "'w decision_engine \<Rightarrow> string \<Rightarrow> rat \<Rightarrow> decision_outcome \<Rightarrow> ('w, pydict) beam" where
  "commit_decision de inst deadline out =
     (case do_chosen out of
        None \<Rightarrow> raise_p (NoAvailableActionError (PDict (do_decision out)))
      | Some aid \<Rightarrow>
          bind_p (now_p (de_beam de)) (\<lambda>now.
            if deadline - now \<le> 0 then raise_p (TransportError TransportPlain False None)
            else world_p (dc_commit_action (de_client de) inst
                   (string_or_empty (dget (do_decision out) ''decision_point_id'')) aid (deadline - now))))"

definition decide_and_commit ::
  "'w decision_engine \<Rightarrow> string \<Rightarrow> string \<Rightarrow> pyval \<Rightarrow> pyval \<Rightarrow> nat \<Rightarrow> ('w, pydict option) beam" where
  "decide_and_commit de inst search_id timeout_s decision fuel =
     bind_p (deadline_from_timeout de timeout_s) (\<lambda>deadline.
     bind_p (now_p (de_beam de)) (\<lambda>now.
       if deadline - now \<le> 0 then raise_p (TransportError TransportPlain False None)
       else bind_p (decide de inst search_id (PFloat (Fin (deadline - now))) decision fuel) (\<lambda>result.
         case result of
           None \<Rightarrow> ret_p None
         | Some out \<Rightarrow> bind_p (commit_decision de inst deadline out) (\<lambda>r. ret_p (Some r)))))"

section \<open>Facts about the decision read\<close>

lemma validated_actions_sound:
  "validated_actions seen vs = Inr actions \<Longrightarrow>
     vs = map PDict actions \<and> distinct (map (\<lambda>a. dget a ''action_id'') actions) \<and>
     (\<forall>a \<in> set actions. \<exists>aid. dget a ''action_id'' = PStr aid \<and> aid \<noteq> [] \<and> aid \<notin> set seen)"
proof (induction vs arbitrary: seen actions)
  case (Cons v vs)
  then obtain a aid rest where v: "v = PDict a" "dget a ''action_id'' = PStr aid" "aid \<noteq> []" "aid \<notin> set seen"
    and rest: "validated_actions (aid # seen) vs = Inr rest" "actions = a # rest"
    by (auto simp: then_r_eq_Inr split: pyval.splits option.splits if_splits)
  with Cons.IH [OF rest(1)] show ?case by force
qed simp

text \<open>the actions of a decision that was read: available, with distinct ids, and all that are available\<close>

definition actions_read :: "pydict \<Rightarrow> pydict list \<Rightarrow> bool" where
  "actions_read dto actions \<longleftrightarrow> distinct (map (\<lambda>a. dget a ''action_id'') actions) \<and>
     (\<forall>a \<in> set actions. is_available a \<and> (\<exists>aid. dget a ''action_id'' = PStr aid \<and> aid \<noteq> [])) \<and>
     (\<forall>aid \<in> set (available_action_ids dto). \<exists>a \<in> set actions. dget a ''action_id'' = PStr aid)"

lemma decision_actions_read:
  assumes "decision_actions dto = Inr actions"
  shows "actions_read dto actions"
proof (cases "dget dto ''legal_actions''")
  case (PList vs)
  with assms obtain all where all: "validated_actions [] vs = Inr all" and actions: "actions = available_actions all"
    by (auto simp: decision_actions_def then_r_eq_Inr)
  note sound = validated_actions_sound [OF all]
  have "legal_action_mappings dto = all"
    using PList sound by (simp add: legal_action_mappings_def map_filter_def comp_def)
  moreover have "distinct (map (\<lambda>a. dget a ''action_id'') actions)"
    using sound by (simp add: actions available_actions_def distinct_map_filter)
  ultimately show ?thesis
    using sound by (fastforce simp: actions_read_def actions available_actions_def available_action_ids_def map_filter_def)
qed (use assms in \<open>auto simp: decision_actions_def actions_read_def available_action_ids_def legal_action_mappings_def
    map_filter_def split: if_splits\<close>)

lemma read_decision_Inr:
  "read_decision raw = Inr (decision, dp, dto, actions) \<Longrightarrow>
     raw = PDict decision \<and> dget decision ''decision_point_id'' = PStr dp \<and> dp \<noteq> [] \<and>
     dget decision ''masked_emulator_dto'' = PDict dto \<and> actions_read dto actions"
  by (auto simp: read_decision_def then_r_eq_Inr decision_actions_read split: pyval.splits option.splits)

section \<open>What is decided\<close>

text \<open>the action is one of those read\<close>

definition offered :: "pydict list \<Rightarrow> string \<Rightarrow> bool" where
  "offered actions aid \<longleftrightarrow> (\<exists>a \<in> set actions. dget a ''action_id'' = PStr aid)"

lemma search_returns_offered:
  assumes "dget decision ''decision_point_id'' = PStr dp" "dp \<noteq> []"
    and "dget decision ''masked_emulator_dto'' = PDict dto" "actions_read dto actions"
  shows "returns (\<lambda>r. \<forall>res aid. r = Some res \<longrightarrow> best_root_action_id res = Some aid \<longrightarrow> offered actions aid)
    (search en inst search_id decision timeout fuel)"
  unfolding returns_def
proof (intro allI impI)
  fix s r t res aid
  assume run: "search en inst search_id decision timeout fuel s = (Inr r, t)" and res: "r = Some res"
    and aid: "best_root_action_id res = Some aid"
  have "unconstrained.searched en dto r t"
    using wpD_Inr [OF unconstrained.search_wp run] assms(1-3) by simp
  with res aid obtain reason where best: "res = best_result reason t"
    and ok: "\<forall>n \<in> set (se_finished t). node_ok (be_prefix en) dto (se_branch_counter t) n"
    by (auto simp: unconstrained.searched_def empty_result_def)
  from aid obtain node where node: "best_node res = Some node" "bn_root_action_id node = Some aid"
    by (auto simp: best best_result_def Let_def split: list.splits)
  note choice = best_result_chosen [OF node(1) [unfolded best], folded best]
  then have "node \<in> set (se_finished t)" "actionable node" by (auto simp: chosen_def)
  with ok node(2) have "aid \<in> set (available_action_ids dto)"
    by (fastforce simp: node_ok_def actionable_def)
  with assms(4) show "offered actions aid" by (auto simp: actions_read_def offered_def)
qed

lemma event_returns_offered:
  "returns (\<lambda>r. \<forall>aid. r = Some aid \<longrightarrow> offered actions aid) (best_event_option dc inst dp actions t)"
  by (rule returns_mono [OF best_event_returns])
    (fastforce simp: offered_def choice_event_option_actions_def actions_of_type_set available_actions_set)

definition sources :: "string list" where
  "sources = [''none'', ''forced_single_action'', ''event_branch_search'', ''beam_search'', ''heuristic_fallback'']"

text \<open>an outcome decides the decision that was read\<close>

definition decides :: "pydict list \<Rightarrow> decision_outcome \<Rightarrow> bool" where
  "decides actions out \<longleftrightarrow> do_source out \<in> set sources \<and>
     (case do_chosen out of
        None \<Rightarrow> actions = [] \<and> do_source out = ''none''
      | Some aid \<Rightarrow> offered actions aid \<and> (do_source out = ''forced_single_action'' \<longleftrightarrow> length actions = 1))"

lemma decide_event_offered:
  "returns (\<lambda>r. \<forall>aid. r = Some aid \<longrightarrow> offered actions aid) (decide_event de inst dp actions deadline)"
proof -
  have "returns (\<lambda>r. \<forall>aid. r = Some aid \<longrightarrow> offered actions aid)
      (world_p (best_event_option (de_client de) inst dp actions t))" for t
    using event_returns_offered [of actions "de_client de" inst dp t]
    by (fastforce simp: returns_def world_p_def split: prod.splits)
  then show ?thesis
    unfolding decide_event_def by (intro returns_if returns_bind returns_ret) simp_all
qed

lemma check_fallback_offered: "check_fallback actions choice = Inr aid \<Longrightarrow> offered actions aid"
  by (auto simp: check_fallback_def offered_def split: pyval.splits option.splits if_splits)

lemma decide_fallback_offered: "returns (offered actions) (decide_fallback de actions dto)"
  unfolding decide_fallback_def
  by (rule returns_bind) (auto simp: returns_def lift_p_def check_fallback_offered)

lemma decide_beam_offered:
  assumes "read_decision raw = Inr (decision, dp, dto, actions)"
  shows "returns (\<lambda>r. \<forall>res aid. r = Some (Some res) \<longrightarrow> best_root_action_id res = Some aid \<longrightarrow> offered actions aid)
    (decide_beam de inst search_id decision deadline fuel)"
proof -
  note read = read_decision_Inr [OF assms]
  have beam: "returns (\<lambda>r. \<forall>res aid. r = Some (Some res) \<longrightarrow> best_root_action_id res = Some aid \<longrightarrow> offered actions aid)
      (bind_p (search (de_beam de) inst search_id decision t fuel) (\<lambda>r. ret_p (map_option Some r)))" for t
    using search_returns_offered [of decision dp dto actions "de_beam de" inst search_id t fuel] read
    by (auto simp: returns_def bind_p_def ret_p_def split: prod.splits sum.splits)
  show ?thesis
    unfolding decide_beam_def by (rule returns_bind, rule returns_if, rule beam, rule returns_ret) simp
qed

lemma outcome_simps [simp]:
  "do_decision (outcome decision choice source r) = decision" "do_chosen (outcome decision choice source r) = choice"
  "do_source (outcome decision choice source r) = source"
  by (simp_all add: outcome_def)

lemma decides_outcome:
  "offered actions aid \<Longrightarrow> length actions \<noteq> 1 \<Longrightarrow> source \<in> set sources - {''none'', ''forced_single_action''} \<Longrightarrow>
     decides actions (outcome decision (Some aid) source r)"
  by (auto simp: decides_def)

lemma decide_search_decides:
  assumes "read_decision raw = Inr (decision, dp, dto, actions)" "length actions \<noteq> 1"
  shows "returns (\<lambda>r. \<forall>out. r = Some out \<longrightarrow> do_decision out = decision \<and> decides actions out)
    (decide_search de inst search_id (decision, dp, dto, actions) deadline fuel)" (is "returns ?P _")
proof -
  have fallback: "returns ?P (bind_p (decide_fallback de actions dto)
      (\<lambda>aid. ret_p (Some (outcome decision (Some aid) ''heuristic_fallback'' r))))" for r
    by (rule returns_bind_dep, rule returns_ret)
      (use assms(2) in \<open>auto dest: returnsD [OF decide_fallback_offered] intro!: decides_outcome simp: sources_def\<close>)
  have beam: "returns ?P (bind_p (decide_beam de inst search_id decision deadline fuel) (\<lambda>searched.
      case searched of
        None \<Rightarrow> ret_p None
      | Some result \<Rightarrow>
          (case result of
             Some res \<Rightarrow>
               if beam_result_is_actionable res
               then ret_p (Some (outcome decision (best_root_action_id res) ''beam_search'' (Some res)))
               else bind_p (decide_fallback de actions dto) (\<lambda>aid.
                      ret_p (Some (outcome decision (Some aid) ''heuristic_fallback'' (Some res))))
           | None \<Rightarrow>
               bind_p (decide_fallback de actions dto) (\<lambda>aid.
                 ret_p (Some (outcome decision (Some aid) ''heuristic_fallback'' None))))))"
  proof (rule returns_bind_dep)
    fix s searched t
    assume run: "decide_beam de inst search_id decision deadline fuel s = (Inr searched, t)"
    have "?P (Some (outcome decision (best_root_action_id res) ''beam_search'' (Some res)))"
      if "searched = Some (Some res)" "beam_result_is_actionable res" for res
      using returnsD [OF decide_beam_offered [OF assms(1)] run] that assms(2)
      by (auto simp: beam_result_is_actionable_def sources_def intro!: decides_outcome)
    with fallback show "returns ?P (case searched of
        None \<Rightarrow> ret_p None
      | Some result \<Rightarrow>
          (case result of
             Some res \<Rightarrow>
               if beam_result_is_actionable res
               then ret_p (Some (outcome decision (best_root_action_id res) ''beam_search'' (Some res)))
               else bind_p (decide_fallback de actions dto) (\<lambda>aid.
                      ret_p (Some (outcome decision (Some aid) ''heuristic_fallback'' (Some res))))
           | None \<Rightarrow>
               bind_p (decide_fallback de actions dto) (\<lambda>aid.
                 ret_p (Some (outcome decision (Some aid) ''heuristic_fallback'' None)))))"
      by (auto intro: returns_ret split: option.split)
  qed
  show ?thesis
    unfolding decide_search_def split_conv
  proof (rule returns_bind_dep)
    fix s event t assume "decide_event de inst dp actions deadline s = (Inr event, t)"
    from returnsD [OF decide_event_offered this] beam assms(2)
    show "returns ?P (case event of
        Some aid \<Rightarrow> ret_p (Some (outcome decision (Some aid) ''event_branch_search'' None))
      | None \<Rightarrow> bind_p (decide_beam de inst search_id decision deadline fuel) (\<lambda>searched.
          case searched of
            None \<Rightarrow> ret_p None
          | Some result \<Rightarrow>
              (case result of
                 Some res \<Rightarrow>
                   if beam_result_is_actionable res
                   then ret_p (Some (outcome decision (best_root_action_id res) ''beam_search'' (Some res)))
                   else bind_p (decide_fallback de actions dto) (\<lambda>aid.
                          ret_p (Some (outcome decision (Some aid) ''heuristic_fallback'' (Some res))))
               | None \<Rightarrow>
                   bind_p (decide_fallback de actions dto) (\<lambda>aid.
                     ret_p (Some (outcome decision (Some aid) ''heuristic_fallback'' None))))))"
      by (cases event) (auto intro!: returns_ret decides_outcome simp: sources_def)
  qed
qed

text \<open>the decision behind an outcome\<close>

definition decided :: "pyval \<Rightarrow> decision_outcome \<Rightarrow> bool" where
  "decided decision out \<longleftrightarrow> (decision \<noteq> PNone \<longrightarrow> decision = PDict (do_decision out)) \<and>
     (\<exists>dp dto actions. read_decision (PDict (do_decision out)) = Inr (do_decision out, dp, dto, actions) \<and>
        decides actions out)"

lemma decide_decided:
  "returns (\<lambda>r. \<forall>out. r = Some out \<longrightarrow> decided decision out) (decide de inst search_id timeout_s decision fuel)"
  (is "returns ?P _")
proof -
  have rest: "returns ?P (case actions of
       [] \<Rightarrow> ret_p (Some (outcome current None ''none'' None))
     | [only] \<Rightarrow>
         (case nonempty_str_opt (dget only ''action_id'') of
            None \<Rightarrow> raise_p RuntimeError
          | Some aid \<Rightarrow> ret_p (Some (outcome current (Some aid) ''forced_single_action'' None)))
     | _ \<Rightarrow> decide_search de inst search_id (current, dp, dto, actions) deadline fuel)"
    if read: "read_decision raw = Inr (current, dp, dto, actions)" and raw: "decision \<noteq> PNone \<longrightarrow> raw = decision"
    for raw current dp dto actions deadline
  proof -
    have current: "raw = PDict current" using read_decision_Inr [OF read] by simp
    have settled: "decided decision out" if "do_decision out = current" "decides actions out" for out
      using that read raw current by (auto simp: decided_def)
    show ?thesis
    proof (cases actions rule: remdups_adj.cases)
      case 1
      have "decides actions (outcome current None ''none'' None)" using 1 by (simp add: decides_def sources_def)
      with settled 1 show ?thesis by (auto intro: returns_ret)
    next
      case (2 only)
      have "decides actions (outcome current (Some aid) ''forced_single_action'' None)"
        if "dget only ''action_id'' = PStr aid" for aid
        using 2 that by (simp add: decides_def sources_def offered_def)
      with settled 2 show ?thesis by (auto intro!: returns_ret returns_raise split: option.split)
    next
      case (3 a b as)
      then have "length actions \<noteq> 1" by simp
      from returns_mono [OF decide_search_decides [OF read this], of ?P] settled 3 show ?thesis by auto
    qed
  qed
  have "returns (\<lambda>raw. decision \<noteq> PNone \<longrightarrow> raw = decision) (fetch_decision de inst timeout_s decision)"
    by (cases decision) (auto simp: fetch_decision_def returns_def ret_p_def)
  then show ?thesis
    unfolding decide_def
    by (intro returns_bind [where m = "deadline_from_timeout de timeout_s"] returns_bind_dep)
      (auto dest!: returnsD simp: lift_p_def intro!: rest)
qed

text \<open>C3: The engine decides the decision it was given or has fetched, and only by one of its available actions:
  it has no action exactly when none is available, it takes a single action without any search, and
  otherwise the action it names, by whichever of its four ways, is an available action of the decision,
  whatever server, policy, value model, pruner, event evaluation and fallback selector answer.\<close>

theorem decide_is_sound:
  assumes "decide de inst search_id timeout_s decision fuel s = (Inr (Some out), t)"
  shows "(decision \<noteq> PNone \<longrightarrow> decision = PDict (do_decision out)) \<and>
    (\<exists>dp dto actions. read_decision (PDict (do_decision out)) = Inr (do_decision out, dp, dto, actions) \<and>
       actions_read dto actions \<and>
       (case do_chosen out of
          None \<Rightarrow> actions = [] \<and> do_source out = ''none''
        | Some aid \<Rightarrow> (\<exists>a \<in> set actions. is_available a \<and> dget a ''action_id'' = PStr aid) \<and>
            (do_source out = ''forced_single_action'' \<longleftrightarrow> length actions = 1)))"
proof -
  from returnsD [OF decide_decided assms] obtain dp dto actions
    where "decision \<noteq> PNone \<longrightarrow> decision = PDict (do_decision out)" "decides actions out"
      and read: "read_decision (PDict (do_decision out)) = Inr (do_decision out, dp, dto, actions)"
    by (auto simp: decided_def)
  moreover have "actions_read dto actions" using read_decision_Inr [OF read] by simp
  ultimately show ?thesis
    by (intro conjI exI [of _ dp] exI [of _ dto] exI [of _ actions])
      (auto simp: decides_def offered_def actions_read_def split: option.splits)
qed

section \<open>What a decision keeps\<close>

text \<open>
  The interface of the engine to its world, stated for a property \<open>J\<close> of the world: every call of a
  decision keeps it, the search, the client's, the clock's and the selector's.
\<close>

lemma keeps_reading: "(\<And>w. J w \<Longrightarrow> J (snd (f w))) \<Longrightarrow> keeps J (\<lambda>w. case f w of (x, w') \<Rightarrow> (Inr x, w'))"
  by (simp add: keeps_def split_def)

locale decision_world =
  fixes de :: "'w decision_engine" and J :: "'w \<Rightarrow> bool"
  assumes engine_clock: "J w \<Longrightarrow> J (snd (sc_now (be_client (de_beam de)) w))"
    and client_clock: "J w \<Longrightarrow> J (snd (sc_now (de_client de) w))"
    and fresh_id: "J w \<Longrightarrow> J (snd (dc_uuid_hex (de_client de) w))"
    and fetching: "keeps J (dc_get_decision (de_client de) inst branch t)"
    and emulating: "keeps J (sc_emulate_actions (de_client de) inst items t opts)"
    and emulating_one: "keeps J (dc_emulate_action (de_client de) inst parent branch rng dp aid t)"
    and releasing: "keeps J (sc_release_branches (de_client de) inst bs t)"
    and deferring: "keeps J (dc_defer (de_client de) retry inst bs)"
    and falling_back: "keeps J (select_fallback (de_fallback de) actions dto)"
    and searching: "J (se_world s) \<Longrightarrow> dget decision ''decision_point_id'' \<noteq> PStr [] \<Longrightarrow>
      wp (search (de_beam de) inst search_id decision timeout fuel) (\<lambda>_ t. J (se_world t)) (\<lambda>_ t. J (se_world t)) s"
begin

lemma keeps_world: "keeps J m \<Longrightarrow> keeps (\<lambda>s. J (se_world s)) (world_p m)"
  by (simp add: keeps_def world_p_def split_def)

lemma keeps_now: "keeps (\<lambda>s. J (se_world s)) (now_p (de_beam de))"
  unfolding now_p_def
  by (intro keeps_world keeps_reading engine_clock)

lemma keeps_event: "keeps J m \<Longrightarrow> keeps (\<lambda>s. J (ee_world s)) (event_p m)"
  by (simp add: keeps_def event_p_def split_def)

lemma keeps_event_now: "keeps (\<lambda>s. J (ee_world s)) (event_now (de_client de))"
  unfolding event_now_def
  by (intro keeps_event keeps_reading client_clock)

lemma keeps_own [keeps_intro]: "keeps (\<lambda>s. J (ee_world s)) (own_branches ids)"
  unfolding own_branches_def by (rule keeps_modify) simp

lemma keeps_evaluation_error:
  assumes "keeps (\<lambda>s. J (ee_world s)) skip"
  shows "keeps (\<lambda>s. J (ee_world s)) (on_evaluation_error (de_client de) inst ids skip e)"
proof -
  have "keeps (\<lambda>s. J (ee_world s)) (defer_retry_cleanup (de_client de) inst bs)" for bs
    unfolding defer_retry_cleanup_def
    by (rule keeps_with_all) (auto intro: keeps_event deferring keeps_ret split: option.split)
  with assms show ?thesis
    unfolding on_evaluation_error_def Let_def
    by (intro keeps_with_all, cases e) (auto intro!: keeps_intro)
qed

lemma keeps_batch: "keeps (\<lambda>s. J (ee_world s)) (evaluate_batch_candidates (de_client de) inst dp cs deadline)"
  unfolding evaluate_batch_candidates_def Let_def
  by (intro keeps_bind keeps_event_now keeps_if keeps_try_else keeps_evaluation_error keeps_event emulating
      keeps_then keeps_own keeps_ret)
    (auto intro!: keeps_intro split: pyval.split)

lemma keeps_single: "keeps (\<lambda>s. J (ee_world s)) (evaluate_single_candidates (de_client de) inst dp deadline best cs)"
proof (induction cs arbitrary: best)
  case (Cons c cs)
  obtain branch aid rng where "c = (branch, aid, rng)" by (cases c) auto
  with Cons show ?case
    by (simp add: Let_def)
      (intro keeps_bind keeps_event_now keeps_if keeps_try_else keeps_evaluation_error keeps_event emulating_one
        keeps_then keeps_own keeps_ret keeps_lift, simp_all)
qed (simp add: keeps_ret)

lemma keeps_event_cleanup: "keeps (\<lambda>s. J (ee_world s)) (event_cleanup (de_client de) inst deadline failing)"
proof -
  have "keeps (\<lambda>s. J (ee_world s)) (on_cleanup_error (de_client de) failing e)" for e
    unfolding on_cleanup_error_def Let_def
    by (rule keeps_with_all, cases e) (auto intro!: keeps_intro)
  then show ?thesis
    unfolding event_cleanup_def Let_def
    by (intro keeps_bind keeps_event_now keeps_with_all keeps_if keeps_try_else keeps_event releasing keeps_ret)
qed

lemma keeps_events: "keeps J (best_event_option (de_client de) inst dp actions t)"
proof -
  have candidates: "keeps J (event_candidates (de_client de) dp index as)" for index as
  proof (induction as arbitrary: index)
    case (Cons a as)
    then show ?case
      by (cases "nonempty_str_opt (dget a ''action_id'')")
        (simp, simp, intro keeps_bind keeps_reading fresh_id keeps_ret)
  qed (simp add: keeps_ret)
  have "keeps (\<lambda>s. J (ee_world s)) (evaluate_events (de_client de) inst dp cs timeout)" for cs timeout
    unfolding evaluate_events_def with_event_cleanup_def Let_def
    by (intro keeps_bind keeps_event_now keeps_try_else keeps_with_all keeps_if keeps_batch keeps_single
        keeps_then keeps_event_cleanup keeps_ret keeps_raise)
  then have "keeps J (run_events (evaluate_events (de_client de) inst dp cs timeout))" for cs timeout
    by (simp add: keeps_def run_events_def split_def)
  with candidates show ?thesis
    unfolding best_event_option_def Let_def by (intro keeps_bind keeps_lift keeps_if keeps_ret)
qed

lemma keeps_deadline: "keeps (\<lambda>s. J (se_world s)) (deadline_from_timeout de timeout_s)"
  unfolding deadline_from_timeout_def by (intro keeps_bind keeps_lift keeps_now keeps_ret)

lemma keeps_fetch: "keeps (\<lambda>s. J (se_world s)) (fetch_decision de inst timeout_s decision)"
  unfolding fetch_decision_def
  by (cases decision) (auto intro!: keeps_bind keeps_lift keeps_world fetching keeps_ret)

lemma keeps_search:
  "dget decision ''decision_point_id'' \<noteq> PStr [] \<Longrightarrow> keeps (\<lambda>s. J (se_world s)) (search (de_beam de) inst search_id decision timeout fuel)"
  by (simp add: keeps_wp searching)

lemma keeps_decide_event: "keeps (\<lambda>s. J (se_world s)) (decide_event de inst dp actions deadline)"
  unfolding decide_event_def by (intro keeps_if keeps_bind keeps_now keeps_world keeps_events keeps_ret)

lemma keeps_decide_search:
  assumes "dget decision ''decision_point_id'' \<noteq> PStr []"
  shows "keeps (\<lambda>s. J (se_world s)) (decide_search de inst search_id (decision, dp, dto, actions) deadline fuel)"
proof -
  have beam: "keeps (\<lambda>s. J (se_world s)) (decide_beam de inst search_id decision deadline fuel)"
    unfolding decide_beam_def by (intro keeps_bind keeps_now keeps_if keeps_search keeps_ret assms)
  have fallback: "keeps (\<lambda>s. J (se_world s)) (decide_fallback de actions dto)"
    unfolding decide_fallback_def by (intro keeps_bind keeps_world falling_back keeps_lift)
  show ?thesis
    unfolding decide_search_def split_conv
    by (rule keeps_bind [OF keeps_decide_event])
      (auto split: option.split intro!: keeps_bind [OF beam] keeps_bind [OF fallback] keeps_ret)
qed

lemma keeps_decide: "keeps (\<lambda>s. J (se_world s)) (decide de inst search_id timeout_s decision fuel)"
proof -
  have rest: "keeps (\<lambda>s. J (se_world s)) (bind_p (lift_p (read_decision raw)) (\<lambda>(current, dp, dto, actions).
     case actions of
       [] \<Rightarrow> ret_p (Some (outcome current None ''none'' None))
     | [only] \<Rightarrow>
         (case nonempty_str_opt (dget only ''action_id'') of
            None \<Rightarrow> raise_p RuntimeError
          | Some aid \<Rightarrow> ret_p (Some (outcome current (Some aid) ''forced_single_action'' None)))
     | _ \<Rightarrow> decide_search de inst search_id (current, dp, dto, actions) deadline fuel))" for raw deadline
  proof (cases "read_decision raw")
    case (Inr x)
    obtain current dp dto actions where x: "x = (current, dp, dto, actions)" by (cases x) auto
    have "dget current ''decision_point_id'' \<noteq> PStr []" using read_decision_Inr [of raw] Inr x by simp
    then show ?thesis
      using Inr x
      by (auto simp: keeps_ret keeps_raise split: list.split option.split intro!: keeps_decide_search)
  qed (simp add: bind_p_def lift_p_def keeps_def)
  show ?thesis
    unfolding decide_def by (intro keeps_bind keeps_deadline keeps_fetch rest)
qed

text \<open>the commit is the last step, and it is taken only for an action the decision offers\<close>

lemma wp_world_step: "wp m Q R (se_world s) \<Longrightarrow>
    wp (world_p m) (\<lambda>x t. Q x (se_world t)) (\<lambda>e t. R e (se_world t)) s"
  by (auto simp: wp_def world_p_def split: prod.splits sum.splits)

lemma commit_decision_wp:
  assumes "J (se_world s)"
    and commit: "\<And>aid deadline w. J w \<Longrightarrow> do_chosen out = Some aid \<Longrightarrow>
      wp (dc_commit_action (de_client de) inst (string_or_empty (dget (do_decision out) ''decision_point_id'')) aid deadline)
        Q R w"
  shows "wp (commit_decision de inst deadline out)
    (\<lambda>x t. do_chosen out \<noteq> None \<and> Q x (se_world t))
    (\<lambda>e t. J (se_world t) \<or> do_chosen out \<noteq> None \<and> R e (se_world t)) s"
proof (cases "do_chosen out")
  case None
  with assms(1) show ?thesis by (simp add: commit_decision_def wp_raise)
next
  case (Some aid)
  have now: "wp (now_p (de_beam de)) (\<lambda>_ t. J (se_world t)) (\<lambda>_ t. J (se_world t)) s"
    using keeps_now assms(1) by (simp add: keeps_wp)
  show ?thesis
    unfolding commit_decision_def Some option.case wp_bind
  proof (rule wp_mono [OF now])
    fix now and t :: "'w searching" assume t: "J (se_world t)"
    have "wp (world_p (dc_commit_action (de_client de) inst
          (string_or_empty (dget (do_decision out) ''decision_point_id'')) aid d))
      (\<lambda>x t. Q x (se_world t)) (\<lambda>e t. J (se_world t) \<or> R e (se_world t)) t" for d
      by (rule wp_mono [OF wp_world_step [OF commit [OF t Some]]]) simp_all
    with t show "wp (if deadline - now \<le> 0 then raise_p (TransportError TransportPlain False None)
        else world_p (dc_commit_action (de_client de) inst
          (string_or_empty (dget (do_decision out) ''decision_point_id'')) aid (deadline - now)))
      (\<lambda>x t. Some aid \<noteq> None \<and> Q x (se_world t))
      (\<lambda>e t. J (se_world t) \<or> Some aid \<noteq> None \<and> R e (se_world t)) t"
      by (cases "deadline - now \<le> 0") (simp_all add: wp_raise)
  qed simp
qed

lemma decide_and_commit_wp:
  assumes "J (se_world s)"
    and commit: "\<And>out aid deadline w. J w \<Longrightarrow> decided decision out \<Longrightarrow> do_chosen out = Some aid \<Longrightarrow>
      wp (dc_commit_action (de_client de) inst (string_or_empty (dget (do_decision out) ''decision_point_id'')) aid deadline)
        (Q out) (R out) w"
  shows "wp (decide_and_commit de inst search_id timeout_s decision fuel)
    (\<lambda>r t. case r of None \<Rightarrow> J (se_world t) | Some x \<Rightarrow> \<exists>out. decided decision out \<and> do_chosen out \<noteq> None \<and> Q out x (se_world t))
    (\<lambda>e t. J (se_world t) \<or> (\<exists>out. decided decision out \<and> do_chosen out \<noteq> None \<and> R out e (se_world t))) s"
    (is "wp _ ?Q ?E s")
proof -
  have decide: "wp (decide de inst search_id timeout decision fuel)
      (\<lambda>r t. J (se_world t) \<and> (\<forall>out. r = Some out \<longrightarrow> decided decision out)) (\<lambda>_ t. J (se_world t)) t"
    if "J (se_world t)" for timeout t
  proof -
    have "wp (decide de inst search_id timeout decision fuel) (\<lambda>_ t. J (se_world t)) (\<lambda>_ t. J (se_world t)) t"
      using keeps_decide that by (simp add: keeps_wp)
    then show ?thesis
      using decide_decided unfolding returns_def wp_def by (fastforce split: prod.splits sum.splits)
  qed
  have settle: "wp (case r of None \<Rightarrow> ret_p None
      | Some out \<Rightarrow> bind_p (commit_decision de inst deadline out) (\<lambda>r. ret_p (Some r))) ?Q ?E t"
    if t: "J (se_world t)" "\<forall>out. r = Some out \<longrightarrow> decided decision out" for r deadline t
  proof (cases r)
    case None
    with t show ?thesis by (simp add: wp_ret)
  next
    case (Some out)
    then have "decided decision out" using t by simp
    then show ?thesis
      unfolding Some option.case wp_bind wp_ret
      by (intro wp_mono [OF commit_decision_wp [where Q = "Q out" and R = "R out"]]) (auto intro: t commit)
  qed
  have rest: "wp (if deadline - now \<le> 0 then raise_p (TransportError TransportPlain False None)
      else bind_p (decide de inst search_id (PFloat (Fin (deadline - now))) decision fuel) (\<lambda>result.
        case result of
          None \<Rightarrow> ret_p None
        | Some out \<Rightarrow> bind_p (commit_decision de inst deadline out) (\<lambda>r. ret_p (Some r)))) ?Q ?E t"
    if "J (se_world t)" for deadline now t
  proof (cases "deadline - now \<le> 0")
    case False
    show ?thesis
      unfolding if_not_P [OF False] wp_bind
      by (rule wp_mono [OF decide [OF that]], rule settle, simp_all)
  qed (use that in \<open>simp add: wp_raise\<close>)
  have clock: "wp (now_p (de_beam de)) (\<lambda>_ t. J (se_world t)) (\<lambda>_ t. J (se_world t)) t" if "J (se_world t)" for t
    using keeps_now that by (simp add: keeps_wp)
  have "wp (deadline_from_timeout de timeout_s) (\<lambda>_ t. J (se_world t)) (\<lambda>_ t. J (se_world t)) s"
    using keeps_deadline assms(1) by (simp add: keeps_wp)
  then show ?thesis
    unfolding decide_and_commit_def wp_bind [of "deadline_from_timeout de timeout_s"]
  proof (rule wp_mono)
    fix deadline and t :: "'w searching" assume t: "J (se_world t)"
    show "wp (bind_p (now_p (de_beam de)) (\<lambda>now.
        if deadline - now \<le> 0 then raise_p (TransportError TransportPlain False None)
        else bind_p (decide de inst search_id (PFloat (Fin (deadline - now))) decision fuel) (\<lambda>result.
          case result of
            None \<Rightarrow> ret_p None
          | Some out \<Rightarrow> bind_p (commit_decision de inst deadline out) (\<lambda>r. ret_p (Some r))))) ?Q ?E t"
      unfolding wp_bind [of "now_p (de_beam de)"]
      by (rule wp_mono [OF clock [OF t]], rule rest, simp_all)
  qed simp
qed

lemma keeps_decide_and_commit:
  assumes "\<And>dp aid t. keeps J (dc_commit_action (de_client de) inst dp aid t)"
  shows "keeps (\<lambda>s. J (se_world s)) (decide_and_commit de inst search_id timeout_s decision fuel)"
  unfolding keeps_wp
proof (intro allI impI)
  fix s :: "'w searching" assume "J (se_world s)"
  then have "wp (decide_and_commit de inst search_id timeout_s decision fuel)
      (\<lambda>r t. case r of None \<Rightarrow> J (se_world t) | Some _ \<Rightarrow> \<exists>out. decided decision out \<and> do_chosen out \<noteq> None \<and> J (se_world t))
      (\<lambda>_ t. J (se_world t) \<or> (\<exists>out. decided decision out \<and> do_chosen out \<noteq> None \<and> J (se_world t))) s"
    by (rule decide_and_commit_wp) (use assms in \<open>simp add: keeps_wp\<close>)
  then show "wp (decide_and_commit de inst search_id timeout_s decision fuel)
      (\<lambda>_ t. J (se_world t)) (\<lambda>_ t. J (se_world t)) s"
    by (rule wp_mono) (auto split: option.splits)
qed

end

section \<open>Properties of the engine\<close>

definition demo_decider :: "unit decision_engine" where
  "demo_decider =
     \<lparr>de_client = demo_event_server,
      de_beam = \<lparr>be_client = search_client.truncate demo_event_server,
        be_policy = PlainPolicy \<lparr>propose = (\<lambda>_ _ _. ret_p []), propose_batch = (\<lambda>_ _. ret_p [])\<rparr>,
        be_evaluate_batch = (\<lambda>_. ret_p []), be_select = (\<lambda>_ _ _. ret_p PNone),
        be_config = default_beam_config, be_prefix = ''x''\<rparr>,
      de_fallback = Legacy (\<lambda>actions. ret_p PNone), de_event_branch_search = True, de_beam_search_enabled = False\<rparr>"

definition demo_event_decision :: pydict where
  "demo_event_decision = [(''decision_point_id'', PStr ''d''),
     (''masked_emulator_dto'', PDict [(''legal_actions'', PList (map PDict demo_event_options))])]"

lemma demo_decided:
  "\<exists>t. decide demo_decider ''i'' ''s'' (PInt 5) (PDict demo_event_decision) 0 (idle_search ()) =
     (Inr (Some (outcome demo_event_decision (Some ''b'') ''event_branch_search'' None)), t)"
proof -
  have "fst (decide demo_decider ''i'' ''s'' (PInt 5) (PDict demo_event_decision) 0 (idle_search ())) =
      Inr (Some (outcome demo_event_decision (Some ''b'') ''event_branch_search'' None))"
    by code_simp
  then show ?thesis by (metis prod.collapse)
qed

theorem decide_is_sound_witness:
  "\<exists>dp dto actions. read_decision (PDict demo_event_decision) = Inr (demo_event_decision, dp, dto, actions) \<and>
     (\<exists>a \<in> set actions. is_available a \<and> dget a ''action_id'' = PStr ''b'')"
  using demo_decided by (auto dest!: decide_is_sound)

lemma resolved_action_types_scope:
  "resolved_action_types cfg types = Inr ts \<Longrightarrow>
     set ts = set (case cfg of Some c \<Rightarrow> beam_searchable_action_types c
           | None \<Rightarrow> (case types of Some ts \<Rightarrow> ts | None \<Rightarrow> combat_beam_action_types)) \<and>
     (\<forall>c ts. cfg = Some c \<longrightarrow> types = Some ts \<longrightarrow> set ts = set (beam_searchable_action_types c))"
  by (auto simp: resolved_action_types_def split: option.splits if_splits)

lemma replace_config_scope:
  "replace_config c = Inr c' \<Longrightarrow> config_ok c' \<and> beam_searchable_action_types c' = beam_searchable_action_types c"
  unfolding replace_config_def config_ok_def by (auto split: if_splits)

text \<open>C32: An engine keeps the scope it is configured with: its beam runs a valid configuration with the action
  types of the configuration given, or, without one, of the argument or else the whole combat scope;
  conflicting sources are refused; nothing else of a given configuration changes but missing
  simulation options; and whatever policy is given runs under the structural coverage.\<close>

theorem engine_keeps_scope:
  assumes "decision_engine_init dc policy valuation pruner cfg types fallback selector events enabled prefix = Inr de"
  shows "config_ok (be_config (de_beam de)) \<and>
    set (beam_searchable_action_types (be_config (de_beam de))) =
      set (case cfg of Some c \<Rightarrow> beam_searchable_action_types c
           | None \<Rightarrow> (case types of Some ts \<Rightarrow> ts | None \<Rightarrow> combat_beam_action_types)) \<and>
    (\<forall>c ts. cfg = Some c \<longrightarrow> types = Some ts \<longrightarrow> set ts = set (beam_searchable_action_types c)) \<and>
    (\<exists>p. be_policy (de_beam de) = CoverageConstrained p \<and> (\<forall>q. policy = Some q \<longrightarrow> p = q))"
proof -
  from assms obtain ts budget where types: "resolved_action_types cfg types = Inr ts"
    and replaced: "replace_config (budget\<lparr>beam_searchable_action_types := ts\<rparr>) = Inr (be_config (de_beam de))"
    and policy: "be_policy (de_beam de) =
      CoverageConstrained (case policy of None \<Rightarrow> prior_heuristic_policy None | Some p \<Rightarrow> p)"
    unfolding decision_engine_init_def resolved_beam_config_def
    by (cases enabled) (auto simp: then_r_eq_Inr)
  have "\<exists>p. be_policy (de_beam de) = CoverageConstrained p \<and> (\<forall>q. policy = Some q \<longrightarrow> p = q)"
    using policy by (cases policy) auto
  moreover have "beam_searchable_action_types (be_config (de_beam de)) = ts" "config_ok (be_config (de_beam de))"
    using replace_config_scope [OF replaced] by simp_all
  ultimately show ?thesis
    using resolved_action_types_scope [OF types] by blast
qed

lemma demo_engine_init:
  "\<exists>de. decision_engine_init demo_event_server None None (\<lambda>_ _ _. ret_p PNone) None None None demo_selector
     True (PBool True) ''x'' = Inr de"
  by (simp add: decision_engine_init_def resolved_beam_config_def resolved_action_types_def resolve_search_mode_def
      named_config_def default_search_mode_def search_mode_templates_def copy_config_def replace_config_def
      config_ok_def default_beam_config_def heuristic_value_init_def)

theorem engine_keeps_scope_witness:
  "\<exists>de. decision_engine_init demo_event_server None None (\<lambda>_ _ _. ret_p PNone) None None None demo_selector
     True (PBool True) ''x'' = Inr de \<and> config_ok (be_config (de_beam de)) \<and>
     set (beam_searchable_action_types (be_config (de_beam de))) = set combat_beam_action_types"
proof -
  from demo_engine_init obtain de where
    "decision_engine_init demo_event_server None None (\<lambda>_ _ _. ret_p PNone) None None None demo_selector
       True (PBool True) ''x'' = Inr de" by blast
  with engine_keeps_scope [OF this] show ?thesis by auto
qed

end
