(* ===== verification/Selection_Audit.thy ===== *)
theory Selection_Audit
  imports Transport
begin

text \<open>
  \<open>selection_log.py\<close>: \<open>SelectionAudit\<close> keeps the latest public Decision per Branch and emits one
  record per selection; the exact replay of a request is recorded as a recovery, not as a second
  selection.  The state is the object's four attributes plus \<open>emitted\<close>, the events handed to the
  logger so far.  The copies \<open>deepcopy\<close> makes are the values themselves here, and a logger that
  raises is the same as one that does not, since the code swallows its exception.
\<close>

section \<open>State and events\<close>

record audit_event =
  ev_recovery :: bool
  ev_received :: "pydict option"
  ev_request :: pydict
  ev_result :: "pydict option"
  ev_selected_action_id :: "string option"
  ev_replay_snapshot :: "pydict option"
  ev_fault_context :: "pydict option"
  ev_outcomes :: pydict
  ev_client_error :: "exn option"

record audit =
  audit_logger :: bool
  decisions :: "string \<times> string \<rightharpoonup> pydict"
  selection_request_id :: "string option"
  selection_branch_ids :: "string set"
  emitted :: "audit_event list"

definition audit_init :: "bool \<Rightarrow> audit" where
  "audit_init logger = \<lparr>audit_logger = logger, decisions = Map.empty, selection_request_id = None,
     selection_branch_ids = {}, emitted = []\<rparr>"

text \<open>The boundary values that end a room\<close>

definition room_end_boundaries :: "string list" where
  "room_end_boundaries =
     [''combat_terminal'', ''map_select'', ''room_end'', ''room_terminal'', ''run_terminal'',
      ''terminal'']"

section \<open>Helpers\<close>

definition selection_identity :: "pydict \<Rightarrow> pyval \<Rightarrow> (string \<times> string) option" where
  "selection_identity request source_branch_id =
     (let branch_id = dget request ''branch_id'';
          logical = (if is_nonempty_str branch_id then branch_id else source_branch_id)
      in case dget request ''request_id'' of
           PStr r \<Rightarrow> (if r = [] then None
                     else (case logical of PStr b \<Rightarrow> if b = [] then None else Some (r, b) | _ \<Rightarrow> None))
         | _ \<Rightarrow> None)"

definition masked_dto :: "pydict option \<Rightarrow> pydict" where
  "masked_dto response =
     (case response of
        None \<Rightarrow> []
      | Some r \<Rightarrow> (case dget r ''masked_emulator_dto'' of PDict d \<Rightarrow> d | _ \<Rightarrow> []))"

definition selected_public_action_id :: "pydict option \<Rightarrow> pydict \<Rightarrow> string option" where
  "selected_public_action_id received request =
     (case dget (masked_dto received) ''legal_actions'' of
        PList actions \<Rightarrow>
          (case dget request ''action_id'' of
             PStr a \<Rightarrow>
               (if a \<noteq> [] \<and> (\<exists>x \<in> set actions. is_dict x \<and> vget x ''action_id'' = PStr a)
                then Some a else None)
           | _ \<Rightarrow> None)
      | _ \<Rightarrow> None)"

definition room_completed :: "pyval \<Rightarrow> pyval \<Rightarrow> bool" where
  "room_completed before after =
     (case before of
        PStr b \<Rightarrow>
          (case after of
             PStr a \<Rightarrow> py_lower a \<in> set room_end_boundaries
                       \<and> py_lower b \<notin> {py_lower a, ''map_select''}
           | _ \<Rightarrow> False)
      | _ \<Rightarrow> False)"

definition is_run_terminal :: "pydict \<Rightarrow> bool" where
  "is_run_terminal dto \<longleftrightarrow>
     (case dget dto ''boundary'' of
        PStr b \<Rightarrow> py_lower b = ''run_terminal''
      | _ \<Rightarrow> False) \<or>
     dget dto ''run_terminal'' = PBool True \<or>
     dget dto ''run_result'' \<noteq> PNone \<or> dget dto ''run_outcome'' \<noteq> PNone \<or>
     (case vget (dget dto ''transition'') ''kind'' of
        PStr k \<Rightarrow> py_lower k \<in> {''run_completed'', ''run_end'', ''run_terminal''}
      | _ \<Rightarrow> False)"

definition root_outcomes :: "pydict option \<Rightarrow> pydict \<Rightarrow> pydict" where
  "root_outcomes received result =
     (let before = masked_dto received;
          after = masked_dto (Some result);
          before_boundary = dget before ''boundary'';
          after_boundary = dget after ''boundary'';
          room =
            (if room_completed before_boundary after_boundary
             then [(''room_result'', PDict
                     [(''boundary_before'', before_boundary),
                      (''boundary_after'', after_boundary),
                      (''room_context_before'', dget before ''room_context''),
                      (''room_context_after'', dget after ''room_context'')])]
             else []);
          run =
            (if is_run_terminal after
             then [(''run_result'',
                    if dget after ''run_result'' \<noteq> PNone then dget after ''run_result''
                    else if dget after ''run_outcome'' \<noteq> PNone then dget after ''run_outcome''
                    else if dget after ''outcome'' \<noteq> PNone then dget after ''outcome''
                    else PDict [(''boundary'', after_boundary),
                                (''room_context'', dget after ''room_context''),
                                (''transition'', dget after ''transition'')])]
             else [])
      in room @ run)"

text \<open>The self-contained replay context of a faulted branch\<close>

definition fault_context :: "pydict option \<Rightarrow> pydict \<Rightarrow> pydict \<Rightarrow> pydict" where
  "fault_context received event_request result =
     (let parent = masked_dto received
      in [(''snapshot_kind'', PStr ''training_visible_parent_decision''),
          (''parent_decision_point_id'',
             case received of None \<Rightarrow> PNone | Some r \<Rightarrow> dget r ''decision_point_id''),
          (''parent_boundary'', dget parent ''boundary''),
          (''parent_choice_scope'', dget parent ''choiceScope''),
          (''parent_pending_choice'', dget parent ''pendingChoice''),
          (''parent_legal_actions'', dget parent ''legal_actions''),
          (''branch_request'', PDict event_request),
          (''branch_result'', PDict result)])"

section \<open>Operations\<close>

definition audit_clear :: "audit \<Rightarrow> audit" where
  "audit_clear a = a\<lparr>decisions := Map.empty, selection_request_id := None,
                     selection_branch_ids := {}\<rparr>"

text \<open>
  \<open>forget\<close>: only strings are ever keys of \<open>_decisions\<close>, so popping another value removes nothing.
\<close>

fun forget_branch :: "string \<Rightarrow> pyval \<Rightarrow> audit \<Rightarrow> audit" where
  "forget_branch inst (PStr b) a = a\<lparr>decisions := (decisions a)((inst, b) := None)\<rparr>"
| "forget_branch inst _ a = a"

definition audit_forget :: "string \<Rightarrow> pyval list \<Rightarrow> audit \<Rightarrow> audit" where
  "audit_forget inst branch_ids a = fold (forget_branch inst) branch_ids a"

definition audit_remember :: "pydict \<Rightarrow> audit \<Rightarrow> audit" where
  "audit_remember response a =
     (if \<not> audit_logger a then a
      else (case (dget response ''instance_id'',
                  dget_default response ''branch_id'' (PStr ''root''),
                  dget response ''decision_point_id'') of
              (PStr i, PStr b, PStr d) \<Rightarrow>
                (if i \<noteq> [] \<and> b \<noteq> [] \<and> d \<noteq> [] \<and> is_dict (dget response ''masked_emulator_dto'')
                 then a\<lparr>decisions := (decisions a)((i, b) \<mapsto> response)\<rparr>
                 else a)
            | _ \<Rightarrow> a))"

definition is_recovery :: "(string \<times> string) option \<Rightarrow> audit \<Rightarrow> bool \<times> audit" where
  "is_recovery identity a =
     (case identity of
        None \<Rightarrow> (False, a)
      | Some (r, b) \<Rightarrow>
          (let a' = (if selection_request_id a = Some r then a
                     else a\<lparr>selection_request_id := Some r, selection_branch_ids := {}\<rparr>)
           in (b \<in> selection_branch_ids a', a')))"

definition remember_selection :: "(string \<times> string) option \<Rightarrow> audit \<Rightarrow> audit" where
  "remember_selection identity a =
     (case identity of
        None \<Rightarrow> a
      | Some (_, b) \<Rightarrow> a\<lparr>selection_branch_ids := insert b (selection_branch_ids a)\<rparr>)"

text \<open>
  The key \<open>str(event_request["instance_id"])\<close>.  The text of a float, list or dictionary is not
  modelled: such an instance id is no key of the cache.
\<close>

fun instance_key :: "pyval \<Rightarrow> string option" where
  "instance_key (PStr s) = Some s"
| "instance_key PNone = Some ''None''"
| "instance_key (PBool b) = Some (if b then ''True'' else ''False'')"
| "instance_key (PInt i) = Some (show_int i)"
| "instance_key _ = None"

text \<open>
  The Decision the selection was made from: the cached one of the source branch, unless its
  decision point differs.  A missing key raises \<open>KeyError\<close>, an unhashable source \<open>TypeError\<close>.
\<close>

definition received_decision :: "audit \<Rightarrow> pydict \<Rightarrow> pyval \<Rightarrow> exn + pydict option" where
  "received_decision a request source =
     (if \<not> dhas request ''instance_id'' then Inl KeyError
      else if \<not> hashable source then Inl TypeError
      else case (case (instance_key (dget request ''instance_id''), source) of
                   (Some i, PStr b) \<Rightarrow> decisions a (i, b)
                 | _ \<Rightarrow> None) of
             None \<Rightarrow> Inr None
           | Some d \<Rightarrow>
               (if \<not> dhas request ''decision_point_id'' then Inl KeyError
                else if py_eq (dget d ''decision_point_id'') (dget request ''decision_point_id'')
                then Inr (Some d) else Inr None))"

text \<open>the request of the event: an item without an operation counts as \<open>emulate_actions\<close>\<close>

definition event_request_of :: "pydict \<Rightarrow> pydict" where
  "event_request_of request =
     (if is_nonempty_str (dget request ''operation'') then request
      else dset request ''operation'' (PStr ''emulate_actions''))"

definition mk_event ::
  "bool \<Rightarrow> pydict option \<Rightarrow> pydict \<Rightarrow> pydict option \<Rightarrow> exn option \<Rightarrow> audit_event" where
  "mk_event recovery received event_request result err =
     (let faulted = (case result of None \<Rightarrow> False | Some r \<Rightarrow> dget r ''status'' = PStr ''faulted'')
      in \<lparr>ev_recovery = recovery,
          ev_received = received,
          ev_request = event_request,
          ev_result = result,
          ev_selected_action_id = selected_public_action_id received event_request,
          ev_replay_snapshot = (if faulted then Some (masked_dto received) else None),
          ev_fault_context =
            (if faulted then map_option (fault_context received event_request) result else None),
          ev_outcomes =
            (case result of
               Some r \<Rightarrow> (if dget event_request ''operation'' = PStr ''commit_action''
                          then root_outcomes received r else [])
             | None \<Rightarrow> []),
          ev_client_error = err\<rparr>)"

text \<open>after a successful selection, the resulting Decision is the one of its branch\<close>

definition remember_result :: "pydict \<Rightarrow> pydict \<Rightarrow> audit \<Rightarrow> audit" where
  "remember_result event_request r a =
     (let committed = (dget event_request ''operation'' = PStr ''commit_action''
                       \<and> dget r ''status'' = PStr ''completed'');
          a' = (if committed then audit_clear a else a);
          r' = (if dhas r ''instance_id'' then r
                else r @ [(''instance_id'', dget event_request ''instance_id'')])
      in audit_remember r' a')"

definition record_action ::
  "pydict \<Rightarrow> pyval \<Rightarrow> pydict option \<Rightarrow> exn option \<Rightarrow> (audit, exn, unit) py" where
  "record_action request source result err = with_p (\<lambda>a.
     if \<not> audit_logger a then ret_p ()
     else
       let event_request = event_request_of request in
       bind_p (lift_p (received_decision a event_request source)) (\<lambda>received.
         let identity = selection_identity event_request source;
             (recovery, a1) = is_recovery identity a;
             a2 = a1\<lparr>emitted := emitted a1 @ [mk_event recovery received event_request result err]\<rparr>;
             a3 = (if recovery then a2 else remember_selection identity a2)
         in then_p (modify_p (\<lambda>_. a3))
              (case (err, result) of
                 (None, Some r) \<Rightarrow>
                   bind_p (lift_p (in_str_set (dget r ''status'') [''completed'', ''partial'']))
                     (\<lambda>ok. if ok then modify_p (remember_result event_request r) else ret_p ())
               | _ \<Rightarrow> ret_p ())))"

end
