(* ===== verification/Api_Contract.thy ===== *)
theory Api_Contract
  imports Selection_Audit
begin

text \<open>
  \<open>api/contract.py\<close>: the class \<open>ApiContract\<close>, which builds the requests of the wire contract,
  checks every response against its request and keeps the state of the active instance.  The
  object's attributes are the record \<open>contract\<close>; \<open>Async_Client\<close> extends it, as the subclass
  extends the class, so every operation here is stated over \<open>'a contract_scheme\<close>.
\<close>

section \<open>Constants and state\<close>

definition schema_version :: string where
  "schema_version = ''0.8''"

definition mask_version :: string where
  "mask_version = ''1.2''"

definition root_branch_id :: string where
  "root_branch_id = ''root''"

definition root_rng_id :: int where
  "root_rng_id = 0"

definition known_statuses :: "string list" where
  "known_statuses =
     [''completed'', ''partial'', ''queued'', ''running'', ''cancelled'', ''rejected'',
      ''faulted'', ''released'']"

definition branch_batch_operations :: "string list" where
  "branch_batch_operations = [''cancel_branches'', ''release_branches'', ''get_branch_status'']"

definition branch_status_values :: "string list" where
  "branch_status_values =
     [''queued'', ''running'', ''completed'', ''cancelled'', ''faulted'', ''released'']"

definition emulate_actions_branch_statuses :: "string list" where
  "emulate_actions_branch_statuses = [''completed'', ''partial'', ''faulted'']"

definition combat_terminal_outcomes :: "string list" where
  "combat_terminal_outcomes = [''victory'', ''defeat'']"

definition run_terminal_outcomes :: "string list" where
  "run_terminal_outcomes = [''victory'', ''defeat'', ''run_victory'']"

record contract =
  session_id :: string
  audit_state :: audit
  instance_id :: "string option"
  instance_type :: "string option"
  pending_start_instance_type :: "string option"
  max_emulate_actions_items :: "int option"

section \<open>Checks shared by the operations\<close>

definition validate_non_empty_str :: "pyval \<Rightarrow> exn + unit" where
  "validate_non_empty_str v = raise_if (\<not> is_nonempty_str v) ValueError"

definition require_non_empty_str :: "pydict \<Rightarrow> string \<Rightarrow> exn + string" where
  "require_non_empty_str source field =
     (case dget source field of
        PStr s \<Rightarrow> if s = [] then Inl ApiProtocolError else Inr s
      | _ \<Rightarrow> Inl ApiProtocolError)"

definition require_response_match :: "pydict \<Rightarrow> string \<Rightarrow> pyval \<Rightarrow> exn + unit" where
  "require_response_match response field expected =
     raise_if (\<not> py_eq (dget response field) expected) ApiProtocolError"

definition require_status :: "pydict \<Rightarrow> string list \<Rightarrow> exn + unit" where
  "require_status response accepted =
     then_r (in_str_set (dget response ''status'') accepted) (\<lambda>ok. raise_if (\<not> ok) ApiProtocolError)"

text \<open>\<open>d[k]\<close>\<close>

definition ditem :: "pydict \<Rightarrow> string \<Rightarrow> exn + pyval" where
  "ditem d k = (case map_of d k of None \<Rightarrow> Inl KeyError | Some v \<Rightarrow> Inr v)"

text \<open>\<open>list(v)\<close>, after the test that refuses a string\<close>

fun py_sequence :: "pyval \<Rightarrow> exn + pyval list" where
  "py_sequence (PList xs) = Inr xs"
| "py_sequence (PDict d) = Inr (map PStr (dkeys d))"
| "py_sequence _ = Inl TypeError"

definition validate_instance_id :: "'a contract_scheme \<Rightarrow> pyval \<Rightarrow> exn + unit" where
  "validate_instance_id s v =
     then_r (validate_non_empty_str v) (\<lambda>_.
       case instance_id s of
         None \<Rightarrow> Inl RuntimeError
       | Some i \<Rightarrow> raise_if (v \<noteq> PStr i) ValueError)"

definition validate_rng_id :: "pyval \<Rightarrow> exn + unit" where
  "validate_rng_id v = raise_if (\<not> is_positive_int v) ValueError"

definition validate_simulation_options :: "pyval \<Rightarrow> exn + unit" where
  "validate_simulation_options options =
     (case options of
        PDict d \<Rightarrow>
          then_r (for_r (\<lambda>key. raise_if (dget d key \<noteq> PNone \<and> \<not> is_positive_int (dget d key)) ValueError)
                   [''max_depth'', ''max_steps'', ''max_time_ms'', ''max_hypotheses''])
            (\<lambda>_. if dget d ''stop_condition'' = PNone then Inr ()
                 else then_r (in_str_set (dget d ''stop_condition'')
                                [''next_decision'', ''combat_end'', ''room_end'', ''run_end''])
                        (\<lambda>ok. raise_if (\<not> ok) ValueError))
      | _ \<Rightarrow> Inl TypeError)"

section \<open>Building requests\<close>

definition new_request :: "'a contract_scheme \<Rightarrow> int \<Rightarrow> string \<Rightarrow> pydict \<Rightarrow> exn + pydict" where
  "new_request s request_seq operation fs =
     (if request_seq \<le> 0 then Inl ValueError
      else Inr ([(''schema_version'', PStr schema_version),
                 (''client_session_id'', PStr (session_id s)),
                 (''request_seq'', PInt request_seq),
                 (''request_id'', PStr (session_id s @ '':'' @ show_int request_seq)),
                 (''operation'', PStr operation)] @ fs))"

definition build_start_instance ::
  "int \<Rightarrow> pydict \<Rightarrow> ('a contract_scheme, exn, pydict) py" where
  "build_start_instance request_seq instance_config =
     then_p (modify_p (\<lambda>s. s\<lparr>pending_start_instance_type :=
               (case dget instance_config ''instance_type'' of
                  PStr t \<Rightarrow> if t = [] then None else Some t
                | _ \<Rightarrow> None)\<rparr>))
       (with_p (\<lambda>s. lift_p (new_request s request_seq ''start_instance''
                              [(''instance_config'', PDict instance_config)])))"

definition build_get_decision ::
  "'a contract_scheme \<Rightarrow> int \<Rightarrow> pyval \<Rightarrow> pyval \<Rightarrow> exn + pydict" where
  "build_get_decision s request_seq inst branch_id =
     then_r (validate_instance_id s inst) (\<lambda>_.
     then_r (validate_non_empty_str branch_id) (\<lambda>_.
       new_request s request_seq ''get_decision''
         [(''instance_id'', inst), (''branch_id'', branch_id)]))"

definition build_commit_action ::
  "'a contract_scheme \<Rightarrow> int \<Rightarrow> pyval \<Rightarrow> pyval \<Rightarrow> pyval \<Rightarrow> exn + pydict" where
  "build_commit_action s request_seq inst decision_point_id action_id =
     then_r (validate_instance_id s inst) (\<lambda>_.
     then_r (validate_non_empty_str decision_point_id) (\<lambda>_.
     then_r (validate_non_empty_str action_id) (\<lambda>_.
       new_request s request_seq ''commit_action''
         [(''instance_id'', inst), (''branch_id'', PStr root_branch_id),
          (''rng_id'', PInt root_rng_id),
          (''decision_point_id'', decision_point_id), (''action_id'', action_id)])))"

text \<open>the options field is sent only when options are given\<close>

definition simulation_fields :: "pyval \<Rightarrow> exn + pydict" where
  "simulation_fields options =
     (if options = PNone then Inr []
      else then_r (validate_simulation_options options)
             (\<lambda>_. Inr [(''simulation_options'', options)]))"

definition build_emulate_action ::
  "'a contract_scheme \<Rightarrow> int \<Rightarrow> pyval \<Rightarrow> pyval \<Rightarrow> pyval \<Rightarrow> pyval \<Rightarrow> pyval \<Rightarrow> pyval \<Rightarrow> pyval
     \<Rightarrow> exn + pydict" where
  "build_emulate_action s request_seq inst parent_branch_id branch_id rng_id
     decision_point_id action_id options =
     then_r (validate_instance_id s inst) (\<lambda>_.
     then_r (for_r validate_non_empty_str
               [parent_branch_id, branch_id, decision_point_id, action_id]) (\<lambda>_.
     then_r (raise_if (branch_id = PStr root_branch_id) ValueError) (\<lambda>_.
     then_r (validate_rng_id rng_id) (\<lambda>_.
     then_r (simulation_fields options) (\<lambda>sim.
       new_request s request_seq ''emulate_action''
         ([(''instance_id'', inst), (''parent_branch_id'', parent_branch_id),
           (''branch_id'', branch_id), (''rng_id'', rng_id),
           (''decision_point_id'', decision_point_id), (''action_id'', action_id)] @ sim))))))"

text \<open>one item of a batch: the five fields, checked and copied in the wire order\<close>

definition normalize_item :: "pyval list \<Rightarrow> pyval \<Rightarrow> exn + pydict" where
  "normalize_item seen item =
     (case item of
        PDict d \<Rightarrow>
          then_r (ditem d ''parent_branch_id'') (\<lambda>parent_branch_id.
          then_r (ditem d ''branch_id'') (\<lambda>branch_id.
          then_r (ditem d ''rng_id'') (\<lambda>rng_id.
          then_r (ditem d ''decision_point_id'') (\<lambda>decision_point_id.
          then_r (ditem d ''action_id'') (\<lambda>action_id.
          then_r (for_r validate_non_empty_str
                    [parent_branch_id, branch_id, decision_point_id, action_id]) (\<lambda>_.
          then_r (raise_if (branch_id = PStr root_branch_id) ValueError) (\<lambda>_.
          then_r (raise_if (branch_id \<in> set seen) ValueError) (\<lambda>_.
          then_r (validate_rng_id rng_id) (\<lambda>_.
            Inr [(''parent_branch_id'', parent_branch_id), (''branch_id'', branch_id),
                 (''rng_id'', rng_id), (''decision_point_id'', decision_point_id),
                 (''action_id'', action_id)])))))))))
      | _ \<Rightarrow> Inl TypeError)"

fun normalize_items :: "pyval list \<Rightarrow> pyval list \<Rightarrow> exn + pydict list" where
  "normalize_items seen [] = Inr []"
| "normalize_items seen (item # items) =
     then_r (normalize_item seen item) (\<lambda>d.
     then_r (normalize_items (dget d ''branch_id'' # seen) items) (\<lambda>ds. Inr (d # ds)))"

definition build_emulate_actions ::
  "'a contract_scheme \<Rightarrow> int \<Rightarrow> pyval \<Rightarrow> pyval \<Rightarrow> pyval \<Rightarrow> exn + pydict" where
  "build_emulate_actions s request_seq inst items options =
     then_r (validate_instance_id s inst) (\<lambda>_.
     then_r (py_sequence items) (\<lambda>xs.
     then_r (raise_if (xs = []) ValueError) (\<lambda>_.
     then_r (raise_if (case max_emulate_actions_items s of None \<Rightarrow> False | Some m \<Rightarrow> m < int (length xs)) ValueError) (\<lambda>_.
     then_r (normalize_items [] xs) (\<lambda>ds.
     then_r (raise_if (\<exists>d \<in> set ds. dget d ''parent_branch_id'' \<in> (\<lambda>e. dget e ''branch_id'') ` set ds)
               ValueError) (\<lambda>_.
     then_r (simulation_fields options) (\<lambda>sim.
       new_request s request_seq ''emulate_actions''
         ([(''instance_id'', inst), (''items'', PList (map PDict ds))] @ sim))))))))"

definition normalize_branch_ids :: "pyval \<Rightarrow> exn + pyval list" where
  "normalize_branch_ids branch_ids =
     then_r (py_sequence branch_ids) (\<lambda>xs.
     then_r (raise_if (xs = []) ValueError) (\<lambda>_.
     then_r (for_r (\<lambda>b. then_r (validate_non_empty_str b)
                          (\<lambda>_. raise_if (b = PStr root_branch_id) ValueError)) xs) (\<lambda>_.
     then_r (raise_if (\<not> distinct xs) ValueError) (\<lambda>_. Inr xs))))"

definition build_branch_batch_operation ::
  "'a contract_scheme \<Rightarrow> int \<Rightarrow> string \<Rightarrow> pyval \<Rightarrow> pyval \<Rightarrow> exn + pydict" where
  "build_branch_batch_operation s request_seq operation inst branch_ids =
     then_r (validate_instance_id s inst) (\<lambda>_.
     then_r (normalize_branch_ids branch_ids) (\<lambda>xs.
       new_request s request_seq operation
         [(''instance_id'', inst), (''branch_ids'', PList xs)]))"

definition build_close_instance :: "'a contract_scheme \<Rightarrow> int \<Rightarrow> pyval \<Rightarrow> exn + pydict" where
  "build_close_instance s request_seq inst =
     then_r (validate_instance_id s inst) (\<lambda>_.
       new_request s request_seq ''close_instance'' [(''instance_id'', inst)])"

section \<open>Checking responses\<close>

subsection \<open>The decision payload\<close>

definition validate_legal_action :: "string list \<Rightarrow> pyval \<Rightarrow> exn + string" where
  "validate_legal_action seen action =
     (case action of
        PDict d \<Rightarrow>
          (case dget d ''action_id'' of
             PStr a \<Rightarrow>
               then_r (raise_if (a = [] \<or> a \<in> set seen) ApiProtocolError) (\<lambda>_.
               then_r (raise_if (dhas d ''action_type'' \<and> \<not> is_nonempty_str (dget d ''action_type''))
                         ApiProtocolError) (\<lambda>_.
               then_r (raise_if (dhas d ''is_available'' \<and> \<not> is_bool (dget d ''is_available''))
                         ApiProtocolError) (\<lambda>_.
               then_r (raise_if (dhas d ''parameters'' \<and> \<not> is_dict (dget d ''parameters''))
                         ApiProtocolError) (\<lambda>_. Inr a))))
           | _ \<Rightarrow> Inl ApiProtocolError)
      | _ \<Rightarrow> Inl ApiProtocolError)"

fun validate_legal_actions :: "string list \<Rightarrow> pyval list \<Rightarrow> exn + unit" where
  "validate_legal_actions seen [] = Inr ()"
| "validate_legal_actions seen (x # xs) =
     then_r (validate_legal_action seen x) (\<lambda>a. validate_legal_actions (a # seen) xs)"

definition validate_decision_payload :: "pydict \<Rightarrow> exn + unit" where
  "validate_decision_payload response =
     then_r (require_non_empty_str response ''decision_point_id'') (\<lambda>_.
     case dget response ''masked_emulator_dto'' of
       PDict masked \<Rightarrow>
         (let combat_terminal = (dget masked ''terminal'' = PBool True);
              run_terminal = (dget masked ''run_terminal'' = PBool True);
              is_terminal = (combat_terminal \<or> run_terminal);
              valid_outcomes = (if run_terminal then run_terminal_outcomes
                                else combat_terminal_outcomes)
          in then_r (raise_if (dget masked ''mask_version'' \<noteq> PStr mask_version) ApiProtocolError) (\<lambda>_.
             then_r (for_r (\<lambda>marker. raise_if (dhas masked marker \<and> \<not> is_bool (dget masked marker))
                                       ApiProtocolError)
                       [''terminal'', ''run_terminal'']) (\<lambda>_.
             then_r (raise_if (combat_terminal \<and> run_terminal) ApiProtocolError) (\<lambda>_.
             then_r (raise_if (if is_terminal
                               then dget masked ''outcome'' \<notin> PStr ` set valid_outcomes
                               else dhas masked ''outcome'') ApiProtocolError) (\<lambda>_.
             if \<not> dhas masked ''legal_actions'' then
               (if run_terminal then Inr () else Inl ApiProtocolError)
             else
               (case dget masked ''legal_actions'' of
                  PList actions \<Rightarrow>
                    then_r (raise_if (is_terminal \<and> actions \<noteq> []) ApiProtocolError)
                      (\<lambda>_. validate_legal_actions [] actions)
                | _ \<Rightarrow> Inl ApiProtocolError))))))
     | _ \<Rightarrow> Inl ApiProtocolError)"

subsection \<open>Batches\<close>

text \<open>
  The items of the request by branch id: a later item of the same id would replace an earlier one.
  An item that is not a mapping cannot be subscripted.
\<close>

fun expected_items :: "pyval list \<Rightarrow> exn + (pyval \<times> pydict) list" where
  "expected_items [] = Inr []"
| "expected_items (item # items) =
     (case item of
        PDict d \<Rightarrow>
          then_r (ditem d ''branch_id'') (\<lambda>b.
          then_r (raise_if (\<not> hashable b) TypeError) (\<lambda>_.
          then_r (expected_items items) (\<lambda>es. Inr ((b, d) # es))))
      | _ \<Rightarrow> Inl TypeError)"

definition validate_branch_result ::
  "(pyval \<times> pydict) list \<Rightarrow> string \<times> pyval \<Rightarrow> exn + unit" where
  "validate_branch_result expected entry =
     (case entry of
        (branch_id, PDict r) \<Rightarrow>
          then_r (in_str_set (dget r ''status'') emulate_actions_branch_statuses) (\<lambda>ok.
          then_r (raise_if (\<not> ok) ApiProtocolError) (\<lambda>_.
          case map_of (rev expected) (PStr branch_id) of
            None \<Rightarrow> Inl KeyError
          | Some item \<Rightarrow>
              then_r (require_response_match r ''branch_id'' (PStr branch_id)) (\<lambda>_.
              then_r (then_r (ditem item ''parent_branch_id'')
                        (require_response_match r ''parent_branch_id'')) (\<lambda>_.
              then_r (then_r (ditem item ''rng_id'') (require_response_match r ''rng_id'')) (\<lambda>_.
              if dget r ''status'' \<in> {PStr ''completed'', PStr ''partial''}
              then validate_decision_payload r
              else then_r (require_non_empty_str r ''error'') (\<lambda>_. Inr ()))))))
      | _ \<Rightarrow> Inl ApiProtocolError)"

definition validate_emulate_actions_response :: "pydict \<Rightarrow> pydict \<Rightarrow> exn + unit" where
  "validate_emulate_actions_response request response =
     then_r (require_status response [''completed'']) (\<lambda>_.
     case dget response ''branch_results'' of
       PDict branch_results \<Rightarrow>
         (case dget request ''items'' of
            PList items \<Rightarrow>
              then_r (expected_items items) (\<lambda>expected.
              then_r (raise_if (PStr ` set (dkeys branch_results) \<noteq> fst ` set expected) ApiProtocolError) (\<lambda>_.
                for_r (validate_branch_result expected) branch_results))
          | _ \<Rightarrow> Inl ApiProtocolError)
     | _ \<Rightarrow> Inl ApiProtocolError)"

definition check_branch_batch_response :: "pydict \<Rightarrow> pydict \<Rightarrow> exn + pyval list" where
  "check_branch_batch_response request response =
     then_r (require_status response [''completed'']) (\<lambda>_.
     case dget response ''branch_statuses'' of
       PDict branch_statuses \<Rightarrow>
         (case dget request ''branch_ids'' of
            PList branch_ids \<Rightarrow>
              then_r (raise_if (\<exists>b \<in> set branch_ids. \<not> hashable b) TypeError) (\<lambda>_.
              then_r (raise_if (PStr ` set (dkeys branch_statuses) \<noteq> set branch_ids)
                        ApiProtocolError) (\<lambda>_.
              then_r (for_r (\<lambda>entry. raise_if (snd entry \<notin> PStr ` set
                        (if dget request ''operation'' = PStr ''cancel_branches'' then [''cancelled'']
                         else if dget request ''operation'' = PStr ''release_branches'' then [''released'']
                         else branch_status_values)) ApiProtocolError) branch_statuses) (\<lambda>_.
                Inr branch_ids)))
          | _ \<Rightarrow> Inl ApiProtocolError)
     | _ \<Rightarrow> Inl ApiProtocolError)"

text \<open>a confirmed cancellation or release drops the cached Decisions of the branches\<close>

definition validate_branch_batch_response ::
  "pydict \<Rightarrow> pydict \<Rightarrow> ('a contract_scheme, exn, unit) py" where
  "validate_branch_batch_response request response =
     bind_p (lift_p (check_branch_batch_response request response)) (\<lambda>branch_ids.
       if dget request ''operation'' \<in> {PStr ''cancel_branches'', PStr ''release_branches''} then
         (case dget request ''instance_id'' of
            PStr i \<Rightarrow> if i = [] then ret_p ()
                     else modify_p (\<lambda>s. s\<lparr>audit_state := audit_forget i branch_ids (audit_state s)\<rparr>)
          | _ \<Rightarrow> ret_p ())
       else ret_p ())"

subsection \<open>Every response\<close>

text \<open>
  The part of \<open>_validate_api_response\<close> before the operation-specific checks: shape, version,
  correlation with the request, status, and the two statuses that raise.
\<close>

definition check_envelope :: "pydict \<Rightarrow> pyval \<Rightarrow> exn + pydict" where
  "check_envelope request response =
     (case response of
        PDict r \<Rightarrow>
          then_r (raise_if (dget r ''schema_version'' \<noteq> PStr schema_version) ApiProtocolError) (\<lambda>_.
          then_r (for_r (\<lambda>field. require_response_match r field (dget request field))
                    [''client_session_id'', ''request_seq'', ''request_id'', ''operation'']) (\<lambda>_.
          then_r (require_non_empty_str r ''server_epoch'') (\<lambda>_.
          then_r (require_non_empty_str r ''status'') (\<lambda>status.
          then_r (raise_if (status \<notin> set known_statuses) ApiProtocolError) (\<lambda>_.
          then_r (if dget request ''instance_id'' \<noteq> PNone
                  then require_response_match r ''instance_id'' (dget request ''instance_id'')
                  else Inr ()) (\<lambda>_.
          then_r (if status \<in> {''rejected'', ''faulted''}
                  then then_r (require_non_empty_str r ''error'') (\<lambda>_. Inr ()) else Inr ()) (\<lambda>_.
          then_r (raise_if (status = ''rejected'') (RequestRejectedError r)) (\<lambda>_.
          then_r (raise_if (status = ''faulted'') (RequestFaultedError r)) (\<lambda>_.
            Inr r)))))))))
      | _ \<Rightarrow> Inl ApiProtocolError)"

definition validate_api_response ::
  "pydict \<Rightarrow> pyval \<Rightarrow> ('a contract_scheme, exn, pydict) py" where
  "validate_api_response request response =
     bind_p (lift_p (check_envelope request response)) (\<lambda>r.
       then_p
         (if dget request ''operation'' \<in> PStr ` set branch_batch_operations
          then validate_branch_batch_response request r
          else if dget request ''operation'' = PStr ''emulate_actions''
          then lift_p (validate_emulate_actions_response request r)
          else ret_p ())
         (ret_p r))"

definition validate_selected_action_response :: "pydict \<Rightarrow> pydict \<Rightarrow> exn + unit" where
  "validate_selected_action_response request response =
     then_r (ditem response ''status'') (\<lambda>status.
     then_r (ditem request ''operation'') (\<lambda>operation.
     if operation = PStr ''commit_action'' then
       (if status = PStr ''completed''
        then then_r (require_response_match response ''branch_id'' (PStr root_branch_id))
               (\<lambda>_. validate_decision_payload response)
        else Inr ())
     else
       then_r (in_str_set status [''completed'', ''partial'', ''queued'', ''running'']) (\<lambda>live.
       then_r (if \<not> live then Inr ()
               else then_r (then_r (ditem request ''branch_id'')
                              (require_response_match response ''branch_id'')) (\<lambda>_.
                    then_r (if dhas response ''parent_branch_id''
                            then then_r (ditem request ''parent_branch_id'')
                                   (require_response_match response ''parent_branch_id'')
                            else Inr ()) (\<lambda>_.
                    if dhas response ''rng_id''
                    then then_r (ditem request ''rng_id'') (require_response_match response ''rng_id'')
                    else Inr ()))) (\<lambda>_.
       then_r (in_str_set status [''completed'', ''partial'']) (\<lambda>resolved.
         if resolved then validate_decision_payload response else Inr ())))))"

section \<open>Accepting responses\<close>

definition accept_start_instance :: "pydict \<Rightarrow> ('a contract_scheme, exn, string) py" where
  "accept_start_instance response =
     then_p (lift_p (require_status response [''completed'']))
    (bind_p (lift_p (require_non_empty_str response ''instance_id'')) (\<lambda>inst.
     let max_items = dget response ''max_emulate_actions_items'' in
     then_p (lift_p (raise_if (max_items \<noteq> PNone \<and> \<not> is_positive_int max_items) ApiProtocolError))
    (then_p (modify_p (\<lambda>s. s\<lparr>instance_id := Some inst,
                             instance_type := pending_start_instance_type s,
                             pending_start_instance_type := None,
                             max_emulate_actions_items :=
                               (case max_items of PInt m \<Rightarrow> Some m | _ \<Rightarrow> None),
                             audit_state := audit_remember response (audit_clear (audit_state s))\<rparr>))
       (ret_p inst))))"

definition accept_get_decision :: "pydict \<Rightarrow> pyval \<Rightarrow> ('a contract_scheme, exn, pydict) py" where
  "accept_get_decision response branch_id =
     bind_p (lift_p (ditem response ''status'')) (\<lambda>status.
       if status = PStr ''completed'' then
         then_p (lift_p (require_response_match response ''branch_id'' branch_id))
        (then_p (lift_p (validate_decision_payload response))
        (then_p (modify_p (\<lambda>s. s\<lparr>audit_state := audit_remember response (audit_state s)\<rparr>))
           (ret_p response)))
       else ret_p response)"

definition clear_instance :: "'a contract_scheme \<Rightarrow> 'a contract_scheme" where
  "clear_instance s =
     s\<lparr>instance_id := None, instance_type := None, pending_start_instance_type := None,
       max_emulate_actions_items := None, audit_state := audit_clear (audit_state s)\<rparr>"

definition accept_close_instance :: "pydict \<Rightarrow> ('a contract_scheme, exn, pydict) py" where
  "accept_close_instance response =
     then_p (lift_p (require_status response [''completed'']))
    (then_p (modify_p clear_instance) (ret_p response))"

text \<open>the audit record of a selection; its exceptions are those of \<open>record_action\<close>\<close>

definition record_selected_action ::
  "pydict \<Rightarrow> pyval \<Rightarrow> pydict option \<Rightarrow> exn option \<Rightarrow> ('a contract_scheme, exn, unit) py" where
  "record_selected_action request source result err = (\<lambda>s.
     case record_action request source result err (audit_state s) of
       (r, a) \<Rightarrow> (r, s\<lparr>audit_state := a\<rparr>))"

end
