(* ===== verification/Async_Client.thy ===== *)
theory Async_Client
  imports Api_Contract
begin

text \<open>
  \<open>api/async_client.py\<close>: \<open>AsyncTrainingApiClient\<close>, one logical request stream over a connection
  that may fail.  The state extends the one of \<open>ApiContract\<close>, as the class does.  The connection
  is a parameter, the record \<open>conn_ops\<close> of the calls the client makes on it with a state \<open>'c\<close> of
  its own; \<open>Tcp_Connection\<close> provides it.  The operation lock makes the methods of one client run
  one after the other, so a method is one transition; the outcome of waiting for the lock is the
  environment's, as is the clock.
\<close>

section \<open>State and environment\<close>

record 'c client = contract +
  connection :: 'c
  next_request_seq :: int
  pending_retry :: "retry_request option"
  session_invalid :: bool
  emulate_actions_boundaries :: "string set"
  pending_retry_cleanup :: "(retry_request \<times> pyval \<times> string list) option"

datatype lock_outcome = LockAcquired | LockTimeout | LockCancelled

record 'c conn_ops =
  op_time :: "'c \<Rightarrow> rat \<times> 'c"
  op_lock :: "rat \<Rightarrow> 'c \<Rightarrow> lock_outcome \<times> 'c"
  op_exchange :: "pydict \<Rightarrow> rat \<Rightarrow> 'c \<Rightarrow> (exn + pyval) \<times> 'c"
  op_invalidate :: "'c \<Rightarrow> (exn + unit) \<times> 'c"
  op_close :: "'c \<Rightarrow> (exn + unit) \<times> 'c"

definition conn_p :: "('c \<Rightarrow> (exn + 'a) \<times> 'c) \<Rightarrow> ('c client, exn, 'a) py" where
  "conn_p f = (\<lambda>s. case f (connection s) of (r, c) \<Rightarrow> (r, s\<lparr>connection := c\<rparr>))"

definition non_consuming_session_rejections :: "string list" where
  "non_consuming_session_rejections =
     [''invalid_request'', ''session_sequence_conflict'', ''session_sequence_gap'',
      ''session_capacity_exceeded'']"

definition fatal_consuming_session_rejections :: "string list" where
  "fatal_consuming_session_rejections = [''session_instance_conflict'', ''unknown_instance'']"

definition client_init :: "string \<Rightarrow> 'c \<Rightarrow> bool \<Rightarrow> exn + 'c client" where
  "client_init session c logger =
     then_r (validate_non_empty_str (PStr session)) (\<lambda>_.
       Inr \<lparr>session_id = session, audit_state = audit_init logger, instance_id = None,
            instance_type = None, pending_start_instance_type = None,
            max_emulate_actions_items = None, connection = c, next_request_seq = 1,
            pending_retry = None, session_invalid = False, emulate_actions_boundaries = {},
            pending_retry_cleanup = None\<rparr>)"

definition start_uncertain :: "'c client \<Rightarrow> exn + bool" where
  "start_uncertain s =
     (case pending_retry s of
        None \<Rightarrow> Inr False
      | Some t \<Rightarrow> then_r (rr_operation t) (\<lambda>op. Inr (op = Some ''start_instance'')))"

definition close_uncertain :: "'c client \<Rightarrow> exn + bool" where
  "close_uncertain s =
     (case pending_retry s of
        None \<Rightarrow> Inr False
      | Some t \<Rightarrow> then_r (rr_operation t) (\<lambda>op. Inr (op = Some ''close_instance'')))"

section \<open>The sequence state\<close>

definition ensure_fresh_request_allowed :: "('c client, exn, unit) py" where
  "ensure_fresh_request_allowed = with_p (\<lambda>s.
     if session_invalid s then raise_p RuntimeError
     else if pending_retry s \<noteq> None then raise_p RuntimeError
     else ret_p ())"

definition remember_pending :: "retry_request \<Rightarrow> ('c client, exn, unit) py" where
  "remember_pending retry =
     bind_p (lift_p (rr_client_session_id retry)) (\<lambda>session.
     bind_p (lift_p (rr_request_seq retry)) (\<lambda>seq.
     with_p (\<lambda>s.
       if session \<noteq> Some (session_id s) then raise_p RuntimeError
       else if seq \<noteq> Some (next_request_seq s) then raise_p RuntimeError
       else if pending_retry s \<noteq> None \<and> pending_retry s \<noteq> Some retry then raise_p RuntimeError
       else modify_p (\<lambda>s. s\<lparr>pending_retry := Some retry\<rparr>))))"

definition consume_sequence :: "retry_request \<Rightarrow> ('c client, exn, unit) py" where
  "consume_sequence request =
     bind_p (lift_p (rr_request_seq request)) (\<lambda>seq.
     with_p (\<lambda>s.
       if seq \<noteq> Some (next_request_seq s) then raise_p RuntimeError
       else modify_p (\<lambda>s. s\<lparr>pending_retry := None, next_request_seq := next_request_seq s + 1\<rparr>)))"

definition mark_protocol_uncertain :: "'c conn_ops \<Rightarrow> pydict \<Rightarrow> ('c client, exn, unit) py" where
  "mark_protocol_uncertain ops request =
     then_p (remember_pending (from_message request)) (conn_p (op_invalidate ops))"

definition clear_instance_extensions :: "'c client \<Rightarrow> 'c client" where
  "clear_instance_extensions s = s\<lparr>emulate_actions_boundaries := {}, pending_retry_cleanup := None\<rparr>"

definition invalidate_session :: "'c client \<Rightarrow> 'c client" where
  "invalidate_session s = s\<lparr>session_invalid := True, pending_retry := None, pending_retry_cleanup := None\<rparr>"

text \<open>\<open>_operation_deadline\<close>: the body runs with the lock held and the absolute deadline\<close>

definition operation_deadline ::
  "'c conn_ops \<Rightarrow> rat \<Rightarrow> (rat \<Rightarrow> ('c client, exn, 'a) py) \<Rightarrow> ('c client, exn, 'a) py" where
  "operation_deadline ops timeout_s body =
     (if timeout_s \<le> 0 then raise_p ValueError
      else bind_p (conn_p (\<lambda>c. case op_time ops c of (t, c') \<Rightarrow> (Inr t, c'))) (\<lambda>now.
           bind_p (conn_p (\<lambda>c. case op_lock ops (now + timeout_s) c of (l, c') \<Rightarrow> (Inr l, c'))) (\<lambda>l.
             case l of
               LockAcquired \<Rightarrow> body (now + timeout_s)
             | LockTimeout \<Rightarrow> raise_p (TransportError TransportPlain False None)
             | LockCancelled \<Rightarrow> raise_p (CancelledError False None))))"

section \<open>One exchange\<close>

text \<open>the two \<open>except\<close> clauses after \<open>exchange\<close> that keep the recovery token\<close>

definition on_exchange_error :: "retry_request \<Rightarrow> exn \<Rightarrow> ('c client, exn, 'a) py" where
  "on_exchange_error token e =
     (case e of
        TransportError kind uncertain retry \<Rightarrow>
          if kind = ServerEpochChanged then then_p (modify_p invalidate_session) (raise_p e)
          else then_p (if uncertain
                       then remember_pending (case retry of None \<Rightarrow> token | Some r \<Rightarrow> r)
                       else ret_p ()) (raise_p e)
      | CancelledError uncertain retry \<Rightarrow>
          then_p (if uncertain then remember_pending (case retry of None \<Rightarrow> token | Some r \<Rightarrow> r)
                  else ret_p ()) (raise_p e)
      | _ \<Rightarrow> raise_p e)"

text \<open>the \<open>except ApiOperationError\<close> clause: a rejected or faulted response\<close>

definition on_operation_error :: "retry_request \<Rightarrow> pydict \<Rightarrow> exn \<Rightarrow> ('c client, exn, 'a) py" where
  "on_operation_error token response e =
     (let fault_kind = dget response ''fault_kind''; status = dget response ''status'' in
      bind_p (if status = PStr ''rejected''
              then lift_p (in_str_set fault_kind non_consuming_session_rejections)
              else ret_p False) (\<lambda>non_consuming.
        if non_consuming then then_p (modify_p invalidate_session) (raise_p e)
        else
          then_p (consume_sequence token)
         (bind_p (lift_p (rr_operation token)) (\<lambda>operation.
          then_p (if operation = Some ''close_instance'' \<and> status = PStr ''faulted''
                  then modify_p (\<lambda>s. clear_instance_extensions (clear_instance s))
                  else ret_p ())
         (bind_p (lift_p (in_str_set fault_kind fatal_consuming_session_rejections)) (\<lambda>fatal.
          then_p (if fatal
                  then modify_p (\<lambda>s. s\<lparr>session_invalid := True, pending_retry_cleanup := None\<rparr>)
                  else ret_p ())
            (raise_p e)))))))"

definition execute :: "'c conn_ops \<Rightarrow> pydict \<Rightarrow> rat \<Rightarrow> ('c client, exn, pydict) py" where
  "execute ops request deadline =
     (let token = from_message request in
      bind_p (lift_p (rr_request_seq token)) (\<lambda>seq.
      with_p (\<lambda>s.
        if seq \<noteq> Some (next_request_seq s) then raise_p RuntimeError
        else if pending_retry s \<noteq> None \<and> pending_retry s \<noteq> Some token then raise_p RuntimeError
        else
          try_else (conn_p (op_exchange ops request deadline))
            (\<lambda>response.
               try_p (validate_api_response request response)
                 (\<lambda>e. case api_operation_response e of
                        Some r \<Rightarrow> on_operation_error token r e
                      | None \<Rightarrow>
                          if e = ApiProtocolError
                          then then_p (mark_protocol_uncertain ops request) (raise_p e)
                          else raise_p e))
            (on_exchange_error token))))"

text \<open>\<open>try: accept except ApiProtocolError: mark uncertain; raise\<close>, after each exchange\<close>

definition accept_or_uncertain ::
  "'c conn_ops \<Rightarrow> pydict \<Rightarrow> ('c client, exn, 'a) py \<Rightarrow> ('c client, exn, 'a) py" where
  "accept_or_uncertain ops request m =
     try_p m (\<lambda>e. if e = ApiProtocolError
                  then then_p (mark_protocol_uncertain ops request) (raise_p e)
                  else raise_p e)"

section \<open>Selected actions and their audit\<close>

definition record_emulate_item ::
  "pydict \<Rightarrow> pydict option \<Rightarrow> exn option \<Rightarrow> pyval \<Rightarrow> ('c client, exn, unit) py" where
  "record_emulate_item request response err item =
     (case item of
        PDict d \<Rightarrow>
          (let branch_id = dget d ''branch_id'';
               branch_results = (case response of None \<Rightarrow> PNone | Some r \<Rightarrow> dget r ''branch_results'');
               branch_result =
                 (case branch_results of
                    PDict br \<Rightarrow> (case branch_id of PStr b \<Rightarrow> dget br b | _ \<Rightarrow> PNone)
                  | _ \<Rightarrow> (case response of None \<Rightarrow> PNone | Some r \<Rightarrow> PDict r));
               item_request =
                 map (\<lambda>k. (k, dget request k))
                   [''schema_version'', ''client_session_id'', ''request_seq'', ''request_id'']
                 @ [(''operation'', PStr ''emulate_actions''),
                    (''instance_id'', dget request ''instance_id''),
                    (''parent_branch_id'', dget d ''parent_branch_id''),
                    (''branch_id'', branch_id),
                    (''rng_id'', dget d ''rng_id''),
                    (''decision_point_id'', dget d ''decision_point_id''),
                    (''action_id'', dget d ''action_id'')]
           in if is_dict branch_results \<and> \<not> hashable branch_id then raise_p TypeError
              else record_selected_action item_request (dget d ''parent_branch_id'')
                     (case branch_result of PDict r \<Rightarrow> Some r | _ \<Rightarrow> None) err)
      | _ \<Rightarrow> ret_p ())"

definition record_emulate_actions_batch ::
  "pydict \<Rightarrow> pydict option \<Rightarrow> exn option \<Rightarrow> ('c client, exn, unit) py" where
  "record_emulate_actions_batch request response err =
     (case dget request ''items'' of
        PList items \<Rightarrow> for_p (record_emulate_item request response err) items
      | _ \<Rightarrow> ret_p ())"

text \<open>
  The three \<open>except\<close> clauses around an audited exchange: a cancellation and any other exception are
  recorded with the response received so far, an operation error with its own response.
\<close>

definition on_selected_error ::
  "(pydict option \<Rightarrow> exn option \<Rightarrow> ('c client, exn, unit) py) \<Rightarrow> pydict option \<Rightarrow> exn
     \<Rightarrow> ('c client, exn, 'a) py" where
  "on_selected_error record response e =
     (case api_operation_response e of
        Some r \<Rightarrow> then_p (record (Some r) None) (raise_p e)
      | None \<Rightarrow> then_p (record response (Some e)) (raise_p e))"

definition execute_selected_action ::
  "'c conn_ops \<Rightarrow> pydict \<Rightarrow> pyval \<Rightarrow> rat \<Rightarrow> ('c client, exn, pydict) py" where
  "execute_selected_action ops request source deadline =
     (let record = record_selected_action request source in
      try_else (execute ops request deadline)
        (\<lambda>response.
           try_else
             (then_p (accept_or_uncertain ops request
                        (lift_p (validate_selected_action_response request response)))
                     (consume_sequence (from_message request)))
             (\<lambda>_. then_p (record (Some response) None) (ret_p response))
             (on_selected_error record (Some response)))
        (on_selected_error record None))"

definition execute_emulate_actions ::
  "'c conn_ops \<Rightarrow> pydict \<Rightarrow> rat \<Rightarrow> ('c client, exn, pydict) py" where
  "execute_emulate_actions ops request deadline =
     (let record = record_emulate_actions_batch request in
      try_else (execute ops request deadline)
        (\<lambda>response.
           try_else (consume_sequence (from_message request))
             (\<lambda>_. then_p (record (Some response) None) (ret_p response))
             (on_selected_error record (Some response)))
        (on_selected_error record None))"

section \<open>Fresh operations\<close>

definition accept_start_instance_for_request ::
  "pydict \<Rightarrow> pydict \<Rightarrow> ('c client, exn, string) py" where
  "accept_start_instance_for_request request response =
     (let raw = (case dget_default response ''emulate_actions_boundaries'' (PList []) of
                   PNone \<Rightarrow> PList [] | v \<Rightarrow> v) in
      if vget (dget request ''instance_config'') ''instance_type'' = PStr ''combat''
         \<and> dget response ''max_emulate_actions_items'' = PNone
      then raise_p ApiProtocolError
      else case raw of
        PList bs \<Rightarrow>
          if (\<exists>b \<in> set bs. \<not> is_nonempty_str b) \<or> \<not> distinct bs then raise_p ApiProtocolError
          else bind_p (accept_start_instance response) (\<lambda>inst.
               then_p (modify_p (\<lambda>s. s\<lparr>emulate_actions_boundaries := set (List.map_filter str_opt bs),
                                       pending_retry_cleanup := None\<rparr>))
                 (ret_p inst))
      | _ \<Rightarrow> raise_p ApiProtocolError)"

definition start_instance ::
  "'c conn_ops \<Rightarrow> pydict \<Rightarrow> rat \<Rightarrow> ('c client, exn, string) py" where
  "start_instance ops instance_config timeout_s =
     operation_deadline ops timeout_s (\<lambda>deadline.
       then_p ensure_fresh_request_allowed
      (with_p (\<lambda>s.
         if instance_id s \<noteq> None then raise_p RuntimeError
         else if dget instance_config ''instance_type'' = PStr ''whole_run''
                 \<and> dhas instance_config ''snapshot_json'' then raise_p ValueError
         else
           bind_p (build_start_instance (next_request_seq s) instance_config) (\<lambda>request.
           bind_p (execute ops request deadline) (\<lambda>response.
           bind_p (accept_or_uncertain ops request
                     (accept_start_instance_for_request request response)) (\<lambda>result.
           then_p (consume_sequence (from_message request)) (ret_p result)))))))"

definition get_decision ::
  "'c conn_ops \<Rightarrow> pyval \<Rightarrow> pyval \<Rightarrow> rat \<Rightarrow> ('c client, exn, pydict) py" where
  "get_decision ops inst branch_id timeout_s =
     operation_deadline ops timeout_s (\<lambda>deadline.
       then_p ensure_fresh_request_allowed
      (bind_p (with_p (\<lambda>s. lift_p (build_get_decision s (next_request_seq s) inst branch_id))) (\<lambda>request.
       bind_p (execute ops request deadline) (\<lambda>response.
       bind_p (accept_or_uncertain ops request (accept_get_decision response branch_id)) (\<lambda>result.
       then_p (consume_sequence (from_message request)) (ret_p result))))))"

definition commit_action ::
  "'c conn_ops \<Rightarrow> pyval \<Rightarrow> pyval \<Rightarrow> pyval \<Rightarrow> rat \<Rightarrow> ('c client, exn, pydict) py" where
  "commit_action ops inst decision_point_id action_id timeout_s =
     operation_deadline ops timeout_s (\<lambda>deadline.
       then_p ensure_fresh_request_allowed
      (bind_p (with_p (\<lambda>s. lift_p (build_commit_action s (next_request_seq s) inst
                                     decision_point_id action_id))) (\<lambda>request.
         execute_selected_action ops request (PStr root_branch_id) deadline)))"

definition emulate_action ::
  "'c conn_ops \<Rightarrow> pyval \<Rightarrow> pyval \<Rightarrow> pyval \<Rightarrow> pyval \<Rightarrow> pyval \<Rightarrow> pyval \<Rightarrow> rat \<Rightarrow> pyval
     \<Rightarrow> ('c client, exn, pydict) py" where
  "emulate_action ops inst parent_branch_id branch_id rng_id decision_point_id action_id
     timeout_s options =
     operation_deadline ops timeout_s (\<lambda>deadline.
       then_p ensure_fresh_request_allowed
      (bind_p (with_p (\<lambda>s. lift_p (build_emulate_action s (next_request_seq s) inst
                 parent_branch_id branch_id rng_id decision_point_id action_id options))) (\<lambda>request.
         execute_selected_action ops request parent_branch_id deadline)))"

definition emulate_actions ::
  "'c conn_ops \<Rightarrow> pyval \<Rightarrow> pyval \<Rightarrow> rat \<Rightarrow> pyval \<Rightarrow> ('c client, exn, pydict) py" where
  "emulate_actions ops inst items timeout_s options =
     operation_deadline ops timeout_s (\<lambda>deadline.
       then_p ensure_fresh_request_allowed
      (bind_p (with_p (\<lambda>s. lift_p (build_emulate_actions s (next_request_seq s) inst items options)))
         (\<lambda>request. execute_emulate_actions ops request deadline)))"

definition branch_batch_operation ::
  "'c conn_ops \<Rightarrow> string \<Rightarrow> pyval \<Rightarrow> pyval \<Rightarrow> rat \<Rightarrow> ('c client, exn, pydict) py" where
  "branch_batch_operation ops operation inst branch_ids timeout_s =
     operation_deadline ops timeout_s (\<lambda>deadline.
       then_p ensure_fresh_request_allowed
      (bind_p (with_p (\<lambda>s. lift_p (build_branch_batch_operation s (next_request_seq s) operation
                                     inst branch_ids))) (\<lambda>request.
       bind_p (execute ops request deadline) (\<lambda>response.
       then_p (consume_sequence (from_message request)) (ret_p response)))))"

definition cancel_branches ::
  "'c conn_ops \<Rightarrow> pyval \<Rightarrow> pyval \<Rightarrow> rat \<Rightarrow> ('c client, exn, pydict) py" where
  "cancel_branches ops inst branch_ids timeout_s =
     branch_batch_operation ops ''cancel_branches'' inst branch_ids timeout_s"

definition release_branches ::
  "'c conn_ops \<Rightarrow> pyval \<Rightarrow> pyval \<Rightarrow> rat \<Rightarrow> ('c client, exn, pydict) py" where
  "release_branches ops inst branch_ids timeout_s =
     branch_batch_operation ops ''release_branches'' inst branch_ids timeout_s"

definition get_branch_status ::
  "'c conn_ops \<Rightarrow> pyval \<Rightarrow> pyval \<Rightarrow> rat \<Rightarrow> ('c client, exn, pydict) py" where
  "get_branch_status ops inst branch_ids timeout_s =
     branch_batch_operation ops ''get_branch_status'' inst branch_ids timeout_s"

definition close_instance ::
  "'c conn_ops \<Rightarrow> pyval \<Rightarrow> rat \<Rightarrow> ('c client, exn, pydict) py" where
  "close_instance ops inst timeout_s =
     operation_deadline ops timeout_s (\<lambda>deadline.
       then_p ensure_fresh_request_allowed
      (bind_p (with_p (\<lambda>s. lift_p (build_close_instance s (next_request_seq s) inst))) (\<lambda>request.
       bind_p (execute ops request deadline) (\<lambda>response.
       bind_p (accept_or_uncertain ops request (accept_close_instance response)) (\<lambda>result.
       then_p (consume_sequence (from_message request))
      (then_p (modify_p clear_instance_extensions) (ret_p result)))))))"

definition client_close :: "'c conn_ops \<Rightarrow> ('c client, exn, unit) py" where
  "client_close ops = conn_p (op_close ops)"

section \<open>Deferred branch cleanup and exact replay\<close>

definition branch_ids_created_by_retry :: "retry_request \<Rightarrow> exn + string list" where
  "branch_ids_created_by_retry retry =
     then_r (to_message retry) (\<lambda>request.
       if dget request ''operation'' = PStr ''emulate_action'' then
         Inr (case dget request ''branch_id'' of PStr b \<Rightarrow> if b = [] then [] else [b] | _ \<Rightarrow> [])
       else if dget request ''operation'' = PStr ''emulate_actions'' then
         Inr (case dget request ''items'' of
                PList items \<Rightarrow>
                  concat (map (\<lambda>item. case vget item ''branch_id'' of
                                        PStr b \<Rightarrow> if b = [] then [] else [b]
                                      | _ \<Rightarrow> []) items)
              | _ \<Rightarrow> [])
       else Inr [])"

text \<open>the loop of \<open>defer_branch_cleanup_after_retry\<close>: non-root strings, first occurrences kept\<close>

fun normalize_cleanup_ids :: "string list \<Rightarrow> pyval list \<Rightarrow> exn + string list" where
  "normalize_cleanup_ids seen [] = Inr []"
| "normalize_cleanup_ids seen (v # vs) =
     (case v of
        PStr b \<Rightarrow>
          if b = [] \<or> b = root_branch_id then Inl ValueError
          else if b \<in> set seen then normalize_cleanup_ids seen vs
          else then_r (normalize_cleanup_ids (b # seen) vs) (\<lambda>bs. Inr (b # bs))
      | _ \<Rightarrow> Inl ValueError)"

definition defer_branch_cleanup_after_retry ::
  "retry_request \<Rightarrow> pyval \<Rightarrow> pyval list \<Rightarrow> ('c client, exn, unit) py" where
  "defer_branch_cleanup_after_retry retry inst branch_ids = with_p (\<lambda>s.
     if session_invalid s then raise_p RuntimeError
     else if pending_retry s \<noteq> Some retry then raise_p ValueError
     else
       bind_p (lift_p (to_message retry)) (\<lambda>request.
       if \<not> py_eq (dget request ''instance_id'') inst then raise_p ValueError
       else if dget request ''operation'' \<notin> {PStr ''emulate_action'', PStr ''emulate_actions''}
       then raise_p ValueError
       else
         bind_p (lift_p (normalize_cleanup_ids [] branch_ids)) (\<lambda>normalized.
         if normalized = [] then raise_p ValueError
         else
           bind_p (lift_p (branch_ids_created_by_retry retry)) (\<lambda>expected.
           if expected = [] \<or> \<not> set expected \<subseteq> set normalized then raise_p ValueError
           else if pending_retry_cleanup s \<noteq> None
                   \<and> pending_retry_cleanup s \<noteq> Some (retry, inst, normalized)
           then raise_p RuntimeError
           else modify_p (\<lambda>s. s\<lparr>pending_retry_cleanup := Some (retry, inst, normalized)\<rparr>)))))"

definition complete_deferred_branch_cleanup ::
  "'c conn_ops \<Rightarrow> retry_request \<Rightarrow> rat \<Rightarrow> bool \<Rightarrow> ('c client, exn, unit) py" where
  "complete_deferred_branch_cleanup ops source deadline include_retry_created = with_p (\<lambda>s.
     case pending_retry_cleanup s of
       None \<Rightarrow> ret_p ()
     | Some (token, inst, recorded) \<Rightarrow>
         if token \<noteq> source then ret_p ()
         else
           bind_p (lift_p (branch_ids_created_by_retry source)) (\<lambda>created.
           let branch_ids = (if include_retry_created then recorded
                             else filter (\<lambda>b. b \<notin> set created) recorded) in
           if branch_ids = [] then modify_p (\<lambda>s. s\<lparr>pending_retry_cleanup := None\<rparr>)
           else
             bind_p (lift_p (build_branch_batch_operation s (next_request_seq s)
                       ''release_branches'' inst (PList (map PStr branch_ids)))) (\<lambda>request.
             let cleanup_token = from_message request in
             then_p (modify_p (\<lambda>s. s\<lparr>pending_retry_cleanup := Some (cleanup_token, inst, branch_ids)\<rparr>))
            (then_p (remember_pending cleanup_token)
            (then_p (try_p (then_p (execute ops request deadline) (consume_sequence cleanup_token))
                       (\<lambda>e. with_p (\<lambda>s.
                          then_p (if pending_retry s \<noteq> Some cleanup_token
                                  then modify_p (\<lambda>s. s\<lparr>pending_retry_cleanup := None\<rparr>)
                                  else ret_p ()) (raise_p e))))
               (modify_p (\<lambda>s. s\<lparr>pending_retry_cleanup := None\<rparr>)))))))"

text \<open>
  The replay of an emulate request, then the release of the branches it owns: also when the
  replay itself failed definitively; a rejected replay created no branches.  A cleanup that fails
  with an \<open>Exception\<close> gives way to a rejection, but replaces any other primary error.
\<close>

definition replay_then_cleanup ::
  "'c conn_ops \<Rightarrow> retry_request \<Rightarrow> rat \<Rightarrow> ('c client, exn, pydict) py \<Rightarrow> ('c client, exn, pydict) py" where
  "replay_then_cleanup ops retry deadline replay =
     try_else replay
       (\<lambda>result. then_p (complete_deferred_branch_cleanup ops retry deadline True) (ret_p result))
       (\<lambda>primary. with_p (\<lambda>s.
          if pending_retry s = None \<and> \<not> session_invalid s then
            (let rejected = (case api_operation_response primary of
                               Some r \<Rightarrow> dget r ''status'' = PStr ''rejected'' | None \<Rightarrow> False)
             in then_p
                  (try_p (complete_deferred_branch_cleanup ops retry deadline (\<not> rejected))
                     (\<lambda>e. if is_exception e \<and> rejected then raise_p primary else raise_p e))
                  (raise_p primary))
          else raise_p primary))"

datatype retry_result = RetryInstance string | RetryResponse pydict

definition map_p :: "('a \<Rightarrow> 'b) \<Rightarrow> ('s, 'e, 'a) py \<Rightarrow> ('s, 'e, 'b) py" where
  "map_p f m = bind_p m (\<lambda>x. ret_p (f x))"

definition retry_request_op ::
  "'c conn_ops \<Rightarrow> retry_request \<Rightarrow> rat \<Rightarrow> ('c client, exn, retry_result) py" where
  "retry_request_op ops retry timeout_s = with_p (\<lambda>s.
     if session_invalid s then raise_p RuntimeError
     else if pending_retry s = None then raise_p RuntimeError
     else if pending_retry s \<noteq> Some retry then raise_p ValueError
     else
       bind_p (lift_p (to_message retry)) (\<lambda>request.
       bind_p (lift_p (rr_operation retry)) (\<lambda>operation.
       operation_deadline ops timeout_s (\<lambda>deadline.
         if operation = Some ''start_instance'' then
           bind_p (execute ops request deadline) (\<lambda>response.
           bind_p (accept_or_uncertain ops request
                     (accept_start_instance_for_request request response)) (\<lambda>result.
           then_p (consume_sequence retry) (ret_p (RetryInstance result))))
         else if operation = Some ''get_decision'' then
           (if \<not> is_nonempty_str (dget request ''branch_id'') then raise_p ApiProtocolError
            else
              bind_p (execute ops request deadline) (\<lambda>response.
              bind_p (accept_or_uncertain ops request
                        (accept_get_decision response (dget request ''branch_id''))) (\<lambda>result.
              then_p (consume_sequence retry) (ret_p (RetryResponse result)))))
         else if operation = Some ''commit_action'' then
           map_p RetryResponse (execute_selected_action ops request (PStr root_branch_id) deadline)
         else if operation = Some ''emulate_action'' then
           (if \<not> is_nonempty_str (dget request ''parent_branch_id'') then raise_p ApiProtocolError
            else map_p RetryResponse
              (replay_then_cleanup ops retry deadline
                 (execute_selected_action ops request (dget request ''parent_branch_id'') deadline)))
         else if operation = Some ''emulate_actions'' then
           (if \<not> is_list (dget request ''items'') \<or> dget request ''items'' = PList []
            then raise_p ApiProtocolError
            else map_p RetryResponse
              (replay_then_cleanup ops retry deadline (execute_emulate_actions ops request deadline)))
         else if operation \<in> Some ` set branch_batch_operations then
           bind_p (execute ops request deadline) (\<lambda>response.
           then_p (consume_sequence retry)
          (with_p (\<lambda>s.
             then_p (case pending_retry_cleanup s of
                       None \<Rightarrow> ret_p ()
                     | Some (token, _, _) \<Rightarrow>
                         if token = retry then modify_p (\<lambda>s. s\<lparr>pending_retry_cleanup := None\<rparr>)
                         else ret_p ())
               (ret_p (RetryResponse response)))))
         else if operation = Some ''close_instance'' then
           bind_p (execute ops request deadline) (\<lambda>response.
           bind_p (accept_or_uncertain ops request (accept_close_instance response)) (\<lambda>result.
           then_p (consume_sequence retry)
          (then_p (modify_p clear_instance_extensions) (ret_p (RetryResponse result)))))
         else raise_p ValueError))))"

end
