(* ===== verification/Client_Sequence.thy ===== *)
theory Client_Sequence
  imports Async_Client
begin

text \<open>
  The session discipline of the client: a request sequence number is never used for two different
  requests that may both have reached the server, numbers are used without gaps, and while a
  request is unresolved nothing but its exact replay is sent.

  What the client sends is observed on a recording connection, the client's connection with a log
  of every message handed to \<open>exchange\<close> and its outcome.
\<close>

section \<open>The recording connection\<close>

type_synonym wire_entry = "pydict \<times> (exn + pyval)"

record 'c wire =
  wire_conn :: 'c
  wire_log :: "wire_entry list"

definition record_ops :: "'c conn_ops \<Rightarrow> 'c wire conn_ops" where
  "record_ops ops =
     \<lparr>op_time = (\<lambda>w. case op_time ops (wire_conn w) of (t, c) \<Rightarrow> (t, w\<lparr>wire_conn := c\<rparr>)),
      op_lock = (\<lambda>d w. case op_lock ops d (wire_conn w) of (l, c) \<Rightarrow> (l, w\<lparr>wire_conn := c\<rparr>)),
      op_exchange = (\<lambda>m d w. case op_exchange ops m d (wire_conn w) of
         (r, c) \<Rightarrow> (r, w\<lparr>wire_conn := c, wire_log := wire_log w @ [(m, r)]\<rparr>)),
      op_invalidate = (\<lambda>w. case op_invalidate ops (wire_conn w) of (r, c) \<Rightarrow> (r, w\<lparr>wire_conn := c\<rparr>)),
      op_close = (\<lambda>w. case op_close ops (wire_conn w) of (r, c) \<Rightarrow> (r, w\<lparr>wire_conn := c\<rparr>))\<rparr>"

text \<open>
  The outcomes after which the server may have executed the request: a response, an error marked
  completion-uncertain, and a changed server epoch.
\<close>

fun may_have_executed :: "exn + pyval \<Rightarrow> bool" where
  "may_have_executed (Inr _) = True"
| "may_have_executed (Inl (TransportError k u r)) = (u \<or> k = ServerEpochChanged)"
| "may_have_executed (Inl e) = completion_uncertain e"

definition entry_seq :: "wire_entry \<Rightarrow> int" where
  "entry_seq x = (case dget (fst x) ''request_seq'' of PInt i \<Rightarrow> i | _ \<Rightarrow> 0)"

text \<open>
  A response whose \<open>fault_kind\<close> and branch statuses can be looked up in a set.  The client tests
  these fields for set membership, so a list or dictionary there raises \<open>TypeError\<close>.
\<close>

definition well_shaped :: "pyval \<Rightarrow> bool" where
  "well_shaped v \<longleftrightarrow>
     hashable (vget v ''fault_kind'') \<and>
     (case vget v ''branch_results'' of
        PDict br \<Rightarrow> (\<forall>e \<in> set br. hashable (vget (snd e) ''status''))
      | _ \<Rightarrow> True)"

definition well_shaped_server :: "'c conn_ops \<Rightarrow> bool" where
  "well_shaped_server ops \<longleftrightarrow>
     (\<forall>m d c v c'. op_exchange ops m d c = (Inr v, c') \<longrightarrow> well_shaped v)"

section \<open>The interface the client relies on\<close>

text \<open>
  What \<open>exchange\<close> promises: the recovery token on a completion-uncertain error, when there is one,
  is the token of the message that was sent.
\<close>

locale replay_connection =
  fixes ops :: "'c conn_ops"
  assumes exchange_token:
    "op_exchange ops m d c = (Inl e, c') \<Longrightarrow> completion_uncertain e \<Longrightarrow>
       exn_retry_request e = None \<or> exn_retry_request e = Some (from_message m)"

section \<open>Requests the client builds\<close>

definition sane_item :: "pydict \<Rightarrow> bool" where
  "sane_item d \<longleftrightarrow> is_nonempty_str (dget d ''branch_id'') \<and> dhas d ''branch_id'' \<and>
     dhas d ''parent_branch_id'' \<and> dhas d ''rng_id''"

definition sane_request :: "pydict \<Rightarrow> bool" where
  "sane_request m \<longleftrightarrow>
     is_str (dget m ''operation'') \<and> dhas m ''operation'' \<and>
     (dget m ''operation'' \<in> PStr ` set branch_batch_operations \<longrightarrow>
        (\<exists>bs. dget m ''branch_ids'' = PList (map PStr bs))) \<and>
     (dget m ''operation'' = PStr ''emulate_action'' \<longrightarrow>
        dhas m ''branch_id'' \<and> dhas m ''parent_branch_id'' \<and> dhas m ''rng_id'') \<and>
     (dget m ''operation'' = PStr ''emulate_actions'' \<longrightarrow>
        (\<exists>ds. dget m ''items'' = PList (map PDict ds) \<and> list_all sane_item ds))"

definition request_for :: "'c client \<Rightarrow> pydict \<Rightarrow> bool" where
  "request_for s m \<longleftrightarrow>
     dget m ''request_seq'' = PInt (next_request_seq s) \<and>
     dget m ''client_session_id'' = PStr (session_id s) \<and> sane_request m"

lemma new_request_Inr:
  "new_request s n op fs = Inr m \<longleftrightarrow> 0 < n \<and>
     m = [(''schema_version'', PStr schema_version), (''client_session_id'', PStr (session_id s)),
          (''request_seq'', PInt n), (''request_id'', PStr (session_id s @ '':'' @ show_int n)),
          (''operation'', PStr op)] @ fs"
  by (auto simp: new_request_def)

lemma dget_new_request:
  assumes "new_request s n op fs = Inr m"
  shows "dget m ''request_seq'' = PInt n" "dget m ''client_session_id'' = PStr (session_id s)"
    "dget m ''operation'' = PStr op" "dhas m ''operation''"
    "k \<notin> {''schema_version'', ''client_session_id'', ''request_seq'', ''request_id'', ''operation''}
       \<Longrightarrow> dget m k = dget fs k"
    "k \<notin> {''schema_version'', ''client_session_id'', ''request_seq'', ''request_id'', ''operation''}
       \<Longrightarrow> dhas m k = dhas fs k"
  using assms by (auto simp: new_request_Inr)

lemma validate_non_empty_str_Inr [simp]: "validate_non_empty_str v = Inr u \<longleftrightarrow> is_nonempty_str v"
  by (simp add: validate_non_empty_str_def)

lemma new_request_sane:
  assumes "new_request s n op fs = Inr m"
    and "op \<notin> set branch_batch_operations" "op \<noteq> ''emulate_action''" "op \<noteq> ''emulate_actions''"
  shows "sane_request m"
  using assms dget_new_request(3,4) [OF assms(1)] by (auto simp: sane_request_def)

lemma all_nonempty_str_ex: "\<forall>x \<in> set xs. is_nonempty_str x \<Longrightarrow> \<exists>bs. xs = map PStr bs"
proof (induction xs)
  case (Cons x xs)
  then obtain bs where "xs = map PStr bs" by auto
  moreover from Cons.prems obtain b where "x = PStr b" by (auto elim: is_nonempty_strE)
  ultimately have "x # xs = map PStr (b # bs)" by simp
  then show ?case by (rule exI)
qed simp

lemma normalize_item_sane: "normalize_item seen item = Inr d \<Longrightarrow> sane_item d"
  by (auto simp: normalize_item_def py_simps sane_item_def split: pyval.splits)

lemma normalize_items_sane: "normalize_items seen items = Inr ds \<Longrightarrow> list_all sane_item ds"
  by (induction items arbitrary: seen ds) (auto simp: py_simps normalize_item_sane)

lemma normalize_branch_ids_str:
  "normalize_branch_ids v = Inr xs \<Longrightarrow> \<exists>bs. xs = map PStr bs"
  by (auto simp: normalize_branch_ids_def py_simps intro!: all_nonempty_str_ex)

section \<open>What the checks raise\<close>

text \<open>On a sane request the checks of a well-shaped response raise nothing but protocol errors.\<close>

lemma require_non_empty_str_Inl: "require_non_empty_str d k = Inl e \<Longrightarrow> e = ApiProtocolError"
  by (auto simp: require_non_empty_str_def split: pyval.splits if_splits)

lemma require_non_empty_str_Inr:
  "require_non_empty_str d k = Inr s \<longleftrightarrow> dget d k = PStr s \<and> s \<noteq> []"
  by (auto simp: require_non_empty_str_def split: pyval.splits)

lemma require_response_match_Inl:
  "require_response_match d k v = Inl e \<Longrightarrow> e = ApiProtocolError"
  by (simp add: require_response_match_def)

lemma validate_legal_actions_Inl: "validate_legal_actions seen xs = Inl e \<Longrightarrow> e = ApiProtocolError"
  by (induction xs arbitrary: seen)
    (auto simp: py_simps validate_legal_action_def split: pyval.splits)

lemma validate_decision_payload_Inl:
  "validate_decision_payload d = Inl e \<Longrightarrow> e = ApiProtocolError"
  by (auto simp: validate_decision_payload_def py_simps Let_def validate_legal_actions_Inl
      split: pyval.splits if_splits intro: require_non_empty_str_Inl)

lemmas protocol_only =
  require_non_empty_str_Inl require_response_match_Inl validate_decision_payload_Inl

text \<open>\<open>protocol_errors r\<close>: \<open>r\<close> returns or raises a protocol error\<close>

definition protocol_errors :: "exn + 'a \<Rightarrow> bool" where
  "protocol_errors r \<longleftrightarrow> (\<forall>e. r = Inl e \<longrightarrow> e = ApiProtocolError)"

lemma protocol_errors_then:
  "protocol_errors r \<Longrightarrow> (\<And>x. protocol_errors (f x)) \<Longrightarrow> protocol_errors (then_r r f)"
  by (cases r) (auto simp: protocol_errors_def)

lemma protocol_errors_if:
  "(b \<Longrightarrow> protocol_errors r) \<Longrightarrow> (\<not> b \<Longrightarrow> protocol_errors r') \<Longrightarrow> protocol_errors (if b then r else r')"
  by simp

lemma protocol_errors_checks:
  "protocol_errors (Inr x)" "protocol_errors (require_non_empty_str d k)"
  "protocol_errors (require_response_match d k v)" "protocol_errors (validate_decision_payload d)"
  "protocol_errors (in_str_set (PStr s) xs)"
  by (simp_all add: protocol_errors_def protocol_only)

lemmas protocol_errors_intro = protocol_errors_then protocol_errors_if protocol_errors_checks

lemma for_r_eq_Inl_iff:
  "for_r f xs = Inl e \<Longrightarrow> (\<And>x e. x \<in> set xs \<Longrightarrow> f x = Inl e \<Longrightarrow> e = c) \<Longrightarrow> e = c"
  using for_r_eq_Inl by fastforce

lemma expected_items_sane:
  assumes "list_all sane_item ds"
  shows "expected_items (map PDict ds) = Inr (map (\<lambda>d. (dget d ''branch_id'', d)) ds)"
  using assms
  by (induction ds)
    (auto simp: sane_item_def ditem_def dhas_def dget_def is_nonempty_strE split: option.splits
      elim!: is_nonempty_strE)

lemma validate_branch_result_Inl:
  assumes e: "validate_branch_result expected (b, v) = Inl e"
    and h: "hashable (vget v ''status'')"
    and sane: "\<forall>x \<in> set expected. sane_item (snd x)"
    and dom: "PStr b \<in> fst ` set expected"
  shows "e = ApiProtocolError"
proof -
  from dom obtain item where item: "map_of (rev expected) (PStr b) = Some item"
    by (metis map_of_eq_None_iff not_None_eq set_rev)
  then have "(PStr b, item) \<in> set (rev expected)" by (rule map_of_SomeD)
  with sane have "sane_item item" by auto
  then obtain p r where "map_of item ''parent_branch_id'' = Some p" "map_of item ''rng_id'' = Some r"
    by (auto simp: sane_item_def dhas_def)
  with e h item show ?thesis
    by (auto simp: validate_branch_result_def py_simps ditem_def split: pyval.splits if_splits intro: protocol_only)
qed

lemma validate_emulate_actions_response_Inl:
  assumes e: "validate_emulate_actions_response m r = Inl e"
    and m: "dget m ''items'' = PList (map PDict ds)" "list_all sane_item ds"
    and r: "well_shaped (PDict r)" "hashable (dget r ''status'')"
  shows "e = ApiProtocolError"
proof (cases "dget r ''branch_results''")
  case (PDict br)
  let ?ex = "map (\<lambda>d. (dget d ''branch_id'', d)) ds"
  have one: "e' = ApiProtocolError"
    if "x \<in> set br" "validate_branch_result ?ex x = Inl e'"
      "PStr ` set (dkeys br) = fst ` (\<lambda>d. (dget d ''branch_id'', d)) ` set ds" for x e'
  proof (rule validate_branch_result_Inl)
    show "validate_branch_result ?ex (fst x, snd x) = Inl e'" using that by simp
    show "hashable (vget (snd x) ''status'')" using that r PDict by (auto simp: well_shaped_def)
    show "\<forall>x \<in> set ?ex. sane_item (snd x)" using m by (auto simp: list_all_iff)
    have "PStr (fst x) \<in> PStr ` set (dkeys br)" using that(1) by (simp add: dkeys_def)
    then show "PStr (fst x) \<in> fst ` set ?ex" using that(3) by simp
  qed
  show ?thesis
    using e m r PDict
    by (auto simp: validate_emulate_actions_response_def then_r_eq_Inl require_status_def
        expected_items_sane dest!: for_r_eq_Inl dest: one)
qed (use e r in \<open>auto simp: validate_emulate_actions_response_def then_r_eq_Inl require_status_def\<close>)

lemma check_branch_batch_response_Inl:
  assumes "check_branch_batch_response m r = Inl e"
    and "dget m ''branch_ids'' = PList (map PStr bs)" "hashable (dget r ''status'')"
  shows "e = ApiProtocolError"
  using assms
  by (auto simp: check_branch_batch_response_def then_r_eq_Inl require_status_def
      split: pyval.splits if_splits dest!: for_r_eq_Inl intro: protocol_only)

lemma check_envelope_Inl:
  assumes "check_envelope m v = Inl e"
  shows "e = ApiProtocolError \<or>
    (\<exists>r. v = PDict r \<and> ((dget r ''status'' = PStr ''rejected'' \<and> e = RequestRejectedError r) \<or>
                       (dget r ''status'' = PStr ''faulted'' \<and> e = RequestFaultedError r)))"
  using assms
  by (auto simp: check_envelope_def then_r_eq_Inl require_non_empty_str_Inr
      split: pyval.splits if_splits dest!: for_r_eq_Inl intro: protocol_only)

lemma check_envelope_Inr:
  assumes "check_envelope m v = Inr r"
  shows "v = PDict r" "\<exists>st. dget r ''status'' = PStr st \<and> st \<noteq> ''rejected'' \<and> st \<noteq> ''faulted''"
  using assms
  by (auto simp: check_envelope_def then_r_eq_Inr require_non_empty_str_Inr
      split: pyval.splits if_splits)

lemma validate_selected_action_response_Inl:
  assumes e: "validate_selected_action_response m r = Inl e"
    and r: "dget r ''status'' = PStr st"
    and m: "sane_request m" "dget m ''operation'' \<in> {PStr ''commit_action'', PStr ''emulate_action''}"
  shows "e = ApiProtocolError"
proof -
  have "dhas r ''status''" using r dget_not_dhas by fastforce
  then obtain st' where "map_of r ''status'' = Some st'" by (auto simp: dhas_def)
  then have st: "ditem r ''status'' = Inr (PStr st)" using r by (simp add: ditem_def dget_def)
  have op: "ditem m ''operation'' = Inr (dget m ''operation'')"
    using m by (auto simp: sane_request_def ditem_def dget_def dhas_def)
  have item: "\<exists>v. ditem m k = Inr v"
    if "dget m ''operation'' = PStr ''emulate_action''" "k \<in> {''branch_id'', ''parent_branch_id'', ''rng_id''}" for k
    using m that by (auto simp: sane_request_def ditem_def dhas_def)
  have "protocol_errors (validate_selected_action_response m r)"
    using m(2)
  proof (elim insertE emptyE)
    assume "dget m ''operation'' = PStr ''commit_action''"
    then show ?thesis
      unfolding validate_selected_action_response_def st op then_r_Inr
      by (simp add: protocol_errors_intro)
  next
    assume o: "dget m ''operation'' = PStr ''emulate_action''"
    obtain b p q where keys: "ditem m ''branch_id'' = Inr b" "ditem m ''parent_branch_id'' = Inr p"
      "ditem m ''rng_id'' = Inr q"
      using item [OF o, of "''branch_id''"] item [OF o, of "''parent_branch_id''"]
        item [OF o, of "''rng_id''"] by auto
    from o show ?thesis
      unfolding validate_selected_action_response_def st op keys then_r_Inr
      by (intro protocol_errors_intro)
  qed
  then show ?thesis using e by (simp add: protocol_errors_def)
qed

section \<open>The invariant\<close>

text \<open>
  \<open>wire_ok n l P\<close>: the log \<open>l\<close> is consistent with the next sequence number \<open>n\<close>, and every entry
  of number \<open>n\<close> the server may have executed is a message in \<open>P\<close>.
\<close>

definition one_message :: "wire_entry list \<Rightarrow> bool" where
  "one_message l \<longleftrightarrow>
     (\<forall>x \<in> set l. \<forall>y \<in> set l. may_have_executed (snd x) \<longrightarrow> may_have_executed (snd y) \<longrightarrow>
        entry_seq x = entry_seq y \<longrightarrow> fst x = fst y)"

definition gapless :: "int \<Rightarrow> wire_entry list \<Rightarrow> bool" where
  "gapless n l \<longleftrightarrow> {1 ..< n} \<subseteq> entry_seq ` {x \<in> set l. \<not> isl (snd x)}"

definition wire_ok :: "int \<Rightarrow> wire_entry list \<Rightarrow> (pydict \<Rightarrow> bool) \<Rightarrow> bool" where
  "wire_ok n l P \<longleftrightarrow>
     1 \<le> n \<and> (\<forall>x \<in> set l. 1 \<le> entry_seq x \<and> entry_seq x \<le> n) \<and> sorted (map entry_seq l) \<and>
     one_message l \<and> gapless n l \<and>
     (\<forall>x \<in> set l. may_have_executed (snd x) \<longrightarrow> entry_seq x = n \<longrightarrow> P (fst x))"

abbreviation log_of :: "'c wire client \<Rightarrow> wire_entry list" where
  "log_of s \<equiv> wire_log (connection s)"

text \<open>the part of the state the invariant reads\<close>

definition core ::
  "'c wire client \<Rightarrow> string \<times> int \<times> retry_request option \<times> bool \<times> wire_entry list" where
  "core s = (session_id s, next_request_seq s, pending_retry s, session_invalid s, log_of s)"

definition wire_inv :: "'c wire client \<Rightarrow> bool" where
  "wire_inv s \<longleftrightarrow>
     wire_ok (next_request_seq s) (log_of s)
       (\<lambda>m. session_invalid s \<or> pending_retry s = Some (from_message m)) \<and>
     (\<forall>t. pending_retry s = Some t \<longrightarrow> (\<exists>m. t = from_message m \<and> request_for s m))"

text \<open>a request ready to be sent: built for the current number, nothing else unresolved\<close>

definition startable :: "pydict \<Rightarrow> 'c wire client \<Rightarrow> bool" where
  "startable m s \<longleftrightarrow> wire_inv s \<and> \<not> session_invalid s \<and> request_for s m \<and>
     pending_retry s \<in> {None, Some (from_message m)}"

text \<open>a request that was sent, and one whose response has arrived and is being checked\<close>

definition outstanding :: "pydict \<Rightarrow> 'c wire client \<Rightarrow> bool" where
  "outstanding m s \<longleftrightarrow> wire_ok (next_request_seq s) (log_of s) (\<lambda>m'. m' = m) \<and>
     \<not> session_invalid s \<and> request_for s m \<and> pending_retry s \<in> {None, Some (from_message m)}"

definition inflight :: "pydict \<Rightarrow> 'c wire client \<Rightarrow> bool" where
  "inflight m s \<longleftrightarrow> outstanding m s \<and>
     (\<exists>x \<in> set (log_of s). entry_seq x = next_request_seq s \<and> \<not> isl (snd x))"

text \<open>nothing is unresolved\<close>

definition idle :: "'c wire client \<Rightarrow> bool" where
  "idle s \<longleftrightarrow> wire_inv s \<and> pending_retry s = None \<and> \<not> session_invalid s"

lemma request_for_core: "core s = core t \<Longrightarrow> request_for s m = request_for t m"
  by (simp add: core_def request_for_def)

lemma wire_inv_core: "core s = core t \<Longrightarrow> wire_inv s = wire_inv t"
  using request_for_core [of s t] by (simp add: core_def wire_inv_def)

lemma inflight_core: "core s = core t \<Longrightarrow> inflight m s = inflight m t"
  using request_for_core [of s t] by (simp add: core_def inflight_def outstanding_def)

lemma idle_core: "core s = core t \<Longrightarrow> idle s = idle t"
  using wire_inv_core [of s t] by (simp add: core_def idle_def)

lemma startable_core: "core s = core t \<Longrightarrow> startable m s = startable m t"
  using wire_inv_core [of s t] request_for_core [of s t] by (simp add: core_def startable_def)

lemma wire_ok_mono:
  assumes "wire_ok n l P"
    and "\<And>x. x \<in> set l \<Longrightarrow> may_have_executed (snd x) \<Longrightarrow> entry_seq x = n \<Longrightarrow> P (fst x) \<Longrightarrow> Q (fst x)"
  shows "wire_ok n l Q"
  using assms by (simp add: wire_ok_def)

lemma one_message_snoc:
  assumes "one_message l"
    and "may_have_executed (snd x) \<Longrightarrow>
      \<forall>y \<in> set l. may_have_executed (snd y) \<longrightarrow> entry_seq y = entry_seq x \<longrightarrow> fst y = fst x"
  shows "one_message (l @ [x])"
  unfolding one_message_def
proof (intro ballI impI)
  fix a b
  assume mem: "a \<in> set (l @ [x])" "b \<in> set (l @ [x])"
    and facts: "may_have_executed (snd a)" "may_have_executed (snd b)" "entry_seq a = entry_seq b"
  have "fst a = fst b" if "a \<in> set l" "b \<in> set l"
    using assms(1) that facts unfolding one_message_def by blast
  moreover have "fst a = fst b" if "a = x" "b \<in> set l"
    using assms(2) that facts by metis
  moreover have "fst a = fst b" if "b = x" "a \<in> set l"
    using assms(2) that facts by metis
  moreover have "a \<in> set l \<or> a = x" "b \<in> set l \<or> b = x" using mem by auto
  ultimately show "fst a = fst b" by blast
qed

lemma gapless_snoc: "gapless n l \<Longrightarrow> gapless n (l @ [x])"
  unfolding gapless_def by auto

lemma wire_ok_send:
  assumes ok: "wire_ok n l P" and seq: "entry_seq (m, r) = n" and only: "\<And>m'. P m' \<Longrightarrow> m' = m"
  shows "wire_ok n (l @ [(m, r)]) (\<lambda>m'. m' = m)"
proof -
  have old: "\<forall>x \<in> set l. may_have_executed (snd x) \<longrightarrow> entry_seq x = n \<longrightarrow> fst x = m"
    using ok only by (simp add: wire_ok_def)
  then have "one_message (l @ [(m, r)])"
    using ok seq by (intro one_message_snoc) (simp_all add: wire_ok_def)
  then show ?thesis
    using ok seq old by (simp add: wire_ok_def sorted_append gapless_snoc)
qed

lemma wire_ok_refused:
  assumes ok: "wire_ok n l P" and seq: "entry_seq (m, r) = n" and no: "\<not> may_have_executed r"
  shows "wire_ok n (l @ [(m, r)]) P"
proof -
  have "one_message (l @ [(m, r)])"
    using ok no by (intro one_message_snoc) (simp_all add: wire_ok_def)
  then show ?thesis
    using ok seq no by (simp add: wire_ok_def sorted_append gapless_snoc)
qed

lemma wire_ok_consume:
  assumes ok: "wire_ok n l P" and ex: "\<exists>x \<in> set l. entry_seq x = n \<and> \<not> isl (snd x)"
  shows "wire_ok (n + 1) l (\<lambda>_. False)"
proof -
  have "{1 ..< n + 1} \<subseteq> insert n {1 ..< n}" by auto
  then have "gapless (n + 1) l"
    using ok ex unfolding wire_ok_def gapless_def by blast
  moreover have "\<forall>x \<in> set l. 1 \<le> entry_seq x \<and> entry_seq x < n + 1"
    using ok by (simp add: wire_ok_def)
  ultimately show ?thesis
    using ok by (fastforce simp: wire_ok_def)
qed

section \<open>Steps that leave the wire alone\<close>

definition quiet :: "('c wire client, exn, 'a) py \<Rightarrow> bool" where
  "quiet m \<longleftrightarrow> (\<forall>c. keeps (\<lambda>t. core t = c) m)"

lemma quiet_core: "quiet m \<Longrightarrow> core (snd (m s)) = core s"
  by (auto simp: quiet_def keeps_def simp del: split_paired_All)

lemma quiet_wp:
  assumes "quiet m" shows "wp m (\<lambda>_ t. core t = core s) (\<lambda>_ t. core t = core s) s"
  using quiet_core [OF assms, of s] by (auto simp: wp_def split: prod.splits sum.splits)

lemma quiet_basic [keeps_intro]: "quiet (ret_p x)" "quiet (raise_p e)" "quiet (lift_p r)"
  unfolding quiet_def by (auto intro: keeps_intro)

lemma quiet_bind [keeps_intro]: "quiet m \<Longrightarrow> (\<And>x. quiet (f x)) \<Longrightarrow> quiet (bind_p m f)"
  and quiet_then [keeps_intro]: "quiet m \<Longrightarrow> quiet k \<Longrightarrow> quiet (then_p m k)"
  and quiet_try [keeps_intro]: "quiet n \<Longrightarrow> (\<And>e. quiet (h e)) \<Longrightarrow> quiet (try_p n h)"
  and quiet_with [keeps_intro]: "(\<And>s. quiet (g s)) \<Longrightarrow> quiet (with_p g)"
  and quiet_for [keeps_intro]: "(\<And>y. quiet (l y)) \<Longrightarrow> quiet (for_p l ys)"
  unfolding quiet_def by (auto intro: keeps_intro)

lemma quiet_if [keeps_intro]: "(b \<Longrightarrow> quiet m) \<Longrightarrow> (\<not> b \<Longrightarrow> quiet n) \<Longrightarrow> quiet (if b then m else n)"
  by simp

lemma quiet_modify: "(\<And>s. core (f s) = core s) \<Longrightarrow> quiet (modify_p f)"
  by (simp add: quiet_def keeps_def modify_p_def)

lemma core_update [simp]:
  "core (s\<lparr>pending_start_instance_type := a\<rparr>) = core s"
  "core (s\<lparr>audit_state := b\<rparr>) = core s"
  "core (s\<lparr>emulate_actions_boundaries := e\<rparr>) = core s"
  "core (s\<lparr>pending_retry_cleanup := f\<rparr>) = core s"
  "core (s\<lparr>instance_id := g\<rparr>) = core s"
  "core (s\<lparr>instance_type := h\<rparr>) = core s"
  "core (s\<lparr>max_emulate_actions_items := i\<rparr>) = core s"
  "core (s\<lparr>connection := (connection s)\<lparr>wire_conn := c\<rparr>\<rparr>) = core s"
  by (simp_all add: core_def)

lemma core_clear [simp]:
  "core (clear_instance s) = core s" "core (clear_instance_extensions s) = core s"
  by (simp_all add: core_def clear_instance_def clear_instance_extensions_def)

lemma quiet_record [keeps_intro]: "quiet (record_selected_action request source result err)"
  by (auto simp: quiet_def keeps_def record_selected_action_def split: prod.splits)

lemma quiet_record_item [keeps_intro]: "quiet (record_emulate_item request response err item)"
  unfolding record_emulate_item_def Let_def
  by (cases item) (auto intro!: keeps_intro)

lemma quiet_record_batch [keeps_intro]: "quiet (record_emulate_actions_batch request response err)"
  unfolding record_emulate_actions_batch_def
  by (cases "dget request ''items''") (auto intro!: keeps_intro)

lemma quiet_audit_modify [keeps_intro]: "quiet (modify_p (\<lambda>s. s\<lparr>audit_state := f s\<rparr>))"
  by (simp add: quiet_modify)

lemma quiet_validate_branch_batch [keeps_intro]: "quiet (validate_branch_batch_response request r)"
  unfolding validate_branch_batch_response_def
  by (cases "dget request ''instance_id''") (auto intro!: keeps_intro)

lemma quiet_validate [keeps_intro]: "quiet (validate_api_response request r)"
  unfolding validate_api_response_def by (intro keeps_intro)

lemma quiet_accept_start [keeps_intro]: "quiet (accept_start_instance_for_request request r)"
  unfolding accept_start_instance_for_request_def accept_start_instance_def Let_def
  by (auto intro!: keeps_intro quiet_modify simp: core_def split: pyval.split)

lemma quiet_accept_decision [keeps_intro]: "quiet (accept_get_decision r b)"
  unfolding accept_get_decision_def by (intro keeps_intro)

lemma quiet_accept_close [keeps_intro]: "quiet (accept_close_instance r)"
  unfolding accept_close_instance_def by (intro keeps_intro quiet_modify) simp

lemma quiet_build_start [keeps_intro]: "quiet (build_start_instance n c)"
  unfolding build_start_instance_def by (intro keeps_intro quiet_modify) simp

lemma quiet_invalidate [keeps_intro]: "quiet (conn_p (op_invalidate (record_ops ops)))"
  by (auto simp: quiet_def keeps_def conn_p_def record_ops_def core_def split: prod.splits)

lemma quiet_close [keeps_intro]: "quiet (conn_p (op_close (record_ops ops)))"
  by (auto simp: quiet_def keeps_def conn_p_def record_ops_def core_def split: prod.splits)

lemma quiet_clock:
  "quiet (conn_p (\<lambda>c. case op_time (record_ops ops) c of (t, c') \<Rightarrow> (Inr t, c')))"
  "quiet (conn_p (\<lambda>c. case op_lock (record_ops ops) d c of (l, c') \<Rightarrow> (Inr l, c')))"
  by (auto simp: quiet_def keeps_def conn_p_def record_ops_def core_def split: prod.splits)

text \<open>what the response checks raise\<close>

lemma validate_api_response_raises:
  assumes "validate_api_response m v s = (Inl e, t)" "sane_request m" "well_shaped v"
  shows "e = ApiProtocolError \<or>
    (\<exists>r. v = PDict r \<and> ((dget r ''status'' = PStr ''rejected'' \<and> e = RequestRejectedError r) \<or>
                       (dget r ''status'' = PStr ''faulted'' \<and> e = RequestFaultedError r)))"
proof (cases "check_envelope m v")
  case (Inl e')
  with assms(1) have "e = e'" by (simp add: validate_api_response_def bind_p_def lift_p_def)
  with check_envelope_Inl [OF Inl] show ?thesis by simp
next
  case (Inr r)
  from check_envelope_Inr [OF Inr] have v: "v = PDict r" and st: "hashable (dget r ''status'')"
    by auto
  consider (batch) "dget m ''operation'' \<in> PStr ` set branch_batch_operations"
      "check_branch_batch_response m r = Inl e"
    | (actions) "dget m ''operation'' = PStr ''emulate_actions''"
      "validate_emulate_actions_response m r = Inl e"
    using assms(1) Inr
    by (auto simp: validate_api_response_def validate_branch_batch_response_def bind_p_def
        then_p_def lift_p_def ret_p_def modify_p_def split: if_splits sum.splits prod.splits pyval.splits)
  then show ?thesis
  proof cases
    case batch
    with assms(2) st show ?thesis
      using check_branch_batch_response_Inl by (fastforce simp: sane_request_def)
  next
    case actions
    with assms(2,3) v st show ?thesis
      using validate_emulate_actions_response_Inl by (fastforce simp: sane_request_def)
  qed
qed

section \<open>One exchange\<close>

lemma wire_inv_invalidate:
  assumes "wire_ok (next_request_seq s) (log_of s) P"
  shows "wire_inv (invalidate_session s)"
  using wire_ok_mono [OF assms] by (simp add: wire_inv_def invalidate_session_def)

lemma wire_inv_set_invalid:
  assumes "wire_inv s"
  shows "wire_inv (s\<lparr>session_invalid := True, pending_retry_cleanup := None\<rparr>)"
  using assms by (auto simp: wire_inv_def request_for_def intro: wire_ok_mono)

lemma remember_sent_wp:
  assumes "outstanding m s"
  shows "wp (remember_pending (from_message m)) (\<lambda>_. wire_inv) (\<lambda>_. wire_inv) s"
proof -
  have "wire_ok (next_request_seq s) (log_of s)
      (\<lambda>m'. session_invalid s \<or> Some (from_message m) = Some (from_message m'))"
    using assms by (auto simp: outstanding_def intro: wire_ok_mono)
  then show ?thesis
    using assms
    by (auto simp: remember_pending_def py_simps outstanding_def request_for_def wire_inv_def)
qed

lemma consume_wp:
  assumes "inflight m s"
  shows "wp (consume_sequence (from_message m)) (\<lambda>_. idle) (\<lambda>_ _. False) s"
proof -
  have "wire_ok (next_request_seq s + 1) (log_of s) (\<lambda>_. False)"
    using assms wire_ok_consume by (auto simp: inflight_def outstanding_def)
  then have "wire_ok (next_request_seq s + 1) (log_of s) (\<lambda>m'. session_invalid s)"
    by (rule wire_ok_mono) simp
  then show ?thesis
    using assms
    by (simp add: consume_sequence_def py_simps inflight_def outstanding_def request_for_def idle_def
        wire_inv_def)
qed

lemma quiet_keeps:
  assumes "quiet m"
  shows "keeps wire_inv m" "keeps idle m" "keeps (inflight r) m" "keeps (startable r) m"
  using wire_inv_core [OF quiet_core [OF assms]] idle_core [OF quiet_core [OF assms]]
    inflight_core [OF quiet_core [OF assms]] startable_core [OF quiet_core [OF assms]]
  by (simp_all add: keeps_def)

lemma keeps_wpI: "keeps P m \<Longrightarrow> P s \<Longrightarrow> wp m (\<lambda>_. P) (\<lambda>_. P) s"
  by (simp add: keeps_wp)

lemma mark_uncertain_wp:
  assumes "outstanding m s"
  shows "wp (mark_protocol_uncertain (record_ops ops) m) (\<lambda>_. wire_inv) (\<lambda>_. wire_inv) s"
proof -
  have "wp (conn_p (op_invalidate (record_ops ops))) (\<lambda>_. wire_inv) (\<lambda>_. wire_inv) t" if "wire_inv t" for t
    using that by (intro keeps_wpI quiet_keeps(1) quiet_invalidate)
  with remember_sent_wp [OF assms] show ?thesis
    unfolding mark_protocol_uncertain_def wp_then by (auto intro: wp_mono)
qed

lemma operation_error_wp:
  assumes "inflight m s" "hashable (dget r ''fault_kind'')" "sane_request m"
  shows "wp (on_operation_error (from_message m) r e :: ('c wire client, exn, 'a) py)
    (\<lambda>_ _. False) (\<lambda>_. wire_inv) s"
proof -
  have inv: "wire_inv (invalidate_session s)"
    using assms(1) by (auto simp: inflight_def outstanding_def intro: wire_inv_invalidate)
  let ?tail = "\<lambda>operation. then_p (if operation = Some ''close_instance'' \<and> dget r ''status'' = PStr ''faulted''
                  then modify_p (\<lambda>s. clear_instance_extensions (clear_instance s))
                  else ret_p ())
         (bind_p (lift_p (in_str_set (dget r ''fault_kind'') fatal_consuming_session_rejections)) (\<lambda>fatal.
          then_p (if fatal
                  then modify_p (\<lambda>s. s\<lparr>session_invalid := True, pending_retry_cleanup := None\<rparr>)
                  else ret_p ())
            (raise_p e))) :: ('c wire client, exn, 'a) py"
  have tail: "wp (?tail operation) (\<lambda>_ _. False) (\<lambda>_. wire_inv) t" if "idle t" for operation t
  proof -
    have "wire_inv (clear_instance_extensions (clear_instance t))" "wire_inv t"
      using that wire_inv_core [of "clear_instance_extensions (clear_instance t)" t]
      by (simp_all add: idle_def)
    then show ?thesis
      using assms(2) by (auto simp: py_simps wire_inv_set_invalid)
  qed
  have "wp (then_p (consume_sequence (from_message m))
      (bind_p (lift_p (rr_operation (from_message m))) ?tail)) (\<lambda>_ _. False) (\<lambda>_. wire_inv) s"
    unfolding wp_then wp_bind wp_lift rr_fields_from_message sum.case
    using consume_wp [OF assms(1)] by (rule wp_mono) (erule tail [unfolded wp_then wp_bind wp_lift], erule FalseE)
  moreover have "on_operation_error (from_message m) r e =
      (if dget r ''status'' = PStr ''rejected'' \<and> dget r ''fault_kind'' \<in> PStr ` set non_consuming_session_rejections
       then then_p (modify_p invalidate_session) (raise_p e)
       else then_p (consume_sequence (from_message m))
              (bind_p (lift_p (rr_operation (from_message m))) ?tail))"
    using assms(2) unfolding on_operation_error_def Let_def by simp
  moreover have "wp (then_p (modify_p invalidate_session) (raise_p e)) (\<lambda>_ _. False) (\<lambda>_. wire_inv) s"
    using inv by (simp add: wp_then wp_modify wp_raise)
  ultimately show ?thesis by (auto simp only: split: if_split)
qed

text \<open>the state after an exchange, by its outcome\<close>

definition after_exchange ::
  "'c wire client \<Rightarrow> pydict \<Rightarrow> exn + pyval \<Rightarrow> 'c \<Rightarrow> 'c wire client" where
  "after_exchange s m r c =
     s\<lparr>connection := (connection s)\<lparr>wire_conn := c, wire_log := log_of s @ [(m, r)]\<rparr>\<rparr>"

lemma exchange_step:
  "op_exchange ops m d (wire_conn (connection s)) = (r, c) \<Longrightarrow>
     conn_p (op_exchange (record_ops ops) m d) s = (r, after_exchange s m r c)"
  by (simp add: conn_p_def record_ops_def after_exchange_def)

lemma startable_seq: "startable m s \<Longrightarrow> entry_seq (m, r) = next_request_seq s"
  by (simp add: startable_def request_for_def entry_seq_def)

lemma after_exchange_request_for [simp]: "request_for (after_exchange s m' r c) m = request_for s m"
  by (simp add: request_for_def after_exchange_def)

lemma startable_wire_ok:
  "startable m s \<Longrightarrow> wire_ok (next_request_seq s) (log_of s) (\<lambda>m'. pending_retry s = Some (from_message m'))"
  by (auto simp: startable_def wire_inv_def)

lemma after_exchange_sent:
  assumes "startable m s" shows "outstanding m (after_exchange s m r c)"
proof -
  have "wire_ok (next_request_seq s) (log_of s @ [(m, r)]) (\<lambda>m'. m' = m)"
    using startable_wire_ok [OF assms] startable_seq [OF assms]
    by (rule wire_ok_send) (use assms in \<open>auto simp: startable_def\<close>)
  with assms show ?thesis
    by (simp add: outstanding_def startable_def) (simp add: after_exchange_def)
qed

lemma after_exchange_inflight:
  "startable m s \<Longrightarrow> inflight m (after_exchange s m (Inr v) c)"
  using startable_seq [of m s "Inr v"] after_exchange_sent [of m s "Inr v" c]
  by (simp add: inflight_def) (simp add: after_exchange_def)

lemma after_exchange_refused:
  assumes "startable m s" "\<not> may_have_executed r" shows "wire_inv (after_exchange s m r c)"
proof -
  have "wire_ok (next_request_seq s) (log_of s @ [(m, r)]) (\<lambda>m'. pending_retry s = Some (from_message m'))"
    using startable_wire_ok [OF assms(1)] startable_seq [OF assms(1)] assms(2) by (rule wire_ok_refused)
  moreover have "\<forall>t. pending_retry s = Some t \<longrightarrow> (\<exists>m. t = from_message m \<and> request_for s m)"
    using assms(1) by (simp add: startable_def wire_inv_def)
  ultimately show ?thesis
    using assms(1) by (simp add: wire_inv_def startable_def) (simp add: after_exchange_def)
qed

definition on_check_error :: "'c conn_ops \<Rightarrow> pydict \<Rightarrow> exn \<Rightarrow> ('c client, exn, 'a) py" where
  "on_check_error ops m e =
     (case api_operation_response e of
        Some r \<Rightarrow> on_operation_error (from_message m) r e
      | None \<Rightarrow> if e = ApiProtocolError
                then then_p (mark_protocol_uncertain ops m) (raise_p e)
                else raise_p e)"

lemma check_error_wp:
  assumes t: "inflight m t"
    and e: "e = ApiProtocolError \<or> e = RequestRejectedError r \<or> e = RequestFaultedError r"
    and r: "hashable (dget r ''fault_kind'')" and m: "sane_request m"
  shows "wp (on_check_error (record_ops ops) m e) (\<lambda>_ _. False) (\<lambda>_. wire_inv) t"
proof -
  have outstanding: "outstanding m t" using t by (simp add: inflight_def)
  have "wp (on_operation_error (from_message m) r e) (\<lambda>_ _. False) (\<lambda>_. wire_inv) t"
    using operation_error_wp [OF t r m] .
  moreover have "wp (then_p (mark_protocol_uncertain (record_ops ops) m) (raise_p e))
      (\<lambda>_ _. False) (\<lambda>_. wire_inv) t"
    unfolding wp_then wp_raise using mark_uncertain_wp [OF outstanding] .
  ultimately show ?thesis
    using e by (auto simp: on_check_error_def)
qed

lemma check_wp:
  assumes s: "inflight m s" and shaped: "well_shaped v" and sane: "sane_request m"
  shows "wp (try_p (validate_api_response m v) (on_check_error (record_ops ops) m))
    (\<lambda>r t. inflight m t \<and> (\<exists>st. dget r ''status'' = PStr st)) (\<lambda>_. wire_inv) s"
  unfolding wp_try
proof (rule wpI)
  fix x t assume run: "validate_api_response m v s = (Inr x, t)"
  then have "check_envelope m v = Inr x"
    by (auto simp: validate_api_response_def bind_p_def then_p_def lift_p_def ret_p_def
        split: sum.splits prod.splits)
  then show "inflight m t \<and> (\<exists>st. dget x ''status'' = PStr st)"
    using check_envelope_Inr(2) s run quiet_core [OF quiet_validate, of m v s]
      inflight_core [of t s m] by fastforce
next
  fix e t assume run: "validate_api_response m v s = (Inl e, t)"
  then have t: "inflight m t"
    using s quiet_core [OF quiet_validate, of m v s] inflight_core [of t s m] by simp
  obtain r where "hashable (dget r ''fault_kind'')"
    and "e = ApiProtocolError \<or> e = RequestRejectedError r \<or> e = RequestFaultedError r"
  proof (cases "e = ApiProtocolError")
    case True then show ?thesis by (intro that [of "[]"]) simp_all
  next
    case False
    with validate_api_response_raises [OF run sane shaped] shaped show ?thesis
      by (auto simp: well_shaped_def intro: that)
  qed
  then have "wp (on_check_error (record_ops ops) m e) (\<lambda>_ _. False) (\<lambda>_. wire_inv) t"
    using check_error_wp [OF t] sane by blast
  then show "wp (on_check_error (record_ops ops) m e)
      (\<lambda>r t. inflight m t \<and> (\<exists>st. dget r ''status'' = PStr st)) (\<lambda>_. wire_inv) t"
    by (rule wp_mono) auto
qed

lemma require_status_Inl:
  "dget r ''status'' = PStr st \<Longrightarrow> require_status r xs = Inl e \<Longrightarrow> e = ApiProtocolError"
  by (auto simp: require_status_def split: if_splits)

lemma accept_start_raises:
  assumes "dget r ''status'' = PStr st" "accept_start_instance_for_request m r s = (Inl e, t)"
  shows "e = ApiProtocolError"
  using assms
  by (auto simp: accept_start_instance_for_request_def accept_start_instance_def Let_def bind_p_def
      then_p_def lift_p_def ret_p_def raise_p_def modify_p_def raise_if_def
      split: if_splits pyval.splits sum.splits prod.splits
      intro: require_status_Inl require_non_empty_str_Inl)

lemma accept_decision_raises:
  assumes "dget r ''status'' = PStr st" "accept_get_decision r b s = (Inl e, t)"
  shows "e = ApiProtocolError"
proof -
  have "ditem r ''status'' = Inr (PStr st)"
    using assms(1) by (auto simp: ditem_def dget_def split: option.splits)
  with assms(2) show ?thesis
    by (auto simp: accept_get_decision_def bind_p_def then_p_def lift_p_def ret_p_def modify_p_def
        split: if_splits sum.splits prod.splits intro: protocol_only)
qed

lemma accept_close_raises:
  assumes "dget r ''status'' = PStr st" "accept_close_instance r s = (Inl e, t)"
  shows "e = ApiProtocolError"
  using assms
  by (auto simp: accept_close_instance_def bind_p_def then_p_def lift_p_def ret_p_def modify_p_def
      split: if_splits sum.splits prod.splits intro: require_status_Inl)

context replay_connection
begin

lemma exchange_error_wp:
  assumes ex: "op_exchange ops m d c = (Inl e, c')"
    and s: "if may_have_executed (Inl e) then outstanding m s else wire_inv s"
  shows "wp (on_exchange_error (from_message m) e) (\<lambda>_ _. False) (\<lambda>_. wire_inv) s"
proof -
  have tok: "(case exn_retry_request e of None \<Rightarrow> from_message m | Some r \<Rightarrow> r) = from_message m"
    if "completion_uncertain e"
    using exchange_token [OF ex that] by auto
  show ?thesis
  proof (cases e)
    case (TransportError k u r)
    have "wire_inv (invalidate_session s)" if "k = ServerEpochChanged"
      using s that TransportError by (auto simp: outstanding_def intro: wire_inv_invalidate)
    then show ?thesis
      using s tok TransportError wp_mono [OF remember_sent_wp [of m s]]
      by (auto simp: on_exchange_error_def py_simps)
  next
    case (CancelledError u r)
    then show ?thesis
      using s tok wp_mono [OF remember_sent_wp [of m s]]
      by (auto simp: on_exchange_error_def py_simps)
  qed (use s in \<open>auto simp: on_exchange_error_def py_simps\<close>)
qed

lemma execute_wp:
  assumes s: "startable m s" and server: "well_shaped_server ops"
  shows "wp (execute (record_ops ops) m d)
    (\<lambda>r t. inflight m t \<and> (\<exists>st. dget r ''status'' = PStr st)) (\<lambda>_. wire_inv) s"
proof -
  let ?post = "\<lambda>r t. inflight m t \<and> (\<exists>st. dget r ''status'' = PStr st)"
  obtain r c where ex: "op_exchange ops m d (wire_conn (connection s)) = (r, c)"
    by fastforce
  note step = wp_try_else_step [where m = "conn_p (op_exchange (record_ops ops) m d)" and s = s,
      OF exchange_step [OF ex]]
  have "wp (try_else (conn_p (op_exchange (record_ops ops) m d))
      (\<lambda>v. try_p (validate_api_response m v) (on_check_error (record_ops ops) m))
      (on_exchange_error (from_message m))) ?post (\<lambda>_. wire_inv) s"
  proof (cases r)
    case (Inl e)
    have "wp (on_exchange_error (from_message m) e) (\<lambda>_ _. False) (\<lambda>_. wire_inv) (after_exchange s m r c)"
      using ex [unfolded Inl]
      by (rule exchange_error_wp) (use Inl s in \<open>simp add: after_exchange_sent after_exchange_refused\<close>)
    then have "wp (on_exchange_error (from_message m) e) ?post (\<lambda>_. wire_inv) (after_exchange s m r c)"
      by (rule wp_mono) auto
    with Inl show ?thesis by (simp add: step)
  next
    case (Inr v)
    have "well_shaped v" using server ex Inr unfolding well_shaped_server_def by blast
    then have "wp (try_p (validate_api_response m v) (on_check_error (record_ops ops) m))
        ?post (\<lambda>_. wire_inv) (after_exchange s m r c)"
      using s Inr by (intro check_wp) (auto simp: after_exchange_inflight startable_def request_for_def)
    with Inr show ?thesis by (simp add: step)
  qed
  then show ?thesis
    using s by (auto simp: execute_def Let_def wp_bind wp_lift wp_with startable_def request_for_def
        on_check_error_def [abs_def])
qed

lemma accept_wp:
  assumes s: "inflight m s" and q: "quiet acc"
    and e: "\<And>e t. acc s = (Inl e, t) \<Longrightarrow> e = ApiProtocolError"
  shows "wp (accept_or_uncertain (record_ops ops) m acc) (\<lambda>_. inflight m) (\<lambda>_. wire_inv) s"
  unfolding accept_or_uncertain_def wp_try
proof (rule wpI)
  fix x t assume "acc s = (Inr x, t)"
  then show "inflight m t" using s quiet_core [OF q, of s] inflight_core [of t s m] by simp
next
  fix e t assume run: "acc s = (Inl e, t)"
  then have "inflight m t" using s quiet_core [OF q, of s] inflight_core [of t s m] by simp
  then have "wp (mark_protocol_uncertain (record_ops ops) m) (\<lambda>_. wire_inv) (\<lambda>_. wire_inv) t"
    by (intro mark_uncertain_wp) (simp add: inflight_def)
  with assms(3) [OF run]
  show "wp (if e = ApiProtocolError then then_p (mark_protocol_uncertain (record_ops ops) m) (raise_p e)
      else raise_p e) (\<lambda>_. inflight m) (\<lambda>_. wire_inv) t"
    by (simp add: wp_then wp_raise)
qed

text \<open>the usual shape of an operation: exchange, accept, consume, and a step that leaves the wire alone\<close>

lemma operation_wp:
  assumes s: "startable m s" and server: "well_shaped_server ops"
    and q: "\<And>r. quiet (acc r)" "\<And>x. quiet (fin x)"
    and e: "\<And>r st s e t. dget r ''status'' = PStr st \<Longrightarrow> acc r s = (Inl e, t) \<Longrightarrow> e = ApiProtocolError"
  shows "wp (bind_p (execute (record_ops ops) m d) (\<lambda>r.
      bind_p (accept_or_uncertain (record_ops ops) m (acc r)) (\<lambda>x.
      then_p (consume_sequence (from_message m)) (fin x)))) (\<lambda>_. idle) (\<lambda>_. wire_inv) s"
  unfolding wp_bind wp_then
proof (rule wp_mono [OF execute_wp [OF s server]])
  fix r and t :: "'c wire client"
  assume "inflight m t \<and> (\<exists>st. dget r ''status'' = PStr st)"
  then have "wp (accept_or_uncertain (record_ops ops) m (acc r)) (\<lambda>_. inflight m) (\<lambda>_. wire_inv) t"
    using e q by (intro accept_wp) auto
  then show "wp (accept_or_uncertain (record_ops ops) m (acc r))
      (\<lambda>x. wp (consume_sequence (from_message m))
        (\<lambda>_. wp (fin x) (\<lambda>_. idle) (\<lambda>_. wire_inv)) (\<lambda>_. wire_inv)) (\<lambda>_. wire_inv) t"
  proof (rule wp_mono)
    fix x and t :: "'c wire client"
    assume "inflight m t"
    from consume_wp [OF this]
    show "wp (consume_sequence (from_message m))
        (\<lambda>_. wp (fin x) (\<lambda>_. idle) (\<lambda>_. wire_inv)) (\<lambda>_. wire_inv) t"
    proof (rule wp_mono)
      fix t :: "'c wire client"
      assume "idle t"
      then have "wp (fin x) (\<lambda>_. idle) (\<lambda>_. idle) t"
        using keeps_wpI [OF quiet_keeps(2) [OF q(2)]] by blast
      then show "wp (fin x) (\<lambda>_. idle) (\<lambda>_. wire_inv) t"
        by (rule wp_mono) (simp_all add: idle_def)
    qed simp
  qed
qed

lemma selected_error_wp:
  assumes "\<And>r e. quiet (record r e)" "wire_inv s"
  shows "wp (on_selected_error record r e) (\<lambda>_. Q) (\<lambda>_. wire_inv) s"
proof -
  have "wp (record r' e') (\<lambda>_. wire_inv) (\<lambda>_. wire_inv) s" for r' e'
    using assms by (intro keeps_wpI quiet_keeps(1))
  then show ?thesis
    by (auto simp: on_selected_error_def wp_then wp_raise split: option.split)
qed

text \<open>after the sequence number is consumed: the audit record, which may raise, and the return\<close>

lemma record_wp:
  assumes "quiet m" "idle s"
  shows "wp (then_p m (ret_p x)) (\<lambda>_. idle) (\<lambda>_. wire_inv) s"
  unfolding wp_then wp_ret using keeps_wpI [OF quiet_keeps(2) [OF assms(1)] assms(2)]
  by (rule wp_mono) (simp_all add: idle_def)

lemma selected_action_wp:
  assumes s: "startable m s" and server: "well_shaped_server ops"
    and op: "dget m ''operation'' \<in> {PStr ''commit_action'', PStr ''emulate_action''}"
  shows "wp (execute_selected_action (record_ops ops) m src d) (\<lambda>_. idle) (\<lambda>_. wire_inv) s"
proof -
  let ?rec = "record_selected_action m src"
  let ?accept = "\<lambda>r. accept_or_uncertain (record_ops ops) m (lift_p (validate_selected_action_response m r))"
  have sane: "sane_request m" using s by (simp add: startable_def request_for_def)
  have inner: "wp (try_else (then_p (?accept r) (consume_sequence (from_message m)))
      (\<lambda>_. then_p (?rec (Some r) None) (ret_p r)) (on_selected_error ?rec (Some r)))
      (\<lambda>_. idle) (\<lambda>_. wire_inv) t"
    if t: "inflight m t" "dget r ''status'' = PStr st" for r st and t :: "'c wire client"
  proof -
    have "wp (?accept r) (\<lambda>_. inflight m) (\<lambda>_. wire_inv) t"
      using t(1) quiet_basic(3)
      by (rule accept_wp)
        (auto simp: lift_p_def intro: validate_selected_action_response_Inl [OF _ t(2) sane op])
    then have "wp (then_p (?accept r) (consume_sequence (from_message m))) (\<lambda>_. idle) (\<lambda>_. wire_inv) t"
      unfolding wp_then by (rule wp_mono) (auto intro: wp_mono [OF consume_wp])
    then show ?thesis
      unfolding wp_try_else
      by (rule wp_mono) (auto intro: record_wp selected_error_wp quiet_record)
  qed
  show ?thesis
    unfolding execute_selected_action_def Let_def wp_try_else
    by (rule wp_mono [OF execute_wp [OF s server]])
      (auto intro!: inner [unfolded wp_try_else] selected_error_wp quiet_record)
qed

lemma emulate_actions_wp:
  assumes s: "startable m s" and server: "well_shaped_server ops"
  shows "wp (execute_emulate_actions (record_ops ops) m d) (\<lambda>_. idle) (\<lambda>_. wire_inv) s"
  unfolding execute_emulate_actions_def Let_def wp_try_else
  by (rule wp_mono [OF execute_wp [OF s server]])
    (auto intro!: wp_mono [OF consume_wp] record_wp selected_error_wp quiet_record_batch)

section \<open>The operations keep the invariant\<close>

lemma keeps_deadline:
  assumes "\<And>d. keeps wire_inv (body d)"
  shows "keeps wire_inv (operation_deadline (record_ops ops) t body)"
proof -
  have "keeps wire_inv (case l of LockAcquired \<Rightarrow> body d
      | LockTimeout \<Rightarrow> raise_p (TransportError TransportPlain False None)
      | LockCancelled \<Rightarrow> raise_p (CancelledError False None))" for l d
    using assms by (cases l) (auto intro: keeps_raise)
  then show ?thesis
    unfolding operation_deadline_def
    by (intro keeps_if keeps_raise keeps_bind quiet_keeps(1) [OF quiet_clock(1)]
        quiet_keeps(1) [OF quiet_clock(2)])
qed

lemma keeps_fresh:
  assumes "\<And>s. idle s \<Longrightarrow> wp n (\<lambda>_. wire_inv) (\<lambda>_. wire_inv) s"
  shows "keeps wire_inv (then_p ensure_fresh_request_allowed n)"
  using assms by (auto simp: keeps_wp ensure_fresh_request_allowed_def py_simps idle_def)

lemma build_wp:
  assumes s: "idle s" and b: "\<And>m. build s = Inr m \<Longrightarrow> request_for s m"
    and k: "\<And>m. startable m s \<Longrightarrow> wp (k m) (\<lambda>_. wire_inv) (\<lambda>_. wire_inv) s"
  shows "wp (bind_p (with_p (\<lambda>s. lift_p (build s))) k) (\<lambda>_. wire_inv) (\<lambda>_. wire_inv) s"
  using assms by (auto simp: py_simps idle_def startable_def split: sum.split)

lemma idle_end: "wp n (\<lambda>_. idle) (\<lambda>_. wire_inv) s \<Longrightarrow> wp n (\<lambda>_. wire_inv) (\<lambda>_. wire_inv) s"
  by (erule wp_mono) (simp_all add: idle_def)

lemma new_request_for:
  assumes "new_request s (next_request_seq s) op fs = Inr m"
    and "op \<notin> set branch_batch_operations" "op \<noteq> ''emulate_action''" "op \<noteq> ''emulate_actions''"
  shows "request_for s m"
  using new_request_sane [OF assms] dget_new_request(1,2) [OF assms(1)] by (simp add: request_for_def)

lemma build_get_decision_for:
  "build_get_decision s (next_request_seq s) inst b = Inr m \<Longrightarrow> request_for s m"
  by (auto simp: build_get_decision_def then_r_eq_Inr branch_batch_operations_def intro: new_request_for)

lemma build_close_for: "build_close_instance s (next_request_seq s) inst = Inr m \<Longrightarrow> request_for s m"
  by (auto simp: build_close_instance_def then_r_eq_Inr branch_batch_operations_def intro: new_request_for)

lemma build_commit_for:
  "build_commit_action s (next_request_seq s) inst d a = Inr m \<Longrightarrow>
     request_for s m \<and> dget m ''operation'' = PStr ''commit_action''"
  by (auto simp: build_commit_action_def then_r_eq_Inr branch_batch_operations_def
      intro: new_request_for dest: dget_new_request(3))

lemma build_batch_for:
  assumes "build_branch_batch_operation s (next_request_seq s) op inst bs = Inr m"
    and "op \<in> set branch_batch_operations"
  shows "request_for s m"
proof -
  obtain xs where xs: "normalize_branch_ids bs = Inr xs"
    and m: "new_request s (next_request_seq s) op [(''instance_id'', inst), (''branch_ids'', PList xs)] = Inr m"
    using assms(1) by (auto simp: build_branch_batch_operation_def then_r_eq_Inr)
  obtain ys where "xs = map PStr ys" using normalize_branch_ids_str [OF xs] by blast
  then have "dget m ''branch_ids'' = PList (map PStr ys)"
    using dget_new_request(5) [OF m, of "''branch_ids''"] by simp
  then show ?thesis
    using dget_new_request(1-4) [OF m] assms(2)
    by (auto simp: request_for_def sane_request_def branch_batch_operations_def)
qed

lemma build_emulate_for:
  assumes "build_emulate_action s (next_request_seq s) inst p b r d a opts = Inr m"
  shows "request_for s m \<and> dget m ''operation'' = PStr ''emulate_action''"
proof -
  obtain sim where m: "new_request s (next_request_seq s) ''emulate_action''
      ([(''instance_id'', inst), (''parent_branch_id'', p), (''branch_id'', b), (''rng_id'', r),
        (''decision_point_id'', d), (''action_id'', a)] @ sim) = Inr m"
    using assms by (auto simp: build_emulate_action_def then_r_eq_Inr)
  show ?thesis
    using dget_new_request(1-4) [OF m] dget_new_request(6) [OF m, of "''branch_id''"]
      dget_new_request(6) [OF m, of "''parent_branch_id''"] dget_new_request(6) [OF m, of "''rng_id''"]
    by (simp add: request_for_def sane_request_def branch_batch_operations_def)
qed

lemma build_emulates_for:
  assumes "build_emulate_actions s (next_request_seq s) inst items opts = Inr m"
  shows "request_for s m \<and> dget m ''operation'' = PStr ''emulate_actions''"
proof -
  obtain ds sim xs where ds: "normalize_items [] xs = Inr ds"
    and m: "new_request s (next_request_seq s) ''emulate_actions''
      ([(''instance_id'', inst), (''items'', PList (map PDict ds))] @ sim) = Inr m"
    using assms by (auto simp: build_emulate_actions_def then_r_eq_Inr)
  show ?thesis
    using dget_new_request(1-4) [OF m] dget_new_request(5) [OF m, of "''items''"]
      normalize_items_sane [OF ds]
    by (auto simp: request_for_def sane_request_def branch_batch_operations_def)
qed

lemma keeps_get_decision:
  assumes "well_shaped_server ops"
  shows "keeps wire_inv (get_decision (record_ops ops) inst b t)"
  unfolding get_decision_def
  by (intro keeps_deadline keeps_fresh build_wp build_get_decision_for idle_end operation_wp
      quiet_accept_decision quiet_basic assms)
    (auto intro: accept_decision_raises)

lemma keeps_close_instance:
  assumes "well_shaped_server ops"
  shows "keeps wire_inv (close_instance (record_ops ops) inst t)"
  unfolding close_instance_def
  by (intro keeps_deadline keeps_fresh build_wp build_close_for idle_end operation_wp
      quiet_accept_close quiet_then quiet_modify quiet_basic assms)
    (auto intro: accept_close_raises)

lemma keeps_commit_action:
  assumes "well_shaped_server ops"
  shows "keeps wire_inv (commit_action (record_ops ops) inst d a t)"
proof -
  have "wp (bind_p (with_p (\<lambda>s. lift_p (build_commit_action s (next_request_seq s) inst d a)))
      (\<lambda>request. execute_selected_action (record_ops ops) request (PStr root_branch_id) deadline))
      (\<lambda>_. wire_inv) (\<lambda>_. wire_inv) s" if "idle s" for deadline and s :: "'c wire client"
    using that build_commit_for [of s inst d a] selected_action_wp [OF _ assms]
    by (auto simp: wp_bind wp_with wp_lift idle_def startable_def intro!: idle_end split: sum.split)
  then show ?thesis
    unfolding commit_action_def by (intro keeps_deadline keeps_fresh)
qed

lemma keeps_emulate_action:
  assumes "well_shaped_server ops"
  shows "keeps wire_inv (emulate_action (record_ops ops) inst p b r d a t opts)"
proof -
  have "wp (bind_p (with_p (\<lambda>s. lift_p (build_emulate_action s (next_request_seq s) inst p b r d a opts)))
      (\<lambda>request. execute_selected_action (record_ops ops) request p deadline))
      (\<lambda>_. wire_inv) (\<lambda>_. wire_inv) s" if "idle s" for deadline and s :: "'c wire client"
    using that build_emulate_for [of s inst p b r d a opts] selected_action_wp [OF _ assms]
    by (auto simp: wp_bind wp_with wp_lift idle_def startable_def intro!: idle_end split: sum.split)
  then show ?thesis
    unfolding emulate_action_def by (intro keeps_deadline keeps_fresh)
qed

lemma keeps_emulate_actions:
  assumes "well_shaped_server ops"
  shows "keeps wire_inv (emulate_actions (record_ops ops) inst items t opts)"
proof -
  have "wp (bind_p (with_p (\<lambda>s. lift_p (build_emulate_actions s (next_request_seq s) inst items opts)))
      (\<lambda>request. execute_emulate_actions (record_ops ops) request deadline))
      (\<lambda>_. wire_inv) (\<lambda>_. wire_inv) s" if "idle s" for deadline and s :: "'c wire client"
    using that build_emulates_for [of s inst items opts] emulate_actions_wp [OF _ assms]
    by (auto simp: wp_bind wp_with wp_lift idle_def startable_def intro!: idle_end split: sum.split)
  then show ?thesis
    unfolding emulate_actions_def by (intro keeps_deadline keeps_fresh)
qed

lemma keeps_start_instance:
  assumes "well_shaped_server ops"
  shows "keeps wire_inv (start_instance (record_ops ops) config t)"
proof -
  have "wp (bind_p (build_start_instance (next_request_seq s) config) (\<lambda>request.
       bind_p (execute (record_ops ops) request deadline) (\<lambda>response.
       bind_p (accept_or_uncertain (record_ops ops) request
                 (accept_start_instance_for_request request response)) (\<lambda>result.
       then_p (consume_sequence (from_message request)) (ret_p result)))))
      (\<lambda>_. wire_inv) (\<lambda>_. wire_inv) s" if "idle s" for deadline and s :: "'c wire client"
  proof -
    let ?s = "s\<lparr>pending_start_instance_type := (case dget config ''instance_type'' of
        PStr t \<Rightarrow> if t = [] then None else Some t | _ \<Rightarrow> None)\<rparr>"
    have s: "idle ?s" using that idle_core [of ?s s] by simp
    have run: "wp (bind_p (execute (record_ops ops) m deadline) (\<lambda>r.
        bind_p (accept_or_uncertain (record_ops ops) m (accept_start_instance_for_request m r)) (\<lambda>x.
        then_p (consume_sequence (from_message m)) (ret_p x)))) (\<lambda>_. wire_inv) (\<lambda>_. wire_inv) ?s"
      if "new_request ?s (next_request_seq ?s) ''start_instance'' fs = Inr m" for m fs
    proof -
      have "request_for ?s m"
        using that by (rule new_request_for) (simp_all add: branch_batch_operations_def)
      then have "startable m ?s" using s by (simp add: idle_def startable_def)
      then show ?thesis
        by (intro idle_end operation_wp assms quiet_accept_start quiet_basic)
          (auto intro: accept_start_raises)
    qed
    show ?thesis
      unfolding build_start_instance_def
      using s run by (auto simp: wp_bind wp_then wp_modify wp_with wp_lift idle_def split: sum.split)
  qed
  then show ?thesis
    unfolding start_instance_def
    by (intro keeps_deadline keeps_fresh) (auto simp: wp_with wp_raise idle_def)
qed

lemma batch_operation_wp:
  assumes "startable m s" "well_shaped_server ops" "\<And>x. quiet (fin x)"
  shows "wp (bind_p (execute (record_ops ops) m d) (\<lambda>r.
      then_p (consume_sequence (from_message m)) (fin r))) (\<lambda>_. idle) (\<lambda>_. wire_inv) s"
proof -
  have "wp (bind_p (execute (record_ops ops) m d) (\<lambda>r.
      bind_p (accept_or_uncertain (record_ops ops) m (ret_p r)) (\<lambda>x.
      then_p (consume_sequence (from_message m)) (fin x)))) (\<lambda>_. idle) (\<lambda>_. wire_inv) s"
    using assms by (intro operation_wp quiet_basic) (auto simp: ret_p_def)
  then show ?thesis
    by (simp add: wp_bind accept_or_uncertain_def wp_try wp_ret)
qed

lemma keeps_branch_batch:
  assumes "well_shaped_server ops" "op \<in> set branch_batch_operations"
  shows "keeps wire_inv (branch_batch_operation (record_ops ops) op inst bs t)"
  unfolding branch_batch_operation_def
  by (intro keeps_deadline keeps_fresh build_wp build_batch_for idle_end batch_operation_wp
      quiet_basic assms)
    (use assms in auto)

lemma remember_idle_wp:
  assumes "idle s" "request_for s m"
  shows "wp (remember_pending (from_message m)) (\<lambda>_. startable m) (\<lambda>_. wire_inv) s"
proof -
  have "wire_ok (next_request_seq s) (log_of s) (\<lambda>m'. False)"
    using assms(1) by (auto simp: idle_def wire_inv_def)
  then have "wire_ok (next_request_seq s) (log_of s)
      (\<lambda>m'. session_invalid s \<or> Some (from_message m) = Some (from_message m'))"
    by (rule wire_ok_mono) simp
  then show ?thesis
    using assms
    by (auto simp: remember_pending_def py_simps idle_def startable_def request_for_def wire_inv_def)
qed

lemma cleanup_request_wp:
  assumes s: "idle s" and m: "request_for s m" and server: "well_shaped_server ops"
  shows "wp (then_p (remember_pending (from_message m))
      (then_p (try_p (then_p (execute (record_ops ops) m d) (consume_sequence (from_message m)))
                 (\<lambda>e. with_p (\<lambda>s.
                    then_p (if pending_retry s \<noteq> Some (from_message m)
                            then modify_p (\<lambda>s. s\<lparr>pending_retry_cleanup := None\<rparr>)
                            else ret_p ()) (raise_p e))))
         (modify_p (\<lambda>s. s\<lparr>pending_retry_cleanup := None\<rparr>))))
      (\<lambda>_. wire_inv) (\<lambda>_. wire_inv) s"
proof -
  have drop: "wire_inv (t\<lparr>pending_retry_cleanup := None\<rparr>) = wire_inv t" for t :: "'c wire client"
    by (rule wire_inv_core) simp
  have "wp (then_p (execute (record_ops ops) m d) (consume_sequence (from_message m)))
      (\<lambda>_. idle) (\<lambda>_. wire_inv) t" if "startable m t" for t :: "'c wire client"
  proof -
    have "wp (bind_p (execute (record_ops ops) m d) (\<lambda>_.
        then_p (consume_sequence (from_message m)) (ret_p ()))) (\<lambda>_. idle) (\<lambda>_. wire_inv) t"
      by (intro batch_operation_wp that server quiet_basic)
    then show ?thesis by (simp add: wp_bind wp_then wp_ret)
  qed
  then have attempt: "wp (try_p (then_p (execute (record_ops ops) m d) (consume_sequence (from_message m)))
       (\<lambda>e. with_p (\<lambda>s.
          then_p (if pending_retry s \<noteq> Some (from_message m)
                  then modify_p (\<lambda>s. s\<lparr>pending_retry_cleanup := None\<rparr>)
                  else ret_p ()) (raise_p e)))) (\<lambda>_. wire_inv) (\<lambda>_. wire_inv) t"
    if "startable m t" for t :: "'c wire client"
    unfolding wp_try
    by (rule wp_mono) (use that drop in \<open>auto simp: wp_with wp_then wp_modify wp_ret wp_raise idle_def\<close>)
  show ?thesis
    unfolding wp_then
  proof (rule wp_mono [OF remember_idle_wp [OF s m]])
    fix t :: "'c wire client" assume "startable m t"
    from attempt [OF this]
    show "wp (try_p (then_p (execute (record_ops ops) m d) (consume_sequence (from_message m)))
         (\<lambda>e. with_p (\<lambda>s.
            then_p (if pending_retry s \<noteq> Some (from_message m)
                    then modify_p (\<lambda>s. s\<lparr>pending_retry_cleanup := None\<rparr>)
                    else ret_p ()) (raise_p e))))
        (\<lambda>_. wp (modify_p (\<lambda>s. s\<lparr>pending_retry_cleanup := None\<rparr>)) (\<lambda>_. wire_inv) (\<lambda>_. wire_inv))
        (\<lambda>_. wire_inv) t"
      by (rule wp_mono) (simp_all add: wp_modify drop)
  qed
qed

lemma complete_cleanup_wp:
  assumes s: "idle s" and server: "well_shaped_server ops"
  shows "wp (complete_deferred_branch_cleanup (record_ops ops) src d b) (\<lambda>_. wire_inv) (\<lambda>_. wire_inv) s"
proof (cases "pending_retry_cleanup s")
  case None
  with s show ?thesis
    by (simp add: complete_deferred_branch_cleanup_def wp_with wp_ret idle_def)
next
  case (Some c)
  obtain token inst recorded where c: "c = (token, inst, recorded)" by (cases c)
  have "wire_inv s" using s by (simp add: idle_def)
  moreover have "wire_inv (s\<lparr>pending_retry_cleanup := x\<rparr>)" for x
    using \<open>wire_inv s\<close> wire_inv_core [of "s\<lparr>pending_retry_cleanup := x\<rparr>" s] by simp
  moreover have "idle (s\<lparr>pending_retry_cleanup := x\<rparr>)" for x
    using s idle_core [of "s\<lparr>pending_retry_cleanup := x\<rparr>" s] by simp
  moreover have "request_for (s\<lparr>pending_retry_cleanup := x\<rparr>) m"
    if "build_branch_batch_operation s (next_request_seq s) ''release_branches'' inst bs = Inr m"
    for m bs x
    using build_batch_for [OF that] request_for_core [of "s\<lparr>pending_retry_cleanup := x\<rparr>" s]
    by (simp add: branch_batch_operations_def)
  ultimately show ?thesis
    using Some c cleanup_request_wp [OF _ _ server]
    unfolding complete_deferred_branch_cleanup_def Let_def
    by (auto simp: wp_with wp_ret wp_modify wp_bind wp_lift wp_then [of "modify_p _"] split: sum.split)
qed

lemma replay_then_cleanup_wp:
  assumes replay: "wp replay (\<lambda>_. idle) (\<lambda>_. wire_inv) s" and server: "well_shaped_server ops"
  shows "wp (replay_then_cleanup (record_ops ops) retry d replay) (\<lambda>_. wire_inv) (\<lambda>_. wire_inv) s"
  unfolding replay_then_cleanup_def wp_try_else
proof (rule wp_mono [OF replay])
  fix x and t :: "'c wire client" assume "idle t"
  then show "wp (then_p (complete_deferred_branch_cleanup (record_ops ops) retry d True) (ret_p x))
      (\<lambda>_. wire_inv) (\<lambda>_. wire_inv) t"
    unfolding wp_then wp_ret by (rule complete_cleanup_wp [OF _ server])
next
  fix e and t :: "'c wire client" assume t: "wire_inv t"
  show "wp (with_p (\<lambda>s.
          if pending_retry s = None \<and> \<not> session_invalid s then
            (let rejected = (case api_operation_response e of
                               Some r \<Rightarrow> dget r ''status'' = PStr ''rejected'' | None \<Rightarrow> False)
             in then_p
                  (try_p (complete_deferred_branch_cleanup (record_ops ops) retry d (\<not> rejected))
                     (\<lambda>e'. if is_exception e' \<and> rejected then raise_p e else raise_p e'))
                  (raise_p e))
          else raise_p e)) (\<lambda>_. wire_inv) (\<lambda>_. wire_inv) t"
  proof (cases "pending_retry t = None \<and> \<not> session_invalid t")
    case True
    with t have "idle t" by (simp add: idle_def)
    from complete_cleanup_wp [OF this server] show ?thesis
      unfolding wp_with Let_def if_P [OF True] wp_then wp_raise wp_try
      by (rule wp_mono) (simp_all add: wp_raise)
  qed (use t in \<open>auto simp: wp_with wp_raise\<close>)
qed

lemma wp_map: "wp (map_p f m) Q E = wp m (\<lambda>x. Q (f x)) E"
  by (simp add: map_p_def wp_bind wp_ret)

lemma deadline_wp:
  assumes s: "startable m s"
    and body: "\<And>d t. startable m t \<Longrightarrow> wp (body d) (\<lambda>_. wire_inv) (\<lambda>_. wire_inv) t"
  shows "wp (operation_deadline (record_ops ops) timeout body) (\<lambda>_. wire_inv) (\<lambda>_. wire_inv) s"
proof -
  have inv: "wire_inv t" if "startable m t" for t :: "'c wire client"
    using that by (simp add: startable_def)
  have lock: "wp (conn_p (\<lambda>c. case op_lock (record_ops ops) d c of (l, c') \<Rightarrow> (Inr l, c')))
      (\<lambda>l. wp (case l of LockAcquired \<Rightarrow> body d
         | LockTimeout \<Rightarrow> raise_p (TransportError TransportPlain False None)
         | LockCancelled \<Rightarrow> raise_p (CancelledError False None)) (\<lambda>_. wire_inv) (\<lambda>_. wire_inv))
      (\<lambda>_. wire_inv) t" if "startable m t" for d and t :: "'c wire client"
    using keeps_wpI [OF quiet_keeps(4) [OF quiet_clock(2)] that]
    by (rule wp_mono) (auto simp: body inv wp_raise split: lock_outcome.split)
  have "wp (conn_p (\<lambda>c. case op_time (record_ops ops) c of (t, c') \<Rightarrow> (Inr t, c')))
      (\<lambda>_. startable m) (\<lambda>_. startable m) s"
    using keeps_wpI [OF quiet_keeps(4) [OF quiet_clock(1)] s] .
  then show ?thesis
    using inv [OF s] unfolding operation_deadline_def
    by (auto simp: wp_bind wp_raise inv intro!: lock elim!: wp_mono)
qed

text \<open>the branches of the replay\<close>

lemma retry_start_wp:
  assumes "startable m s" "well_shaped_server ops"
  shows "wp (bind_p (execute (record_ops ops) m d) (\<lambda>r.
      bind_p (accept_or_uncertain (record_ops ops) m (accept_start_instance_for_request m r)) (\<lambda>x.
      then_p (consume_sequence (from_message m)) (ret_p (f x))))) (\<lambda>_. wire_inv) (\<lambda>_. wire_inv) s"
  by (intro idle_end operation_wp assms quiet_accept_start quiet_basic) (auto intro: accept_start_raises)

lemma retry_decision_wp:
  assumes "startable m s" "well_shaped_server ops"
  shows "wp (bind_p (execute (record_ops ops) m d) (\<lambda>r.
      bind_p (accept_or_uncertain (record_ops ops) m (accept_get_decision r b)) (\<lambda>x.
      then_p (consume_sequence (from_message m)) (ret_p (f x))))) (\<lambda>_. wire_inv) (\<lambda>_. wire_inv) s"
  by (intro idle_end operation_wp assms quiet_accept_decision quiet_basic)
    (auto intro: accept_decision_raises)

lemma retry_close_wp:
  assumes "startable m s" "well_shaped_server ops"
  shows "wp (bind_p (execute (record_ops ops) m d) (\<lambda>r.
      bind_p (accept_or_uncertain (record_ops ops) m (accept_close_instance r)) (\<lambda>x.
      then_p (consume_sequence (from_message m))
        (then_p (modify_p clear_instance_extensions) (ret_p (f x)))))) (\<lambda>_. wire_inv) (\<lambda>_. wire_inv) s"
  by (intro idle_end operation_wp assms quiet_accept_close quiet_then quiet_modify quiet_basic)
    (auto intro: accept_close_raises)

lemma retry_batch_wp:
  assumes "startable m s" "well_shaped_server ops"
  shows "wp (bind_p (execute (record_ops ops) m d) (\<lambda>r.
      then_p (consume_sequence (from_message m))
        (with_p (\<lambda>s.
           then_p (case pending_retry_cleanup s of
                     None \<Rightarrow> ret_p ()
                   | Some (token, _, _) \<Rightarrow>
                       if token = from_message m then modify_p (\<lambda>s. s\<lparr>pending_retry_cleanup := None\<rparr>)
                       else ret_p ())
             (ret_p (f r)))))) (\<lambda>_. wire_inv) (\<lambda>_. wire_inv) s"
  by (intro idle_end batch_operation_wp assms quiet_with quiet_then quiet_basic)
    (auto intro: quiet_basic quiet_modify split: option.split)

lemma retry_commit_wp:
  assumes "startable m s" "well_shaped_server ops" "dget m ''operation'' = PStr ''commit_action''"
  shows "wp (map_p f (execute_selected_action (record_ops ops) m b d)) (\<lambda>_. wire_inv) (\<lambda>_. wire_inv) s"
  unfolding wp_map using assms by (intro idle_end selected_action_wp) auto

lemma retry_emulate_wp:
  assumes "startable m s" "well_shaped_server ops" "dget m ''operation'' = PStr ''emulate_action''"
  shows "wp (map_p f (replay_then_cleanup (record_ops ops) r d
      (execute_selected_action (record_ops ops) m b d))) (\<lambda>_. wire_inv) (\<lambda>_. wire_inv) s"
  unfolding wp_map using assms by (intro replay_then_cleanup_wp selected_action_wp) auto

lemma retry_emulates_wp:
  assumes "startable m s" "well_shaped_server ops"
  shows "wp (map_p f (replay_then_cleanup (record_ops ops) r d
      (execute_emulate_actions (record_ops ops) m d))) (\<lambda>_. wire_inv) (\<lambda>_. wire_inv) s"
  unfolding wp_map using assms by (intro replay_then_cleanup_wp emulate_actions_wp) auto

lemma keeps_retry:
  assumes server: "well_shaped_server ops"
  shows "keeps wire_inv (retry_request_op (record_ops ops) retry timeout)"
  unfolding keeps_wp
proof (intro allI impI)
  fix s :: "'c wire client" assume s: "wire_inv s"
  show "wp (retry_request_op (record_ops ops) retry timeout) (\<lambda>_. wire_inv) (\<lambda>_. wire_inv) s"
  proof (cases "session_invalid s \<or> pending_retry s \<noteq> Some retry")
    case True
    with s show ?thesis by (auto simp: retry_request_op_def wp_with wp_raise)
  next
    case False
    with s obtain m where retry: "retry = from_message m" and m: "startable m s"
      by (auto simp: wire_inv_def startable_def)
    have inv: "wire_inv t" if "startable m t" for t :: "'c wire client"
      using that by (simp add: startable_def)
    note branches = retry_start_wp retry_decision_wp retry_close_wp retry_batch_wp retry_commit_wp
      retry_emulate_wp retry_emulates_wp
    show ?thesis
      using False unfolding retry_request_op_def retry wp_with rr_fields_from_message
      by (simp only: if_False simp_thms to_message_from_message bind_p_returned de_Morgan_disj
          not_Some_eq option.distinct)
        (auto simp only: wp_if wp_raise str_opt_Some if_True if_False split: if_split
          intro!: deadline_wp [OF m] branches server intro: inv)
  qed
qed

lemma quiet_defer: "quiet (defer_branch_cleanup_after_retry retry inst bs)"
  unfolding defer_branch_cleanup_after_retry_def by (intro keeps_intro quiet_modify) simp

end

section \<open>Runs of the client\<close>

text \<open>the calls a user of the client can make\<close>

datatype api_call =
    Start_Instance pydict
  | Get_Decision pyval pyval
  | Commit_Action pyval pyval pyval
  | Emulate_Action pyval pyval pyval pyval pyval pyval pyval
  | Emulate_Actions pyval pyval pyval
  | Cancel_Branches pyval pyval
  | Release_Branches pyval pyval
  | Get_Branch_Status pyval pyval
  | Close_Instance pyval
  | Defer_Cleanup retry_request pyval "pyval list"
  | Retry retry_request
  | Close

fun outcome_of :: "('e + 'a) \<times> 's \<Rightarrow> 'e option \<times> 's" where
  "outcome_of (Inl e, s) = (Some e, s)"
| "outcome_of (Inr x, s) = (None, s)"

text \<open>the exception of a call, if any, and the state after it; \<open>t\<close> is its timeout\<close>

fun run_call :: "'c conn_ops \<Rightarrow> rat \<Rightarrow> api_call \<Rightarrow> 'c client \<Rightarrow> exn option \<times> 'c client" where
  "run_call ops t (Start_Instance c) s = outcome_of (start_instance ops c t s)"
| "run_call ops t (Get_Decision i b) s = outcome_of (get_decision ops i b t s)"
| "run_call ops t (Commit_Action i d a) s = outcome_of (commit_action ops i d a t s)"
| "run_call ops t (Emulate_Action i p b r d a opts) s =
     outcome_of (emulate_action ops i p b r d a t opts s)"
| "run_call ops t (Emulate_Actions i xs opts) s = outcome_of (emulate_actions ops i xs t opts s)"
| "run_call ops t (Cancel_Branches i bs) s = outcome_of (cancel_branches ops i bs t s)"
| "run_call ops t (Release_Branches i bs) s = outcome_of (release_branches ops i bs t s)"
| "run_call ops t (Get_Branch_Status i bs) s = outcome_of (get_branch_status ops i bs t s)"
| "run_call ops t (Close_Instance i) s = outcome_of (close_instance ops i t s)"
| "run_call ops t (Defer_Cleanup r i bs) s = outcome_of (defer_branch_cleanup_after_retry r i bs s)"
| "run_call ops t (Retry r) s = outcome_of (retry_request_op ops r t s)"
| "run_call ops t Close s = outcome_of (client_close ops s)"

text \<open>
  The states a session can reach: the calls in any order with any timeouts, while the connection
  changes on its own between them (time passes, bytes arrive).
\<close>

inductive session_reach :: "'c conn_ops \<Rightarrow> string \<Rightarrow> bool \<Rightarrow> 'c wire client \<Rightarrow> bool"
  for ops session logger where
  start: "client_init session \<lparr>wire_conn = c, wire_log = []\<rparr> logger = Inr s \<Longrightarrow>
    session_reach ops session logger s"
| call: "session_reach ops session logger s \<Longrightarrow> run_call (record_ops ops) t c s = (r, s') \<Longrightarrow>
    session_reach ops session logger s'"
| idle: "session_reach ops session logger s \<Longrightarrow>
    session_reach ops session logger (s\<lparr>connection := (connection s)\<lparr>wire_conn := c\<rparr>\<rparr>)"

lemma reach_run_call:
  "session_reach ops session logger s \<Longrightarrow> session_reach ops session logger (snd (run_call (record_ops ops) t c s))"
  by (erule session_reach.call [where r = "fst (run_call (record_ops ops) t c s)"]) simp

lemma snd_outcome [simp]: "snd (outcome_of x) = snd x"
  by (cases x rule: outcome_of.cases) auto

lemma client_init_inv:
  assumes "client_init session \<lparr>wire_conn = c, wire_log = []\<rparr> logger = Inr s"
  shows "wire_inv s"
  using assms
  by (auto simp: client_init_def then_r_eq_Inr wire_inv_def wire_ok_def one_message_def gapless_def)

text \<open>a fresh call while a request is unresolved, or the session invalid\<close>

definition blocked :: "'c client \<Rightarrow> bool" where
  "blocked s \<longleftrightarrow> pending_retry s \<noteq> None \<or> session_invalid s"

fun fresh_call :: "api_call \<Rightarrow> bool" where
  "fresh_call (Defer_Cleanup _ _ _) = False"
| "fresh_call (Retry _) = False"
| "fresh_call Close = False"
| "fresh_call _ = True"

lemma blocked_wp:
  assumes s: "blocked s"
  shows "wp (operation_deadline (record_ops ops) t (\<lambda>d. then_p ensure_fresh_request_allowed (n d)))
    (\<lambda>_ _. False) (\<lambda>_ t. core t = core s) s"
proof -
  let ?I = "\<lambda>t. core t = core s"
  have "wp (then_p ensure_fresh_request_allowed (n d)) (\<lambda>_ _. False) (\<lambda>_ t. core t = core s) u"
    if "core u = core s" for d u
    using s that by (auto simp: ensure_fresh_request_allowed_def py_simps blocked_def core_def)
  then have "wp (conn_p (\<lambda>c. case op_lock (record_ops ops) d c of (l, c') \<Rightarrow> (Inr l, c')))
      (\<lambda>l. wp (case l of LockAcquired \<Rightarrow> then_p ensure_fresh_request_allowed (n d)
         | LockTimeout \<Rightarrow> raise_p (TransportError TransportPlain False None)
         | LockCancelled \<Rightarrow> raise_p (CancelledError False None)) (\<lambda>_ _. False) (\<lambda>_. ?I))
      (\<lambda>_. ?I) u" if "core u = core s" for d u
    using quiet_wp [OF quiet_clock(2), of ops d u] that
    by (elim wp_mono) (auto simp: wp_raise split: lock_outcome.split)
  then show ?thesis
    using quiet_wp [OF quiet_clock(1), of ops s] unfolding operation_deadline_def
    by (auto simp: wp_bind wp_raise elim!: wp_mono)
qed

lemma blocked_outcome:
  assumes "blocked s"
    and "outcome_of (operation_deadline (record_ops ops) t (\<lambda>d. then_p ensure_fresh_request_allowed (n d)) s) = (r, s')"
  shows "r \<noteq> None \<and> core s' = core s"
  using blocked_wp [OF assms(1), of ops t n] assms(2)
  by (cases "operation_deadline (record_ops ops) t (\<lambda>d. then_p ensure_fresh_request_allowed (n d)) s")
    (auto simp: wp_def split: sum.splits)

lemma fresh_call_blocked:
  assumes "blocked s" "fresh_call c" "run_call (record_ops ops) t c s = (r, s')"
  shows "r \<noteq> None \<and> core s' = core s"
  using assms(2,3)
  by (cases c) (simp_all only: fresh_call.simps run_call.simps start_instance_def get_decision_def
      commit_action_def emulate_action_def emulate_actions_def cancel_branches_def release_branches_def
      get_branch_status_def branch_batch_operation_def close_instance_def,
      (erule blocked_outcome [OF assms(1)])+)

context replay_connection
begin

lemma run_call_keeps:
  assumes "well_shaped_server ops" "wire_inv s"
  shows "wire_inv (snd (run_call (record_ops ops) t c s))"
proof (cases c)
  case (Defer_Cleanup r i bs)
  then show ?thesis using keepsD [OF quiet_keeps(1) [OF quiet_defer] assms(2)] by simp
next
  case Close
  then show ?thesis
    using keepsD [OF quiet_keeps(1) [OF quiet_close] assms(2)] by (simp add: client_close_def)
qed (use assms(2) keeps_start_instance [OF assms(1)] keeps_get_decision [OF assms(1)]
    keeps_commit_action [OF assms(1)] keeps_emulate_action [OF assms(1)]
    keeps_emulate_actions [OF assms(1)] keeps_branch_batch [OF assms(1)]
    keeps_close_instance [OF assms(1)] keeps_retry [OF assms(1)]
  in \<open>simp_all add: keeps_def cancel_branches_def release_branches_def get_branch_status_def
    branch_batch_operations_def\<close>)

lemma reach_wire_inv:
  assumes "session_reach ops session logger s" "well_shaped_server ops"
  shows "wire_inv s"
  using assms
proof (induction rule: session_reach.induct)
  case (start c s) then show ?case by (simp add: client_init_inv)
next
  case (call s t c r s')
  then show ?case using run_call_keeps [of s t c] by simp
next
  case (idle s c)
  then show ?case
    using wire_inv_core [of "s\<lparr>connection := (connection s)\<lparr>wire_conn := c\<rparr>\<rparr>" s] by simp
qed

end

end
