(* ===== verification/Tcp_Connection.thy ===== *)
theory Tcp_Connection
  imports Client_Sequence
begin

text \<open>
  \<open>api/tcp_connection.py\<close>: \<open>TcpConnection\<close>, newline-delimited JSON over one socket with an
  epoch-checked handshake.  Every \<open>await\<close> is a point where the outside world decides, so the state
  holds the outcomes of the awaits to come, in order (\<open>tcp_script\<close>): bytes that arrive, an
  operation that completes, the deadline of the enclosing \<open>asyncio.timeout_at\<close>, an \<open>OSError\<close>, or
  the cancellation of the task.  When no outcome is left, the deadline has passed.  The JSON codec is
  a parameter, the record \<open>codec\<close>; \<open>tcp_written\<close> is an observation, the lines written so far.
\<close>

section \<open>State and environment\<close>

datatype io = IoBytes string | IoDone | IoTimeout | IoOSError | IoCancelled

record codec =
  dumps :: "pyval \<Rightarrow> string"
  loads :: "string \<Rightarrow> pyval option"

text \<open>\<open>tcp_stream\<close> is the reader and the writer, which are set and cleared together: \<open>Some dead\<close>
  with \<open>dead = reader.at_eof() or writer.is_closing()\<close>.\<close>

record tcp =
  tcp_session :: string
  tcp_max_message :: int
  tcp_max_response :: int
  tcp_stream :: "bool option"
  tcp_closed :: bool
  tcp_epoch :: "string option"
  tcp_script :: "io list"
  tcp_written :: "string list"
  tcp_clock :: "rat list"
  tcp_locks :: "lock_outcome list"

definition default_max_message_bytes :: int where
  "default_max_message_bytes = 5 * 1024 * 1024"

definition default_max_response_bytes :: int where
  "default_max_response_bytes = 64 * 1024 * 1024"

definition response_read_chunk_bytes :: int where
  "response_read_chunk_bytes = 64 * 1024"

definition newline :: char where
  "newline = CHR 0x0A"

definition tcp_init ::
  "string \<Rightarrow> int \<Rightarrow> string option \<Rightarrow> string \<Rightarrow> rat \<Rightarrow> int \<Rightarrow> int \<Rightarrow> io list \<Rightarrow> rat list
     \<Rightarrow> lock_outcome list \<Rightarrow> exn + tcp" where
  "tcp_init host port client_session_id uuid connect_timeout_s max_message_bytes
     max_response_bytes script clock locks =
     (let session = (case client_session_id of
                       None \<Rightarrow> uuid | Some i \<Rightarrow> if i = [] then uuid else i)
      in then_r (raise_if (host = []) ValueError) (\<lambda>_.
         then_r (raise_if (\<not> (1 \<le> port \<and> port \<le> 65535)) ValueError) (\<lambda>_.
         then_r (raise_if (connect_timeout_s \<le> 0) ValueError) (\<lambda>_.
         then_r (raise_if (max_message_bytes \<le> 0 \<or> max_response_bytes \<le> 0) ValueError) (\<lambda>_.
         then_r (raise_if (session = []) ValueError) (\<lambda>_.
           Inr \<lparr>tcp_session = session, tcp_max_message = max_message_bytes,
                tcp_max_response = max_response_bytes, tcp_stream = None, tcp_closed = False,
                tcp_epoch = None, tcp_script = script, tcp_written = [], tcp_clock = clock,
                tcp_locks = locks\<rparr>))))))"

section \<open>Awaiting\<close>

text \<open>
  An await whose result carries no data.  \<open>scoped\<close>: it runs under a \<open>timeout_at\<close>; outside one the
  deadline cannot interrupt it.  Bytes that have arrived stay buffered.
\<close>

fun await_io :: "bool \<Rightarrow> io list \<Rightarrow> (exn + unit) \<times> io list" where
  "await_io scoped [] = (if scoped then Inl TimeoutError else Inr (), [])"
| "await_io scoped (IoTimeout # io) = (if scoped then Inl TimeoutError else Inr (), io)"
| "await_io scoped (IoDone # io) = (Inr (), io)"
| "await_io scoped (IoBytes bs # io) = (Inr (), IoBytes bs # io)"
| "await_io scoped (IoOSError # io) = (Inl ConnectionOSError, io)"
| "await_io scoped (IoCancelled # io) = (Inl (CancelledError False None), io)"

text \<open>\<open>reader.read(n)\<close>: at most \<open>n\<close> of the bytes that have arrived; none at the end of the stream\<close>

fun await_read :: "int \<Rightarrow> io list \<Rightarrow> (exn + string) \<times> io list" where
  "await_read n [] = (Inl TimeoutError, [])"
| "await_read n (IoTimeout # io) = (Inl TimeoutError, io)"
| "await_read n (IoDone # io) = await_read n io"
| "await_read n (IoBytes bs # io) =
     (Inr (take (nat n) bs), if nat n < length bs then IoBytes (drop (nat n) bs) # io else io)"
| "await_read n (IoOSError # io) = (Inl ConnectionOSError, io)"
| "await_read n (IoCancelled # io) = (Inl (CancelledError False None), io)"

definition await_p :: "bool \<Rightarrow> (tcp, exn, unit) py" where
  "await_p scoped = (\<lambda>s. case await_io scoped (tcp_script s) of (r, io) \<Rightarrow> (r, s\<lparr>tcp_script := io\<rparr>))"

text \<open>\<open>_read_response_frame\<close>: chunks up to the first newline, within the response limit\<close>

lemma await_read_nonempty_length:
  "await_read n io = (Inr chunk, io') \<Longrightarrow> length chunk \<le> nat n"
  by (induction n io rule: await_read.induct) (auto split: if_splits)

function read_frame :: "int \<Rightarrow> int \<Rightarrow> string \<Rightarrow> io list \<Rightarrow> (exn + string) \<times> io list" where
  "read_frame limit received chunks io =
     (let remaining = limit - received in
      if remaining \<le> 0 then (Inl (TransportError TransportPlain False None), io)
      else case await_read (min response_read_chunk_bytes remaining) io of
        (Inl e, io') \<Rightarrow> (Inl e, io')
      | (Inr chunk, io') \<Rightarrow>
          if chunk = [] then (Inl (TransportError RuntimeExited False None), io')
          else if newline \<notin> set chunk
          then read_frame limit (received + int (length chunk)) (chunks @ chunk) io'
          else
            let head = takeWhile (\<lambda>c. c \<noteq> newline) chunk in
            if length head + 1 \<noteq> length chunk
            then (Inl (TransportError TransportPlain False None), io')
            else (Inr (chunks @ head @ [newline]), io'))"
  by pat_completeness auto

termination
  by (relation "measure (\<lambda>(limit, received, chunks, io). nat (limit - received))") auto

declare read_frame.simps [simp del]

definition read_response_frame :: "(tcp, exn, string) py" where
  "read_response_frame = (\<lambda>s.
     case read_frame (tcp_max_response s) 0 [] (tcp_script s) of (r, io) \<Rightarrow> (r, s\<lparr>tcp_script := io\<rparr>))"

section \<open>Connecting\<close>

definition is_alive :: "tcp \<Rightarrow> bool" where
  "is_alive s \<longleftrightarrow> \<not> tcp_closed s \<and> tcp_stream s = Some False"

definition disconnect :: "bool \<Rightarrow> (tcp, exn, unit) py" where
  "disconnect scoped = with_p (\<lambda>s.
     then_p (modify_p (\<lambda>s. s\<lparr>tcp_stream := None\<rparr>))
       (if tcp_stream s = None then ret_p ()
        else try_p (await_p scoped)
               (\<lambda>e. if e = ConnectionOSError then ret_p () else raise_p e)))"

definition assert_epoch :: "string \<Rightarrow> bool \<Rightarrow> retry_request option \<Rightarrow> (tcp, exn, unit) py" where
  "assert_epoch actual uncertain retry = with_p (\<lambda>s.
     case tcp_epoch s of
       None \<Rightarrow> modify_p (\<lambda>s. s\<lparr>tcp_epoch := Some actual\<rparr>)
     | Some expected \<Rightarrow>
         if actual \<noteq> expected then raise_p (TransportError ServerEpochChanged uncertain retry)
         else ret_p ())"

definition write_line :: "string \<Rightarrow> (tcp, exn, unit) py" where
  "write_line line = modify_p (\<lambda>s. s\<lparr>tcp_written := tcp_written s @ [line]\<rparr>)"

definition plain_error :: exn where
  "plain_error = TransportError TransportPlain False None"

definition check_hello :: "string \<Rightarrow> pyval option \<Rightarrow> exn + string" where
  "check_hello session response =
     (case response of
        Some (PDict r) \<Rightarrow>
          if dget r ''transport_error'' \<noteq> PNone then Inl plain_error
          else if dget r ''transport_operation'' \<noteq> PStr ''hello''
               \<or> dget r ''schema_version'' \<noteq> PStr schema_version
               \<or> dget r ''client_session_id'' \<noteq> PStr session then Inl plain_error
          else (case dget r ''server_epoch'' of
                  PStr e \<Rightarrow> if e = [] then Inl plain_error else Inr e
                | _ \<Rightarrow> Inl plain_error)
      | _ \<Rightarrow> Inl plain_error)"

definition hello :: "codec \<Rightarrow> (tcp, exn, unit) py" where
  "hello cx = with_p (\<lambda>s.
     then_p (write_line (dumps cx (PDict [(''transport_operation'', PStr ''hello''),
                                          (''schema_version'', PStr schema_version),
                                          (''client_session_id'', PStr (tcp_session s))])
                         @ [newline]))
    (then_p (await_p True)
    (bind_p read_response_frame (\<lambda>line.
     bind_p (lift_p (check_hello (tcp_session s) (loads cx line))) (\<lambda>epoch.
       assert_epoch epoch False None)))))"

text \<open>\<open>scoped\<close>: \<open>_connect\<close> runs under the deadline of a request\<close>

definition on_connect_error :: "bool \<Rightarrow> exn \<Rightarrow> (tcp, exn, 'a) py" where
  "on_connect_error scoped e =
     (if is_transport_error e then then_p (disconnect scoped) (raise_p e)
      else if e = TimeoutError \<or> e = ConnectionOSError
      then then_p (disconnect scoped) (raise_p plain_error)
      else raise_p e)"

definition connect :: "codec \<Rightarrow> bool \<Rightarrow> (tcp, exn, unit) py" where
  "connect cx scoped = with_p (\<lambda>s.
     if tcp_closed s then raise_p (TransportError TransportClosed False None)
     else if is_alive s then ret_p ()
     else try_p (then_p (await_p True)
                (then_p (modify_p (\<lambda>s. s\<lparr>tcp_stream := Some False\<rparr>)) (hello cx)))
            (on_connect_error scoped))"

section \<open>Exchanging\<close>

definition resolve_deadline :: "rat option \<Rightarrow> rat option \<Rightarrow> (tcp, exn, rat) py" where
  "resolve_deadline timeout_s deadline = with_p (\<lambda>s.
     case (timeout_s, deadline) of
       (None, Some d) \<Rightarrow> ret_p d
     | (Some t, None) \<Rightarrow>
         if t \<le> 0 then raise_p ValueError
         else (case tcp_clock s of
                 [] \<Rightarrow> ret_p t
               | now # later \<Rightarrow> then_p (modify_p (\<lambda>s. s\<lparr>tcp_clock := later\<rparr>)) (ret_p (now + t)))
     | _ \<Rightarrow> raise_p ValueError)"

text \<open>\<open>_decode_response\<close>: a \<open>transport_error\<close> answer means the request was not executed\<close>

definition decode_response :: "codec \<Rightarrow> string \<Rightarrow> retry_request \<Rightarrow> (tcp, exn, pydict) py" where
  "decode_response cx line token =
     (case loads cx line of
        Some (PDict r) \<Rightarrow>
          if dget r ''transport_error'' \<noteq> PNone
          then then_p (disconnect False) (raise_p plain_error)
          else ret_p r
      | _ \<Rightarrow> then_p (disconnect False) (raise_p (TransportError TransportPlain True (Some token))))"

text \<open>the \<open>except\<close> clauses of the inner \<open>try\<close>, with the local variable \<open>sent\<close>\<close>

definition on_request_error :: "bool \<Rightarrow> retry_request \<Rightarrow> exn \<Rightarrow> (tcp, exn, 'a) py" where
  "on_request_error sent token e =
     (let leave = (if sent then disconnect False else ret_p ());
          retry = (if sent then Some token else None)
      in case e of
           TransportError kind uncertain r \<Rightarrow>
             if kind = ServerEpochChanged \<or> \<not> sent then raise_p e
             else then_p leave (raise_p (TransportError kind True (Some token)))
         | TimeoutError \<Rightarrow> then_p leave (raise_p (TransportError TransportPlain sent retry))
         | ConnectionOSError \<Rightarrow> then_p leave (raise_p (TransportError RuntimeExited sent retry))
         | _ \<Rightarrow> raise_p e)"

text \<open>the outer \<open>except CancelledError\<close>: the token is kept, a second cancellation is dropped\<close>

definition on_cancelled :: "bool \<Rightarrow> retry_request \<Rightarrow> exn \<Rightarrow> (tcp, exn, 'a) py" where
  "on_cancelled sent token e =
     (case e of
        CancelledError _ _ \<Rightarrow>
          then_p (if sent
                  then try_p (disconnect False)
                         (\<lambda>e. case e of CancelledError _ _ \<Rightarrow> ret_p () | _ \<Rightarrow> raise_p e)
                  else ret_p ())
            (raise_p (CancelledError sent (if sent then Some token else None)))
      | _ \<Rightarrow> raise_p e)"

text \<open>from \<open>sent = True\<close> to the return\<close>

definition send_and_receive :: "codec \<Rightarrow> string \<Rightarrow> retry_request \<Rightarrow> (tcp, exn, pyval) py" where
  "send_and_receive cx encoded token =
     bind_p (try_p (then_p (write_line encoded) (then_p (await_p True) read_response_frame))
               (on_request_error True token)) (\<lambda>line.
     bind_p (decode_response cx line token) (\<lambda>r.
     case dget r ''server_epoch'' of
       PStr epoch \<Rightarrow>
         if epoch = []
         then then_p (disconnect False) (raise_p (TransportError TransportPlain True (Some token)))
         else then_p (assert_epoch epoch True (Some token)) (ret_p (PDict r))
     | _ \<Rightarrow> then_p (disconnect False) (raise_p (TransportError TransportPlain True (Some token)))))"

definition exchange ::
  "codec \<Rightarrow> pydict \<Rightarrow> rat option \<Rightarrow> rat option \<Rightarrow> (tcp, exn, pyval) py" where
  "exchange cx message timeout_s deadline =
     then_p (resolve_deadline timeout_s deadline) (with_p (\<lambda>s.
       let token = from_message message;
           encoded = dumps cx (PDict message) @ [newline]
       in if dget message ''client_session_id'' \<noteq> PStr (tcp_session s) then raise_p ValueError
          else if tcp_max_message s < int (length encoded) then raise_p plain_error
          else
            try_else (try_p (then_p (await_p True) (connect cx True)) (on_request_error False token))
              (\<lambda>_. try_p (send_and_receive cx encoded token) (on_cancelled True token))
              (on_cancelled False token)))"

definition invalidate :: "(tcp, exn, unit) py" where
  "invalidate = then_p (await_p False) (disconnect False)"

definition tcp_close :: "(tcp, exn, unit) py" where
  "tcp_close = then_p (await_p False) (with_p (\<lambda>s.
     if tcp_closed s then ret_p ()
     else then_p (modify_p (\<lambda>s. s\<lparr>tcp_closed := True\<rparr>)) (disconnect False)))"

definition tcp_connect :: "codec \<Rightarrow> (tcp, exn, unit) py" where
  "tcp_connect cx = then_p (await_p False) (connect cx False)"

definition set_max_response_bytes :: "int \<Rightarrow> (tcp, exn, unit) py" where
  "set_max_response_bytes n =
     (if n \<le> 0 then raise_p ValueError
      else then_p (await_p False) (with_p (\<lambda>s.
        if tcp_closed s then raise_p (TransportError TransportClosed False None)
        else modify_p (\<lambda>s. s\<lparr>tcp_max_response := n\<rparr>))))"

section \<open>Ping\<close>

definition ping_line :: string where
  "ping_line = ''{'' @ [CHR 0x22] @ ''transport_operation'' @ [CHR 0x22] @ '':'' @ [CHR 0x22]
     @ ''ping'' @ [CHR 0x22] @ ''}'' @ [newline]"

definition on_ping_error :: "bool \<Rightarrow> exn \<Rightarrow> (tcp, exn, 'a) py" where
  "on_ping_error sent e =
     (let leave = (if sent then disconnect False else ret_p ()) in
      case e of
        TransportError kind u r \<Rightarrow>
          then_p (if kind = ServerEpochChanged then disconnect False else leave) (raise_p e)
      | CancelledError u r \<Rightarrow> then_p leave (raise_p e)
      | TimeoutError \<Rightarrow> then_p leave (raise_p plain_error)
      | ConnectionOSError \<Rightarrow> then_p leave (raise_p (TransportError RuntimeExited False None))
      | _ \<Rightarrow> raise_p e)"

definition check_pong :: "pyval option \<Rightarrow> exn + pydict \<times> string" where
  "check_pong response =
     (case response of
        Some (PDict r) \<Rightarrow>
          if dget r ''transport_operation'' \<noteq> PStr ''pong'' then Inl plain_error
          else (case dget r ''server_epoch'' of
                  PStr e \<Rightarrow> if e = [] then Inl plain_error else Inr (r, e)
                | _ \<Rightarrow> Inl plain_error)
      | _ \<Rightarrow> Inl plain_error)"

definition ping :: "codec \<Rightarrow> rat \<Rightarrow> (tcp, exn, pydict) py" where
  "ping cx timeout_s =
     then_p (resolve_deadline (Some timeout_s) None)
    (bind_p
      (try_else (then_p (await_p True) (connect cx True))
         (\<lambda>_. try_p (then_p (write_line ping_line) (then_p (await_p True) read_response_frame))
                (on_ping_error True))
         (on_ping_error False)) (\<lambda>line.
     case check_pong (loads cx line) of
       Inl e \<Rightarrow> then_p invalidate (raise_p e)
     | Inr (r, epoch) \<Rightarrow>
         then_p (try_p (assert_epoch epoch False None)
                   (\<lambda>e. then_p invalidate (raise_p e)))
           (ret_p r)))"

section \<open>The connection of the client\<close>

fun next_lock :: "lock_outcome list \<Rightarrow> lock_outcome \<times> lock_outcome list" where
  "next_lock [] = (LockAcquired, [])"
| "next_lock (l # ls) = (l, ls)"

fun next_time :: "rat list \<Rightarrow> rat \<times> rat list" where
  "next_time [] = (0, [])"
| "next_time (t # ts) = (t, ts)"

definition tcp_ops :: "codec \<Rightarrow> tcp conn_ops" where
  "tcp_ops cx =
     \<lparr>op_time = (\<lambda>s. case next_time (tcp_clock s) of (t, ts) \<Rightarrow> (t, s\<lparr>tcp_clock := ts\<rparr>)),
      op_lock = (\<lambda>d s. case next_lock (tcp_locks s) of (l, ls) \<Rightarrow> (l, s\<lparr>tcp_locks := ls\<rparr>)),
      op_exchange = (\<lambda>m d s. exchange cx m None (Some d) s),
      op_invalidate = invalidate,
      op_close = tcp_close\<rparr>"

section \<open>Frames\<close>

text \<open>
  However the bytes of a frame are cut into chunks, the frame is read exactly, as long as it fits
  the limit.
\<close>

lemma read_frame_chunks:
  assumes "list_all (\<lambda>c. c \<noteq> [] \<and> int (length c) \<le> response_read_chunk_bytes) cs"
    and "concat cs = body @ [newline]" "newline \<notin> set body"
    and "received + int (length body) < limit"
  shows "read_frame limit received chunks (map IoBytes cs @ io) = (Inr (chunks @ body @ [newline]), io)"
  using assms
proof (induction cs arbitrary: received chunks body)
  case (Cons c cs)
  let ?n = "min response_read_chunk_bytes (limit - received)"
  have len: "length c + length (concat cs) = length body + 1"
    using arg_cong [OF Cons.prems(2), of length] by simp
  have read: "await_read ?n (map IoBytes (c # cs) @ io) = (Inr c, map IoBytes cs @ io)"
    using Cons.prems(1,4) len by (auto simp: min_def)
  have rem: "\<not> limit - received \<le> 0" using Cons.prems(4) by linarith
  show ?case
  proof (cases "concat cs = []")
    case True
    with Cons.prems(1) have cs: "cs = []" by (cases cs) auto
    with Cons.prems(2) have c: "c = body @ [newline]" by simp
    have "takeWhile (\<lambda>x. x \<noteq> newline) c = body"
      using Cons.prems(3) unfolding c by (subst takeWhile_append2) auto
    with read rem Cons.prems(1) show ?thesis
      by (subst read_frame.simps) (simp add: c cs Let_def)
  next
    case False
    obtain b x where "concat cs = b @ [x]"
      using False by (cases "concat cs" rule: rev_exhaust) auto
    with Cons.prems(2) have b: "body = c @ b" "concat cs = b @ [newline]" by simp_all
    have "read_frame limit (received + int (length c)) (chunks @ c) (map IoBytes cs @ io) =
        (Inr ((chunks @ c) @ b @ [newline]), io)"
      using Cons.prems b by (intro Cons.IH) auto
    with read rem b Cons.prems(1,3) show ?thesis
      by (subst read_frame.simps) (simp add: Let_def)
  qed
qed simp

lemma read_frame_bound:
  assumes "read_frame limit received chunks io = (Inr frame, io')" "newline \<notin> set chunks"
    and "received = int (length chunks)"
  shows "int (length frame) \<le> limit \<and> (\<exists>body. frame = body @ [newline] \<and> newline \<notin> set body)"
  using assms
proof (induction limit received chunks io rule: read_frame.induct)
  case (1 limit received chunks io)
  let ?n = "min response_read_chunk_bytes (limit - received)"
  from "1.prems"(1) have rem: "0 < limit - received"
    by (subst (asm) read_frame.simps) (auto split: if_splits)
  from "1.prems"(1) rem obtain chunk io1 where read: "await_read ?n io = (Inr chunk, io1)"
    by (subst (asm) read_frame.simps) (auto simp: Let_def split: prod.splits sum.splits)
  then have len: "int (length chunk) \<le> limit - received"
    using await_read_nonempty_length [OF read] rem by linarith
  show ?case
  proof (cases "newline \<in> set chunk")
    case False
    have ne: "chunk \<noteq> []"
      using "1.prems"(1) rem read by (subst (asm) read_frame.simps) (auto simp: Let_def)
    have "read_frame limit (received + int (length chunk)) (chunks @ chunk) io1 = (Inr frame, io')"
      using "1.prems"(1) rem read ne False by (subst (asm) read_frame.simps) (auto simp: Let_def)
    then show ?thesis
      using rem read ne False "1.prems"(2,3) by (intro "1.IH") auto
  next
    case True
    then obtain ys zs where chunk: "chunk = ys @ newline # zs" and ys: "newline \<notin> set ys"
      by (meson split_list_first)
    then have "length ys < length chunk" by simp
    moreover have "takeWhile (\<lambda>c. c \<noteq> newline) chunk = ys"
      unfolding chunk using ys by (subst takeWhile_append2) auto
    moreover have "frame = chunks @ takeWhile (\<lambda>c. c \<noteq> newline) chunk @ [newline]"
      using "1.prems"(1) rem read True
      by (subst (asm) read_frame.simps) (auto simp: Let_def split: if_splits)
    ultimately show ?thesis using len "1.prems"(2,3) ys by auto
  qed
qed

section \<open>What an exchange leaves behind\<close>

text \<open>the lines written, the pinned epoch and the fixed attributes\<close>

definition wire_of :: "tcp \<Rightarrow> string list \<times> string \<times> bool" where
  "wire_of s = (tcp_written s, tcp_session s, tcp_closed s)"

definition env_error :: "exn \<Rightarrow> bool" where
  "env_error e \<longleftrightarrow> e \<in> {TimeoutError, ConnectionOSError, CancelledError False None}"

lemma await_io_Inl: "await_io scoped io = (Inl e, io') \<Longrightarrow> env_error e"
  by (induction scoped io rule: await_io.induct) (auto simp: env_error_def split: if_splits)

lemma await_io_unscoped: "await_io False io = (Inl e, io') \<Longrightarrow> e \<in> {ConnectionOSError, CancelledError False None}"
  by (cases "(False, io)" rule: await_io.cases) auto

lemma await_read_Inl: "await_read n io = (Inl e, io') \<Longrightarrow> env_error e"
  by (induction n io rule: await_read.induct) (auto simp: env_error_def split: if_splits)

definition own_error :: "exn \<Rightarrow> bool" where
  "own_error e \<longleftrightarrow> env_error e \<or> (\<exists>k. e = TransportError k False None \<and> k \<noteq> ServerEpochChanged)"

lemma read_frame_Inl: "read_frame limit received chunks io = (Inl e, io') \<Longrightarrow> own_error e"
proof (induction limit received chunks io rule: read_frame.induct)
  case (1 limit received chunks io)
  show ?case
  proof (cases "limit - received \<le> 0")
    case True
    with "1.prems" show ?thesis by (subst (asm) read_frame.simps) (auto simp: own_error_def)
  next
    case False
    obtain r io1 where read: "await_read (min response_read_chunk_bytes (limit - received)) io = (r, io1)"
      by fastforce
    show ?thesis
    proof (cases "\<exists>chunk. r = Inr chunk \<and> chunk \<noteq> [] \<and> newline \<notin> set chunk")
      case True
      then obtain chunk where chunk: "r = Inr chunk" "chunk \<noteq> []" "newline \<notin> set chunk" by blast
      with read False "1.prems"
      have "read_frame limit (received + int (length chunk)) (chunks @ chunk) io1 = (Inl e, io')"
        by (subst (asm) read_frame.simps) (auto simp: Let_def)
      with read False chunk show ?thesis by (intro "1.IH") auto
    next
      case no: False
      with read False "1.prems" await_read_Inl [of _ io] show ?thesis
        by (subst (asm) read_frame.simps)
          (auto simp: Let_def own_error_def split: sum.splits if_splits)
    qed
  qed
qed

lemma await_wp: "wp (await_p b) (\<lambda>_ t. wire_of t = wire_of s \<and> tcp_stream t = tcp_stream s)
    (\<lambda>e t. wire_of t = wire_of s \<and> tcp_stream t = tcp_stream s \<and> env_error e \<and> (e = TimeoutError \<longrightarrow> b)) s"
  using await_io_Inl [of b "tcp_script s"] await_io_unscoped [of "tcp_script s"]
  by (cases b) (auto simp: wp_def await_p_def wire_of_def split: prod.splits sum.splits)

lemma frame_wp: "wp read_response_frame (\<lambda>_ t. wire_of t = wire_of s \<and> tcp_stream t = tcp_stream s)
    (\<lambda>e t. wire_of t = wire_of s \<and> tcp_stream t = tcp_stream s \<and> own_error e) s"
  using read_frame_Inl [of "tcp_max_response s" 0 "[]" "tcp_script s"]
  by (auto simp: wp_def read_response_frame_def wire_of_def split: prod.splits sum.splits)

text \<open>\<open>_disconnect\<close> always drops the stream; it raises only when it is interrupted\<close>

lemma disconnect_wp: "wp (disconnect b) (\<lambda>_ t. wire_of t = wire_of s \<and> tcp_stream t = None)
    (\<lambda>e t. wire_of t = wire_of s \<and> tcp_stream t = None \<and>
       (e = CancelledError False None \<or> (b \<and> e = TimeoutError))) s"
proof -
  let ?s = "s\<lparr>tcp_stream := None\<rparr>"
  have "wire_of ?s = wire_of s" by (simp add: wire_of_def)
  then have "wp (try_p (await_p b) (\<lambda>e. if e = ConnectionOSError then ret_p () else raise_p e))
      (\<lambda>_ t. wire_of t = wire_of s \<and> tcp_stream t = None)
      (\<lambda>e t. wire_of t = wire_of s \<and> tcp_stream t = None \<and>
         (e = CancelledError False None \<or> (b \<and> e = TimeoutError))) ?s"
    unfolding wp_try by (intro wp_mono [OF await_wp]) (auto simp: wp_ret wp_raise env_error_def)
  with \<open>wire_of ?s = wire_of s\<close> show ?thesis
    unfolding disconnect_def wp_with wp_then wp_modify by (simp add: wp_ret)
qed

lemma assert_epoch_wp: "wp (assert_epoch a u r)
    (\<lambda>_ t. wire_of t = wire_of s \<and> tcp_stream t = tcp_stream s \<and> tcp_epoch t = Some a)
    (\<lambda>e t. t = s \<and> e = TransportError ServerEpochChanged u r) s"
  by (auto simp: assert_epoch_def py_simps wire_of_def split: option.split)

text \<open>the greeting line is the only other thing ever written\<close>

definition hello_line :: "codec \<Rightarrow> string \<Rightarrow> string" where
  "hello_line cx session =
     dumps cx (PDict [(''transport_operation'', PStr ''hello''),
                      (''schema_version'', PStr schema_version),
                      (''client_session_id'', PStr session)]) @ [newline]"

definition greeted :: "codec \<Rightarrow> tcp \<Rightarrow> tcp \<Rightarrow> bool" where
  "greeted cx s t \<longleftrightarrow> (\<exists>hs. hs \<in> {[], [hello_line cx (tcp_session s)]} \<and>
     wire_of t = (tcp_written s @ hs, tcp_session s, tcp_closed s))"

lemma greeted_same: "wire_of t' = wire_of t \<Longrightarrow> greeted cx s t \<Longrightarrow> greeted cx s t'"
  by (simp add: greeted_def)

definition connect_error :: "exn \<Rightarrow> bool" where
  "connect_error e \<longleftrightarrow> e = TimeoutError \<or> e = ConnectionOSError \<or> e = CancelledError False None \<or>
     (\<exists>k. e = TransportError k False None)"

lemma check_hello_Inl: "check_hello n v = Inl e \<Longrightarrow> e = plain_error"
  by (auto simp: check_hello_def split: option.splits pyval.splits if_splits)

lemma own_connect_error: "own_error e \<Longrightarrow> connect_error e"
  by (auto simp: own_error_def env_error_def connect_error_def)

lemma hello_wp:
  "wp (hello cx) (\<lambda>_ t. greeted cx s t \<and> tcp_stream t = tcp_stream s)
     (\<lambda>e t. greeted cx s t \<and> connect_error e) s"
proof -
  let ?line = "hello_line cx (tcp_session s)"
  let ?s = "s\<lparr>tcp_written := tcp_written s @ [?line]\<rparr>"
  have greeted: "greeted cx s ?s" by (simp add: greeted_def wire_of_def)
  have frame: "wp (bind_p read_response_frame (\<lambda>line.
      bind_p (lift_p (check_hello (tcp_session s) (loads cx line))) (\<lambda>epoch. assert_epoch epoch False None)))
     (\<lambda>_ t. greeted cx s t \<and> tcp_stream t = tcp_stream s) (\<lambda>e t. greeted cx s t \<and> connect_error e) t"
    if t: "greeted cx s t" "tcp_stream t = tcp_stream s" for t
    unfolding wp_bind
  proof (rule wp_mono [OF frame_wp])
    fix line u assume u: "wire_of u = wire_of t \<and> tcp_stream u = tcp_stream t"
    have "wp (assert_epoch epoch False None) (\<lambda>_ t. greeted cx s t \<and> tcp_stream t = tcp_stream s)
        (\<lambda>e t. greeted cx s t \<and> connect_error e) u" for epoch
      using u t by (intro wp_mono [OF assert_epoch_wp]) (auto simp: connect_error_def intro: greeted_same)
    then show "wp (lift_p (check_hello (tcp_session s) (loads cx line)))
       (\<lambda>x. wp (assert_epoch x False None) (\<lambda>_ t. greeted cx s t \<and> tcp_stream t = tcp_stream s)
          (\<lambda>e t. greeted cx s t \<and> connect_error e)) (\<lambda>e t. greeted cx s t \<and> connect_error e) u"
      using u t greeted_same check_hello_Inl [of "tcp_session s" "loads cx line"]
      by (auto simp: wp_lift connect_error_def plain_error_def split: sum.split)
  qed (use t in \<open>auto intro: greeted_same own_connect_error\<close>)
  have "wp (then_p (await_p True) (bind_p read_response_frame (\<lambda>line.
      bind_p (lift_p (check_hello (tcp_session s) (loads cx line))) (\<lambda>epoch. assert_epoch epoch False None))))
     (\<lambda>_ t. greeted cx s t \<and> tcp_stream t = tcp_stream s) (\<lambda>e t. greeted cx s t \<and> connect_error e) ?s"
    unfolding wp_then
    by (intro wp_mono [OF await_wp] frame)
      (auto intro: greeted_same [OF _ greeted] own_connect_error simp: own_error_def)
  then show ?thesis
    unfolding hello_def wp_with write_line_def by (simp add: wp_modify_then hello_line_def)
qed

lemma connect_error_wp:
  assumes "greeted cx s t" "connect_error e"
  shows "wp (on_connect_error b e) (\<lambda>_ _. False) (\<lambda>e t. greeted cx s t \<and> connect_error e) t"
proof -
  have "wp (disconnect b) (\<lambda>_. greeted cx s) (\<lambda>e t. greeted cx s t \<and> connect_error e) t"
    using assms(1) by (intro wp_mono [OF disconnect_wp]) (auto simp: connect_error_def intro: greeted_same)
  then have "wp (then_p (disconnect b) (raise_p e')) (\<lambda>_ _. False) (\<lambda>e t. greeted cx s t \<and> connect_error e) t"
    if "connect_error e'" for e'
    unfolding wp_then wp_raise by (rule wp_mono) (use that in auto)
  moreover have "connect_error plain_error" by (simp add: connect_error_def plain_error_def)
  ultimately show ?thesis
    using assms by (auto simp: on_connect_error_def wp_raise)
qed

lemma connect_wp:
  "wp (connect cx b) (\<lambda>_ t. greeted cx s t \<and> is_alive t) (\<lambda>e t. greeted cx s t \<and> connect_error e) s"
proof (cases "tcp_closed s \<or> is_alive s")
  case True
  then show ?thesis
    by (auto simp: connect_def wp_with wp_raise wp_ret greeted_def wire_of_def connect_error_def is_alive_def)
next
  case False
  have "wp (then_p (await_p True) (then_p (modify_p (\<lambda>s. s\<lparr>tcp_stream := Some False\<rparr>)) (hello cx)))
      (\<lambda>_ t. greeted cx s t \<and> tcp_stream t = Some False) (\<lambda>e t. greeted cx s t \<and> connect_error e) s"
    unfolding wp_then wp_modify
  proof (rule wp_mono [OF await_wp])
    fix t assume t: "wire_of t = wire_of s \<and> tcp_stream t = tcp_stream s"
    then have "greeted cx s u" if "greeted cx (t\<lparr>tcp_stream := Some False\<rparr>) u" for u
      using that by (simp add: greeted_def wire_of_def)
    then show "wp (hello cx) (\<lambda>_ t. greeted cx s t \<and> tcp_stream t = Some False)
        (\<lambda>e t. greeted cx s t \<and> connect_error e) (t\<lparr>tcp_stream := Some False\<rparr>)"
      by (intro wp_mono [OF hello_wp]) auto
  qed (auto simp: greeted_def wire_of_def intro: own_connect_error simp: own_error_def)
  then have "wp (try_p (then_p (await_p True) (then_p (modify_p (\<lambda>s. s\<lparr>tcp_stream := Some False\<rparr>)) (hello cx)))
      (on_connect_error b)) (\<lambda>_ t. greeted cx s t \<and> is_alive t) (\<lambda>e t. greeted cx s t \<and> connect_error e) s"
    unfolding wp_try
    by (rule wp_mono)
      (use False in \<open>auto simp: is_alive_def greeted_def wire_of_def intro!: wp_mono [OF connect_error_wp]\<close>)
  with False show ?thesis by (simp add: connect_def wp_with)
qed

text \<open>
  \<open>settled cx s m e t\<close>: the exception of an exchange says exactly what may have happened.  Marked
  uncertain, the request line is the last one written, the exception carries its replay token and
  the stream is dropped (after a changed epoch the session ends instead); not marked, either
  the line was never written or the server answered with a transport error.
\<close>

definition request_line :: "codec \<Rightarrow> pydict \<Rightarrow> string" where
  "request_line cx m = dumps cx (PDict m) @ [newline]"

definition requested :: "codec \<Rightarrow> tcp \<Rightarrow> pydict \<Rightarrow> tcp \<Rightarrow> bool" where
  "requested cx s m t \<longleftrightarrow> (\<exists>hs. hs \<in> {[], [hello_line cx (tcp_session s)]} \<and>
     wire_of t = (tcp_written s @ hs @ [request_line cx m], tcp_session s, tcp_closed s))"

definition uncertain_error :: "retry_request \<Rightarrow> exn \<Rightarrow> bool" where
  "uncertain_error token e \<longleftrightarrow>
     (\<exists>k. e = TransportError k True (Some token)) \<or> e = CancelledError True (Some token)"

definition settled :: "codec \<Rightarrow> tcp \<Rightarrow> pydict \<Rightarrow> exn \<Rightarrow> tcp \<Rightarrow> bool" where
  "settled cx s m e t \<longleftrightarrow>
     (requested cx s m t \<and> uncertain_error (from_message m) e \<and>
        (tcp_stream t = None \<or> e = TransportError ServerEpochChanged True (Some (from_message m)))) \<or>
     (requested cx s m t \<and> e = plain_error \<and>
        (\<exists>line r. loads cx line = Some (PDict r) \<and> dget r ''transport_error'' \<noteq> PNone)) \<or>
     (greeted cx s t \<and> \<not> completion_uncertain e \<and> exn_retry_request e = None)"

lemma requested_same: "wire_of t' = wire_of t \<Longrightarrow> requested cx s m t \<Longrightarrow> requested cx s m t'"
  by (simp add: requested_def)

text \<open>raising after the line was written, through \<open>_disconnect\<close>\<close>

definition dropped :: "codec \<Rightarrow> tcp \<Rightarrow> pydict \<Rightarrow> exn \<Rightarrow> tcp \<Rightarrow> bool" where
  "dropped cx s m e t \<longleftrightarrow> requested cx s m t \<and>
     (e = CancelledError False None \<or>
      (uncertain_error (from_message m) e \<and>
         (tcp_stream t = None \<or> e = TransportError ServerEpochChanged True (Some (from_message m)))) \<or>
      (e = plain_error \<and> (\<exists>line r. loads cx line = Some (PDict r) \<and> dget r ''transport_error'' \<noteq> PNone)))"

lemma leave_wp:
  assumes "requested cx s m t"
    and "uncertain_error (from_message m) e \<or>
      (e = plain_error \<and> (\<exists>line r. loads cx line = Some (PDict r) \<and> dget r ''transport_error'' \<noteq> PNone))"
  shows "wp (then_p (disconnect False) (raise_p e)) (\<lambda>_. Q) (dropped cx s m) t"
  unfolding wp_then wp_raise using assms
  by (intro wp_mono [OF disconnect_wp]) (auto simp: dropped_def intro: requested_same)

lemma request_error_wp:
  assumes "requested cx s m t" "own_error e"
  shows "wp (on_request_error True (from_message m) e) (\<lambda>_. Q) (dropped cx s m) t"
proof -
  have leave: "wp (then_p (disconnect False) (raise_p (TransportError k True (Some (from_message m)))))
      (\<lambda>_. Q) (dropped cx s m) t" for k
    using assms(1) by (intro leave_wp) (simp_all add: uncertain_error_def)
  show ?thesis
    using assms leave
    by (auto simp: own_error_def env_error_def on_request_error_def Let_def wp_raise dropped_def)
qed

lemma decode_wp:
  assumes "requested cx s m t"
  shows "wp (decode_response cx line (from_message m)) (\<lambda>_ u. u = t) (dropped cx s m) t"
proof -
  have "wp (then_p (disconnect False) (raise_p (TransportError TransportPlain True (Some (from_message m)))))
      (\<lambda>_ u. u = t) (dropped cx s m) t"
    using assms by (intro leave_wp) (simp_all add: uncertain_error_def)
  moreover have "wp (then_p (disconnect False) (raise_p plain_error)) (\<lambda>_ u. u = t) (dropped cx s m) t"
    if "loads cx line = Some (PDict r)" "dget r ''transport_error'' \<noteq> PNone" for r
    using assms that by (intro leave_wp) auto
  ultimately show ?thesis
    by (auto simp: decode_response_def wp_ret split: option.split pyval.split)
qed

text \<open>a returned response carries the epoch the connection is pinned to\<close>

definition answered :: "codec \<Rightarrow> tcp \<Rightarrow> pydict \<Rightarrow> pyval \<Rightarrow> tcp \<Rightarrow> bool" where
  "answered cx s m v u \<longleftrightarrow> requested cx s m u \<and>
     (\<exists>r ep. v = PDict r \<and> dget r ''server_epoch'' = PStr ep \<and> tcp_epoch u = Some ep)"

lemma send_and_receive_wp:
  assumes s: "greeted cx s t"
  shows "wp (send_and_receive cx (request_line cx m) (from_message m))
    (answered cx s m) (dropped cx s m) t"
proof -
  let ?Q = "answered cx s m"
  let ?t = "t\<lparr>tcp_written := tcp_written t @ [request_line cx m]\<rparr>"
  have t: "requested cx s m ?t"
    using s by (auto simp: requested_def greeted_def wire_of_def)
  have req: "requested cx s m u" if "wire_of u = wire_of ?t" for u
    using t that by (rule requested_same [rotated])
  have line: "wp (try_p (then_p (write_line (request_line cx m)) (then_p (await_p True) read_response_frame))
      (on_request_error True (from_message m))) (\<lambda>_. requested cx s m) (dropped cx s m) t"
    unfolding wp_try write_line_def wp_modify_then unfolding wp_then
    by (intro wp_mono [OF await_wp] wp_mono [OF frame_wp])
      (auto intro!: request_error_wp req simp: own_error_def)
  have epoch: "wp (then_p (assert_epoch ep True (Some (from_message m))) (ret_p (PDict r))) ?Q (dropped cx s m) u"
    if "requested cx s m u" "dget r ''server_epoch'' = PStr ep" for ep r u
    unfolding wp_then wp_ret
    by (rule wp_mono [OF assert_epoch_wp])
      (use that in \<open>auto simp: dropped_def answered_def uncertain_error_def intro: requested_same\<close>)
  have missing: "wp (then_p (disconnect False) (raise_p (TransportError TransportPlain True (Some (from_message m)))))
      ?Q (dropped cx s m) u" if "requested cx s m u" for u
    unfolding wp_then wp_raise using that
    by (intro wp_mono [OF disconnect_wp]) (auto simp: dropped_def uncertain_error_def intro: requested_same)
  show ?thesis
    unfolding send_and_receive_def wp_bind
  proof (rule wp_mono [OF line])
    fix line u assume u: "requested cx s m u"
    show "wp (decode_response cx line (from_message m)) (\<lambda>r. wp (case dget r ''server_epoch'' of
       PStr epoch \<Rightarrow>
         if epoch = []
         then then_p (disconnect False) (raise_p (TransportError TransportPlain True (Some (from_message m))))
         else then_p (assert_epoch epoch True (Some (from_message m))) (ret_p (PDict r))
     | _ \<Rightarrow> then_p (disconnect False) (raise_p (TransportError TransportPlain True (Some (from_message m)))))
      ?Q (dropped cx s m)) (dropped cx s m) u"
      by (rule wp_mono [OF decode_wp [OF u]])
        (use u in \<open>auto intro: epoch missing split: pyval.split\<close>)
  qed
qed

lemma cancelled_sent_wp:
  assumes "dropped cx s m e t"
  shows "wp (on_cancelled True (from_message m) e) Q (settled cx s m) t"
proof (cases "e = CancelledError False None \<or> (\<exists>u r. e = CancelledError u r)")
  case True
  then obtain u r where e: "e = CancelledError u r" by blast
  have t: "requested cx s m t" using assms by (simp add: dropped_def)
  let ?h = "\<lambda>e. case e of CancelledError _ _ \<Rightarrow> ret_p () | _ \<Rightarrow> raise_p e"
  have "wp (try_p (disconnect False) ?h) (\<lambda>_ u. requested cx s m u \<and> tcp_stream u = None) (\<lambda>_ _. False) t"
    unfolding wp_try using t
    by (intro wp_mono [OF disconnect_wp]) (auto simp: wp_ret intro: requested_same)
  then have "wp (then_p (try_p (disconnect False) ?h) (raise_p (CancelledError True (Some (from_message m)))))
      Q (settled cx s m) t"
    unfolding wp_then wp_raise by (rule wp_mono) (simp_all add: settled_def uncertain_error_def)
  then show ?thesis by (simp add: on_cancelled_def e)
next
  case False
  with assms have "settled cx s m e t" by (auto simp: dropped_def settled_def)
  with False show ?thesis by (cases e) (simp_all add: on_cancelled_def wp_raise)
qed

lemma not_sent_wp:
  assumes "greeted cx s t" "connect_error e"
  shows "wp (on_request_error False token e) Q (\<lambda>e t. greeted cx s t \<and> (connect_error e)) t"
  using assms
  by (auto simp: connect_error_def on_request_error_def Let_def wp_raise wp_then wp_ret)

lemma cancelled_unsent_wp:
  assumes "greeted cx s t" "connect_error e"
  shows "wp (on_cancelled False token e) Q (settled cx s m) t"
  using assms
  by (auto simp: connect_error_def on_cancelled_def wp_raise wp_then wp_ret settled_def)

lemma exchange_wp:
  "wp (exchange cx m timeout_s deadline)
     (\<lambda>v u. answered cx s m v u) (settled cx s m) s"
proof -
  have refl: "greeted cx s s" by (simp add: greeted_def wire_of_def)
  have body: "wp (try_else (try_p (then_p (await_p True) (connect cx True)) (on_request_error False (from_message m)))
      (\<lambda>_. try_p (send_and_receive cx (request_line cx m) (from_message m)) (on_cancelled True (from_message m)))
      (on_cancelled False (from_message m))) (\<lambda>v u. answered cx s m v u) (settled cx s m) t"
    if t: "greeted cx s t" "wire_of t = wire_of s" for t
  proof -
    have "greeted cx s u" if "wire_of v = wire_of t" "greeted cx v u" for u v
      using that t by (simp add: greeted_def wire_of_def)
    then have "wp (then_p (await_p True) (connect cx True)) (\<lambda>_ u. greeted cx s u)
        (\<lambda>e u. greeted cx s u \<and> connect_error e) t"
      unfolding wp_then using t
      by (intro wp_mono [OF await_wp] wp_mono [OF connect_wp])
        (auto intro: greeted_same [OF _ refl] own_connect_error simp: own_error_def)
    then have "wp (try_p (then_p (await_p True) (connect cx True)) (on_request_error False (from_message m)))
        (\<lambda>_ u. greeted cx s u) (\<lambda>e u. greeted cx s u \<and> connect_error e) t"
      unfolding wp_try by (rule wp_mono) (auto intro: not_sent_wp)
    then show ?thesis
      unfolding wp_try_else
      by (rule wp_mono)
        (auto simp: wp_try intro!: wp_mono [OF send_and_receive_wp] cancelled_sent_wp cancelled_unsent_wp)
  qed
  have same: "tcp_session t = tcp_session s" "tcp_max_message t = tcp_max_message s"
    "greeted cx s t" if "t = s \<or> (\<exists>ts. t = s\<lparr>tcp_clock := ts\<rparr>)" for t
    using that by (auto simp: greeted_def wire_of_def)
  have "wp (resolve_deadline timeout_s deadline)
      (\<lambda>_ t. greeted cx s t \<and> wire_of t = wire_of s) (\<lambda>e t. e = ValueError \<and> greeted cx s t) s"
    by (auto simp: resolve_deadline_def py_simps greeted_def wire_of_def split: option.split list.split)
  then show ?thesis
    unfolding exchange_def wp_then [of "resolve_deadline _ _"]
    by (rule wp_mono)
      (auto simp: wp_with Let_def wp_raise settled_def plain_error_def
        intro: body [unfolded request_line_def])
qed

section \<open>The interface the client relies on\<close>

interpretation tcp: replay_connection "tcp_ops cx" for cx
proof
  fix m d c e c'
  assume "op_exchange (tcp_ops cx) m d c = (Inl e, c')" and e: "completion_uncertain e"
  then have "settled cx c m e c'"
    using wpD_Inl [OF exchange_wp [of cx m None "Some d" c]] by (simp add: tcp_ops_def)
  with e show "exn_retry_request e = None \<or> exn_retry_request e = Some (from_message m)"
    by (auto simp: settled_def uncertain_error_def plain_error_def)
qed

lemma decode_parsed:
  "decode_response cx line token s = (Inr r, t) \<Longrightarrow> loads cx line = Some (PDict r)"
  by (auto simp: decode_response_def then_p_def bind_p_def raise_p_def ret_p_def
      split: option.splits pyval.splits if_splits prod.splits sum.splits)

text \<open>what \<open>exchange\<close> returns is a value the codec parsed\<close>

lemma exchange_parsed:
  assumes "exchange cx m timeout_s deadline s = (Inr v, t)"
  shows "\<exists>line. loads cx line = Some v"
proof -
  let ?P = "\<lambda>v. \<exists>line. loads cx line = Some v"
  have "returns ?P (case dget r ''server_epoch'' of
       PStr epoch \<Rightarrow>
         if epoch = []
         then then_p (disconnect False) (raise_p (TransportError TransportPlain True (Some token)))
         else then_p (assert_epoch epoch True (Some token)) (ret_p (PDict r))
     | _ \<Rightarrow> then_p (disconnect False) (raise_p (TransportError TransportPlain True (Some token))))"
    if "loads cx line = Some (PDict r)" for r line token
    using that by (auto split: pyval.split intro!: returns_intro)
  then have "returns ?P (send_and_receive cx encoded token)" for encoded token
    unfolding send_and_receive_def
    by (intro returns_bind returns_bind_dep) (blast dest: decode_parsed)
  then have "returns ?P (exchange cx m timeout_s deadline)"
    unfolding exchange_def Let_def
    by (auto intro!: returns_then returns_with returns_if returns_raise returns_try_else returns_try
        simp: on_cancelled_def split: exn.split)
  then show ?thesis using assms by (rule returnsD)
qed

text \<open>every value the codec can read is a well-shaped response\<close>

definition shaped_codec :: "codec \<Rightarrow> bool" where
  "shaped_codec cx \<longleftrightarrow> (\<forall>line v. loads cx line = Some v \<longrightarrow> well_shaped v)"

lemma well_shaped_tcp: "shaped_codec cx \<Longrightarrow> well_shaped_server (tcp_ops cx)"
  using exchange_parsed unfolding well_shaped_server_def shaped_codec_def
  by (fastforce simp: tcp_ops_def)

section \<open>Properties\<close>

text \<open>A response frame is read exactly, whatever chunks its bytes arrive in, as long as its body is shorter
  than the response limit; the bytes that arrive later stay unread.\<close>

theorem frame_read_exactly:
  assumes "list_all (\<lambda>c. c \<noteq> [] \<and> int (length c) \<le> response_read_chunk_bytes) cs"
    and "concat cs = body @ [newline]" "newline \<notin> set body"
    and "int (length body) < limit"
  shows "read_frame limit 0 [] (map IoBytes cs @ io) = (Inr (body @ [newline]), io)"
  using read_frame_chunks [OF assms(1-3), of 0 limit "[]" io] assms(4) by simp

theorem frame_read_exactly_witness:
  "read_frame 10 0 [] (map IoBytes [''{'', ''}'' @ [newline]] @ [IoDone]) = (Inr (''{}'' @ [newline]), [IoDone])"
  using frame_read_exactly [of "[''{'', ''}'' @ [newline]]" "''{}''" 10 "[IoDone]"]
  by (simp add: response_read_chunk_bytes_def newline_def)

text \<open>A frame that is returned ends in its only newline and is never longer than the response limit.\<close>

theorem frame_within_limit:
  assumes "read_frame limit 0 [] io = (Inr frame, io')"
  shows "int (length frame) \<le> limit \<and> (\<exists>body. frame = body @ [newline] \<and> newline \<notin> set body)"
  using read_frame_bound [OF assms] by simp

theorem frame_within_limit_witness:
  "\<exists>frame. read_frame 3 0 [] [IoBytes (''{}'' @ [newline])] = (Inr frame, []) \<and> int (length frame) \<le> 3"
proof -
  have "read_frame 3 0 [] [IoBytes (''{}'' @ [newline])] = (Inr (''{}'' @ [newline]), [])"
    by code_simp
  from this frame_within_limit [OF this] show ?thesis by blast
qed

text \<open>Once \<open>close\<close> has run, no exchange writes a line: it raises and what was written stays.\<close>

theorem closed_connection_is_silent:
  assumes "tcp_closed s"
  shows "isl (fst (exchange cx m timeout_s deadline s)) \<and>
    tcp_written (snd (exchange cx m timeout_s deadline s)) = tcp_written s"
proof -
  let ?I = "\<lambda>t. tcp_closed t \<and> tcp_written t = tcp_written s"
  have connect: "wp (then_p (await_p True) (connect cx True)) (\<lambda>_ _. False) (\<lambda>_. ?I) t" if "?I t" for t
    unfolding wp_then using that
    by (intro wp_mono [OF await_wp]) (auto simp: connect_def wp_with wp_raise wire_of_def)
  have silent: "wp (try_else (try_p (then_p (await_p True) (connect cx True)) (on_request_error False token))
      f (on_cancelled False token)) (\<lambda>_ _. False) (\<lambda>_. ?I) t" if "?I t" for t token and f :: "unit \<Rightarrow> (tcp, exn, pyval) py"
    unfolding wp_try_else wp_try using connect [OF that]
    by (rule wp_mono)
      (auto simp: on_request_error_def on_cancelled_def Let_def wp_raise wp_then wp_ret split: exn.split)
  have "wp (exchange cx m timeout_s deadline) (\<lambda>_ _. False) (\<lambda>_. ?I) s"
    using assms silent unfolding exchange_def resolve_deadline_def
    by (auto simp: wp_then wp_with wp_ret wp_raise wp_modify Let_def split: option.split list.split)
  then show ?thesis
    by (cases "exchange cx m timeout_s deadline s") (auto simp: wp_def split: sum.splits)
qed

theorem closed_connection_is_silent_witness:
  "isl (fst (exchange \<lparr>dumps = (\<lambda>_. []), loads = (\<lambda>_. None)\<rparr> [] None (Some 1)
     \<lparr>tcp_session = ''s'', tcp_max_message = 9, tcp_max_response = 9, tcp_stream = None, tcp_closed = True,
      tcp_epoch = None, tcp_script = [], tcp_written = [], tcp_clock = [], tcp_locks = []\<rparr>))"
  using closed_connection_is_silent [of "\<lparr>tcp_session = ''s'', tcp_max_message = 9, tcp_max_response = 9,
      tcp_stream = None, tcp_closed = True, tcp_epoch = None, tcp_script = [], tcp_written = [],
      tcp_clock = [], tcp_locks = []\<rparr>"]
  by simp

end
