(* ===== verification/Search_Session.thy ===== *)
theory Search_Session
  imports Beam_Guarantees Tcp_Connection
begin

text \<open>
  The beam search on the asynchronous API client: the world of a search is the client of
  \<open>api/async_client.py\<close> with its connection, beside the clock and the models \<open>'x\<close>.  Every call of a
  search is a call of the client, so a search is a piece of a session and the properties of sessions
  hold through it.
\<close>

section \<open>The client of a search\<close>

definition on_client :: "('c, exn, 'a) py \<Rightarrow> ('c \<times> 'x, exn, 'a) py" where
  "on_client m = (\<lambda>(c, x). case m c of (r, c') \<Rightarrow> (r, (c', x)))"

definition on_models :: "('x, exn, 'a) py \<Rightarrow> ('c \<times> 'x, exn, 'a) py" where
  "on_models m = (\<lambda>(c, x). case m x of (r, x') \<Rightarrow> (r, (c, x')))"

definition api_client :: "'c conn_ops \<Rightarrow> ('x \<Rightarrow> rat \<times> 'x) \<Rightarrow> ('c client \<times> 'x) search_client" where
  "api_client ops tick =
     \<lparr>sc_now = (\<lambda>(c, x). case tick x of (t, x') \<Rightarrow> (t, (c, x'))),
      sc_emulate_actions = (\<lambda>inst items t opts.
        on_client (emulate_actions ops (PStr inst) (PList (map PDict items)) t opts)),
      sc_cancel_branches = (\<lambda>inst bs t. on_client (cancel_branches ops (PStr inst) (PList (map PStr bs)) t)),
      sc_release_branches = (\<lambda>inst bs t. on_client (release_branches ops (PStr inst) (PList (map PStr bs)) t)),
      sc_instance_type = (\<lambda>(c, x). instance_type c),
      sc_max_items = (\<lambda>(c, x). of_opt_int (max_emulate_actions_items c)),
      sc_pending_retry = (\<lambda>(c, x). pending_retry c \<noteq> None),
      sc_session_invalid = (\<lambda>(c, x). session_invalid c)\<rparr>"

definition models_policy :: "'x policy_model \<Rightarrow> ('c \<times> 'x) policy_model" where
  "models_policy p =
     \<lparr>propose = (\<lambda>actions dto k. on_models (propose p actions dto k)),
      propose_batch = (\<lambda>requests k. on_models (propose_batch p requests k))\<rparr>"

fun session_policy :: "'x policy \<Rightarrow> ('c \<times> 'x) policy" where
  "session_policy (PlainPolicy p) = PlainPolicy (models_policy p)"
| "session_policy (CoverageConstrained p) = CoverageConstrained (models_policy p)"

text \<open>an engine whose models live in \<open>'x\<close>, on the client; the client of \<open>en\<close> gives the clock only\<close>

definition session_engine :: "'c conn_ops \<Rightarrow> 'x beam_engine \<Rightarrow> ('c client \<times> 'x) beam_engine" where
  "session_engine ops en =
     \<lparr>be_client = api_client ops (sc_now (be_client en)), be_policy = session_policy (be_policy en),
      be_evaluate_batch = (\<lambda>dtos. on_models (be_evaluate_batch en dtos)),
      be_select = (\<lambda>views k ctx. on_models (be_select en views k ctx)),
      be_config = be_config en, be_prefix = be_prefix en\<rparr>"

lemma session_engine_simps [simp]:
  "be_client (session_engine ops en) = api_client ops (sc_now (be_client en))"
  "be_config (session_engine ops en) = be_config en" "be_prefix (session_engine ops en) = be_prefix en"
  by (simp_all add: session_engine_def)

section \<open>A search is part of a session\<close>

lemma keeps_models [keeps_intro]: "keeps (\<lambda>w. P (fst w)) (on_models m)"
  by (auto simp: keeps_def on_models_def split: prod.splits)

lemma keeps_session_policy:
  "keeps (\<lambda>w. P (fst w)) (propose_batch_with_provenance (session_policy pol) requests k)"
proof (cases pol)
  case (PlainPolicy p)
  then show ?thesis by (auto simp: models_policy_def intro!: keeps_intro)
next
  case (CoverageConstrained p)
  then show ?thesis
    by (auto simp: models_policy_def coverage_propose_batch_with_provenance_def intro!: keeps_intro)
qed

lemma fst_on_client: "fst (snd (on_client m w)) = snd (m (fst w))"
  by (simp add: on_client_def split: prod.splits)

lemma client_calls:
  "snd (emulate_actions ops inst items t opts c) = snd (run_call ops t (Emulate_Actions inst items opts) c)"
  "snd (cancel_branches ops inst bs t c) = snd (run_call ops t (Cancel_Branches inst bs) c)"
  "snd (release_branches ops inst bs t c) = snd (run_call ops t (Release_Branches inst bs) c)"
  by simp_all

interpretation session: search_world "session_engine (record_ops ops) en" "\<lambda>_ w. session_reach ops sid logger (fst w)"
  for ops :: "'c conn_ops" and en :: "'x beam_engine" and sid logger
proof unfold_locales
  fix w :: "'c wire client \<times> 'x" and ids inst items t opts
  assume "session_reach ops sid logger (fst w)"
  then have "session_reach ops sid logger (fst (snd (sc_emulate_actions (be_client (session_engine (record_ops ops) en)) inst items t opts w)))"
    by (simp add: api_client_def fst_on_client client_calls reach_run_call del: run_call.simps)
  then show "wp (sc_emulate_actions (be_client (session_engine (record_ops ops) en)) inst items t opts)
      (\<lambda>_ w. session_reach ops sid logger (fst w)) (\<lambda>_ w. session_reach ops sid logger (fst w)) w"
    by (intro wpI) simp_all
qed (auto simp: api_client_def fst_on_client client_calls reach_run_call session_engine_def keeps_models
    keeps_session_policy simp del: run_call.simps split: prod.splits)

section \<open>The batches of a search pass the client's checks\<close>

lemma own_id_nonempty: "own_id p lo hi b \<Longrightarrow> b \<noteq> [] \<and> b \<noteq> root_branch_id"
  using own_id_not_root [of p lo hi] by (auto simp: own_id_def branch_id_of_def root_branch_id_def)

lemma normalize_branch_item:
  assumes "item_ok p c hi item" "dget item ''branch_id'' \<notin> set seen"
  shows "normalize_item seen (PDict item) = Inr item"
proof -
  from assms(1) obtain parent branch rng dp aid where item: "item = branch_item parent branch rng dp aid"
    and ids: "parent = search_root_id \<or> own_id p 0 c parent" "own_id p c hi branch"
    and rest: "0 < rng" "dp \<noteq> []" "aid \<noteq> []"
    unfolding item_ok_def by blast
  have "parent \<noteq> []" using ids(1) own_id_nonempty by (auto simp: search_root_id_def)
  with own_id_nonempty [OF ids(2)] rest assms(2) item show ?thesis
    by (simp add: normalize_item_def ditem_def branch_item_def validate_rng_id_def validate_non_empty_str_def)
qed

lemma normalize_batch:
  assumes "\<forall>item \<in> set items. item_ok p c hi item" "distinct (map (\<lambda>item. dget item ''branch_id'') items)"
    and "set seen \<inter> (\<lambda>item. dget item ''branch_id'') ` set items = {}"
  shows "normalize_items seen (map PDict items) = Inr items"
  using assms
proof (induction items arbitrary: seen)
  case (Cons item items)
  have "normalize_item seen (PDict item) = Inr item"
    using Cons.prems by (intro normalize_branch_item) auto
  moreover have "normalize_items (dget item ''branch_id'' # seen) (map PDict items) = Inr items"
    using Cons.prems by (intro Cons.IH) auto
  ultimately show ?case by simp
qed simp

lemma batch_parents:
  assumes "\<forall>item \<in> set items. item_ok p c hi item" "item \<in> set items" "item' \<in> set items"
  shows "dget item ''parent_branch_id'' \<noteq> dget item' ''branch_id''"
proof -
  from assms obtain parent branch rng dp aid where "item = branch_item parent branch rng dp aid"
    "parent = search_root_id \<or> own_id p 0 c parent"
    unfolding item_ok_def by blast
  moreover from assms obtain parent' branch' rng' dp' aid' where "item' = branch_item parent' branch' rng' dp' aid'"
    "own_id p c hi branch'"
    unfolding item_ok_def by blast
  ultimately show ?thesis by (auto simp: branch_item_def dest: own_id_disjoint)
qed

text \<open>What a search sends passes every check of the client: a batch in the sense of the search's
  contract (see \<open>call_ok\<close>) that is not longer than the server's limit is built into a
  request that carries its items unchanged, so no local \<open>ValueError\<close> or \<open>TypeError\<close> ends a search,
  given the client's own instance, simulation options it accepts and a positive sequence number.\<close>

theorem search_batch_is_accepted:
  assumes "batch_ok prefix ids items" "validate_instance_id c inst = Inr ()"
    and "\<forall>m. max_emulate_actions_items c = Some m \<longrightarrow> int (length items) \<le> m"
    and "simulation_fields opts = Inr sim" "0 < seq"
  shows "\<exists>m. build_emulate_actions c seq inst (PList (map PDict items)) opts = Inr m \<and>
    dget m ''items'' = PList (map PDict items) \<and> dget m ''instance_id'' = inst"
proof -
  from assms(1) obtain cc hi where items: "\<forall>item \<in> set items. item_ok prefix cc hi item"
    and dist: "distinct (map (\<lambda>item. dget item ''branch_id'') items)" and ne: "items \<noteq> []"
    unfolding batch_ok_def by blast
  have "normalize_items [] (map PDict items) = Inr items"
    by (rule normalize_batch [OF items dist]) simp
  moreover have "\<not> (\<exists>d \<in> set items. dget d ''parent_branch_id'' \<in> (\<lambda>e. dget e ''branch_id'') ` set items)"
    using batch_parents [OF items] by blast
  moreover have "\<not> (case max_emulate_actions_items c of None \<Rightarrow> False | Some m \<Rightarrow> m < int (length (map PDict items)))"
    using assms(3) by (auto split: option.split)
  ultimately show ?thesis
    using assms(2,4,5) ne by (simp add: build_emulate_actions_def new_request_def)
qed

definition demo_session_client :: "unit client" where
  "demo_session_client =
     \<lparr>session_id = ''s'', audit_state = audit_init False, instance_id = Some ''i'', instance_type = None,
      pending_start_instance_type = None, max_emulate_actions_items = Some 1, connection = (),
      next_request_seq = 2, pending_retry = None, session_invalid = False,
      emulate_actions_boundaries = {}, pending_retry_cleanup = None\<rparr>"

lemma demo_batch_ok: "batch_ok ''x'' [] [branch_item search_root_id (branch_id_of ''x'' 1) 1 ''d'' ''e'']"
proof -
  have "own_id ''x'' 0 1 (branch_id_of ''x'' 1)" using own_id_new [of 0 0 "''x''"] by simp
  then have "item_ok ''x'' 0 1 (branch_item search_root_id (branch_id_of ''x'' 1) 1 ''d'' ''e'')"
    by (intro item_okI [OF refl]) simp_all
  then have "\<exists>c hi. \<forall>item \<in> set [branch_item search_root_id (branch_id_of ''x'' 1) 1 ''d'' ''e'']. item_ok ''x'' c hi item"
    by auto
  then show ?thesis by (simp add: batch_ok_def)
qed

theorem search_batch_is_accepted_witness:
  "\<exists>m. build_emulate_actions demo_session_client 2 (PStr ''i'')
      (PList [PDict (branch_item search_root_id (branch_id_of ''x'' 1) 1 ''d'' ''e'')]) PNone = Inr m \<and>
    dget m ''instance_id'' = PStr ''i''"
  using search_batch_is_accepted [OF demo_batch_ok, of demo_session_client "PStr ''i''" PNone "[]" 2]
  by (auto simp: demo_session_client_def validate_instance_id_def simulation_fields_def validate_non_empty_str_def)

section \<open>A batch that is not sliced\<close>

text \<open>a call the client refuses before anything is sent\<close>

lemma too_long_batch:
  assumes "0 < t" "\<forall>d c. fst (op_lock ops d c) = LockAcquired"
    and "pending_retry c = None" "\<not> session_invalid c" "validate_instance_id c inst = Inr ()"
    and "max_emulate_actions_items c = Some m" "m < int (length items)" "items \<noteq> []"
  shows "fst (emulate_actions ops inst (PList items) t opts c) = Inl ValueError"
proof -
  obtain now c' where now: "op_time ops (connection c) = (now, c')" by fastforce
  obtain c'' where lock: "op_lock ops (now + t) c' = (LockAcquired, c'')"
    using assms(2) by (metis prod.collapse)
  have inst: "validate_instance_id (c\<lparr>connection := x\<rparr>) inst = Inr ()" for x
    using assms(5) by (simp add: validate_instance_id_def)
  show ?thesis
    using assms(1,3,4,6-8) inst
    by (simp add: emulate_actions_def operation_deadline_def bind_p_def conn_p_def then_p_def with_p_def lift_p_def
        ret_p_def ensure_fresh_request_allowed_def build_emulate_actions_def now lock)
qed

lemma align_items_wp:
  "wp (collect_p (align_item en) xs) (\<lambda>ws t. length ws = length xs \<and> se_world t = se_world s) (\<lambda>_ _. False) s"
proof (induction xs arbitrary: s)
  case Nil
  show ?case by (simp add: wp_ret)
next
  case (Cons x xs)
  have "wp (collect_p (align_item en) xs) (\<lambda>ys. wp (ret_p (y # ys))
      (\<lambda>ws t. length ws = length (x # xs) \<and> se_world t = se_world s) (\<lambda>_ _. False)) (\<lambda>_ _. False)
      (s\<lparr>se_branch_counter := k\<rparr>)" for y k
    by (rule wp_mono [OF Cons.IH]) (auto simp: wp_ret)
  then show ?case
    by (cases x) (simp add: align_item_def wp_bind wp_next_branch_id wp_ret)
qed

text \<open>C39: The leaves aligned at the end of a search go out in one batch, whatever the batch size and the
  server's limit: with more lagging leaves than the server accepts, the client refuses the batch with
  a \<open>ValueError\<close>, which the handler of the alignment does not catch, so the exception leaves the
  search instead of leaving the scores as they were.\<close>

theorem aligned_leaves_ignore_the_limit:
  assumes "max_emulate_actions_items (fst (se_world s)) = Some m"
    and "0 < m" "m < int (length (lagging_leaves nodes))"
    and "fst (sc_now (be_client en) (snd (se_world s))) < deadline"
    and "pending_retry (fst (se_world s)) = None" "\<not> session_invalid (fst (se_world s))"
    and "validate_instance_id (fst (se_world s)) (PStr inst) = Inr ()"
    and "\<forall>d c. fst (op_lock ops d c) = LockAcquired"
  shows "fst (align_leaf_turns (session_engine ops en) inst deadline nodes s) = Inl ValueError"
proof -
  let ?en = "session_engine ops en" and ?lag = "lagging_leaves nodes"
  obtain c x where w: "se_world s = (c, x)" by fastforce
  obtain now x' where now: "sc_now (be_client en) x = (now, x')" by fastforce
  have lag: "?lag \<noteq> []" using assms(2,3) by auto
  have refuse: "wp (world_p (sc_emulate_actions (be_client ?en) inst (map fst works) (deadline - now) opts))
      (\<lambda>_ _. False) (\<lambda>e _. e = ValueError) t"
    if "length works = length ?lag" "se_world t = (c, x')"
    for works :: "nat keyed_item list" and opts and t :: "('a client \<times> 'b) searching"
  proof -
    have "fst (emulate_actions ops (PStr inst) (PList (map PDict (map fst works))) (deadline - now) opts c) = Inl ValueError"
      by (rule too_long_batch [where m = m]) (use that assms w now lag in auto)
    then show ?thesis
      using that(2) by (auto simp: wp_def world_p_def api_client_def on_client_def split: prod.splits sum.splits)
  qed
  let ?t = "s\<lparr>se_world := (c, x')\<rparr>"
  let ?after = "\<lambda>works response. then_p (register_branches (map (snd \<circ> snd) works))
              (bind_p (lift_p (results_mapping response)) (\<lambda>results.
               bind_p (lift_p (settled_dtos results (map snd works))) (\<lambda>aligned.
               if aligned = [] then ret_p nodes
               else
                 bind_p (evaluate_states ?en (map snd aligned)) (\<lambda>scores.
                 then_p (count_p (\<lambda>t. t\<lparr>leaves_turn_aligned := leaves_turn_aligned t + int (length aligned)\<rparr>))
                   (ret_p (foldl set_leaf_value nodes (zip (map fst aligned) scores)))))))"
  let ?failed = "\<lambda>e. case e of RequestRejectedError _ \<Rightarrow> ret_p nodes | TransportError _ _ _ \<Rightarrow> ret_p nodes | _ \<Rightarrow> raise_p e"
  have "wp (collect_p (align_item ?en) ?lag) (\<lambda>works. wp (try_else
      (world_p (sc_emulate_actions (be_client ?en) inst (map fst works) (deadline - now) (simulation_options (be_config ?en))))
      (?after works) ?failed) (\<lambda>_ _. False) (\<lambda>e _. e = ValueError)) (\<lambda>e _. e = ValueError) ?t"
  proof (rule wp_mono [OF align_items_wp])
    fix works :: "nat keyed_item list" and t :: "('a client \<times> 'b) searching"
    assume t: "length works = length ?lag \<and> se_world t = se_world ?t"
    show "wp (try_else
      (world_p (sc_emulate_actions (be_client ?en) inst (map fst works) (deadline - now) (simulation_options (be_config ?en))))
      (?after works) ?failed) (\<lambda>_ _. False) (\<lambda>e _. e = ValueError) t"
      unfolding wp_try_else by (rule wp_mono [OF refuse]) (use t in \<open>auto simp: wp_raise\<close>)
  qed auto
  moreover have "\<not> deadline - now \<le> 0" using assms(4) w now by simp
  moreover have "now_p ?en s = (Inr now, ?t)"
    by (simp add: now_p_def world_p_def api_client_def w now)
  ultimately have "wp (align_leaf_turns ?en inst deadline nodes) (\<lambda>_ _. False) (\<lambda>e _. e = ValueError) s"
    unfolding align_leaf_turns_def if_not_P [OF lag] wp_bind [of "now_p ?en"] by (simp add: wp_def [of "now_p ?en"] wp_bind)
  then show ?thesis by (auto simp: wp_def split: prod.splits sum.splits)
qed

text \<open>three leaves of which two still stand in the first turn, and a server that takes one item\<close>

definition demo_leaf :: "string \<Rightarrow> int \<Rightarrow> beam_node" where
  "demo_leaf b turn = (demo_node b 0)\<lparr>bn_terminal := False, bn_dto :=
     [(''turnNumber'', PInt turn), (''legal_actions'',
        PList [PDict [(''action_id'', PStr ''e''), (''action_type'', PStr ''system'')]])]\<rparr>"

definition demo_leaves :: "beam_node list" where
  "demo_leaves = [demo_leaf ''a'' 1, demo_leaf ''b'' 2, demo_leaf ''c'' 1]"

lemma demo_lagging: "length (lagging_leaves demo_leaves) = 2"
  by code_simp

definition demo_ops :: "unit conn_ops" where
  "demo_ops =
     \<lparr>op_time = (\<lambda>c. (0, c)), op_lock = (\<lambda>d c. (LockAcquired, c)), op_exchange = (\<lambda>m d c. (Inr PNone, c)),
      op_invalidate = (\<lambda>c. (Inr (), c)), op_close = (\<lambda>c. (Inr (), c))\<rparr>"

theorem aligned_leaves_ignore_the_limit_witness:
  "fst (align_leaf_turns (session_engine demo_ops demo_engine) ''i'' 5 demo_leaves
     (idle_search (demo_session_client, 0))) = Inl ValueError"
  by (rule aligned_leaves_ignore_the_limit [where m = 1])
    (simp_all add: demo_lagging idle_search_def demo_session_client_def demo_ops_def demo_engine_def
      demo_search_client_def validate_instance_id_def validate_non_empty_str_def)

end
