(* ===== verification/Event_Ownership.thy ===== *)
theory Event_Ownership
  imports Event_Branch_Search Search_Session
begin

text \<open>
  The event branch search on the asynchronous client.  A branch that an evaluation may have created
  stays owned: the search releases it, or hands it to the client together with the exact replay token
  of the request whose completion is uncertain, so that the client releases it after the replay.
\<close>

section \<open>The client of the decision engine\<close>

definition api_decision_client ::
  "'c conn_ops \<Rightarrow> ('x \<Rightarrow> rat \<times> 'x) \<Rightarrow> ('x \<Rightarrow> string \<times> 'x) \<Rightarrow> ('c client \<times> 'x) decision_client" where
  "api_decision_client ops tick hex =
     search_client.extend (api_client ops tick)
       (decision_client.fields
         (\<lambda>inst parent branch rng decision_point aid t. on_client
           (emulate_action ops (PStr inst) (PStr parent) (PStr branch) (PInt rng) (PStr decision_point)
              (PStr aid) t PNone))
         (\<lambda>(c, x). emulate_actions_boundaries c)
         (\<lambda>(c, x). pending_retry c)
         (\<lambda>retry inst bs. on_client (defer_branch_cleanup_after_retry retry (PStr inst) (map PStr bs)))
         (\<lambda>inst branch t. on_client (map_p PDict (get_decision ops (PStr inst) (PStr branch) t)))
         (\<lambda>inst decision_point aid t. on_client
           (commit_action ops (PStr inst) (PStr decision_point) (PStr aid) t))
         (\<lambda>(c, x). case hex x of (h, x') \<Rightarrow> (h, (c, x'))))"

lemma api_decision_client_simps [simp]:
  "sc_now (api_decision_client ops tick hex) = sc_now (api_client ops tick)"
  "sc_emulate_actions (api_decision_client ops tick hex) = sc_emulate_actions (api_client ops tick)"
  "sc_release_branches (api_decision_client ops tick hex) = sc_release_branches (api_client ops tick)"
  "sc_session_invalid (api_decision_client ops tick hex) w = session_invalid (fst w)"
  "dc_retry (api_decision_client ops tick hex) w = pending_retry (fst w)"
  "dc_boundaries (api_decision_client ops tick hex) w = emulate_actions_boundaries (fst w)"
  "dc_emulate_action (api_decision_client ops tick hex) inst parent branch rng decision_point aid t =
     on_client (emulate_action ops (PStr inst) (PStr parent) (PStr branch) (PInt rng) (PStr decision_point)
       (PStr aid) t PNone)"
  "dc_defer (api_decision_client ops tick hex) retry inst bs =
     on_client (defer_branch_cleanup_after_retry retry (PStr inst) (map PStr bs))"
  "dc_get_decision (api_decision_client ops tick hex) inst branch t =
     on_client (map_p PDict (get_decision ops (PStr inst) (PStr branch) t))"
  "dc_commit_action (api_decision_client ops tick hex) inst decision_point aid t =
     on_client (commit_action ops (PStr inst) (PStr decision_point) (PStr aid) t)"
  "dc_uuid_hex (api_decision_client ops tick hex) w = (case hex (snd w) of (h, x) \<Rightarrow> (h, (fst w, x)))"
  by (simp_all add: api_decision_client_def search_client.defs decision_client.defs api_client_def
      split: prod.split)

section \<open>What an emulate request leaves behind\<close>

text \<open>an answer to the request, and not a doubt about it\<close>

definition is_answer :: "exn \<Rightarrow> bool" where
  "is_answer e \<longleftrightarrow> api_operation_response e \<noteq> None"

lemma is_answer_simps [simp]:
  "\<not> is_answer TypeError" "\<not> is_answer ValueError" "\<not> is_answer RuntimeError" "\<not> is_answer ApiProtocolError"
  "\<not> is_answer KeyError" "\<not> is_answer (TransportError k u r)" "\<not> is_answer (CancelledError u r)"
  by (simp_all add: is_answer_def)

text \<open>nothing is pending; and the only thing that may be pending is the request \<open>m\<close>\<close>

definition clean :: "'c client \<Rightarrow> bool" where
  "clean s \<longleftrightarrow> pending_retry s = None \<and> pending_retry_cleanup s = None"

definition only_pending :: "pydict \<Rightarrow> 'c client \<Rightarrow> bool" where
  "only_pending m s \<longleftrightarrow> pending_retry_cleanup s = None \<and>
     (pending_retry s = None \<or> pending_retry s = Some (from_message m) \<and> \<not> session_invalid s)"

definition in_doubt :: "pydict \<Rightarrow> exn \<Rightarrow> 'c client \<Rightarrow> bool" where
  "in_doubt m e s \<longleftrightarrow> only_pending m s \<and> (is_answer e \<longrightarrow> pending_retry s = None)"

lemma clean_in_doubt [intro]: "clean s \<Longrightarrow> in_doubt m e s"
  by (simp add: clean_def in_doubt_def only_pending_def)

text \<open>\<open>steady m\<close>: the step leaves what is pending alone and raises no answer\<close>

definition steady :: "('c client, exn, 'a) py \<Rightarrow> bool" where
  "steady m \<longleftrightarrow> (\<forall>p c i. keeps (\<lambda>s. pending_retry s = p \<and> pending_retry_cleanup s = c \<and> session_invalid s = i) m)"

lemma steady_state:
  assumes "steady m"
  shows "pending_retry (snd (m s)) = pending_retry s \<and> pending_retry_cleanup (snd (m s)) = pending_retry_cleanup s \<and>
    session_invalid (snd (m s)) = session_invalid s"
  using assms unfolding steady_def keeps_def by blast

lemma steady_wp:
  assumes "steady m" "raises_only E m"
  shows "wp m (\<lambda>_ t. pending_retry t = pending_retry s \<and> pending_retry_cleanup t = pending_retry_cleanup s
      \<and> session_invalid t = session_invalid s)
    (\<lambda>e t. pending_retry t = pending_retry s \<and> pending_retry_cleanup t = pending_retry_cleanup s
      \<and> session_invalid t = session_invalid s \<and> E e) s"
  using steady_state [OF assms(1), of s] raises_onlyD [OF assms(2), of s]
  by (auto simp: wp_def split: prod.split sum.split)

lemma raises_any: "raises_only (\<lambda>_. True) m"
  by (simp add: raises_only_def)

lemma steady_basic [keeps_intro]:
  "steady (ret_p x)" "steady (raise_p e)" "steady (lift_p r)" "steady (conn_p c)"
  "steady (modify_p (\<lambda>s. s\<lparr>audit_state := a s\<rparr>))"
  by (simp_all add: steady_def keeps_def conn_p_def modify_p_def ret_p_def raise_p_def lift_p_def split: prod.split)

lemma steady_bind [keeps_intro]: "steady m \<Longrightarrow> (\<And>x. steady (f x)) \<Longrightarrow> steady (bind_p m f)"
  and steady_then [keeps_intro]: "steady m \<Longrightarrow> steady k \<Longrightarrow> steady (then_p m k)"
  and steady_with [keeps_intro]: "(\<And>s. steady (g s)) \<Longrightarrow> steady (with_p g)"
  and steady_for [keeps_intro]: "(\<And>y. steady (l y)) \<Longrightarrow> steady (for_p l ys)"
  unfolding steady_def by (auto intro: keeps_intro)

lemma steady_if [keeps_intro]: "(b \<Longrightarrow> steady m) \<Longrightarrow> (\<not> b \<Longrightarrow> steady n) \<Longrightarrow> steady (if b then m else n)"
  by simp

lemma steady_record [keeps_intro]: "steady (record_selected_action request source result err)"
  by (auto simp: steady_def keeps_def record_selected_action_def split: prod.splits)

lemma steady_record_item: "steady (record_emulate_item request response err item)"
  unfolding record_emulate_item_def Let_def by (cases item) (auto intro!: keeps_intro)

lemma steady_record_batch [keeps_intro]: "steady (record_emulate_actions_batch request response err)"
  unfolding record_emulate_actions_batch_def
  by (cases "dget request ''items''") (auto intro!: keeps_intro steady_record_item)

lemma steady_validate [keeps_intro]: "steady (validate_api_response request r)"
  unfolding validate_api_response_def validate_branch_batch_response_def
  by (intro keeps_intro; cases "dget request ''instance_id''") (auto intro!: keeps_intro)

text \<open>what the bookkeeping of a selected action raises is no answer\<close>

lemma raises_with [raises_intro]: "(\<And>s. raises_only E (f s)) \<Longrightarrow> raises_only E (with_p f)"
  by (auto simp: raises_only_def with_p_def)

lemma raises_then [raises_intro]: "raises_only E m \<Longrightarrow> raises_only E n \<Longrightarrow> raises_only E (then_p m n)"
  by (auto simp: then_p_def intro: raises_intro)

lemma raises_modify [raises_intro]: "raises_only E (modify_p g)"
  by (simp add: raises_only_def modify_p_def)

lemma raises_for [raises_intro]: "(\<And>x. raises_only E (l x)) \<Longrightarrow> raises_only E (for_p l xs)"
  by (induction xs) (auto intro: raises_intro)

lemma in_str_set_raises: "in_str_set v xs = Inl e \<Longrightarrow> e = TypeError"
  by (auto simp: in_str_set_def split: if_splits)

lemma no_answer_record_action:
  "raises_only (\<lambda>e. \<not> is_answer e) (record_action request source result err)"
proof -
  have received: "\<not> is_answer e" if "received_decision a m source = Inl e" for a m e
    using that by (auto simp: received_decision_def split: if_splits option.splits)
  have status: "\<not> is_answer e" if "in_str_set v xs = Inl e" for v xs e
    using that in_str_set_raises by fastforce
  have "raises_only (\<lambda>e. \<not> is_answer e)
      (case (err, result) of
         (None, Some r) \<Rightarrow>
           bind_p (lift_p (in_str_set (dget r ''status'') [''completed'', ''partial'']))
             (\<lambda>ok. if ok then modify_p (remember_result (event_request_of request) r) else ret_p ())
       | _ \<Rightarrow> ret_p ())"
    using status by (cases err; cases result) (auto intro!: raises_intro)
  then show ?thesis
    unfolding record_action_def Let_def
    by (intro raises_intro raises_with received) (auto intro!: raises_intro split: prod.split)
qed

lemma no_answer_record [raises_intro]:
  "raises_only (\<lambda>e. \<not> is_answer e) (record_selected_action request source result err)"
  using no_answer_record_action [of request source result err]
  by (auto simp: raises_only_def record_selected_action_def split: prod.splits)

lemma no_answer_record_batch [raises_intro]:
  "raises_only (\<lambda>e. \<not> is_answer e) (record_emulate_actions_batch request response err)"
proof -
  have "raises_only (\<lambda>e. \<not> is_answer e) (record_emulate_item request response err item)" for item
    unfolding record_emulate_item_def Let_def by (cases item) (auto intro!: raises_intro)
  then show ?thesis
    unfolding record_emulate_actions_batch_def
    by (cases "dget request ''items''") (auto intro!: raises_intro)
qed

lemma consume_clean:
  "only_pending m s \<Longrightarrow>
     wp (consume_sequence (from_message m)) (\<lambda>_. clean) (\<lambda>e t. t = s \<and> \<not> is_answer e) s"
  by (auto simp: consume_sequence_def py_simps only_pending_def clean_def)

lemma wp_raising: "wp m (\<lambda>_ _. False) E s \<Longrightarrow> wp m Q E s"
  by (erule wp_mono) auto

text \<open>the conditions on a connection: as for the replay, and that dropping it is not an answer\<close>

locale branch_connection = replay_connection ops for ops :: "'c conn_ops" +
  assumes invalidate_error: "op_invalidate ops c = (Inl e, c') \<Longrightarrow> \<not> is_answer e"

context branch_connection
begin

lemma remember_doubt:
  assumes "clean s" "\<not> session_invalid s"
  shows "wp (remember_pending (from_message m)) (\<lambda>_. only_pending m) (\<lambda>e t. clean t) s"
  using assms by (auto simp: remember_pending_def py_simps only_pending_def clean_def)

lemma mark_doubt:
  assumes "clean s" "\<not> session_invalid s"
  shows "wp (mark_protocol_uncertain ops m) (\<lambda>_. only_pending m) (in_doubt m) s"
  unfolding mark_protocol_uncertain_def wp_then
proof (rule wp_mono [OF remember_doubt [OF assms]])
  fix t :: "'c client" assume t: "only_pending m t"
  have "raises_only (\<lambda>e. \<not> is_answer e) (conn_p (op_invalidate ops))"
    using invalidate_error by (auto simp: raises_only_def conn_p_def split: prod.splits)
  from steady_wp [OF steady_basic(4) this, of t]
  show "wp (conn_p (op_invalidate ops)) (\<lambda>_. only_pending m) (in_doubt m) t"
    by (rule wp_mono) (use t in \<open>auto simp: only_pending_def in_doubt_def\<close>)
qed auto

lemma operation_error_doubt:
  assumes "clean s"
  shows "wp (on_operation_error (from_message m) r e) (\<lambda>_ _. False) (\<lambda>_. clean) s"
  using assms unfolding on_operation_error_def Let_def
  by (auto simp: py_simps consume_sequence_def invalidate_session_def clear_instance_extensions_def
      clear_instance_def clean_def split: sum.splits)

lemma exchange_error_doubt:
  assumes "op_exchange ops m d c = (Inl e, c')" "clean s" "\<not> session_invalid s"
  shows "wp (on_exchange_error (from_message m) e) (\<lambda>_ _. False) (in_doubt m) s"
proof -
  have tok: "(case exn_retry_request e of None \<Rightarrow> from_message m | Some r \<Rightarrow> r) = from_message m"
    if "completion_uncertain e"
    using exchange_token [OF assms(1) that] by auto
  have doubt: "in_doubt m e s" using assms(2) by blast
  have rem: "wp (then_p (remember_pending (from_message m)) (raise_p e)) (\<lambda>_ _. False) (in_doubt m) s"
    if "\<not> is_answer e"
    unfolding wp_then wp_raise
    by (rule wp_mono [OF remember_doubt [OF assms(2,3)]])
      (use that in \<open>auto simp: in_doubt_def clean_def only_pending_def\<close>)
  show ?thesis
  proof (cases e)
    case (TransportError k u r)
    have "in_doubt m e (invalidate_session s)"
      by (simp add: in_doubt_def only_pending_def invalidate_session_def)
    then show ?thesis
      using rem tok doubt TransportError by (auto simp: on_exchange_error_def wp_then wp_modify wp_raise wp_ret)
  next
    case (CancelledError u r)
    then show ?thesis
      using rem tok doubt by (auto simp: on_exchange_error_def wp_then wp_raise wp_ret)
  qed (use doubt in \<open>auto simp: on_exchange_error_def wp_raise\<close>)
qed

lemma check_doubt:
  assumes "clean s" "\<not> session_invalid s"
  shows "wp (case api_operation_response e of
      Some r \<Rightarrow> on_operation_error (from_message m) r e
    | None \<Rightarrow> if e = ApiProtocolError then then_p (mark_protocol_uncertain ops m) (raise_p e) else raise_p e)
    (\<lambda>_ _. False) (in_doubt m) s"
proof (cases "api_operation_response e")
  case None
  then have "wp (then_p (mark_protocol_uncertain ops m) (raise_p e)) (\<lambda>_ _. False) (in_doubt m) s"
    unfolding wp_then wp_raise
    by (intro wp_mono [OF mark_doubt [OF assms]]) (auto simp: in_doubt_def is_answer_def)
  with None assms show ?thesis by (auto simp: wp_raise)
next
  case (Some r)
  show ?thesis
    unfolding Some option.case by (rule wp_mono [OF operation_error_doubt [OF assms(1)]]) auto
qed

lemma execute_doubt:
  assumes "clean s" "\<not> session_invalid s"
  shows "wp (execute ops m d) (\<lambda>_ t. clean t \<and> \<not> session_invalid t) (in_doubt m) s"
proof -
  let ?check = "\<lambda>response. try_p (validate_api_response m response) (\<lambda>e. case api_operation_response e of
      Some r \<Rightarrow> on_operation_error (from_message m) r e
    | None \<Rightarrow> if e = ApiProtocolError then then_p (mark_protocol_uncertain ops m) (raise_p e) else raise_p e)"
  obtain r c where ex: "op_exchange ops m d (connection s) = (r, c)" by fastforce
  then have "conn_p (op_exchange ops m d) s = (r, s\<lparr>connection := c\<rparr>)" by (simp add: conn_p_def)
  note step = wp_try_else_step [where m = "conn_p (op_exchange ops m d)" and s = s, OF this]
  have s': "clean (s\<lparr>connection := c\<rparr>)" "\<not> session_invalid (s\<lparr>connection := c\<rparr>)"
    using assms by (simp_all add: clean_def)
  have "wp (try_else (conn_p (op_exchange ops m d)) ?check (on_exchange_error (from_message m)))
      (\<lambda>_ t. clean t \<and> \<not> session_invalid t) (in_doubt m) s"
  proof (cases r)
    case (Inl e)
    from wp_raising [OF exchange_error_doubt [OF ex [unfolded Inl] s']] Inl show ?thesis
      by (simp add: step)
  next
    case (Inr v)
    have "wp (?check v) (\<lambda>_ t. clean t \<and> \<not> session_invalid t) (in_doubt m) (s\<lparr>connection := c\<rparr>)"
      unfolding wp_try
    proof (rule wp_mono [OF steady_wp [OF steady_validate raises_any]])
      fix e and t :: "'c client"
      assume "pending_retry t = pending_retry (s\<lparr>connection := c\<rparr>) \<and>
        pending_retry_cleanup t = pending_retry_cleanup (s\<lparr>connection := c\<rparr>) \<and>
        session_invalid t = session_invalid (s\<lparr>connection := c\<rparr>) \<and> True"
      then have "clean t" "\<not> session_invalid t" using assms by (simp_all add: clean_def)
      from wp_raising [OF check_doubt [OF this]]
      show "wp (case api_operation_response e of
            Some r \<Rightarrow> on_operation_error (from_message m) r e
          | None \<Rightarrow> if e = ApiProtocolError then then_p (mark_protocol_uncertain ops m) (raise_p e) else raise_p e)
          (\<lambda>_ t. clean t \<and> \<not> session_invalid t) (in_doubt m) t" .
    qed (use assms in \<open>simp add: clean_def\<close>)
    with Inr show ?thesis by (simp add: step)
  qed
  then show ?thesis
    using assms unfolding execute_def Let_def
    by (auto simp: wp_bind wp_lift wp_with wp_if wp_raise split: sum.split)
qed

lemma accept_doubt:
  assumes "clean s" "\<not> session_invalid s"
  shows "wp (accept_or_uncertain ops m (lift_p r)) (\<lambda>_ t. clean t) (in_doubt m) s"
proof (cases r)
  case (Inl e)
  have "wp (then_p (mark_protocol_uncertain ops m) (raise_p ApiProtocolError)) (\<lambda>_. clean) (in_doubt m) s"
    unfolding wp_then wp_raise by (intro wp_mono [OF mark_doubt [OF assms]]) (auto simp: in_doubt_def)
  with assms Inl show ?thesis by (auto simp: accept_or_uncertain_def wp_try wp_lift wp_raise)
qed (use assms in \<open>simp add: accept_or_uncertain_def wp_try wp_lift\<close>)

lemma selected_error_doubt:
  assumes "\<And>r e. steady (rec r e)" "\<And>r e. raises_only (\<lambda>e. \<not> is_answer e) (rec r e)" "in_doubt m e s"
  shows "wp (on_selected_error rec r e) (\<lambda>_ _. False) (in_doubt m) s"
proof -
  have "wp (then_p (rec r' e') (raise_p e)) (\<lambda>_ _. False) (in_doubt m) s" for r' e'
    unfolding wp_then wp_raise
    by (intro wp_mono [OF steady_wp [OF assms(1,2)]])
      (use assms(3) in \<open>auto simp: in_doubt_def only_pending_def\<close>)
  then show ?thesis by (auto simp: on_selected_error_def split: option.split)
qed

lemma finish_doubt:
  assumes "clean s" "steady rec"
  shows "wp (then_p rec (ret_p x)) (\<lambda>_. clean) (in_doubt m) s"
  unfolding wp_then wp_ret
  by (intro wp_mono [OF steady_wp [OF assms(2) raises_any]])
    (use assms(1) in \<open>auto simp: in_doubt_def only_pending_def clean_def\<close>)

lemma consume_doubt:
  assumes "clean s"
  shows "wp (consume_sequence (from_message m)) (\<lambda>_. clean) (in_doubt m) s"
  by (intro wp_mono [OF consume_clean [of m]])
    (use assms in \<open>auto simp: clean_def only_pending_def in_doubt_def\<close>)

lemma selected_action_doubt:
  assumes "clean s" "\<not> session_invalid s"
  shows "wp (execute_selected_action ops m src d) (\<lambda>_. clean) (in_doubt m) s"
proof -
  let ?rec = "record_selected_action m src"
  note error = wp_raising [OF selected_error_doubt [of ?rec, OF steady_record no_answer_record]]
  have inner: "wp (try_else (then_p (accept_or_uncertain ops m (lift_p (validate_selected_action_response m r)))
        (consume_sequence (from_message m)))
      (\<lambda>_. then_p (?rec (Some r) None) (ret_p r)) (on_selected_error ?rec (Some r))) (\<lambda>_. clean) (in_doubt m) t"
    if "clean t \<and> \<not> session_invalid t" for r and t :: "'c client"
  proof -
    have "wp (then_p (accept_or_uncertain ops m (lift_p (validate_selected_action_response m r)))
        (consume_sequence (from_message m))) (\<lambda>_. clean) (in_doubt m) t"
      unfolding wp_then using that by (intro wp_mono [OF accept_doubt] consume_doubt) auto
    then show ?thesis
      unfolding wp_try_else by (rule wp_mono) (auto intro!: finish_doubt steady_record error)
  qed
  show ?thesis
    unfolding execute_selected_action_def Let_def wp_try_else
    by (intro wp_mono [OF execute_doubt [OF assms]] inner [unfolded wp_try_else] error)
qed

lemma emulate_actions_doubt:
  assumes "clean s" "\<not> session_invalid s"
  shows "wp (execute_emulate_actions ops m d) (\<lambda>_. clean) (in_doubt m) s"
proof -
  note error = wp_raising [OF selected_error_doubt [of "record_emulate_actions_batch m",
      OF steady_record_batch no_answer_record_batch]]
  show ?thesis
    unfolding execute_emulate_actions_def Let_def wp_try_else
    by (intro wp_mono [OF execute_doubt [OF assms]] wp_mono [OF consume_doubt] finish_doubt
        steady_record_batch error) auto
qed

end

text \<open>the request of an evaluation and the branches it may have created\<close>

definition in_doubt_for :: "string \<Rightarrow> string list \<Rightarrow> 'c client \<Rightarrow> bool" where
  "in_doubt_for inst ids s \<longleftrightarrow> (\<exists>m. pending_retry s = Some (from_message m) \<and> \<not> session_invalid s \<and>
     pending_retry_cleanup s = None \<and> dget m ''instance_id'' = PStr inst \<and>
     dget m ''operation'' \<in> {PStr ''emulate_action'', PStr ''emulate_actions''} \<and>
     branch_ids_created_by_retry (from_message m) = Inr ids)"

definition evaluated :: "string \<Rightarrow> string list \<Rightarrow> exn \<Rightarrow> 'c client \<Rightarrow> bool" where
  "evaluated inst ids e s \<longleftrightarrow> clean s \<or> \<not> is_answer e \<and> in_doubt_for inst ids s"

lemma evaluated_in_doubt:
  assumes "in_doubt m e s" "dget m ''instance_id'' = PStr inst"
    and "dget m ''operation'' \<in> {PStr ''emulate_action'', PStr ''emulate_actions''}"
    and "branch_ids_created_by_retry (from_message m) = Inr ids"
  shows "evaluated inst ids e s"
  using assms by (auto simp: evaluated_def in_doubt_for_def in_doubt_def only_pending_def clean_def)

lemma wp_conn:
  "wp (conn_p f) Q E s = (case f (connection s) of (r, c) \<Rightarrow>
     case r of Inl e \<Rightarrow> E e (s\<lparr>connection := c\<rparr>) | Inr x \<Rightarrow> Q x (s\<lparr>connection := c\<rparr>))"
  by (simp add: wp_def conn_p_def split: prod.split sum.split)

lemma clean_connection [simp]: "clean (s\<lparr>connection := c\<rparr>) = clean s"
  by (simp add: clean_def)

lemma deadline_clean:
  assumes "clean s" "\<And>e s. clean s \<Longrightarrow> E e s" "\<And>d s. clean s \<Longrightarrow> wp (body d) (\<lambda>_. clean) E s"
  shows "wp (operation_deadline ops t body) (\<lambda>_. clean) E s"
  using assms unfolding operation_deadline_def
  by (auto simp: wp_if wp_raise wp_bind wp_conn split: prod.split lock_outcome.split)

lemma fresh_clean:
  assumes "clean s" "\<And>e s. clean s \<Longrightarrow> E e s"
    and "\<And>m. build s = Inr m \<Longrightarrow> \<not> session_invalid s \<Longrightarrow> wp (k m) (\<lambda>_. clean) E s"
  shows "wp (then_p ensure_fresh_request_allowed (bind_p (with_p (\<lambda>s. lift_p (build s))) k)) (\<lambda>_. clean) E s"
  using assms by (auto simp: ensure_fresh_request_allowed_def py_simps clean_def split: sum.split)

lemma evaluated_clean: "clean s \<Longrightarrow> evaluated inst ids e s"
  by (simp add: evaluated_def)

lemma normalize_items_ids:
  "normalize_items seen xs = Inr ds \<Longrightarrow>
     map (\<lambda>d. dget d ''branch_id'') ds = map (\<lambda>x. vget x ''branch_id'') xs"
proof (induction xs arbitrary: seen ds)
  case (Cons x xs)
  have "dget d ''branch_id'' = vget x ''branch_id''" if "normalize_item seen x = Inr d" for d
    using that by (auto simp: normalize_item_def py_simps ditem_def dget_def split: pyval.splits option.splits)
  with Cons show ?case by (auto simp: py_simps)
qed simp

context branch_connection
begin

lemma emulate_actions_evaluated:
  assumes "clean s" "\<forall>c \<in> set cs. fst c \<noteq> []"
  shows "wp (emulate_actions ops (PStr inst) (PList (map PDict (map (event_item dp) cs))) t PNone)
    (\<lambda>_. clean) (evaluated inst (map fst cs)) s"
  unfolding emulate_actions_def
proof (rule deadline_clean [OF assms(1) evaluated_clean], assumption, rule fresh_clean [OF _ evaluated_clean])
  fix d m and s :: "'c client"
  assume s: "clean s" "\<not> session_invalid s"
    and "build_emulate_actions s (next_request_seq s) (PStr inst) (PList (map PDict (map (event_item dp) cs))) PNone = Inr m"
  then obtain ds sim where ds: "normalize_items [] (map PDict (map (event_item dp) cs)) = Inr ds"
    and m: "new_request s (next_request_seq s) ''emulate_actions''
      ([(''instance_id'', PStr inst), (''items'', PList (map PDict ds))] @ sim) = Inr m"
    by (auto simp: build_emulate_actions_def py_simps)
  have "map (\<lambda>d. dget d ''branch_id'') ds = map (PStr \<circ> fst) cs"
    using normalize_items_ids [OF ds] by (auto simp: event_item_def branch_item_def comp_def split_def)
  then have "concat (map (\<lambda>d. case dget d ''branch_id'' of PStr b \<Rightarrow> if b = [] then [] else [b] | _ \<Rightarrow> []) ds) = map fst cs"
    using assms(2)
  proof (induction ds arbitrary: cs)
    case (Cons a ds)
    then show ?case by (cases cs) auto
  qed simp
  then have "branch_ids_created_by_retry (from_message m) = Inr (map fst cs)"
    using dget_new_request [OF m] by (simp add: branch_ids_created_by_retry_def comp_def)
  then show "wp (execute_emulate_actions ops m d) (\<lambda>_. clean) (evaluated inst (map fst cs)) s"
    using dget_new_request [OF m] by (intro wp_mono [OF emulate_actions_doubt [OF s]] evaluated_in_doubt) auto
qed

lemma emulate_action_evaluated:
  assumes "clean s" "branch \<noteq> []"
  shows "wp (emulate_action ops (PStr inst) parent (PStr branch) rng dp aid t PNone)
    (\<lambda>_. clean) (evaluated inst [branch]) s"
  unfolding emulate_action_def
proof (rule deadline_clean [OF assms(1) evaluated_clean], assumption, rule fresh_clean [OF _ evaluated_clean])
  fix d m and s :: "'c client"
  assume s: "clean s" "\<not> session_invalid s"
    and "build_emulate_action s (next_request_seq s) (PStr inst) parent (PStr branch) rng dp aid PNone = Inr m"
  then obtain fs where m: "new_request s (next_request_seq s) ''emulate_action''
      ([(''instance_id'', PStr inst), (''parent_branch_id'', parent), (''branch_id'', PStr branch)] @ fs) = Inr m"
    by (auto simp: build_emulate_action_def py_simps)
  then have "branch_ids_created_by_retry (from_message m) = Inr [branch]"
    using dget_new_request [OF m] assms(2) by (simp add: branch_ids_created_by_retry_def)
  then show "wp (execute_selected_action ops m parent d) (\<lambda>_. clean) (evaluated inst [branch]) s"
    using dget_new_request [OF m] by (intro wp_mono [OF selected_action_doubt [OF s]] evaluated_in_doubt) auto
qed

lemma release_in_doubt:
  assumes "clean s"
  shows "wp (release_branches ops inst bs t) (\<lambda>_. clean)
    (\<lambda>e t. clean t \<or> (\<exists>m. pending_retry t = Some (from_message m) \<and> dget m ''operation'' = PStr ''release_branches'')) s"
  (is "wp _ _ ?E _")
  unfolding release_branches_def branch_batch_operation_def
proof (rule deadline_clean [OF assms], simp, rule fresh_clean)
  fix d m and s :: "'c client"
  assume s: "clean s" "\<not> session_invalid s"
    and "build_branch_batch_operation s (next_request_seq s) ''release_branches'' inst bs = Inr m"
  then obtain fs where m: "new_request s (next_request_seq s) ''release_branches'' fs = Inr m"
    by (auto simp: build_branch_batch_operation_def py_simps)
  have doubt: "in_doubt m e t \<Longrightarrow> ?E e t" for e t
    using dget_new_request(3) [OF m] by (auto simp: in_doubt_def only_pending_def clean_def)
  show "wp (bind_p (execute ops m d) (\<lambda>r. then_p (consume_sequence (from_message m)) (ret_p r))) (\<lambda>_. clean) ?E s"
    unfolding wp_bind wp_then wp_ret
    by (intro wp_mono [OF execute_doubt [OF s]] wp_mono [OF consume_doubt] doubt) auto
qed simp_all

end

section \<open>Ownership through the search\<close>

text \<open>
  \<open>handed_over inst s\<close>: the request in doubt has been handed over with all the branches the
  search has created so far and those the request may create
\<close>

definition handed_over :: "string \<Rightarrow> ('c client \<times> 'x) evaluating \<Rightarrow> bool" where
  "handed_over inst s \<longleftrightarrow> (\<exists>retry ids created. pending_retry (fst (ee_world s)) = Some retry \<and>
     pending_retry_cleanup (fst (ee_world s)) = Some (retry, PStr inst, ids) \<and>
     branch_ids_created_by_retry retry = Inr created \<and> set created \<union> set (ee_created s) \<subseteq> set ids)"

definition tidy :: "('c client \<times> 'x) evaluating \<Rightarrow> bool" where
  "tidy s \<longleftrightarrow> clean (fst (ee_world s)) \<and> (\<forall>b \<in> set (ee_created s). b \<noteq> [] \<and> b \<noteq> root_branch_id)"

lemma wp_event_client:
  "wp (event_p (on_client m)) Q E s =
     wp m (\<lambda>r c. Q r (s\<lparr>ee_world := (c, snd (ee_world s))\<rparr>)) (\<lambda>e c. E e (s\<lparr>ee_world := (c, snd (ee_world s))\<rparr>))
       (fst (ee_world s))"
  by (simp add: wp_def event_p_def on_client_def split: prod.split sum.split)

lemma wp_event_now:
  "(\<And>t w. fst w = fst (ee_world s) \<Longrightarrow> Q t (s\<lparr>ee_world := w\<rparr>)) \<Longrightarrow>
     wp (event_now (api_decision_client ops tick hex)) Q E s"
  by (auto simp: wp_def event_now_def event_p_def api_client_def split: prod.split)

lemma normalize_cleanup_ids_wp:
  assumes "\<forall>b \<in> set bs. b \<noteq> [] \<and> b \<noteq> root_branch_id"
  shows "\<exists>ids. normalize_cleanup_ids seen (map PStr bs) = Inr ids \<and> set bs \<subseteq> set seen \<union> set ids"
  using assms
proof (induction bs arbitrary: seen)
  case (Cons b bs)
  show ?case
  proof (cases "b \<in> set seen")
    case True
    with Cons show ?thesis by auto
  next
    case False
    obtain ids where "normalize_cleanup_ids (b # seen) (map PStr bs) = Inr ids"
      "set bs \<subseteq> set (b # seen) \<union> set ids"
      using Cons.IH [of "b # seen"] Cons.prems by auto
    with False Cons.prems show ?thesis by auto
  qed
qed simp

lemma defer_hands_over:
  assumes "in_doubt_for inst created c" "created \<noteq> []" "pending_retry c = Some retry"
    and "\<forall>b \<in> set bs. b \<noteq> [] \<and> b \<noteq> root_branch_id" "set created \<subseteq> set bs"
  shows "wp (defer_branch_cleanup_after_retry retry (PStr inst) (map PStr bs))
    (\<lambda>_ t. \<exists>ids. pending_retry t = Some retry \<and> pending_retry_cleanup t = Some (retry, PStr inst, ids) \<and>
       branch_ids_created_by_retry retry = Inr created \<and> set bs \<subseteq> set ids)
    (\<lambda>_ _. False) c"
proof -
  obtain ids where ids: "normalize_cleanup_ids [] (map PStr bs) = Inr ids" "set bs \<subseteq> set ids"
    using normalize_cleanup_ids_wp [OF assms(4), of "[]"] by auto
  from assms(2,5) ids(2) have "ids \<noteq> []" "set created \<subseteq> set ids" by auto
  with assms ids show ?thesis
    by (auto simp: defer_branch_cleanup_after_retry_def in_doubt_for_def py_simps)
qed

definition accounted :: "string \<Rightarrow> ('c client \<times> 'x) evaluating \<Rightarrow> bool" where
  "accounted inst s \<longleftrightarrow> tidy s \<or> handed_over inst s"

lemma tidy_accounted [intro]: "tidy s \<Longrightarrow> accounted inst s"
  by (simp add: accounted_def)

context branch_connection
begin

lemma evaluation_error_wp:
  assumes e: "evaluated inst ids e (fst (ee_world t))" and ids: "ids \<noteq> []"
    and own: "\<forall>b \<in> set ids \<union> set (ee_created t). b \<noteq> [] \<and> b \<noteq> root_branch_id"
    and skip: "\<And>s. tidy s \<Longrightarrow> wp skip (\<lambda>_. tidy) (\<lambda>_. accounted inst) s"
  shows "wp (on_evaluation_error (api_decision_client ops tick hex) inst ids skip e) (\<lambda>_. tidy) (\<lambda>_. accounted inst) t"
  (is "wp ?m _ _ _")
proof -
  let ?defer = "then_p (defer_retry_cleanup (api_decision_client ops tick hex) inst (ee_created t @ ids)) (raise_p e)"
  have other: "wp ?defer (\<lambda>_. tidy) (\<lambda>_. accounted inst) t" if "\<not> is_answer e"
  proof (cases "pending_retry (fst (ee_world t))")
    case None
    with e that have "clean (fst (ee_world t))" by (auto simp: evaluated_def in_doubt_for_def)
    with None own show ?thesis
      by (auto simp: defer_retry_cleanup_def wp_then wp_with wp_ret wp_raise tidy_def)
  next
    case (Some retry)
    with e that have doubt: "in_doubt_for inst ids (fst (ee_world t))" by (auto simp: evaluated_def clean_def)
    have "wp (defer_branch_cleanup_after_retry retry (PStr inst) (map PStr (ee_created t @ ids)))
        (\<lambda>_ c. accounted inst (t\<lparr>ee_world := (c, snd (ee_world t))\<rparr>)) (\<lambda>_ _. False) (fst (ee_world t))"
      by (rule wp_mono [OF defer_hands_over [OF doubt ids Some]])
        (use own in \<open>auto simp: accounted_def handed_over_def\<close>)
    with Some show ?thesis
      by (simp add: defer_retry_cleanup_def wp_then wp_with wp_event_client wp_raise del: map_append)
        (erule wp_mono; simp)
  qed
  have answer: "tidy t" if "is_answer e"
    using e that own by (auto simp: evaluated_def tidy_def)
  have "tidy (t\<lparr>ee_created := ee_created t @ ids\<rparr>)" if "tidy t"
    using that own by (auto simp: tidy_def)
  then show ?thesis
    using other answer skip
    by (cases e) (auto simp: on_evaluation_error_def wp_with Let_def wp_then wp_modify wp_raise own_branches_def is_answer_def)
qed

lemma tidy_world: "tidy s \<Longrightarrow> fst w = fst (ee_world s) \<Longrightarrow> tidy (s\<lparr>ee_world := w\<rparr>)"
  by (simp add: tidy_def)

text \<open>one evaluation call with its handlers, for a batch as for a single candidate\<close>

lemma evaluation_step:
  fixes s :: "('c client \<times> 'x) evaluating"
  assumes call: "\<And>c. clean c \<Longrightarrow> wp m (\<lambda>_. clean) (evaluated inst ids) c"
    and s: "tidy s" and ids: "ids \<noteq> []" "\<forall>b \<in> set ids. b \<noteq> [] \<and> b \<noteq> root_branch_id"
    and k: "\<And>r s. tidy s \<Longrightarrow> wp (k r) (\<lambda>_. tidy) (\<lambda>_. accounted inst) s"
    and skip: "\<And>s. tidy s \<Longrightarrow> wp skip (\<lambda>_. tidy) (\<lambda>_. accounted inst) s"
  shows "wp (try_else (event_p (on_client m)) (\<lambda>r. then_p (own_branches ids) (k r))
      (on_evaluation_error (api_decision_client ops tick hex) inst ids skip)) (\<lambda>_. tidy) (\<lambda>_. accounted inst) s"
  unfolding wp_try_else wp_event_client
proof (rule wp_mono [OF call])
  show "clean (fst (ee_world s))" using s by (simp add: tidy_def)
next
  fix r and c :: "'c client" assume "clean c"
  then have "tidy (s\<lparr>ee_world := (c, snd (ee_world s)), ee_created := ee_created s @ ids\<rparr>)"
    using s ids by (auto simp: tidy_def)
  then show "wp (then_p (own_branches ids) (k r)) (\<lambda>_. tidy) (\<lambda>_. accounted inst)
      (s\<lparr>ee_world := (c, snd (ee_world s))\<rparr>)"
    by (simp add: wp_then own_branches_def wp_modify k)
next
  fix e and c :: "'c client" assume "evaluated inst ids e c"
  then show "wp (on_evaluation_error (api_decision_client ops tick hex) inst ids skip e) (\<lambda>_. tidy)
      (\<lambda>_. accounted inst) (s\<lparr>ee_world := (c, snd (ee_world s))\<rparr>)"
    using s ids by (intro evaluation_error_wp skip) (auto simp: tidy_def)
qed

lemma batch_accounted:
  fixes s :: "('c client \<times> 'x) evaluating"
  assumes "tidy s" "\<forall>c \<in> set cs. fst c \<noteq> [] \<and> fst c \<noteq> root_branch_id" "cs \<noteq> []"
  shows "wp (evaluate_batch_candidates (api_decision_client ops tick hex) inst dp cs deadline)
    (\<lambda>_. tidy) (\<lambda>_. accounted inst) s"
  unfolding evaluate_batch_candidates_def wp_bind
proof (rule wp_event_now)
  fix now and w :: "'c client \<times> 'x" assume "fst w = fst (ee_world s)"
  then have t: "tidy (s\<lparr>ee_world := w\<rparr>)" using assms(1) by (simp add: tidy_world)
  have "wp (try_else
         (event_p (on_client (emulate_actions ops (PStr inst) (PList (map PDict (map (event_item dp) cs))) (deadline - now) PNone)))
         (\<lambda>response. then_p (own_branches (map fst cs))
            (case dget response ''branch_results'' of
               PDict results \<Rightarrow> lift_p (best_from_batch None results cs)
             | _ \<Rightarrow> ret_p None))
         (on_evaluation_error (api_decision_client ops tick hex) inst (map fst cs) (ret_p None)))
       (\<lambda>_. tidy) (\<lambda>_. accounted inst) (s\<lparr>ee_world := w\<rparr>)"
    using t assms(2,3)
    by (intro evaluation_step emulate_actions_evaluated)
      (auto simp: wp_lift wp_ret split: pyval.split sum.split)
  with t show "wp (let remaining = deadline - now in
       if remaining \<le> 0 then ret_p None
       else try_else
         (event_p (sc_emulate_actions (api_decision_client ops tick hex) inst (map (event_item dp) cs) remaining PNone))
         (\<lambda>response. then_p (own_branches (map fst cs))
            (case dget response ''branch_results'' of
               PDict results \<Rightarrow> lift_p (best_from_batch None results cs)
             | _ \<Rightarrow> ret_p None))
         (on_evaluation_error (api_decision_client ops tick hex) inst (map fst cs) (ret_p None)))
       (\<lambda>_. tidy) (\<lambda>_. accounted inst) (s\<lparr>ee_world := w\<rparr>)"
    by (simp add: Let_def wp_if wp_ret api_client_def)
qed

lemma single_accounted:
  fixes s :: "('c client \<times> 'x) evaluating"
  assumes "tidy s" "\<forall>c \<in> set cs. fst c \<noteq> [] \<and> fst c \<noteq> root_branch_id"
  shows "wp (evaluate_single_candidates (api_decision_client ops tick hex) inst dp deadline best cs)
    (\<lambda>_. tidy) (\<lambda>_. accounted inst) s"
  using assms
proof (induction cs arbitrary: s best)
  case (Cons c cs)
  obtain branch aid rng where c: "c = (branch, aid, rng)" by (cases c) auto
  let ?rest = "\<lambda>best. evaluate_single_candidates (api_decision_client ops tick hex) inst dp deadline best cs"
  show ?case
    unfolding c evaluate_single_candidates.simps wp_bind
  proof (rule wp_event_now)
    fix now and w :: "'c client \<times> 'x" assume "fst w = fst (ee_world s)"
    then have t: "tidy (s\<lparr>ee_world := w\<rparr>)" using Cons.prems(1) by (simp add: tidy_world)
    have "wp (try_else
        (event_p (on_client (emulate_action ops (PStr inst) (PStr search_root_id) (PStr branch) (PInt rng) (PStr dp)
           (PStr aid) (deadline - now) PNone)))
        (\<lambda>result. then_p (own_branches [branch])
           (bind_p (lift_p (hp_from_result (PDict result))) (\<lambda>hp. ?rest (better_event best aid hp))))
        (on_evaluation_error (api_decision_client ops tick hex) inst [branch] (?rest best)))
        (\<lambda>_. tidy) (\<lambda>_. accounted inst) (s\<lparr>ee_world := w\<rparr>)"
      using t Cons.prems(2) Cons.IH
      by (intro evaluation_step emulate_action_evaluated)
        (auto simp: c wp_bind wp_lift split: sum.split)
    with t show "wp (let remaining = deadline - now in
       if remaining \<le> 0 then ret_p None
       else try_else
         (event_p (dc_emulate_action (api_decision_client ops tick hex) inst search_root_id branch rng dp aid remaining))
         (\<lambda>result. then_p (own_branches [branch])
            (bind_p (lift_p (hp_from_result (PDict result))) (\<lambda>hp. ?rest (better_event best aid hp))))
         (on_evaluation_error (api_decision_client ops tick hex) inst [branch] (?rest best)))
       (\<lambda>_. tidy) (\<lambda>_. accounted inst) (s\<lparr>ee_world := w\<rparr>)"
      by (simp add: Let_def wp_if wp_ret)
  qed
qed (auto simp: wp_ret)

end

text \<open>at the end, what is pending is handed over, or is the release of the branches itself\<close>

definition released_or_handed :: "string \<Rightarrow> ('c client \<times> 'x) evaluating \<Rightarrow> bool" where
  "released_or_handed inst s \<longleftrightarrow> accounted inst s \<or>
     (\<exists>m. pending_retry (fst (ee_world s)) = Some (from_message m) \<and>
        dget m ''operation'' = PStr ''release_branches'')"

context branch_connection
begin

lemma cleanup_accounted:
  fixes s :: "('c client \<times> 'x) evaluating"
  assumes "accounted inst s"
  shows "wp (event_cleanup (api_decision_client ops tick hex) inst deadline failing)
    (\<lambda>_. released_or_handed inst) (\<lambda>_. released_or_handed inst) s"
  unfolding event_cleanup_def wp_bind
proof (rule wp_event_now)
  fix now and w :: "'c client \<times> 'x" assume w: "fst w = fst (ee_world s)"
  let ?t = "s\<lparr>ee_world := w\<rparr>"
  have t: "accounted inst ?t" using assms w by (auto simp: accounted_def tidy_def handed_over_def)
  have handler: "wp (on_cleanup_error (api_decision_client ops tick hex) failing e)
      (\<lambda>_. released_or_handed inst) (\<lambda>_. released_or_handed inst) u"
    if "released_or_handed inst u" for e and u :: "('c client \<times> 'x) evaluating"
    using that by (cases e) (auto simp: on_cleanup_error_def wp_with wp_raise wp_ret Let_def)
  have release: "wp (try_else (event_p (sc_release_branches (api_decision_client ops tick hex) inst (ee_created s) (deadline - now)))
      (\<lambda>_. ret_p ()) (on_cleanup_error (api_decision_client ops tick hex) failing))
      (\<lambda>_. released_or_handed inst) (\<lambda>_. released_or_handed inst) ?t"
    if unresolved: "pending_retry (fst w) = None"
  proof -
    have "tidy ?t" using t unresolved by (auto simp: accounted_def handed_over_def)
    then have clean: "clean (fst w)" and own: "\<forall>b \<in> set (ee_created s). b \<noteq> [] \<and> b \<noteq> root_branch_id"
      by (simp_all add: tidy_def)
    show ?thesis
      unfolding wp_try_else
      by (simp add: api_client_def wp_event_client wp_ret,
          rule wp_mono [OF release_in_doubt [OF clean]])
        (use own in \<open>auto intro!: handler simp: released_or_handed_def accounted_def tidy_def\<close>)
  qed
  from t have "released_or_handed inst ?t" by (simp add: released_or_handed_def)
  with release show "wp (with_p (\<lambda>s. let remaining = deadline - now in
       if ee_created s \<noteq> [] \<and> 0 < remaining \<and> \<not> event_client_unusable (api_decision_client ops tick hex) (ee_world s)
       then try_else (event_p (sc_release_branches (api_decision_client ops tick hex) inst (ee_created s) remaining))
              (\<lambda>_. ret_p ()) (on_cleanup_error (api_decision_client ops tick hex) failing)
       else ret_p ())) (\<lambda>_. released_or_handed inst) (\<lambda>_. released_or_handed inst) ?t"
    by (auto simp: wp_with Let_def wp_if wp_ret event_client_unusable_def)
qed

lemma evaluate_events_accounted:
  fixes w :: "'c client \<times> 'x"
  assumes "clean (fst w)" "\<forall>c \<in> set cs. fst c \<noteq> [] \<and> fst c \<noteq> root_branch_id" "cs \<noteq> []"
  shows "wp (evaluate_events (api_decision_client ops tick hex) inst dp cs timeout)
    (\<lambda>_. released_or_handed inst) (\<lambda>_. released_or_handed inst) \<lparr>ee_world = w, ee_created = []\<rparr>"
  unfolding evaluate_events_def wp_bind
proof (rule wp_event_now, simp only: evaluating.simps Let_def)
  fix now and v :: "'c client \<times> 'x" assume v: "fst v = fst w"
  let ?body = "\<lambda>deadline. with_p (\<lambda>s. if supports_event_batch (api_decision_client ops tick hex) (ee_world s)
      then evaluate_batch_candidates (api_decision_client ops tick hex) inst dp cs deadline
      else evaluate_single_candidates (api_decision_client ops tick hex) inst dp deadline None cs)"
  have s: "tidy \<lparr>ee_world = v, ee_created = []\<rparr>" using assms(1) v by (simp add: tidy_def)
  have body: "wp (?body deadline) (\<lambda>_. tidy) (\<lambda>_. accounted inst) \<lparr>ee_world = v, ee_created = []\<rparr>" for deadline
    using batch_accounted [OF s assms(2,3)] single_accounted [OF s assms(2)] by (simp add: wp_with wp_if)
  have cleanup: "wp (with_event_cleanup (api_decision_client ops tick hex) inst overall (?body deadline))
      (\<lambda>_. released_or_handed inst) (\<lambda>_. released_or_handed inst) \<lparr>ee_world = v, ee_created = []\<rparr>" for overall deadline
    unfolding with_event_cleanup_def wp_try_else wp_then wp_ret wp_raise
    by (rule wp_mono [OF body]) (auto intro!: cleanup_accounted wp_mono [OF cleanup_accounted])
  show "wp (with_event_cleanup (api_decision_client ops tick hex) inst (now + timeout)
      (?body (now + timeout - min 1 (timeout / (of_nat (length cs) + 1)))))
      (\<lambda>_. released_or_handed inst) (\<lambda>_. released_or_handed inst) \<lparr>ee_world = v, ee_created = []\<rparr>"
    by (rule cleanup)
qed

end

section \<open>Over TCP\<close>

lemma raises_await: "raises_only (\<lambda>e. \<not> is_answer e) (await_p scoped)"
proof -
  have "\<not> is_answer e" if "await_io scoped io = (Inl e, io')" for io e io'
    using that by (induction scoped io rule: await_io.induct) (auto simp: is_answer_def split: if_splits)
  then show ?thesis by (auto simp: raises_only_def await_p_def split: prod.splits)
qed

lemma raises_try:
  "raises_only F m \<Longrightarrow> (\<And>e. F e \<Longrightarrow> raises_only E (h e)) \<Longrightarrow> raises_only E (try_p m h)"
  by (auto simp: raises_only_def try_p_def split: prod.splits sum.splits) (metis)

interpretation tcp_branches: branch_connection "tcp_ops cx" for cx
proof
  have "raises_only (\<lambda>e. \<not> is_answer e) invalidate"
    unfolding invalidate_def disconnect_def
    by (intro raises_intro raises_await raises_try [OF raises_await])
  then show "\<not> is_answer e" if "op_invalidate (tcp_ops cx) c = (Inl e, c')" for c e c'
    using that by (auto simp: tcp_ops_def raises_only_def)
qed

lemma event_candidates_ids:
  "event_candidates dc dp index as w = (Inr cs, w') \<Longrightarrow> \<forall>c \<in> set cs. fst c \<noteq> [] \<and> fst c \<noteq> root_branch_id"
proof (induction as arbitrary: index w cs)
  case (Cons a as)
  then show ?case
    by (fastforce simp: bind_p_def ret_p_def event_branch_id_def root_branch_id_def
        split: option.splits prod.splits sum.splits)
qed (simp add: ret_p_def)

lemma event_candidates_client:
  "fst (snd (event_candidates (api_decision_client ops tick hex) dp index as w)) = fst w"
proof (induction as arbitrary: index w)
  case (Cons a as)
  show ?case
    by (auto simp: bind_p_def ret_p_def split: option.split prod.split sum.split)
      (metis Cons.IH fst_conv snd_conv)+
qed (simp add: ret_p_def)


definition demo_event_codec :: codec where
  "demo_event_codec = \<lparr>dumps = (\<lambda>_. ''q''), loads = (\<lambda>_. None)\<rparr>"

definition demo_event_client :: "tcp client" where
  "demo_event_client =
     \<lparr>session_id = ''s'', audit_state = audit_init False, instance_id = Some ''i'', instance_type = None,
      pending_start_instance_type = None, max_emulate_actions_items = Some 8,
      connection = \<lparr>tcp_session = ''s'', tcp_max_message = 1000, tcp_max_response = 1000, tcp_stream = Some False,
        tcp_closed = False, tcp_epoch = Some ''e'', tcp_script = [IoDone, IoDone, IoTimeout], tcp_written = [],
        tcp_clock = [], tcp_locks = []\<rparr>,
      next_request_seq = 2, pending_retry = None, session_invalid = False,
      emulate_actions_boundaries = {''event_choice''}, pending_retry_cleanup = None\<rparr>"

abbreviation demo_dc :: "(tcp client \<times> nat) decision_client" where
  "demo_dc \<equiv> api_decision_client (tcp_ops demo_event_codec) (\<lambda>n. (0, n)) (\<lambda>n. (show_nat n, Suc n))"

definition demo_event_cs :: "event_candidate list" where
  "demo_event_cs = [(''event-eval-d-0-0'', ''a'', 1), (''event-eval-d-1-1'', ''b'', 2)]"

definition demo_event_request :: pydict where
  "demo_event_request =
     [(''schema_version'', PStr ''0.8''), (''client_session_id'', PStr ''s''), (''request_seq'', PInt 2),
      (''request_id'', PStr ''s:2''), (''operation'', PStr ''emulate_actions''), (''instance_id'', PStr ''i''),
      (''items'', PList (map (PDict \<circ> event_item ''d'') demo_event_cs))]"

text \<open>the batch times out after it was sent\<close>

definition demo_event_end :: "(tcp client \<times> nat) evaluating" where
  "demo_event_end = snd (evaluate_events demo_dc ''i'' ''d'' demo_event_cs 5
     \<lparr>ee_world = (demo_event_client, 2), ee_created = []\<rparr>)"

lemma demo_digits: "show_nat 0 = ''0''" "show_nat (Suc 0) = ''1''"
  by code_simp+

lemma demo_event_candidates:
  "event_candidates demo_dc ''d'' 0 demo_event_options (demo_event_client, 0) = (Inr demo_event_cs, (demo_event_client, 2))"
  by (simp add: demo_event_options_def demo_event_cs_def event_branch_id_def bind_p_def ret_p_def
      demo_digits numeral_2_eq_2)

lemma demo_event_pending:
  "pending_retry (fst (ee_world demo_event_end)) = Some (from_message demo_event_request)"
  by code_simp


end
