(* ===== verification/Client_Log.thy ===== *)
theory Client_Log
  imports Client_Sequence
begin

text \<open>
  What one call of the client puts on the wire: at most one message, of the operation that was called.
  \<open>silent\<close> steps leave the log alone, a step that \<open>sends P\<close> appends one entry, whose message
  satisfies \<open>P\<close>, and none only when it raises.
\<close>

section \<open>Silent steps\<close>

definition silent :: "('c wire client, exn, 'a) py \<Rightarrow> bool" where
  "silent m \<longleftrightarrow> (\<forall>l. keeps (\<lambda>s. log_of s = l) m)"

lemma silent_log: "silent m \<Longrightarrow> log_of (snd (m s)) = log_of s"
  unfolding silent_def keeps_def by blast

lemma quiet_silent: "quiet m \<Longrightarrow> silent m"
  unfolding silent_def keeps_def using quiet_core [of m] by (simp add: core_def)

lemmas silent_quiet [keeps_intro] =
  quiet_silent [OF quiet_record] quiet_silent [OF quiet_record_batch] quiet_silent [OF quiet_validate]
  quiet_silent [OF quiet_invalidate] quiet_silent [OF quiet_accept_decision]

lemma silent_basic [keeps_intro]: "silent (ret_p x)" "silent (raise_p e)" "silent (lift_p r)"
  unfolding silent_def by (auto intro: keeps_intro)

lemma silent_bind [keeps_intro]: "silent m \<Longrightarrow> (\<And>x. silent (f x)) \<Longrightarrow> silent (bind_p m f)"
  and silent_then [keeps_intro]: "silent m \<Longrightarrow> silent k \<Longrightarrow> silent (then_p m k)"
  and silent_try [keeps_intro]: "silent n \<Longrightarrow> (\<And>e. silent (h e)) \<Longrightarrow> silent (try_p n h)"
  and silent_try_else [keeps_intro]:
    "silent b \<Longrightarrow> (\<And>y. silent (g y)) \<Longrightarrow> (\<And>e. silent (h' e)) \<Longrightarrow> silent (try_else b g h')"
  and silent_with [keeps_intro]: "(\<And>s. silent (w s)) \<Longrightarrow> silent (with_p w)"
  unfolding silent_def by (auto intro: keeps_intro)

lemma silent_if [keeps_intro]: "(b \<Longrightarrow> silent m) \<Longrightarrow> (\<not> b \<Longrightarrow> silent n) \<Longrightarrow> silent (if b then m else n)"
  by simp

lemma silent_modify [keeps_intro]: "(\<And>s. connection (f s) = connection s) \<Longrightarrow> silent (modify_p f)"
  by (simp add: silent_def keeps_def modify_p_def)

text \<open>the handlers of an exchange and the bookkeeping after it\<close>

lemma silent_sequence [keeps_intro]:
  "silent ensure_fresh_request_allowed" "silent (remember_pending retry)" "silent (consume_sequence retry)"
  "silent (mark_protocol_uncertain (record_ops ops) m)"
  unfolding ensure_fresh_request_allowed_def remember_pending_def consume_sequence_def mark_protocol_uncertain_def
  by (auto intro!: keeps_intro)

lemma silent_exchange_error [keeps_intro]: "silent (on_exchange_error retry e)"
  unfolding on_exchange_error_def
  by (cases e) (auto intro!: keeps_intro simp: invalidate_session_def)

lemma silent_operation_error [keeps_intro]: "silent (on_operation_error retry r e)"
  unfolding on_operation_error_def Let_def
  by (auto intro!: keeps_intro simp: invalidate_session_def clear_instance_extensions_def clear_instance_def)

lemma silent_accept [keeps_intro]: "silent n \<Longrightarrow> silent (accept_or_uncertain (record_ops ops) m n)"
  unfolding accept_or_uncertain_def by (intro keeps_intro)

lemma silent_selected_error [keeps_intro]:
  "(\<And>r e. silent (rec r e)) \<Longrightarrow> silent (on_selected_error rec r e)"
  unfolding on_selected_error_def by (cases "api_operation_response e") (auto intro!: keeps_intro)

lemma silent_defer: "silent (defer_branch_cleanup_after_retry retry inst bs)"
  unfolding defer_branch_cleanup_after_retry_def by (intro keeps_intro) simp

section \<open>One message per call\<close>

text \<open>a step that never returns a value\<close>

definition raising :: "('s, 'e, 'a) py \<Rightarrow> bool" where
  "raising m \<longleftrightarrow> (\<forall>s. isl (fst (m s)))"

lemma raising_raise: "raising (raise_p e)"
  and raising_with: "(\<And>s. raising (w s)) \<Longrightarrow> raising (with_p w)"
  and raising_if: "raising n \<Longrightarrow> raising k \<Longrightarrow> raising (if b then n else k)"
  by (simp_all add: raising_def raise_p_def with_p_def)

lemma raising_bind: "(\<And>x. raising (f x)) \<Longrightarrow> raising (bind_p m f)"
  unfolding raising_def bind_p_def by (simp split: prod.split sum.split)

lemma raising_then: "raising n \<Longrightarrow> raising (then_p m n)"
  unfolding then_p_def by (rule raising_bind)

lemmas raising_intro = raising_raise raising_with raising_if raising_then raising_bind

lemma raising_exchange_error: "raising (on_exchange_error retry e)"
  unfolding on_exchange_error_def by (cases e) (auto intro!: raising_intro)

lemma raising_selected_error: "raising (on_selected_error rec r e)"
  unfolding on_selected_error_def by (cases "api_operation_response e") (auto intro!: raising_intro)

definition sends :: "(pydict \<Rightarrow> bool) \<Rightarrow> ('c wire client, exn, 'a) py \<Rightarrow> bool" where
  "sends P m \<longleftrightarrow> (\<forall>s. \<exists>xs. log_of (snd (m s)) = log_of s @ xs \<and> length xs \<le> 1 \<and> (\<forall>x \<in> set xs. P (fst x)) \<and>
     (xs = [] \<longrightarrow> isl (fst (m s))))"

lemma silent_sends: "silent m \<Longrightarrow> raising m \<Longrightarrow> sends P m"
  unfolding sends_def raising_def using silent_log [of m] by (intro allI exI [of _ "[]"]) simp

lemma sends_raise: "sends P (raise_p e)"
  by (intro silent_sends silent_basic raising_raise)

lemma sends_mono: "sends P m \<Longrightarrow> (\<And>x. P x \<Longrightarrow> P' x) \<Longrightarrow> sends P' m"
  unfolding sends_def by blast

lemma silent_then_sends:
  assumes "silent m" "\<And>x. sends P (f x)"
  shows "sends P (bind_p m f)"
proof -
  have "\<exists>xs. log_of (snd (bind_p m f s)) = log_of s @ xs \<and> length xs \<le> 1 \<and> (\<forall>x \<in> set xs. P (fst x)) \<and>
      (xs = [] \<longrightarrow> isl (fst (bind_p m f s)))" for s
  proof (cases "m s")
    case (Pair r t)
    then have t: "log_of t = log_of s" using silent_log [OF assms(1), of s] by simp
    show ?thesis
    proof (cases r)
      case (Inl e)
      with Pair t show ?thesis by (intro exI [of _ "[]"]) (simp add: bind_p_def)
    next
      case (Inr x)
      with Pair have "bind_p m f s = f x t" by (simp add: bind_p_def)
      with assms(2) [of x] t show ?thesis unfolding sends_def by metis
    qed
  qed
  then show ?thesis by (simp add: sends_def)
qed

lemma silent_next_sends: "silent m \<Longrightarrow> sends P n \<Longrightarrow> sends P (then_p m n)"
  unfolding then_p_def by (rule silent_then_sends)

lemma sends_if: "sends P m \<Longrightarrow> sends P n \<Longrightarrow> sends P (if b then m else n)"
  by simp

lemma sends_with: "(\<And>s. sends P (f s)) \<Longrightarrow> sends P (with_p f)"
  by (simp add: sends_def with_p_def)

lemma sends_else:
  assumes "sends P m" "\<And>x. silent (f x)" "\<And>e. silent (h e)" "\<And>e. raising (h e)"
  shows "sends P (try_else m f h)"
proof -
  have log: "log_of (snd (try_else m f h s)) = log_of (snd (m s))" for s
    using silent_log [OF assms(2)] silent_log [OF assms(3)]
    by (auto simp: try_else_def split: prod.splits sum.splits)
  have "isl (fst (try_else m f h s))" if "isl (fst (m s))" for s
    using that assms(4) by (auto simp: try_else_def raising_def split: prod.splits sum.splits)
  with assms(1) show ?thesis unfolding sends_def log by blast
qed

lemma sends_then_silent:
  assumes "sends P m" "\<And>x. silent (f x)"
  shows "sends P (bind_p m f)"
proof -
  have log: "log_of (snd (bind_p m f s)) = log_of (snd (m s))" for s
    using silent_log [OF assms(2)] by (auto simp: bind_p_def split: prod.splits sum.splits)
  have "isl (fst (bind_p m f s))" if "isl (fst (m s))" for s
    using that by (auto simp: bind_p_def split: prod.splits sum.splits)
  with assms(1) show ?thesis unfolding sends_def log by blast
qed

lemma sends_exchange: "P m \<Longrightarrow> sends P (conn_p (op_exchange (record_ops ops) m d))"
  by (auto simp: sends_def conn_p_def record_ops_def split: prod.split)

lemma sends_execute:
  assumes "P m"
  shows "sends P (execute (record_ops ops) m d)"
proof -
  have check: "silent (case api_operation_response e of
      Some r \<Rightarrow> on_operation_error token r e
    | None \<Rightarrow> if e = ApiProtocolError then then_p (mark_protocol_uncertain (record_ops ops) m) (raise_p e) else raise_p e)"
    for token e by (cases "api_operation_response e") (auto intro!: keeps_intro)
  have "sends P (if seq \<noteq> Some (next_request_seq s) then raise_p RuntimeError
      else if pending_retry s \<noteq> None \<and> pending_retry s \<noteq> Some token then raise_p RuntimeError
      else
        try_else (conn_p (op_exchange (record_ops ops) m d))
          (\<lambda>response. try_p (validate_api_response m response)
             (\<lambda>e. case api_operation_response e of
                    Some r \<Rightarrow> on_operation_error token r e
                  | None \<Rightarrow> if e = ApiProtocolError
                      then then_p (mark_protocol_uncertain (record_ops ops) m) (raise_p e) else raise_p e))
          (on_exchange_error token))" for seq token and s :: "'a wire client"
    by (intro sends_if sends_raise sends_else sends_exchange assms silent_try
        silent_exchange_error raising_exchange_error check) (auto intro: keeps_intro)
  then show ?thesis
    unfolding execute_def Let_def by (intro silent_then_sends silent_basic sends_with)
qed

lemma sends_built:
  assumes "\<And>s m. b s = Inr m \<Longrightarrow> P m" "\<And>m. P m \<Longrightarrow> sends P (f m)"
  shows "sends P (bind_p (with_p (\<lambda>s. lift_p (b s))) f)"
proof -
  have "\<exists>xs. log_of (snd (bind_p (with_p (\<lambda>s. lift_p (b s))) f s)) = log_of s @ xs \<and> length xs \<le> 1 \<and>
      (\<forall>x \<in> set xs. P (fst x)) \<and> (xs = [] \<longrightarrow> isl (fst (bind_p (with_p (\<lambda>s. lift_p (b s))) f s)))" for s
    using assms unfolding sends_def by (cases "b s") (auto simp: bind_p_def with_p_def lift_p_def)
  then show ?thesis by (simp add: sends_def)
qed

lemma sends_deadline:
  assumes "\<And>d. sends P (body d)"
  shows "sends P (operation_deadline (record_ops ops) t body)"
proof -
  have "sends P (case l of LockAcquired \<Rightarrow> body d
      | LockTimeout \<Rightarrow> raise_p (TransportError TransportPlain False None)
      | LockCancelled \<Rightarrow> raise_p (CancelledError False None))" for l d
    using assms by (cases l) (auto intro: sends_raise)
  then have "sends P (bind_p (conn_p (\<lambda>c. case op_time (record_ops ops) c of (t, c') \<Rightarrow> (Inr t, c'))) (\<lambda>now.
           bind_p (conn_p (\<lambda>c. case op_lock (record_ops ops) (now + t) c of (l, c') \<Rightarrow> (Inr l, c'))) (\<lambda>l.
             case l of
               LockAcquired \<Rightarrow> body (now + t)
             | LockTimeout \<Rightarrow> raise_p (TransportError TransportPlain False None)
             | LockCancelled \<Rightarrow> raise_p (CancelledError False None))))"
    by (intro silent_then_sends quiet_silent quiet_clock)
  then show ?thesis
    unfolding operation_deadline_def by (simp add: sends_raise)
qed

lemma sends_fresh: "(\<And>s m. b s = Inr m \<Longrightarrow> P m) \<Longrightarrow> (\<And>d m. P m \<Longrightarrow> sends P (f d m)) \<Longrightarrow>
    sends P (operation_deadline (record_ops ops) t (\<lambda>d. then_p ensure_fresh_request_allowed
      (bind_p (with_p (\<lambda>s. lift_p (b s))) (f d))))"
  by (intro sends_deadline silent_next_sends silent_sequence sends_built) auto

lemma sends_selected: "P m \<Longrightarrow> sends P (execute_selected_action (record_ops ops) m source d)"
  unfolding execute_selected_action_def Let_def
  by (intro sends_else sends_execute raising_selected_error) (auto intro!: keeps_intro)

section \<open>The calls\<close>

definition is_operation :: "string \<Rightarrow> pydict \<Rightarrow> bool" where
  "is_operation op m \<longleftrightarrow> dget m ''operation'' = PStr op"

text \<open>a commit of that action at that decision point\<close>

definition is_commit :: "string \<Rightarrow> string \<Rightarrow> string \<Rightarrow> pydict \<Rightarrow> bool" where
  "is_commit inst dp aid m \<longleftrightarrow> is_operation ''commit_action'' m \<and> dget m ''instance_id'' = PStr inst \<and>
     dget m ''decision_point_id'' = PStr dp \<and> dget m ''action_id'' = PStr aid"

lemma operation_built: "new_request s n op fs = Inr m \<Longrightarrow> is_operation op m"
  by (simp add: is_operation_def dget_new_request)

lemma sends_get_decision: "sends (is_operation ''get_decision'') (get_decision (record_ops ops) inst branch t)"
  unfolding get_decision_def
  by (rule sends_fresh)
    (auto simp: build_get_decision_def then_r_eq_Inr operation_built
      intro!: sends_then_silent [OF sends_execute] keeps_intro)

lemma sends_commit_action:
  "sends (is_commit inst dp aid) (commit_action (record_ops ops) (PStr inst) (PStr dp) (PStr aid) t)"
proof -
  have "is_commit inst dp aid m"
    if "build_commit_action s n (PStr inst) (PStr dp) (PStr aid) = Inr m" for n m and s :: "'a wire client"
  proof -
    from that obtain fs where m: "new_request s n ''commit_action'' fs = Inr m"
      and fs: "fs = [(''instance_id'', PStr inst), (''branch_id'', PStr root_branch_id), (''rng_id'', PInt root_rng_id),
          (''decision_point_id'', PStr dp), (''action_id'', PStr aid)]"
      by (auto simp: build_commit_action_def then_r_eq_Inr)
    show ?thesis
      using operation_built [OF m] dget_new_request(5) [OF m] by (simp add: is_commit_def fs)
  qed
  then show ?thesis
    unfolding commit_action_def by (intro sends_fresh sends_selected)
qed

lemma sends_emulate_action:
  "sends (is_operation ''emulate_action'') (emulate_action (record_ops ops) inst p b r d a t opts)"
  unfolding emulate_action_def
  by (intro sends_fresh sends_selected)
    (auto simp: build_emulate_action_def then_r_eq_Inr operation_built)

lemma sends_emulate_actions:
  "sends (is_operation ''emulate_actions'') (emulate_actions (record_ops ops) inst items t opts)"
proof -
  have "sends (is_operation ''emulate_actions'') (execute_emulate_actions (record_ops ops) m d)"
    if "is_operation ''emulate_actions'' m" for m d
    unfolding execute_emulate_actions_def Let_def
    by (intro sends_else sends_execute raising_selected_error that) (auto intro!: keeps_intro)
  then show ?thesis
    unfolding emulate_actions_def
    by (intro sends_fresh) (auto simp: build_emulate_actions_def then_r_eq_Inr operation_built)
qed

lemma sends_branch_batch:
  "sends (is_operation op) (branch_batch_operation (record_ops ops) op inst bs t)"
  unfolding branch_batch_operation_def
  by (rule sends_fresh)
    (auto simp: build_branch_batch_operation_def then_r_eq_Inr operation_built
      intro!: sends_then_silent [OF sends_execute] keeps_intro)

lemma sends_branches:
  "sends (is_operation ''release_branches'') (release_branches (record_ops ops) inst bs t)"
  "sends (is_operation ''cancel_branches'') (cancel_branches (record_ops ops) inst bs t)"
  unfolding release_branches_def cancel_branches_def by (rule sends_branch_batch)+

lemma sends_close_instance:
  "sends (is_operation ''close_instance'') (close_instance (record_ops ops) inst t)"
  unfolding close_instance_def
  by (rule sends_fresh)
    (auto simp: build_close_instance_def then_r_eq_Inr operation_built clear_instance_extensions_def accept_close_instance_def
        clear_instance_def
      intro!: sends_then_silent [OF sends_execute] keeps_intro)

section \<open>Commits\<close>

text \<open>the commit requests of a log with their outcomes\<close>

definition commits :: "wire_entry list \<Rightarrow> wire_entry list" where
  "commits l = filter (is_operation ''commit_action'' \<circ> fst) l"

lemma commits_append: "commits (l @ l') = commits l @ commits l'"
  by (simp add: commits_def)

lemma sends_keeps_commits:
  assumes "sends (is_operation op) m" "op \<noteq> ''commit_action''"
  shows "commits (log_of (snd (m s))) = commits (log_of s)"
proof -
  obtain xs where "log_of (snd (m s)) = log_of s @ xs" "\<forall>x \<in> set xs. is_operation op (fst x)"
    using assms(1) unfolding sends_def by blast
  with assms(2) show ?thesis by (auto simp: commits_append) (auto simp: commits_def filter_empty_conv is_operation_def)
qed

lemma calls_keep_commits:
  "commits (log_of (snd (get_decision (record_ops ops) inst b t s))) = commits (log_of s)"
  "commits (log_of (snd (emulate_action (record_ops ops) inst p b r d a t opts s))) = commits (log_of s)"
  "commits (log_of (snd (emulate_actions (record_ops ops) inst items t opts s))) = commits (log_of s)"
  "commits (log_of (snd (release_branches (record_ops ops) inst bs t s))) = commits (log_of s)"
  "commits (log_of (snd (cancel_branches (record_ops ops) inst bs t s))) = commits (log_of s)"
  "commits (log_of (snd (close_instance (record_ops ops) inst t s))) = commits (log_of s)"
  "commits (log_of (snd (defer_branch_cleanup_after_retry retry inst cs s))) = commits (log_of s)"
  by (rule sends_keeps_commits,
      rule sends_get_decision sends_emulate_action sends_emulate_actions sends_branches sends_close_instance, simp)+
    (simp add: silent_log [OF silent_defer])

text \<open>the response an operation returns is the one on the wire\<close>

definition replied :: "pydict \<Rightarrow> wire_entry list \<Rightarrow> bool" where
  "replied x l \<longleftrightarrow> (\<exists>l' m. l = l' @ [(m, Inr (PDict x))])"

lemma silent_wp: "silent m \<Longrightarrow> wp m (\<lambda>_ t. log_of t = log_of s) (\<lambda>_ t. log_of t = log_of s) s"
  using silent_log [of m s] by (auto simp: wp_def split: prod.splits sum.splits)

lemma silent_replied:
  assumes "silent m" "replied x (log_of s)"
  shows "wp m (\<lambda>_ t. replied x (log_of t)) (\<lambda>_ _. True) s"
  by (rule wp_mono [OF silent_wp [OF assms(1)]]) (use assms(2) in simp_all)

lemma raising_wp: "raising m \<Longrightarrow> wp m Q (\<lambda>_ _. True) s"
  by (auto simp: raising_def wp_def split: prod.splits sum.splits dest: spec [of _ s])

lemma raising_operation_error: "raising (on_operation_error retry r e)"
  unfolding on_operation_error_def Let_def by (intro raising_intro)

lemma validate_replied:
  assumes "log_of s = l @ [(m, Inr v)]"
  shows "wp (validate_api_response m v) (\<lambda>x t. replied x (log_of t)) (\<lambda>_ _. True) s"
proof -
  have "v = PDict x" if "validate_api_response m v s = (Inr x, t)" for x t
    using that by (auto simp: validate_api_response_def bind_p_def then_p_def lift_p_def ret_p_def check_envelope_Inr(1)
        split: sum.splits prod.splits)
  moreover have "log_of (snd (validate_api_response m v s)) = log_of s"
    by (rule silent_log [OF quiet_silent [OF quiet_validate]])
  ultimately show ?thesis
    using assms by (auto simp: wp_def replied_def split: prod.splits sum.splits)
qed

lemma execute_replied:
  "wp (execute (record_ops ops) m d) (\<lambda>x t. replied x (log_of t)) (\<lambda>_ _. True) s"
proof -
  have handler: "raising (case api_operation_response e of
      Some r \<Rightarrow> on_operation_error retry r e
    | None \<Rightarrow> if e = ApiProtocolError then then_p (mark_protocol_uncertain (record_ops ops) m) (raise_p e) else raise_p e)"
    for retry e by (cases "api_operation_response e") (auto intro!: raising_intro raising_operation_error)
  have exchange: "wp (conn_p (op_exchange (record_ops ops) m d)) (\<lambda>v t. \<exists>l. log_of t = l @ [(m, Inr v)]) (\<lambda>_ _. True) t" for t
    by (auto simp: wp_def conn_p_def record_ops_def split: prod.splits sum.splits)
  have "wp (try_else (conn_p (op_exchange (record_ops ops) m d))
      (\<lambda>response. try_p (validate_api_response m response)
         (\<lambda>e. case api_operation_response e of
                Some r \<Rightarrow> on_operation_error retry r e
              | None \<Rightarrow> if e = ApiProtocolError
                  then then_p (mark_protocol_uncertain (record_ops ops) m) (raise_p e) else raise_p e))
      (on_exchange_error retry)) (\<lambda>x t. replied x (log_of t)) (\<lambda>_ _. True) t" for retry t
    unfolding wp_try_else wp_try
    by (rule wp_mono [OF exchange])
      (auto intro!: raising_wp raising_exchange_error wp_mono [OF validate_replied] handler)
  then show ?thesis
    by (simp add: execute_def Let_def wp_bind wp_with wp_lift wp_raise split: sum.split)
qed

lemma selected_replied:
  "wp (execute_selected_action (record_ops ops) m source d) (\<lambda>x t. replied x (log_of t)) (\<lambda>_ _. True) s"
proof -
  let ?Q = "\<lambda>x t. replied x (log_of t)" and ?E = "\<lambda>_ _. True"
  have settle: "wp (try_else
      (then_p (accept_or_uncertain (record_ops ops) m (lift_p (validate_selected_action_response m r)))
         (consume_sequence (from_message m)))
      (\<lambda>_. then_p (record_selected_action m source (Some r) None) (ret_p r))
      (on_selected_error (record_selected_action m source) (Some r))) ?Q ?E t"
    if t: "replied r (log_of t)" for r and t :: "'a wire client"
    unfolding wp_try_else
  proof (rule wp_mono [OF silent_replied [OF _ t]])
    fix u :: "'a wire client" assume u: "replied r (log_of u)"
    show "wp (then_p (record_selected_action m source (Some r) None) (ret_p r)) ?Q ?E u"
      unfolding wp_then wp_ret by (rule silent_replied [OF _ u]) (intro keeps_intro)
  qed (auto intro!: keeps_intro raising_wp raising_selected_error)
  show ?thesis
    unfolding execute_selected_action_def Let_def wp_try_else [of "execute (record_ops ops) m d"]
    by (rule wp_mono [OF execute_replied], erule settle, intro raising_wp raising_selected_error)
qed

text \<open>one commit, and none only when the call raises\<close>

definition committed :: "wire_entry list \<Rightarrow> string \<Rightarrow> string \<Rightarrow> string \<Rightarrow> wire_entry list \<Rightarrow> bool" where
  "committed c inst dp aid c' \<longleftrightarrow> (\<exists>e. c' = c @ [e] \<and> is_commit inst dp aid (fst e))"

lemma wp_after:
  "(\<And>x t. wp (f x) Q (\<lambda>_ _. True) t) \<Longrightarrow> wp (bind_p m f) Q (\<lambda>_ _. True) s"
  "(\<And>t. wp n Q (\<lambda>_ _. True) t) \<Longrightarrow> wp (then_p m n) Q (\<lambda>_ _. True) s"
  unfolding wp_bind wp_then by (rule wp_mono [OF wp_total], simp, simp)+

lemma deadline_replied:
  assumes "\<And>d u. wp (body d) Q (\<lambda>_ _. True) u"
  shows "wp (operation_deadline ops t body) Q (\<lambda>_ _. True) s"
proof -
  have "wp (case l of LockAcquired \<Rightarrow> body d
      | LockTimeout \<Rightarrow> raise_p (TransportError TransportPlain False None)
      | LockCancelled \<Rightarrow> raise_p (CancelledError False None)) Q (\<lambda>_ _. True) u" for l d u
    using assms by (cases l) (simp_all add: wp_raise)
  then show ?thesis
    unfolding operation_deadline_def by (simp add: wp_raise wp_after)
qed

lemma commit_replied:
  "wp (commit_action (record_ops ops) inst dp aid t) (\<lambda>x u. replied x (log_of u)) (\<lambda>_ _. True) s"
proof -
  have "wp (bind_p (with_p (\<lambda>s. lift_p (build_commit_action s (next_request_seq s) inst dp aid)))
      (\<lambda>request. execute_selected_action (record_ops ops) request (PStr root_branch_id) d))
      (\<lambda>x u. replied x (log_of u)) (\<lambda>_ _. True) u" for d and u :: "'a wire client"
    using selected_replied by (auto simp: wp_bind wp_with wp_lift split: sum.split)
  then have "wp (then_p ensure_fresh_request_allowed
      (bind_p (with_p (\<lambda>s. lift_p (build_commit_action s (next_request_seq s) inst dp aid)))
        (\<lambda>request. execute_selected_action (record_ops ops) request (PStr root_branch_id) d)))
      (\<lambda>x u. replied x (log_of u)) (\<lambda>_ _. True) u" for d and u :: "'a wire client"
    by (rule wp_after)
  then show ?thesis
    unfolding commit_action_def by (rule deadline_replied)
qed

lemma commit_action_commits:
  "wp (commit_action (record_ops ops) (PStr inst) (PStr dp) (PStr aid) t)
     (\<lambda>x u. committed (commits (log_of s)) inst dp aid (commits (log_of u)) \<and> replied x (commits (log_of u)))
     (\<lambda>_ u. commits (log_of u) = commits (log_of s) \<or>
        committed (commits (log_of s)) inst dp aid (commits (log_of u))) s"
proof -
  let ?m = "commit_action (record_ops ops) (PStr inst) (PStr dp) (PStr aid) t"
  obtain xs where xs: "log_of (snd (?m s)) = log_of s @ xs"
    and one: "length xs \<le> 1" "\<forall>x \<in> set xs. is_commit inst dp aid (fst x)" "xs = [] \<longrightarrow> isl (fst (?m s))"
    using sends_commit_action unfolding sends_def by blast
  show ?thesis
  proof (cases xs)
    case Nil
    with xs one(3) show ?thesis by (auto simp: wp_def split: prod.splits sum.splits)
  next
    case (Cons e ys)
    then obtain m r where e: "log_of (snd (?m s)) = log_of s @ [(m, r)]" "is_commit inst dp aid m"
      using xs one by (cases e) auto
    then have new: "commits (log_of (snd (?m s))) = commits (log_of s) @ [(m, r)]"
      by (simp add: commits_def is_commit_def)
    moreover have "replied x (commits (log_of s) @ [(m, r)])" if "?m s = (Inr x, u)" for x u
      using wpD_Inr [OF commit_replied that] e that by (auto simp: replied_def)
    ultimately show ?thesis
      using e(2) by (auto simp: wp_def committed_def split: prod.splits sum.splits)
  qed
qed

end
