(* ===== verification/Client_Errors.thy ===== *)
theory Client_Errors
  imports Event_Ownership Client_Log
begin

text \<open>
  The exceptions of a commit.  Building a request, checking its response and recording it in the audit raise
  only \<open>ordinary\<close> exceptions, never the \<open>NoAvailableActionError\<close> by which a decision without an action
  is reported; so a commit on an \<open>ordinary_connection\<close> does not either.
\<close>

definition ordinary :: "exn \<Rightarrow> bool" where
  "ordinary e \<longleftrightarrow> (\<forall>d. e \<noteq> NoAvailableActionError d)"

lemma ordinary_simps [simp]:
  "ordinary ValueError" "ordinary TypeError" "ordinary KeyError" "ordinary RuntimeError" "ordinary OverflowError"
  "ordinary AttributeError" "ordinary TimeoutError" "ordinary ConnectionOSError"
  "ordinary ApiProtocolError" "ordinary (RequestRejectedError r)" "ordinary (RequestFaultedError r)"
  "ordinary (TransportError k u t)" "ordinary (CancelledError u t)" "\<not> ordinary (NoAvailableActionError d)"
  by (simp_all add: ordinary_def)

section \<open>Pure checks\<close>

definition fails_ordinary :: "exn + 'a \<Rightarrow> bool" where
  "fails_ordinary r \<longleftrightarrow> (\<forall>e. r = Inl e \<longrightarrow> ordinary e)"

named_theorems fails_intro \<open>rules that lift ordinary failures through the error monad\<close>

lemma fails_Inr [fails_intro]: "fails_ordinary (Inr x)"
  and fails_Inl [fails_intro]: "ordinary e \<Longrightarrow> fails_ordinary (Inl e)"
  and fails_if [fails_intro]: "fails_ordinary r \<Longrightarrow> fails_ordinary r' \<Longrightarrow> fails_ordinary (if b then r else r')"
  and fails_raise_if [fails_intro]: "ordinary e \<Longrightarrow> fails_ordinary (raise_if b e)"
  and fails_in_str_set [fails_intro]: "fails_ordinary (in_str_set v xs)"
  by (simp_all add: fails_ordinary_def raise_if_def)

lemma fails_then [fails_intro]: "fails_ordinary r \<Longrightarrow> (\<And>x. fails_ordinary (f x)) \<Longrightarrow> fails_ordinary (then_r r f)"
  by (cases r) (simp_all add: fails_ordinary_def then_r_def)

lemma fails_for [fails_intro]: "(\<And>x. fails_ordinary (f x)) \<Longrightarrow> fails_ordinary (for_r f xs)"
  by (induction xs) (simp_all add: fails_intro)

lemma raises_ordinary: "fails_ordinary r \<Longrightarrow> raises_only ordinary (lift_p r)"
  by (auto simp: fails_ordinary_def raises_only_def lift_p_def)

lemma fails_fields [fails_intro]:
  "fails_ordinary (validate_non_empty_str v)" "fails_ordinary (require_non_empty_str d k)"
  "fails_ordinary (require_response_match d k v)" "fails_ordinary (require_status d ss)"
  "fails_ordinary (ditem d k)"
  unfolding validate_non_empty_str_def require_non_empty_str_def require_response_match_def require_status_def ditem_def
  by (auto intro!: fails_intro split: pyval.split option.split)

lemma fails_validate_instance [fails_intro]: "fails_ordinary (validate_instance_id s v)"
  unfolding validate_instance_id_def by (auto intro!: fails_intro split: option.split)

lemma fails_build_commit: "fails_ordinary (build_commit_action s n inst dp aid)"
  unfolding build_commit_action_def new_request_def by (intro fails_intro) simp_all

lemma fails_legal_action [fails_intro]: "fails_ordinary (validate_legal_action seen v)"
  unfolding validate_legal_action_def by (auto intro!: fails_intro split: pyval.split)

lemma fails_legal_actions [fails_intro]: "fails_ordinary (validate_legal_actions seen vs)"
  by (induction vs arbitrary: seen) (simp_all add: fails_intro)

lemma fails_payload [fails_intro]: "fails_ordinary (validate_decision_payload r)"
  unfolding validate_decision_payload_def Let_def by (auto intro!: fails_intro split: pyval.split)

lemma fails_expected [fails_intro]: "fails_ordinary (expected_items items)"
  by (induction items) (auto intro!: fails_intro split: pyval.split)

lemma fails_branch_result [fails_intro]: "fails_ordinary (validate_branch_result expected entry)"
  unfolding validate_branch_result_def by (auto intro!: fails_intro split: pyval.split option.split prod.split)

lemma fails_batch [fails_intro]:
  "fails_ordinary (validate_emulate_actions_response m r)" "fails_ordinary (check_branch_batch_response m r)"
  unfolding validate_emulate_actions_response_def check_branch_batch_response_def
  by (auto intro!: fails_intro split: pyval.split)

lemma fails_envelope [fails_intro]: "fails_ordinary (check_envelope m v)"
  unfolding check_envelope_def by (auto intro!: fails_intro split: pyval.split)

lemma fails_selected [fails_intro]: "fails_ordinary (validate_selected_action_response m r)"
  unfolding validate_selected_action_response_def by (intro fails_intro)

lemma fails_token [fails_intro]:
  "fails_ordinary (rr_str_field k t)" "fails_ordinary (rr_operation t)" "fails_ordinary (rr_request_seq t)"
  "fails_ordinary (rr_client_session_id t)"
  unfolding rr_operation_def rr_request_seq_def rr_client_session_id_def rr_str_field_def to_message_def
  by (auto intro!: fails_intro split: pyval.split)

lemma fails_received [fails_intro]: "fails_ordinary (received_decision a m source)"
  unfolding received_decision_def by (auto intro!: fails_intro split: option.split pyval.split)

section \<open>Steps of the client\<close>

lemma ordinary_record_action: "raises_only ordinary (record_action request source result err)"
  unfolding record_action_def Let_def
  by (intro raises_intro raises_with raises_ordinary fails_intro)
    (auto intro!: raises_intro raises_ordinary fails_intro split: prod.split option.split)

lemma ordinary_record [raises_intro]: "raises_only ordinary (record_selected_action request source result err)"
  using ordinary_record_action [of request source result err]
  by (auto simp: raises_only_def record_selected_action_def split: prod.splits)

lemma ordinary_validate: "raises_only ordinary (validate_api_response m v)"
  unfolding validate_api_response_def validate_branch_batch_response_def
  by (auto intro!: raises_intro raises_ordinary fails_intro split: pyval.split)

lemma raises_try_else:
  "raises_only F b \<Longrightarrow> (\<And>y. raises_only E (g y)) \<Longrightarrow> (\<And>e. F e \<Longrightarrow> raises_only E (h e)) \<Longrightarrow> raises_only E (try_else b g h)"
  unfolding raises_only_def try_else_def by (simp split: prod.split sum.split) metis

lemma ordinary_sequence [raises_intro]:
  "raises_only ordinary ensure_fresh_request_allowed" "raises_only ordinary (remember_pending t)"
  "raises_only ordinary (consume_sequence t)"
  unfolding ensure_fresh_request_allowed_def remember_pending_def consume_sequence_def
  by (auto intro!: raises_intro raises_ordinary fails_intro)

lemma ordinary_operation_error: "ordinary e \<Longrightarrow> raises_only ordinary (on_operation_error t r e)"
  unfolding on_operation_error_def Let_def by (auto intro!: raises_intro raises_ordinary fails_intro)

lemma ordinary_exchange_error: "ordinary e \<Longrightarrow> raises_only ordinary (on_exchange_error t e)"
  unfolding on_exchange_error_def by (cases e) (auto intro!: raises_intro)

lemma ordinary_selected_error: "ordinary e \<Longrightarrow> raises_only ordinary (on_selected_error (record_selected_action m source) r e)"
  unfolding on_selected_error_def by (cases "api_operation_response e") (auto intro!: raises_intro)

lemma raises_conn: "raises_only E (conn_p (\<lambda>c. case g c of (x, c') \<Rightarrow> (Inr x, c')))"
  by (auto simp: raises_only_def conn_p_def split: prod.splits)

text \<open>a connection that raises ordinary exceptions only\<close>

locale ordinary_connection =
  fixes ops :: "'c conn_ops"
  assumes exchange_ordinary: "op_exchange ops m d c = (Inl e, c') \<Longrightarrow> ordinary e"
    and invalidate_ordinary: "op_invalidate ops c = (Inl e, c') \<Longrightarrow> ordinary e"
begin

lemma ordinary_conn: "raises_only ordinary (conn_p (op_exchange ops m d))" "raises_only ordinary (conn_p (op_invalidate ops))"
  using exchange_ordinary invalidate_ordinary by (auto simp: raises_only_def conn_p_def split: prod.splits)

lemma ordinary_mark: "raises_only ordinary (mark_protocol_uncertain ops m)"
  unfolding mark_protocol_uncertain_def by (intro raises_intro ordinary_conn)

lemma ordinary_execute: "raises_only ordinary (execute ops m d)"
proof -
  have check: "raises_only ordinary (case api_operation_response e of
      Some r \<Rightarrow> on_operation_error t r e
    | None \<Rightarrow> if e = ApiProtocolError then then_p (mark_protocol_uncertain ops m) (raise_p e) else raise_p e)"
    if "ordinary e" for e t
    using that by (cases "api_operation_response e") (auto intro!: raises_intro ordinary_mark ordinary_operation_error)
  show ?thesis
    unfolding execute_def Let_def
    by (intro raises_intro raises_ordinary fails_intro ordinary_simps
        raises_try_else [OF ordinary_conn(1) raises_try [OF ordinary_validate check] ordinary_exchange_error])
qed

lemma ordinary_selected: "raises_only ordinary (execute_selected_action ops m source d)"
proof -
  have "raises_only ordinary (accept_or_uncertain ops m (lift_p (validate_selected_action_response m r)))" for r
    unfolding accept_or_uncertain_def
    by (intro raises_try [OF raises_ordinary [OF fails_selected]] raises_intro ordinary_mark) simp_all
  then have "raises_only ordinary (try_else
      (then_p (accept_or_uncertain ops m (lift_p (validate_selected_action_response m r)))
         (consume_sequence (from_message m)))
      (\<lambda>_. then_p (record_selected_action m source (Some r) None) (ret_p r))
      (on_selected_error (record_selected_action m source) (Some r)))" for r
    by (intro raises_try_else [where F = ordinary] raises_intro ordinary_selected_error)
  then show ?thesis
    unfolding execute_selected_action_def Let_def
    by (intro raises_try_else [OF ordinary_execute] ordinary_selected_error)
qed

lemma ordinary_deadline:
  assumes "\<And>d. raises_only ordinary (body d)"
  shows "raises_only ordinary (operation_deadline ops t body)"
proof -
  have "raises_only ordinary (case l of LockAcquired \<Rightarrow> body d
      | LockTimeout \<Rightarrow> raise_p (TransportError TransportPlain False None)
      | LockCancelled \<Rightarrow> raise_p (CancelledError False None))" for l d
    using assms by (cases l) (simp_all add: raises_intro)
  then show ?thesis
    unfolding operation_deadline_def by (intro raises_intro raises_conn ordinary_simps) simp_all
qed

theorem ordinary_commit: "raises_only ordinary (commit_action ops inst dp aid t)"
  unfolding commit_action_def
  by (intro ordinary_deadline raises_intro raises_ordinary fails_build_commit ordinary_selected)

lemma ordinary_recorded: "ordinary_connection (record_ops ops)"
  by unfold_locales (auto simp: record_ops_def dest: exchange_ordinary invalidate_ordinary split: prod.splits)

end

section \<open>Over TCP\<close>

lemma ordinary_await [raises_intro]: "raises_only ordinary (await_p scoped)"
proof -
  have "ordinary e" if "await_io scoped io = (Inl e, io')" for io e io'
    using that by (induction scoped io rule: await_io.induct) (auto split: if_splits)
  then show ?thesis by (auto simp: raises_only_def await_p_def split: prod.splits)
qed

lemma ordinary_read [raises_intro]: "raises_only ordinary read_response_frame"
proof -
  have read: "ordinary e" if "await_read n io = (Inl e, io')" for n io e io'
    using that by (induction n io rule: await_read.induct) auto
  have "ordinary e" if "read_frame limit received chunks io = (Inl e, io')" for limit received chunks io e io'
    using that
  proof (induction limit received chunks io rule: read_frame.induct)
    case (1 limit received chunks io)
    show ?case
      using 1(2) 1(1) read
      by (subst (asm) read_frame.simps) (fastforce simp: Let_def split: if_splits prod.splits sum.splits)
  qed
  then show ?thesis by (auto simp: raises_only_def read_response_frame_def split: prod.splits)
qed

lemma ordinary_plain [simp]: "ordinary plain_error"
  by (simp add: plain_error_def)

lemma ordinary_disconnect [raises_intro]: "raises_only ordinary (disconnect scoped)"
  unfolding disconnect_def by (intro raises_intro raises_try [OF ordinary_await]) simp_all

lemma ordinary_epoch [raises_intro]: "raises_only ordinary (assert_epoch epoch uncertain retry)"
  unfolding assert_epoch_def by (auto intro!: raises_intro split: option.split)

lemma fails_hello [fails_intro]: "fails_ordinary (check_hello session r)"
  unfolding check_hello_def by (auto intro!: fails_intro split: option.split pyval.split)

lemma ordinary_connect [raises_intro]: "raises_only ordinary (connect cx scoped)"
proof -
  have hello: "raises_only ordinary (hello cx)"
    unfolding hello_def write_line_def by (intro raises_intro raises_ordinary fails_intro)
  have "raises_only ordinary (on_connect_error scoped e)" if "ordinary e" for e :: exn
    using that unfolding on_connect_error_def by (auto intro!: raises_intro)
  with hello show ?thesis
    unfolding connect_def by (intro raises_intro raises_try [where F = ordinary]) simp_all
qed

lemma ordinary_request_error: "ordinary e \<Longrightarrow> raises_only ordinary (on_request_error sent token e)"
  unfolding on_request_error_def Let_def by (cases e) (auto intro!: raises_intro)

lemma ordinary_cancelled: "ordinary e \<Longrightarrow> raises_only ordinary (on_cancelled sent token e)"
proof -
  have "raises_only ordinary (try_p (disconnect False) (\<lambda>e. case e of CancelledError _ _ \<Rightarrow> ret_p () | _ \<Rightarrow> raise_p e))"
    by (intro raises_try [OF ordinary_disconnect]) (auto intro!: raises_intro split: exn.split)
  then show "ordinary e \<Longrightarrow> raises_only ordinary (on_cancelled sent token e)"
    unfolding on_cancelled_def by (cases e) (auto intro!: raises_intro)
qed

lemma ordinary_send: "raises_only ordinary (send_and_receive cx line token)"
proof -
  have "raises_only ordinary (decode_response cx v token)" for v
    unfolding decode_response_def by (auto intro!: raises_intro split: option.split pyval.split)
  moreover have "raises_only ordinary (try_p (then_p (write_line line) (then_p (await_p True) read_response_frame))
      (on_request_error True token))"
    unfolding write_line_def by (intro raises_try [where F = ordinary] raises_intro ordinary_request_error)
  ultimately show ?thesis
    unfolding send_and_receive_def by (auto intro!: raises_intro split: pyval.split)
qed

lemma ordinary_exchange: "raises_only ordinary (exchange cx m timeout_s deadline)"
proof -
  have "raises_only ordinary (resolve_deadline timeout_s deadline)"
    unfolding resolve_deadline_def by (auto intro!: raises_intro split: option.split list.split)
  moreover have "raises_only ordinary (try_p (then_p (await_p True) (connect cx True)) (on_request_error False token))" for token
    by (intro raises_try [where F = ordinary] raises_intro ordinary_request_error)
  moreover have "raises_only ordinary (try_p (send_and_receive cx line token) (on_cancelled True token))" for line token
    by (intro raises_try [where F = ordinary] ordinary_send ordinary_cancelled)
  ultimately show ?thesis
    unfolding exchange_def Let_def
    by (intro raises_intro raises_try_else [where F = ordinary] ordinary_cancelled) simp_all
qed

interpretation tcp_ordinary: ordinary_connection "tcp_ops cx" for cx
proof
  show "ordinary e" if "op_exchange (tcp_ops cx) m d c = (Inl e, c')" for m d c e c'
    using raises_onlyD [OF ordinary_exchange that [unfolded tcp_ops_def conn_ops.simps]] .
  have "raises_only ordinary invalidate"
    unfolding invalidate_def by (intro raises_intro)
  then show "ordinary e" if "op_invalidate (tcp_ops cx) c = (Inl e, c')" for c e c'
    using that by (auto simp: tcp_ops_def raises_only_def)
qed

end
