(* ===== verification/Decision_Session.thy ===== *)
theory Decision_Session
  imports Decision_Engine Client_Errors
begin

text \<open>
  The decision engine on the asynchronous client: the engine, its beam search and its event search share
  one client with its connection.  A decision is a piece of a session, and the only commit it puts on the
  wire is the commit of an action the decision offers.
\<close>

section \<open>The engine of a session\<close>

text \<open>an engine whose clock, ids and models live in \<open>'x\<close>, on the client\<close>

fun session_fallback :: "'x fallback \<Rightarrow> ('c \<times> 'x) fallback" where
  "session_fallback (ContextAware select) = ContextAware (\<lambda>actions dto. on_models (select actions dto))"
| "session_fallback (Legacy select) = Legacy (\<lambda>actions. on_models (select actions))"

definition session_decision_engine :: "'c conn_ops \<Rightarrow> 'x decision_engine \<Rightarrow> ('c client \<times> 'x) decision_engine" where
  "session_decision_engine ops de =
     \<lparr>de_client = api_decision_client ops (sc_now (de_client de)) (dc_uuid_hex (de_client de)),
      de_beam = session_engine ops (de_beam de), de_fallback = session_fallback (de_fallback de),
      de_event_branch_search = de_event_branch_search de, de_beam_search_enabled = de_beam_search_enabled de\<rparr>"

lemma session_decision_engine_simps [simp]:
  "de_client (session_decision_engine ops de) =
     api_decision_client ops (sc_now (de_client de)) (dc_uuid_hex (de_client de))"
  "de_beam (session_decision_engine ops de) = session_engine ops (de_beam de)"
  "de_fallback (session_decision_engine ops de) = session_fallback (de_fallback de)"
  by (simp_all add: session_decision_engine_def)

section \<open>Properties of a session that a decision keeps\<close>

text \<open>the calls of a decision before its commit\<close>

fun decision_call :: "api_call \<Rightarrow> bool" where
  "decision_call (Get_Decision _ _) = True"
| "decision_call (Emulate_Action _ _ _ _ _ _ _) = True"
| "decision_call (Emulate_Actions _ _ _) = True"
| "decision_call (Cancel_Branches _ _) = True"
| "decision_call (Release_Branches _ _) = True"
| "decision_call (Defer_Cleanup _ _ _) = True"
| "decision_call _ = False"

lemma keeps_on_client: "keeps P m \<Longrightarrow> keeps (\<lambda>w. P (fst w)) (on_client m)"
  by (simp add: keeps_def fst_on_client)

lemma keeps_map_p: "keeps P m \<Longrightarrow> keeps P (map_p f m)"
  unfolding map_p_def by (intro keeps_bind keeps_ret)

locale session_property =
  fixes ops :: "'c conn_ops" and P :: "'c wire client \<Rightarrow> bool"
  assumes calls: "P s \<Longrightarrow> decision_call c \<Longrightarrow> P (snd (run_call (record_ops ops) t c s))"

context session_property
begin

lemma call_keeps:
  "keeps P (get_decision (record_ops ops) inst b t)"
  "keeps P (emulate_action (record_ops ops) inst p b r d a t opts)"
  "keeps P (emulate_actions (record_ops ops) inst items t opts)"
  "keeps P (cancel_branches (record_ops ops) inst bs t)"
  "keeps P (release_branches (record_ops ops) inst bs t)"
  "keeps P (defer_branch_cleanup_after_retry retry inst cs)"
  using calls [where c = "Get_Decision inst b"] calls [where c = "Emulate_Action inst p b r d a opts"]
    calls [where c = "Emulate_Actions inst items opts"] calls [where c = "Cancel_Branches inst bs"]
    calls [where c = "Release_Branches inst bs"] calls [where c = "Defer_Cleanup retry inst cs"]
  by (simp_all add: keeps_def)

end

sublocale session_property \<subseteq> searching: search_world "session_engine (record_ops ops) en" "\<lambda>_ w. P (fst w)"
  for en :: "'x beam_engine"
proof unfold_locales
  fix w :: "'c wire client \<times> 'x" and ids inst items t opts
  assume "P (fst w)"
  then show "wp (sc_emulate_actions (be_client (session_engine (record_ops ops) en)) inst items t opts)
      (\<lambda>_ w. P (fst w)) (\<lambda>_ w. P (fst w)) w"
    unfolding api_client_def session_engine_simps search_client.simps
    by (rule keeps_wpI [OF keeps_on_client [OF call_keeps(3)]])
qed (auto simp: api_client_def fst_on_client session_engine_def keeps_models keeps_session_policy
    keepsD [OF call_keeps(4)] keepsD [OF call_keeps(5)] split: prod.splits)

sublocale session_property \<subseteq> deciding: decision_world "session_decision_engine (record_ops ops) de" "\<lambda>w. P (fst w)"
  for de :: "'x decision_engine"
proof unfold_locales
  fix actions dto
  show "keeps (\<lambda>w. P (fst w)) (select_fallback (de_fallback (session_decision_engine (record_ops ops) de)) actions dto)"
    by (cases "de_fallback de") (simp_all add: keeps_models)
next
  fix s :: "('c wire client \<times> 'x) searching" and decision inst search_id timeout fuel
  assume "P (fst (se_world s))" "dget decision ''decision_point_id'' \<noteq> PStr []"
  from searching.search_wp [of s decision "de_beam de" inst search_id timeout fuel] this
  show "wp (search (de_beam (session_decision_engine (record_ops ops) de)) inst search_id decision timeout fuel)
      (\<lambda>_ t. P (fst (se_world t))) (\<lambda>_ t. P (fst (se_world t))) s"
    by (auto simp: wp_def searching.searched_def split: prod.splits sum.splits)
qed (auto simp: api_client_def keeps_on_client keeps_map_p call_keeps split: prod.splits)

section \<open>Decisions and sessions\<close>

interpretation reachable: session_property ops "session_reach ops sid logger" for ops :: "'c conn_ops" and sid logger
  by unfold_locales (rule reach_run_call)

interpretation uncommitted: session_property ops "\<lambda>s. commits (log_of s) = c" for ops :: "'c conn_ops" and c
proof unfold_locales
  fix s :: "'c wire client" and call t
  assume "commits (log_of s) = c" "decision_call call"
  then show "commits (log_of (snd (run_call (record_ops ops) t call s))) = c"
    by (cases call) (simp_all add: calls_keep_commits)
qed

lemma reach_commit:
  "keeps (\<lambda>w. session_reach ops sid logger (fst w))
     (dc_commit_action (de_client (session_decision_engine (record_ops ops) de)) inst dp aid t)"
  using reach_run_call [where c = "Commit_Action (PStr inst) (PStr dp) (PStr aid)", simplified]
  by (auto simp: keeps_def fst_on_client)

text \<open>A decision is a piece of a session: with or without a commit, and whatever it returns or raises, a
  decision of the engine leads from a state a session can reach to a state that session can reach by
  calls of the client, so that all that holds in the reachable states of a session, its sequence
  numbers, its replays and the silence of a broken session, holds during play.\<close>

theorem decision_stays_in_session:
  assumes "session_reach ops sid logger (fst (se_world s))"
  shows "session_reach ops sid logger (fst (se_world (snd
      (decide (session_decision_engine (record_ops ops) de) inst search_id timeout_s decision fuel s)))) \<and>
    session_reach ops sid logger (fst (se_world (snd
      (decide_and_commit (session_decision_engine (record_ops ops) de) inst search_id timeout_s decision fuel s))))"
proof
  show "session_reach ops sid logger (fst (se_world (snd
      (decide (session_decision_engine (record_ops ops) de) inst search_id timeout_s decision fuel s))))"
    by (rule keepsD [OF reachable.deciding.keeps_decide assms])
  show "session_reach ops sid logger (fst (se_world (snd
      (decide_and_commit (session_decision_engine (record_ops ops) de) inst search_id timeout_s decision fuel s))))"
    by (rule keepsD [OF reachable.deciding.keeps_decide_and_commit [OF reach_commit] assms])
qed

theorem decision_stays_in_session_witness:
  "\<exists>s0. client_init ''s'' \<lparr>wire_conn = (), wire_log = []\<rparr> False = Inr s0 \<and>
     session_reach demo_ops ''s'' False (fst (se_world (snd
       (decide_and_commit (session_decision_engine (record_ops demo_ops) demo_decider) ''i'' ''x'' (PInt 5) PNone 0
          (idle_search (s0, ()))))))"
proof -
  obtain s0 where init: "client_init ''s'' \<lparr>wire_conn = (), wire_log = []\<rparr> False = Inr s0"
    by (auto simp: client_init_def validate_non_empty_str_def)
  then have "session_reach demo_ops ''s'' False (fst (se_world (idle_search (s0, ()))))"
    by (simp add: idle_search_def session_reach.start)
  with init show ?thesis using decision_stays_in_session by blast
qed

text \<open>a commit of an available action of the decision the engine was given or has read\<close>

definition offered_commit :: "string \<Rightarrow> pyval \<Rightarrow> pydict \<Rightarrow> bool" where
  "offered_commit inst decision m \<longleftrightarrow>
     (\<exists>current dp dto actions a aid. decision \<in> {PNone, PDict current} \<and>
        read_decision (PDict current) = Inr (current, dp, dto, actions) \<and> a \<in> set actions \<and> is_available a \<and>
        dget a ''action_id'' = PStr aid \<and> is_commit inst dp aid m)"

lemma decided_offered_commit:
  assumes "decided decision out" "do_chosen out = Some aid"
    and "committed c inst (string_or_empty (dget (do_decision out) ''decision_point_id'')) aid c'"
  shows "\<exists>m r. c' = c @ [(m, r)] \<and> offered_commit inst decision m"
proof -
  from assms(1,2) obtain dp dto actions where read: "read_decision (PDict (do_decision out)) = Inr (do_decision out, dp, dto, actions)"
    and given: "decision \<noteq> PNone \<longrightarrow> decision = PDict (do_decision out)" and "offered actions aid"
    by (auto simp: decided_def decides_def)
  then obtain a where a: "a \<in> set actions" "dget a ''action_id'' = PStr aid" "is_available a"
    using read_decision_Inr [OF read] by (auto simp: offered_def actions_read_def)
  have "committed c inst dp aid c'"
    using assms(3) read_decision_Inr [OF read] by (simp add: string_or_empty_def)
  then obtain m r where "c' = c @ [(m, r)]" "is_commit inst dp aid m"
    unfolding committed_def by force
  then show ?thesis
    using read given a unfolding offered_commit_def by blast
qed

lemma decide_and_commit_commits:
  fixes s :: "('c wire client \<times> 'x) searching"
  defines "c \<equiv> commits (log_of (fst (se_world s)))"
  shows "wp (decide_and_commit (session_decision_engine (record_ops ops) de) inst search_id timeout_s decision fuel)
    (\<lambda>r t. case r of None \<Rightarrow> commits (log_of (fst (se_world t))) = c
      | Some x \<Rightarrow> \<exists>m. commits (log_of (fst (se_world t))) = c @ [(m, Inr (PDict x))] \<and> offered_commit inst decision m)
    (\<lambda>e t. commits (log_of (fst (se_world t))) = c \<or>
      (\<exists>m r. commits (log_of (fst (se_world t))) = c @ [(m, r)] \<and> offered_commit inst decision m) \<and>
      (ordinary_connection ops \<longrightarrow> ordinary e)) s"
proof -
  let ?J = "\<lambda>w. commits (log_of (fst w)) = c"
  let ?one = "\<lambda>out w. \<exists>aid. do_chosen out = Some aid \<and> committed c inst
    (string_or_empty (dget (do_decision out) ''decision_point_id'')) aid (commits (log_of (fst w)))"
  let ?ordinary = "\<lambda>e. ordinary_connection ops \<longrightarrow> ordinary e"
  let ?Q = "\<lambda>out x w. ?one out w \<and> replied x (commits (log_of (fst w)))"
  have commit: "wp (dc_commit_action (de_client (session_decision_engine (record_ops ops) de)) inst dp aid t)
      (\<lambda>x u. committed c inst dp aid (commits (log_of (fst u))) \<and> replied x (commits (log_of (fst u))))
      (\<lambda>e u. ?J u \<or> committed c inst dp aid (commits (log_of (fst u))) \<and> ?ordinary e) w" if "?J w" for dp aid t w
    using commit_action_commits [of ops inst dp aid t "fst w"] that
      raises_onlyD [OF ordinary_connection.ordinary_commit [OF ordinary_connection.ordinary_recorded]]
    by (auto simp: wp_def on_client_def split: prod.splits sum.splits)
  have "wp (decide_and_commit (session_decision_engine (record_ops ops) de) inst search_id timeout_s decision fuel)
      (\<lambda>r t. case r of None \<Rightarrow> ?J (se_world t)
        | Some x \<Rightarrow> \<exists>out. decided decision out \<and> do_chosen out \<noteq> None \<and> ?Q out x (se_world t))
      (\<lambda>e t. ?J (se_world t) \<or> (\<exists>out. decided decision out \<and> do_chosen out \<noteq> None \<and>
        (?J (se_world t) \<or> ?one out (se_world t) \<and> ?ordinary e))) s"
  proof (rule uncommitted.deciding.decide_and_commit_wp)
    fix out aid deadline and w :: "'c wire client \<times> 'x"
    assume "?J w" "do_chosen out = Some aid"
    then show "wp (dc_commit_action (de_client (session_decision_engine (record_ops ops) de)) inst
        (string_or_empty (dget (do_decision out) ''decision_point_id'')) aid deadline)
        (?Q out) (\<lambda>e w. ?J w \<or> ?one out w \<and> ?ordinary e) w"
      by (intro wp_mono [OF commit]) auto
  qed (simp add: c_def)
  then show ?thesis
  proof (rule wp_mono)
    fix r :: "pydict option" and t :: "('c wire client \<times> 'x) searching"
    assume r: "case r of None \<Rightarrow> ?J (se_world t)
        | Some x \<Rightarrow> \<exists>out. decided decision out \<and> do_chosen out \<noteq> None \<and> ?Q out x (se_world t)"
    have "\<exists>m. commits (log_of (fst (se_world t))) = c @ [(m, Inr (PDict x))] \<and> offered_commit inst decision m"
      if "r = Some x" for x
      using r that decided_offered_commit [of decision _ _ c inst] by (fastforce simp: replied_def)
    with r show "case r of None \<Rightarrow> ?J (se_world t)
        | Some x \<Rightarrow> \<exists>m. commits (log_of (fst (se_world t))) = c @ [(m, Inr (PDict x))] \<and> offered_commit inst decision m"
      by (cases r) auto
  qed (use decided_offered_commit [of decision _ _ c inst] in blast)
qed


end
