(* ===== verification/Decision_Liveness.thy ===== *)
theory Decision_Liveness
  imports Decision_Engine
begin

text \<open>
  A decision ends: on a clock that advances, the search inside a decision is given at most the time that
  is left of the decision's timeout, so the fuel that is enough for the timeout is enough for the search.
\<close>

text \<open>the clock of the engine is the client's, advances when it is read, and no call turns it back\<close>

definition engine_clock_advances :: "'w decision_engine \<Rightarrow> ('w \<Rightarrow> rat) \<Rightarrow> rat \<Rightarrow> bool" where
  "engine_clock_advances de time d \<longleftrightarrow>
     clock_advances (de_beam de) time d \<and> sc_now (de_client de) = sc_now (be_client (de_beam de)) \<and>
     (\<forall>w. time w \<le> time (snd (dc_uuid_hex (de_client de) w))) \<and>
     (\<forall>inst b t. never_back time (dc_get_decision (de_client de) inst b t)) \<and>
     (\<forall>inst items t opts. never_back time (sc_emulate_actions (de_client de) inst items t opts)) \<and>
     (\<forall>inst p b rng dp aid t. never_back time (dc_emulate_action (de_client de) inst p b rng dp aid t)) \<and>
     (\<forall>inst bs t. never_back time (sc_release_branches (de_client de) inst bs t)) \<and>
     (\<forall>retry inst bs. never_back time (dc_defer (de_client de) retry inst bs)) \<and>
     (\<forall>actions dto. never_back time (select_fallback (de_fallback de) actions dto))"

lemma clock_decision_world:
  assumes "engine_clock_advances de time d"
  shows "decision_world de (\<lambda>w. T \<le> time w)"
proof -
  have clock: "clock_advances (de_beam de) time d" and same: "sc_now (de_client de) = sc_now (be_client (de_beam de))"
    using assms by (simp_all add: engine_clock_advances_def)
  have now: "T \<le> time (snd (sc_now (be_client (de_beam de)) w))" if "T \<le> time w" for w
    using search_world.clock [OF clock_world [OF clock] that] by simp
  show ?thesis
  proof unfold_locales
    fix s :: "'a searching" and decision inst search_id timeout fuel
    assume "T \<le> time (se_world s)" "dget decision ''decision_point_id'' \<noteq> PStr []"
    from search_world.search_wp [OF clock_world [OF clock] this]
    show "wp (search (de_beam de) inst search_id decision timeout fuel)
        (\<lambda>_ t. T \<le> time (se_world t)) (\<lambda>_ t. T \<le> time (se_world t)) s"
      by (rule wp_mono) (auto simp: search_world.searched_def [OF clock_world [OF clock]])
  qed (use assms now same in \<open>auto simp: engine_clock_advances_def intro: never_back_keeps order_trans\<close>)
qed

lemma engine_now_time:
  "engine_clock_advances de time d \<Longrightarrow>
     wp (now_p (de_beam de)) (\<lambda>now t. now = time (se_world t) \<and> time (se_world s) \<le> now) (\<lambda>_ _. False) s"
  by (rule wp_mono [OF now_time]) (auto simp: engine_clock_advances_def clock_advances_def)

lemma keeps_time:
  assumes "engine_clock_advances de time d" "T \<le> time (se_world s)"
    and "\<And>J. decision_world de J \<Longrightarrow> keeps (\<lambda>s. J (se_world s)) m"
  shows "wp m (\<lambda>_ t. T \<le> time (se_world t)) (\<lambda>_ _. True) s"
  using assms(3) [OF clock_decision_world [OF assms(1)]] assms(2)
  by (auto simp: keeps_wp intro: wp_mono)

text \<open>the time that is left of a deadline that is at most \<open>x\<close> away\<close>

lemma decide_beam_returns:
  assumes "engine_clock_advances de time d" "x \<le> of_nat fuel * d"
    and "dget decision ''decision_point_id'' \<noteq> PStr []" "deadline \<le> time (se_world s) + x"
  shows "wp (decide_beam de inst search_id decision deadline fuel) (\<lambda>r _. r \<noteq> None) (\<lambda>_ _. True) s"
  unfolding decide_beam_def wp_bind [of "now_p _"]
proof (rule wp_mono [OF engine_now_time [OF assms(1)]])
  fix now and t :: "'a searching"
  assume now: "now = time (se_world t) \<and> time (se_world s) \<le> now"
  have clock: "clock_advances (de_beam de) time d" using assms(1) by (simp add: engine_clock_advances_def)
  have "wp (search (de_beam de) inst search_id decision (PFloat (Fin (deadline - now))) fuel)
      (\<lambda>r _. r \<noteq> None) (\<lambda>_ _. True) t" if "0 < deadline - now"
    using search_returns [OF clock _ _ assms(3), of "PFloat (Fin (deadline - now))" "deadline - now" fuel inst search_id t]
      that now assms(2,4) by (auto simp: wp_def split: prod.splits sum.splits)
  then show "wp (if de_beam_search_enabled de \<and> 0 < deadline - now
      then bind_p (search (de_beam de) inst search_id decision (PFloat (Fin (deadline - now))) fuel) (\<lambda>r. ret_p (map_option Some r))
      else ret_p (Some None)) (\<lambda>r _. r \<noteq> None) (\<lambda>_ _. True) t"
    by (auto simp: wp_ret wp_bind elim: wp_mono)
qed simp

lemma decide_search_returns:
  assumes "engine_clock_advances de time d" "x \<le> of_nat fuel * d"
    and "dget decision ''decision_point_id'' \<noteq> PStr []" "deadline \<le> time (se_world s) + x"
  shows "wp (decide_search de inst search_id (decision, dp, dto, actions) deadline fuel) (\<lambda>r _. r \<noteq> None) (\<lambda>_ _. True) s"
proof -
  have event: "wp (decide_event de inst dp actions deadline) (\<lambda>_ t. time (se_world s) \<le> time (se_world t)) (\<lambda>_ _. True) s"
    by (rule keeps_time [OF assms(1)]) (simp_all add: decision_world.keeps_decide_event)
  have some: "wp (bind_p m (\<lambda>aid. ret_p (Some (f aid)))) (\<lambda>r _. r \<noteq> None) (\<lambda>_ _. True) t"
    for m :: "('a, string) beam" and f :: "string \<Rightarrow> decision_outcome" and t
    unfolding wp_bind wp_ret by (rule wp_mono [OF wp_total]) simp_all
  show ?thesis
    unfolding decide_search_def split_conv wp_bind [of "decide_event _ _ _ _ _"]
  proof (rule wp_mono [OF event])
    fix e and t :: "'a searching" assume t: "time (se_world s) \<le> time (se_world t)"
    have beam: "wp (decide_beam de inst search_id decision deadline fuel) (\<lambda>r _. r \<noteq> None) (\<lambda>_ _. True) t"
      by (rule decide_beam_returns [OF assms(1-3)]) (use t assms(4) in simp)
    show "wp (case e of
        Some aid \<Rightarrow> ret_p (Some (outcome decision (Some aid) ''event_branch_search'' None))
      | None \<Rightarrow> bind_p (decide_beam de inst search_id decision deadline fuel) (\<lambda>searched.
          case searched of
            None \<Rightarrow> ret_p None
          | Some result \<Rightarrow>
              (case result of
                 Some res \<Rightarrow>
                   if beam_result_is_actionable res
                   then ret_p (Some (outcome decision (best_root_action_id res) ''beam_search'' (Some res)))
                   else bind_p (decide_fallback de actions dto) (\<lambda>aid.
                          ret_p (Some (outcome decision (Some aid) ''heuristic_fallback'' (Some res))))
               | None \<Rightarrow>
                   bind_p (decide_fallback de actions dto) (\<lambda>aid.
                     ret_p (Some (outcome decision (Some aid) ''heuristic_fallback'' None))))))
      (\<lambda>r _. r \<noteq> None) (\<lambda>_ _. True) t"
    proof (cases e)
      case None
      show ?thesis
        unfolding None option.case wp_bind [of "decide_beam _ _ _ _ _ _"]
        by (rule wp_mono [OF beam]) (auto simp del: not_None_eq simp: wp_ret some split: option.split)
    qed (simp add: wp_ret)
  qed simp
qed

lemma deadline_in:
  assumes "engine_clock_advances de time d" "finite_positive timeout = Inr x"
  shows "wp (deadline_from_timeout de timeout) (\<lambda>deadline t. deadline = time (se_world t) + x) (\<lambda>_ _. True) s"
proof -
  have "wp (bind_p (now_p (de_beam de)) (\<lambda>now. ret_p (now + x))) (\<lambda>deadline t. deadline = time (se_world t) + x) (\<lambda>_ _. True) s"
    unfolding wp_bind wp_ret by (rule wp_mono [OF engine_now_time [OF assms(1)]]) simp_all
  then show ?thesis by (simp add: deadline_from_timeout_def wp_bind wp_lift assms(2))
qed

lemma decide_returns:
  assumes "engine_clock_advances de time d" "finite_positive timeout = Inr x" "x \<le> of_nat fuel * d"
  shows "wp (decide de inst search_id timeout decision fuel) (\<lambda>r _. r \<noteq> None) (\<lambda>_ _. True) s"
  unfolding decide_def wp_bind [of "deadline_from_timeout _ _"]
proof (rule wp_mono [OF deadline_in [OF assms(1,2)]])
  fix deadline and t :: "'a searching" assume t: "deadline = time (se_world t) + x"
  have fetch: "wp (fetch_decision de inst timeout decision) (\<lambda>_ u. time (se_world t) \<le> time (se_world u)) (\<lambda>_ _. True) t"
    by (rule keeps_time [OF assms(1)]) (simp_all add: decision_world.keeps_fetch)
  show "wp (bind_p (fetch_decision de inst timeout decision) (\<lambda>raw.
     bind_p (lift_p (read_decision raw)) (\<lambda>(current, dp, dto, actions).
     case actions of
       [] \<Rightarrow> ret_p (Some (outcome current None ''none'' None))
     | [only] \<Rightarrow>
         (case nonempty_str_opt (dget only ''action_id'') of
            None \<Rightarrow> raise_p RuntimeError
          | Some aid \<Rightarrow> ret_p (Some (outcome current (Some aid) ''forced_single_action'' None)))
     | _ \<Rightarrow> decide_search de inst search_id (current, dp, dto, actions) deadline fuel)))
    (\<lambda>r _. r \<noteq> None) (\<lambda>_ _. True) t"
    unfolding wp_bind [of "fetch_decision _ _ _ _"]
  proof (rule wp_mono [OF fetch])
    fix raw and u :: "'a searching" assume u: "time (se_world t) \<le> time (se_world u)"
    show "wp (bind_p (lift_p (read_decision raw)) (\<lambda>(current, dp, dto, actions).
       case actions of
         [] \<Rightarrow> ret_p (Some (outcome current None ''none'' None))
       | [only] \<Rightarrow>
           (case nonempty_str_opt (dget only ''action_id'') of
              None \<Rightarrow> raise_p RuntimeError
            | Some aid \<Rightarrow> ret_p (Some (outcome current (Some aid) ''forced_single_action'' None)))
       | _ \<Rightarrow> decide_search de inst search_id (current, dp, dto, actions) deadline fuel))
      (\<lambda>r _. r \<noteq> None) (\<lambda>_ _. True) u"
    proof (cases "read_decision raw")
      case (Inr y)
      obtain current dp dto actions where y: "y = (current, dp, dto, actions)" by (cases y) auto
      have "wp (decide_search de inst search_id (current, dp, dto, actions) deadline fuel) (\<lambda>r _. r \<noteq> None) (\<lambda>_ _. True) u"
        by (rule decide_search_returns [OF assms(1,3)]) (use read_decision_Inr [of raw] Inr y t u in auto)
      then show ?thesis
        by (auto simp del: not_None_eq simp: wp_bind wp_lift Inr y wp_ret wp_raise split: list.split option.split)
    qed (simp add: wp_bind wp_lift)
  qed simp
qed simp

lemma decide_and_commit_returns:
  assumes "engine_clock_advances de time d" "finite_positive timeout = Inr x" "x \<le> of_nat fuel * d"
  shows "wp (decide_and_commit de inst search_id timeout decision fuel) (\<lambda>r _. r \<noteq> None) (\<lambda>_ _. True) s"
  unfolding decide_and_commit_def wp_bind [of "deadline_from_timeout _ _"]
proof (rule wp_mono [OF deadline_in [OF assms(1,2)]])
  fix deadline and t :: "'a searching" assume t: "deadline = time (se_world t) + x"
  have settle: "wp (case r of None \<Rightarrow> ret_p None
      | Some out \<Rightarrow> bind_p (commit_decision de inst deadline out) (\<lambda>r. ret_p (Some r))) (\<lambda>r _. r \<noteq> None) (\<lambda>_ _. True) u"
    if "r \<noteq> None" for r and u :: "'a searching"
    using that by (auto simp: wp_bind wp_ret intro: wp_mono [OF wp_total])
  show "wp (bind_p (now_p (de_beam de)) (\<lambda>now.
       if deadline - now \<le> 0 then raise_p (TransportError TransportPlain False None)
       else bind_p (decide de inst search_id (PFloat (Fin (deadline - now))) decision fuel) (\<lambda>result.
         case result of
           None \<Rightarrow> ret_p None
         | Some out \<Rightarrow> bind_p (commit_decision de inst deadline out) (\<lambda>r. ret_p (Some r)))))
    (\<lambda>r _. r \<noteq> None) (\<lambda>_ _. True) t"
    unfolding wp_bind [of "now_p _"]
  proof (rule wp_mono [OF engine_now_time [OF assms(1)]])
    fix now and u :: "'a searching" assume now: "now = time (se_world u) \<and> time (se_world t) \<le> now"
    show "wp (if deadline - now \<le> 0 then raise_p (TransportError TransportPlain False None)
       else bind_p (decide de inst search_id (PFloat (Fin (deadline - now))) decision fuel) (\<lambda>result.
         case result of
           None \<Rightarrow> ret_p None
         | Some out \<Rightarrow> bind_p (commit_decision de inst deadline out) (\<lambda>r. ret_p (Some r))))
      (\<lambda>r _. r \<noteq> None) (\<lambda>_ _. True) u"
    proof (cases "deadline - now \<le> 0")
      case False
      have "wp (decide de inst search_id (PFloat (Fin (deadline - now))) decision fuel) (\<lambda>r _. r \<noteq> None) (\<lambda>_ _. True) u"
        by (rule decide_returns [OF assms(1), of _ "deadline - now"]) (use False now t assms(3) in auto)
      then show ?thesis
        unfolding if_not_P [OF False] wp_bind [of "decide _ _ _ _ _ _"]
        by (rule wp_mono) (simp_all del: not_None_eq add: settle)
    qed (simp add: wp_raise)
  qed simp
qed simp

end
