(* ===== verification/Episode.thy ===== *)
theory Episode
  imports Decision_Session Decision_Liveness
begin

text \<open>
  \<open>runner/episode.py\<close> and \<open>runner/beam_scope.py\<close>: an instance is driven to its end by deciding and
  committing; the answer to a commit is the next decision.  The search of the \<open>i\<close>-th decision has the id
  \<open>ids i\<close>; the loop returns \<open>None\<close> when its fuel \<open>n\<close> or that of a search has run out.
\<close>

section \<open>The client of a runner and its engine\<close>

record 'w runner_client = "'w decision_client" +
  rc_start_instance :: "pydict \<Rightarrow> rat \<Rightarrow> ('w, exn, string) py"
  rc_close_instance :: "string \<Rightarrow> rat \<Rightarrow> ('w, exn, pydict) py"

definition runner_combat_beam_config :: "beam_config \<Rightarrow> exn + beam_config" where
  "runner_combat_beam_config cfg = replace_config (cfg\<lparr>beam_searchable_action_types := combat_beam_action_types\<rparr>)"

text \<open>an engine of the caller comes with the answer to \<open>engine.client is client\<close>\<close>

definition validate_engine_client :: "bool \<Rightarrow> exn + unit" where
  "validate_engine_client same_client = raise_if (\<not> same_client) ValueError"

definition build_engine ::
  "'w decision_client \<Rightarrow> ('w decision_engine \<times> bool) option \<Rightarrow> search_mode \<Rightarrow> pyval \<Rightarrow>
     (prune_view list \<Rightarrow> pyval \<Rightarrow> prune_context \<Rightarrow> ('w, exn, pyval) py) \<Rightarrow> 'w heuristic_selector \<Rightarrow> string \<Rightarrow>
     exn + 'w decision_engine" where
  "build_engine dc engine mode depth pruner selector prefix =
     (case engine of
        Some (de, same_client) \<Rightarrow>
          then_r (raise_if (mode \<noteq> NoMode \<or> depth \<noteq> PNone) ValueError) (\<lambda>_.
          then_r (validate_engine_client same_client) (\<lambda>_. Inr de))
      | None \<Rightarrow>
          then_r (search_mode_uses_beam mode) (\<lambda>enabled.
          then_r (resolve_search_mode mode depth) (\<lambda>resolved.
          then_r (case mode of OwnConfig _ \<Rightarrow> Inr resolved | _ \<Rightarrow> runner_combat_beam_config resolved) (\<lambda>cfg.
            decision_engine_init dc None None pruner (Some cfg) None None selector True (PBool enabled) prefix))))"

section \<open>The episode\<close>

definition validate_max_decisions :: "pyval \<Rightarrow> exn + nat option" where
  "validate_max_decisions v =
     (case v of
        PNone \<Rightarrow> Inr None
      | PInt i \<Rightarrow> if i \<le> 0 then Inl ValueError else Inr (Some (nat i))
      | _ \<Rightarrow> Inl ValueError)"

definition is_terminal_dto :: "pydict \<Rightarrow> bool" where
  "is_terminal_dto dto \<longleftrightarrow> dget dto ''terminal'' = PBool True \<or> dget dto ''run_terminal'' = PBool True"

text \<open>from the decision the exception carries\<close>

definition terminal_dto_from_no_action :: "pyval \<Rightarrow> pydict option" where
  "terminal_dto_from_no_action decision =
     (case decision of
        PDict d \<Rightarrow>
          (case dget d ''masked_emulator_dto'' of
             PDict dto \<Rightarrow> if is_terminal_dto dto then Some dto else None
           | _ \<Rightarrow> None)
      | _ \<Rightarrow> None)"

record episode_result =
  er_instance_id :: string
  er_decisions_made :: nat
  er_final_dto :: pydict
  er_elapsed_s :: rat

definition on_no_action :: "nat \<Rightarrow> exn \<Rightarrow> ('w, (nat \<times> pydict) option) beam" where
  "on_no_action made e =
     (case e of
        NoAvailableActionError decision \<Rightarrow>
          (case terminal_dto_from_no_action decision of
             None \<Rightarrow> raise_p e
           | Some dto \<Rightarrow> ret_p (Some (made, dto)))
      | _ \<Rightarrow> raise_p e)"

text \<open>what follows a commit: its answer ends the episode, is refused, or is the next decision\<close>

definition after_commit ::
  "nat option \<Rightarrow> nat \<Rightarrow> pydict \<Rightarrow> ('w, (nat \<times> pydict) option) beam \<Rightarrow> ('w, (nat \<times> pydict) option) beam" where
  "after_commit limit made response next_round =
     (case dget response ''masked_emulator_dto'' of
        PDict dto \<Rightarrow>
          if is_terminal_dto dto then ret_p (Some (made, dto))
          else if \<not> py_truthy (dget dto ''legal_actions'') then raise_p (NoAvailableActionError (PDict response))
          else if (case limit of None \<Rightarrow> False | Some m \<Rightarrow> m \<le> made) then raise_p EpisodeLimitExceeded
          else next_round
      | _ \<Rightarrow> raise_p RuntimeError)"

fun episode_loop ::
  "'w decision_engine \<Rightarrow> string \<Rightarrow> (nat \<Rightarrow> string) \<Rightarrow> pyval \<Rightarrow> nat option \<Rightarrow> nat \<Rightarrow> nat \<Rightarrow> pyval \<Rightarrow> nat \<Rightarrow>
     ('w, (nat \<times> pydict) option) beam" where
  "episode_loop de inst ids timeout_s limit fuel 0 decision made = ret_p None"
| "episode_loop de inst ids timeout_s limit fuel (Suc n) decision made =
     try_else (decide_and_commit de inst (ids made) timeout_s decision fuel)
       (\<lambda>r. case r of
          None \<Rightarrow> ret_p None
        | Some response \<Rightarrow>
            after_commit limit (Suc made) response
              (episode_loop de inst ids timeout_s limit fuel n (PDict response) (Suc made)))
       (on_no_action made)"

definition close_best_effort :: "'w runner_client \<Rightarrow> string \<Rightarrow> rat \<Rightarrow> ('w, unit) beam" where
  "close_best_effort rc inst timeout_s = with_p (\<lambda>s.
     if dc_retry rc (se_world s) \<noteq> None \<or> sc_session_invalid rc (se_world s) then ret_p ()
     else try_else (world_p (rc_close_instance rc inst timeout_s)) (\<lambda>_. ret_p ())
            (\<lambda>e. case e of CancelledError _ _ \<Rightarrow> raise_p e | _ \<Rightarrow> ret_p ()))"

text \<open>\<open>try: ... finally: await self._close_best_effort(...)\<close>\<close>

definition with_close :: "('w, unit) beam \<Rightarrow> ('w, 'a) beam \<Rightarrow> ('w, 'a) beam" where
  "with_close close body = try_else body (\<lambda>x. then_p close (ret_p x)) (\<lambda>e. then_p close (raise_p e))"

definition episode_run ::
  "'w runner_client \<Rightarrow> 'w decision_engine \<Rightarrow> string \<Rightarrow> (nat \<Rightarrow> string) \<Rightarrow> pyval \<Rightarrow> pyval \<Rightarrow> pyval \<Rightarrow> nat \<Rightarrow> nat \<Rightarrow>
     ('w, episode_result option) beam" where
  "episode_run rc de inst ids decision_timeout_s max_decisions close_timeout_s fuel n =
     bind_p (lift_p (validate_max_decisions max_decisions)) (\<lambda>limit.
     bind_p (lift_p (finite_positive decision_timeout_s)) (\<lambda>_.
     bind_p (lift_p (finite_positive close_timeout_s)) (\<lambda>close_timeout.
     bind_p (now_p (de_beam de)) (\<lambda>start.
     bind_p (with_close (close_best_effort rc inst close_timeout)
               (episode_loop de inst ids decision_timeout_s limit fuel n PNone 0)) (\<lambda>r.
     case r of
       None \<Rightarrow> ret_p None
     | Some (made, dto) \<Rightarrow>
         bind_p (now_p (de_beam de)) (\<lambda>now.
         ret_p (Some \<lparr>er_instance_id = inst, er_decisions_made = made, er_final_dto = dto,
                     er_elapsed_s = now - start\<rparr>)))))))"

definition start_and_run ::
  "'w runner_client \<Rightarrow> pydict \<Rightarrow> pyval \<Rightarrow> pyval \<Rightarrow> pyval \<Rightarrow> ('w decision_engine \<times> bool) option \<Rightarrow> search_mode \<Rightarrow> pyval \<Rightarrow>
     (prune_view list \<Rightarrow> pyval \<Rightarrow> prune_context \<Rightarrow> ('w, exn, pyval) py) \<Rightarrow> 'w heuristic_selector \<Rightarrow> string \<Rightarrow>
     (nat \<Rightarrow> string) \<Rightarrow> nat \<Rightarrow> nat \<Rightarrow> ('w, episode_result option) beam" where
  "start_and_run rc instance_config start_timeout_s decision_timeout_s max_decisions engine mode depth pruner selector
     prefix ids fuel n =
     bind_p (lift_p (validate_max_decisions max_decisions)) (\<lambda>_.
     bind_p (lift_p (finite_positive start_timeout_s)) (\<lambda>start_timeout.
     bind_p (lift_p (finite_positive decision_timeout_s)) (\<lambda>_.
     bind_p (lift_p (build_engine (decision_client.truncate rc) engine mode depth pruner selector prefix)) (\<lambda>de.
     bind_p (world_p (rc_start_instance rc instance_config start_timeout)) (\<lambda>inst.
       episode_run rc de inst ids decision_timeout_s max_decisions (PFloat (Fin 10)) fuel n)))))"

section \<open>Properties that an episode keeps\<close>

lemma after_commit_keeps: "keeps I next_round \<Longrightarrow> keeps I (after_commit limit made x next_round)"
  unfolding after_commit_def by (auto intro!: keeps_ret keeps_raise split: pyval.split option.split)

lemma close_keeps: "keeps I (world_p (rc_close_instance rc inst t)) \<Longrightarrow> keeps I (close_best_effort rc inst t)"
  unfolding close_best_effort_def
  by (intro keeps_with_all keeps_if keeps_ret keeps_try_else) (auto intro!: keeps_ret keeps_raise split: exn.split)

text \<open>worlds that the calls of the engine keep, its commits and the calls of the runner\<close>

locale episode_world = decision_world de J for de :: "'w decision_engine" and J +
  fixes rc :: "'w runner_client"
  assumes committing: "keeps J (dc_commit_action (de_client de) inst dp aid t)"
    and starting: "keeps J (rc_start_instance rc cfg t)"
    and closing: "keeps J (rc_close_instance rc inst t)"
begin

lemma keeps_loop: "keeps (\<lambda>s. J (se_world s)) (episode_loop de inst ids timeout_s limit fuel n decision made)"
proof (induction n arbitrary: decision made)
  case (Suc n)
  have "keeps (\<lambda>s. J (se_world s)) (on_no_action made e)" for e
    unfolding on_no_action_def by (cases e) (auto intro!: keeps_ret keeps_raise split: option.split)
  then show ?case
    by (auto intro!: keeps_try_else keeps_decide_and_commit committing keeps_ret after_commit_keeps Suc.IH split: option.split)
qed (simp add: keeps_ret)

lemma keeps_close: "keeps (\<lambda>s. J (se_world s)) (close_best_effort rc inst t)"
  by (intro close_keeps keeps_world closing)

lemma keeps_episode:
  "keeps (\<lambda>s. J (se_world s)) (episode_run rc de inst ids decision_timeout max_decisions close_timeout fuel n)"
  unfolding episode_run_def with_close_def then_p_def
  by (intro keeps_bind keeps_lift keeps_now keeps_try_else keeps_loop keeps_close keeps_ret keeps_raise)
    (auto intro!: keeps_bind keeps_now keeps_ret split: option.split)

lemma keeps_start_and_run:
  "keeps (\<lambda>s. J (se_world s))
     (start_and_run rc cfg start_timeout decision_timeout max_decisions (Some (de, True)) mode depth pruner selector prefix ids fuel n)"
proof -
  have "keeps (\<lambda>s. J (se_world s)) (bind_p (lift_p (build_engine (decision_client.truncate rc) (Some (de, True)) mode depth
      pruner selector prefix)) k)" if "keeps (\<lambda>s. J (se_world s)) (k de)" for k :: "_ \<Rightarrow> ('w, 'a) beam"
    using that by (auto simp: build_engine_def validate_engine_client_def raise_if_def then_r_def keeps_def bind_p_def lift_p_def)
  note built = this
  show ?thesis
    unfolding start_and_run_def
    by (rule keeps_bind [OF keeps_lift], rule keeps_bind [OF keeps_lift], rule keeps_bind [OF keeps_lift], rule built)
      (intro keeps_bind keeps_world starting keeps_episode)
qed

end

text \<open>the asynchronous client\<close>

definition api_runner_client ::
  "'c conn_ops \<Rightarrow> ('x \<Rightarrow> rat \<times> 'x) \<Rightarrow> ('x \<Rightarrow> string \<times> 'x) \<Rightarrow> ('c client \<times> 'x) runner_client" where
  "api_runner_client ops tick hex =
     decision_client.extend (api_decision_client ops tick hex)
       (runner_client.fields (\<lambda>cfg t. on_client (start_instance ops cfg t))
         (\<lambda>inst t. on_client (close_instance ops (PStr inst) t)))"

lemma api_runner_client_simps [simp]:
  "rc_start_instance (api_runner_client ops tick hex) cfg t = on_client (start_instance ops cfg t)"
  "rc_close_instance (api_runner_client ops tick hex) inst t = on_client (close_instance ops (PStr inst) t)"
  by (simp_all add: api_runner_client_def decision_client.defs runner_client.defs)

interpretation reachable_episode: episode_world "session_decision_engine (record_ops ops) de"
    "\<lambda>w. session_reach ops sid logger (fst w)" "api_runner_client (record_ops ops) tick hex"
  for ops :: "'c conn_ops" and de :: "'x decision_engine" and sid logger tick hex
proof unfold_locales
  show "keeps (\<lambda>w. session_reach ops sid logger (fst w)) (rc_start_instance (api_runner_client (record_ops ops) tick hex) cfg t)"
    for cfg t
    using reach_run_call [where c = "Start_Instance cfg", simplified] by (auto simp: keeps_def fst_on_client)
  show "keeps (\<lambda>w. session_reach ops sid logger (fst w)) (rc_close_instance (api_runner_client (record_ops ops) tick hex) inst t)"
    for inst t
    using reach_run_call [where c = "Close_Instance (PStr inst)", simplified] by (auto simp: keeps_def fst_on_client)
qed (rule reach_commit)

section \<open>The episode on the wire\<close>

text \<open>
  the commits of an episode, with their outcomes on the wire: each is offered by the decision before, and
  the decision before is the answer to the commit before
\<close>

fun plays :: "string \<Rightarrow> pyval \<Rightarrow> wire_entry list \<Rightarrow> bool" where
  "plays inst decision [] = True"
| "plays inst decision ((m, r) # es) \<longleftrightarrow>
     offered_commit inst decision m \<and> (es = [] \<or> (\<exists>x. r = Inr (PDict x) \<and> plays inst (PDict x) es))"

definition played :: "string \<Rightarrow> pyval \<Rightarrow> wire_entry list \<Rightarrow> wire_entry list \<Rightarrow> nat \<Rightarrow> bool" where
  "played inst decision c c' k \<longleftrightarrow> (\<exists>es. c' = c @ es \<and> plays inst decision es \<and> k = length es)"

text \<open>the bound of the caller\<close>

definition within_limit :: "nat option \<Rightarrow> nat \<Rightarrow> bool" where
  "within_limit limit k \<longleftrightarrow> (case limit of None \<Rightarrow> True | Some m \<Rightarrow> k \<le> m)"

lemma played_nothing: "played inst decision c c 0"
  by (simp add: played_def)

lemma played_one: "offered_commit inst decision m \<Longrightarrow> played inst decision c (c @ [(m, r)]) (Suc 0)"
  by (simp add: played_def)

lemma played_more:
  assumes "offered_commit inst decision m" "played inst (PDict x) (c @ [(m, Inr (PDict x))]) c' k"
  shows "played inst decision c c' (Suc k)"
proof -
  obtain es where "c' = c @ (m, Inr (PDict x)) # es" "plays inst (PDict x) es" "k = length es"
    using assms(2) by (auto simp: played_def)
  with assms(1) show ?thesis
    unfolding played_def by (intro exI [of _ "(m, Inr (PDict x)) # es"]) simp
qed

definition commits_of :: "('c wire client \<times> 'x) searching \<Rightarrow> wire_entry list" where
  "commits_of s = commits (log_of (fst (se_world s)))"

text \<open>what a run of the loop has played when it ends\<close>

definition loop_result ::
  "string \<Rightarrow> nat option \<Rightarrow> pyval \<Rightarrow> nat \<Rightarrow> wire_entry list \<Rightarrow> (nat \<times> pydict) option \<Rightarrow> wire_entry list \<Rightarrow> bool" where
  "loop_result inst limit decision made c r c' \<longleftrightarrow> (\<exists>k. played inst decision c c' k \<and> within_limit limit (made + k) \<and>
     (case r of None \<Rightarrow> True | Some (made', dto) \<Rightarrow> made' = made + k \<and> is_terminal_dto dto))"

lemma loop_result_more:
  "offered_commit inst decision m \<Longrightarrow> loop_result inst limit (PDict x) (Suc made) (c @ [(m, Inr (PDict x))]) r c' \<Longrightarrow>
     loop_result inst limit decision made c r c'"
  unfolding loop_result_def by (elim exE, rename_tac k, rule_tac x = "Suc k" in exI)
    (auto intro: played_more split: option.split)

lemma within_limit_Suc: "within_limit limit made \<Longrightarrow> limit \<noteq> Some made \<Longrightarrow> within_limit limit (Suc made)"
  by (auto simp: within_limit_def split: option.splits)

lemma loop_result_start:
  "within_limit limit made \<Longrightarrow> (\<And>made' dto. r = Some (made', dto) \<Longrightarrow> made' = made \<and> is_terminal_dto dto) \<Longrightarrow>
     loop_result inst limit decision made c r c"
  unfolding loop_result_def by (intro exI [of _ 0]) (auto simp: played_nothing split: option.split)

lemma after_commit_wp:
  assumes "\<And>dto. is_terminal_dto dto \<Longrightarrow> Q (Some (made, dto)) t" "\<And>e. E e t"
    and "limit \<noteq> Some made \<Longrightarrow> wp next_round Q E t"
  shows "wp (after_commit limit made x next_round) Q E t"
  using assms unfolding after_commit_def by (auto simp: wp_raise wp_ret split: pyval.split option.split)

lemma episode_loop_played:
  fixes s :: "('c wire client \<times> 'x) searching"
  assumes "ordinary_connection ops" "within_limit limit made" "limit \<noteq> Some made"
  shows "wp (episode_loop (session_decision_engine (record_ops ops) de) inst ids timeout_s limit fuel n decision made)
    (\<lambda>r t. loop_result inst limit decision made (commits_of s) r (commits_of t))
    (\<lambda>_ t. loop_result inst limit decision made (commits_of s) None (commits_of t)) s"
  using assms(2,3)
proof (induction n arbitrary: decision made s)
  case 0
  then show ?case by (auto simp: wp_ret intro!: loop_result_start)
next
  case (Suc n)
  let ?Q = "\<lambda>r t. loop_result inst limit decision made (commits_of s) r (commits_of t)"
  let ?E = "\<lambda>_ t. loop_result inst limit decision made (commits_of s) None (commits_of t)"
  note limit = Suc.prems(1)
  have next_limit: "within_limit limit (Suc made)" using Suc.prems by (rule within_limit_Suc)
  have stop: "wp (on_no_action made e) ?Q ?E t" if "commits_of t = commits_of s" for e and t :: "('c wire client \<times> 'x) searching"
  proof -
    have terminal: "is_terminal_dto dto" if "terminal_dto_from_no_action d = Some dto" for d dto
      using that by (auto simp: terminal_dto_from_no_action_def split: pyval.splits if_splits)
    show ?thesis
      unfolding on_no_action_def
      by (cases e) (auto simp: wp_raise wp_ret that limit terminal intro!: loop_result_start split: option.split)
  qed
  have committed: "?E e t" if "commits_of t = commits_of s @ [(m, r)]" "offered_commit inst decision m"
    for e :: exn and m r and t :: "('c wire client \<times> 'x) searching"
    using that next_limit by (auto simp: loop_result_def intro!: exI [of _ "Suc 0"] played_one)
  have go_on: "wp (after_commit limit (Suc made) x
      (episode_loop (session_decision_engine (record_ops ops) de) inst ids timeout_s limit fuel n (PDict x) (Suc made))) ?Q ?E t"
    if t: "commits_of t = commits_of s @ [(m, Inr (PDict x))]" "offered_commit inst decision m"
    for m x and t :: "('c wire client \<times> 'x) searching"
  proof -
    note one = committed [OF t]
    have finished: "?Q (Some (Suc made, dto)) t" if "is_terminal_dto dto" for dto
      using t that next_limit by (auto simp: loop_result_def intro!: exI [of _ "Suc 0"] played_one)
    have continue_loop: "wp (episode_loop (session_decision_engine (record_ops ops) de) inst ids timeout_s limit fuel n (PDict x)
        (Suc made)) ?Q ?E t" if "limit \<noteq> Some (Suc made)"
      by (rule wp_mono [OF Suc.IH [OF next_limit that]]) (use t in \<open>auto intro: loop_result_more\<close>)
    show ?thesis
      by (rule after_commit_wp) (simp_all add: one finished continue_loop)
  qed
  show ?case
    unfolding episode_loop.simps wp_try_else
  proof (rule wp_mono [OF decide_and_commit_commits [where s = s]])
    fix r :: "pydict option" and t :: "('c wire client \<times> 'x) searching"
    assume "case r of None \<Rightarrow> commits (log_of (fst (se_world t))) = commits (log_of (fst (se_world s)))
      | Some x \<Rightarrow> \<exists>m. commits (log_of (fst (se_world t))) = commits (log_of (fst (se_world s))) @ [(m, Inr (PDict x))] \<and>
          offered_commit inst decision m"
    then show "wp (case r of None \<Rightarrow> ret_p None
      | Some response \<Rightarrow> after_commit limit (Suc made) response
          (episode_loop (session_decision_engine (record_ops ops) de) inst ids timeout_s limit fuel n (PDict response) (Suc made)))
      ?Q ?E t"
      using go_on by (cases r) (auto simp: commits_of_def wp_ret limit intro!: loop_result_start)
  next
    fix e and t :: "('c wire client \<times> 'x) searching"
    assume e: "commits (log_of (fst (se_world t))) = commits (log_of (fst (se_world s))) \<or>
      (\<exists>m r. commits (log_of (fst (se_world t))) = commits (log_of (fst (se_world s))) @ [(m, r)] \<and> offered_commit inst decision m) \<and>
      (ordinary_connection ops \<longrightarrow> ordinary e)"
    show "wp (on_no_action made e) ?Q ?E t"
    proof (cases "ordinary e")
      case True
      then have "on_no_action made e = (raise_p e :: (('c wire client \<times> 'x), (nat \<times> pydict) option) beam)"
        by (cases e) (simp_all add: on_no_action_def)
      with e committed show ?thesis
        by (auto simp: wp_raise commits_of_def limit intro!: loop_result_start)
    next
      case False
      with e assms(1) have "commits_of t = commits_of s" by (auto simp: commits_of_def)
      then show ?thesis by (rule stop)
    qed
  qed
qed

lemma keeps_commits_close:
  "keeps (\<lambda>t. commits_of t = c) (close_best_effort (api_runner_client (record_ops ops) tick hex) inst t)"
proof -
  have "keeps (\<lambda>w. commits (log_of (fst w)) = c) (rc_close_instance (api_runner_client (record_ops ops) tick hex) inst t)"
    by (simp add: keeps_def fst_on_client calls_keep_commits)
  then have "keeps (\<lambda>t. commits_of t = c) (world_p (rc_close_instance (api_runner_client (record_ops ops) tick hex) inst t))"
    unfolding commits_of_def by (rule uncommitted.deciding.keeps_world)
  then show ?thesis by (rule close_keeps)
qed

lemma keeps_commits_now:
  fixes de :: "'x decision_engine"
  shows "keeps (\<lambda>t. commits_of t = c) (now_p (session_engine (record_ops ops) (de_beam de)))"
  using uncommitted.deciding.keeps_now [of c ops de] by (simp add: commits_of_def)

text \<open>steps that leave the commits alone\<close>

lemma idle_then:
  assumes "\<And>c. keeps (\<lambda>t. commits_of t = c) m" "\<And>x t. commits_of t = commits_of s \<Longrightarrow> wp (f x) Q E t"
    and "\<And>e t. commits_of t = commits_of s \<Longrightarrow> E e t"
  shows "wp (bind_p m f) Q E s"
  unfolding wp_bind by (rule wp_mono [OF keeps_wpI [OF assms(1)]]) (auto intro: assms(2,3))

lemma idle_close:
  assumes "wp body (\<lambda>x t. Q x (commits_of t)) (\<lambda>_ t. E (commits_of t)) s" "\<And>x c. Q x c \<Longrightarrow> E c"
    and "\<And>c. keeps (\<lambda>t. commits_of t = c) close"
  shows "wp (with_close close body) (\<lambda>x t. Q x (commits_of t)) (\<lambda>_ t. E (commits_of t)) s"
  unfolding with_close_def wp_try_else
proof (rule wp_mono [OF assms(1)])
  show "wp (then_p close (ret_p x)) (\<lambda>x t. Q x (commits_of t)) (\<lambda>_ t. E (commits_of t)) t" if "Q x (commits_of t)" for x t
    unfolding then_p_def by (rule idle_then [OF assms(3)]) (use that assms(2) in \<open>auto simp: wp_ret\<close>)
  show "wp (then_p close (raise_p e)) (\<lambda>x t. Q x (commits_of t)) (\<lambda>_ t. E (commits_of t)) t" if "E (commits_of t)"
    for e :: exn and t
    unfolding then_p_def by (rule idle_then [OF assms(3)]) (use that in \<open>auto simp: wp_raise\<close>)
qed

lemma validate_limit: "validate_max_decisions v = Inr limit \<Longrightarrow> limit \<noteq> Some 0 \<and> (\<forall>m. limit = Some m \<longrightarrow> v = PInt (int m))"
  by (auto simp: validate_max_decisions_def split: pyval.splits if_splits)

text \<open>the bound as the caller gives it\<close>

definition at_most :: "pyval \<Rightarrow> nat \<Rightarrow> bool" where
  "at_most max_decisions k \<longleftrightarrow> (case max_decisions of PInt i \<Rightarrow> k \<le> nat i | _ \<Rightarrow> True)"

lemma limit_at_most: "validate_max_decisions v = Inr limit \<Longrightarrow> within_limit limit k \<Longrightarrow> at_most v k"
  by (auto simp: validate_max_decisions_def within_limit_def at_most_def split: pyval.splits if_splits)

definition episode_played :: "string \<Rightarrow> pyval \<Rightarrow> wire_entry list \<Rightarrow> wire_entry list \<Rightarrow> nat \<Rightarrow> bool" where
  "episode_played inst max_decisions c c' k \<longleftrightarrow> played inst PNone c c' k \<and> at_most max_decisions k"

lemma episode_played_nothing: "episode_played inst v c c 0"
  by (simp add: episode_played_def played_nothing at_most_def split: pyval.split)

lemma episode_run_played:
  fixes s :: "('c wire client \<times> 'x) searching"
  assumes "ordinary_connection ops"
  shows "wp (episode_run (api_runner_client (record_ops ops) tick hex) (session_decision_engine (record_ops ops) de)
      inst ids decision_timeout max_decisions close_timeout fuel n)
    (\<lambda>r t. \<exists>k. episode_played inst max_decisions (commits_of s) (commits_of t) k \<and>
      (\<forall>result. r = Some result \<longrightarrow> er_decisions_made result = k \<and> is_terminal_dto (er_final_dto result)))
    (\<lambda>_ t. \<exists>k. episode_played inst max_decisions (commits_of s) (commits_of t) k) s" (is "wp _ ?Q ?E s")
proof (cases "validate_max_decisions max_decisions")
  case (Inl e)
  then show ?thesis
    by (auto simp: episode_run_def wp_bind wp_lift intro: episode_played_nothing)
next
  case (Inr limit)
  note valid = validate_limit [OF Inr] limit_at_most [OF Inr]
  have result: "\<exists>k. episode_played inst max_decisions (commits_of s) c k \<and>
      (case r of None \<Rightarrow> True | Some (made, dto) \<Rightarrow> made = k \<and> is_terminal_dto dto)"
    if "loop_result inst limit PNone 0 (commits_of s) r c" for r c
    using that valid by (cases r) (auto simp: loop_result_def episode_played_def)
  have loop: "wp (episode_loop (session_decision_engine (record_ops ops) de) inst ids decision_timeout limit fuel n PNone 0)
      (\<lambda>r u. loop_result inst limit PNone 0 (commits_of s) r (commits_of u))
      (\<lambda>_ u. loop_result inst limit PNone 0 (commits_of s) None (commits_of u)) t" if "commits_of t = commits_of s"
    for t :: "('c wire client \<times> 'x) searching"
    using episode_loop_played [OF assms, of limit 0 de inst ids decision_timeout fuel n PNone t] valid that
    by (simp add: within_limit_def split: option.split)
  have finish: "wp (case r of
       None \<Rightarrow> ret_p None
     | Some (made, dto) \<Rightarrow>
         bind_p (now_p (de_beam (session_decision_engine (record_ops ops) de))) (\<lambda>now.
         ret_p (Some \<lparr>er_instance_id = inst, er_decisions_made = made, er_final_dto = dto, er_elapsed_s = now - start\<rparr>))) ?Q ?E t"
    if "loop_result inst limit PNone 0 (commits_of s) r (commits_of t)" for r start and t :: "('c wire client \<times> 'x) searching"
    using result [OF that]
    by (cases r) (auto simp: wp_ret intro!: idle_then [OF keeps_commits_now] split: prod.split)
  have played: "wp (bind_p (with_close (close_best_effort (api_runner_client (record_ops ops) tick hex) inst ct)
        (episode_loop (session_decision_engine (record_ops ops) de) inst ids decision_timeout limit fuel n PNone 0)) (\<lambda>r.
     case r of
       None \<Rightarrow> ret_p None
     | Some (made, dto) \<Rightarrow>
         bind_p (now_p (de_beam (session_decision_engine (record_ops ops) de))) (\<lambda>now.
         ret_p (Some \<lparr>er_instance_id = inst, er_decisions_made = made, er_final_dto = dto, er_elapsed_s = now - start\<rparr>)))) ?Q ?E t"
    if "commits_of t = commits_of s" for ct start and t :: "('c wire client \<times> 'x) searching"
    unfolding wp_bind [of "with_close _ _"]
  proof (rule wp_mono [OF idle_close [OF loop [OF that] _ keeps_commits_close]])
    show "loop_result inst limit PNone 0 (commits_of s) None c" if "loop_result inst limit PNone 0 (commits_of s) r c" for r c
      using that by (auto simp: loop_result_def)
    show "?E e u" if "loop_result inst limit PNone 0 (commits_of s) None (commits_of u)" for e :: exn and u
      using result [OF that] by auto
  qed (rule finish)
  show ?thesis
    unfolding episode_run_def wp_bind [of "lift_p _"] wp_lift Inr session_decision_engine_simps
    by (auto split: sum.split intro!: idle_then [OF keeps_commits_now] played [unfolded session_decision_engine_simps]
        exI [of _ 0] episode_played_nothing)
qed

text \<open>C5: An episode commits exactly what it says: an episode over TCP that returns has put exactly
  \<open>decisions_made\<close> commits on the wire, at most \<open>max_decisions\<close>, the first for an available action of the
  decision it fetched and every other one for an available action of the decision that answered the
  commit before, and ends with a terminal state; one that raises has committed such a sequence, too.\<close>

theorem episode_commits_its_decisions:
  fixes s :: "(tcp wire client \<times> 'x) searching"
  shows "case episode_run (api_runner_client (record_ops (tcp_ops cx)) tick hex)
        (session_decision_engine (record_ops (tcp_ops cx)) de) inst ids decision_timeout max_decisions close_timeout fuel n s of
     (Inr (Some result), t) \<Rightarrow>
         episode_played inst max_decisions (commits_of s) (commits_of t) (er_decisions_made result) \<and>
         is_terminal_dto (er_final_dto result)
   | (_, t) \<Rightarrow> \<exists>k. episode_played inst max_decisions (commits_of s) (commits_of t) k"
  using episode_run_played [OF tcp_ordinary.ordinary_connection_axioms,
      of cx tick hex de inst ids decision_timeout max_decisions close_timeout fuel n s]
  by (auto simp: wp_def split: prod.splits sum.splits option.splits)



section \<open>An episode ends\<close>

lemma episode_loop_returns:
  assumes "engine_clock_advances de time d" "finite_positive timeout = Inr x" "x \<le> of_nat fuel * d"
    and "made < m" "m \<le> made + n"
  shows "wp (episode_loop de inst ids timeout (Some m) fuel n decision made) (\<lambda>r _. r \<noteq> None) (\<lambda>_ _. True) s"
  using assms(4,5)
proof (induction n arbitrary: decision made s)
  case (Suc n)
  have next_round: "wp (after_commit (Some m) (Suc made) y (episode_loop de inst ids timeout (Some m) fuel n (PDict y) (Suc made)))
      (\<lambda>r _. r \<noteq> None) (\<lambda>_ _. True) t" for y t
    by (rule after_commit_wp) (use Suc in auto)
  have stop: "wp (on_no_action made e) (\<lambda>r _. r \<noteq> None) (\<lambda>_ _. True) t" for e and t :: "'a searching"
    unfolding on_no_action_def by (cases e) (auto simp: wp_raise wp_ret split: option.split)
  show ?case
    unfolding episode_loop.simps wp_try_else
    by (rule wp_mono [OF decide_and_commit_returns [OF assms(1-3)]])
      (auto simp del: not_None_eq intro: next_round stop split: option.split)
qed simp

text \<open>C6: An episode ends: with a clock that advances by \<open>d\<close> whenever the engine reads it, a positive decision
  timeout and a bound on the decisions, the episode returns or raises after at most that many rounds,
  each with at most \<open>timeout / d\<close> iterations of its search.\<close>

theorem episode_terminates:
  assumes "engine_clock_advances de time d" "finite_positive decision_timeout = Inr x" "x \<le> of_nat fuel * d"
    and "nat i \<le> n"
  shows "fst (episode_run rc de inst ids decision_timeout (PInt i) close_timeout fuel n s) \<noteq> Inr None"
proof -
  have loop: "wp (episode_loop de inst ids decision_timeout (Some (nat i)) fuel n PNone 0) (\<lambda>r _. r \<noteq> None) (\<lambda>_ _. True) t"
    if "0 < i" for t
    by (rule episode_loop_returns [OF assms(1-3)]) (use that assms(4) in auto)
  have closed: "wp (with_close close (episode_loop de inst ids decision_timeout (Some (nat i)) fuel n PNone 0))
      (\<lambda>r _. r \<noteq> None) (\<lambda>_ _. True) t" if "0 < i" for close t
    unfolding with_close_def wp_try_else
  proof (rule wp_mono [OF loop [OF that]])
    show "wp (then_p close (ret_p r)) (\<lambda>r _. r \<noteq> None) (\<lambda>_ _. True) u" if "r \<noteq> None" for r :: "(nat \<times> pydict) option" and u
      by (rule wp_after) (use that in \<open>simp add: wp_ret\<close>)
    show "wp (then_p close (raise_p e)) (\<lambda>r _. r \<noteq> None) (\<lambda>_ _. True) u" for e and u :: "'a searching"
      by (rule wp_after) (simp add: wp_raise)
  qed
  have "wp (episode_run rc de inst ids decision_timeout (PInt i) close_timeout fuel n) (\<lambda>r _. r \<noteq> None) (\<lambda>_ _. True) s"
  proof (cases "i \<le> 0")
    case False
    then have i: "validate_max_decisions (PInt i) = Inr (Some (nat i))" "0 < i" by (simp_all add: validate_max_decisions_def)
    have finish: "wp (case r of None \<Rightarrow> ret_p None | Some (made, dto) \<Rightarrow> bind_p (now_p (de_beam de)) (\<lambda>now.
         ret_p (Some \<lparr>er_instance_id = inst, er_decisions_made = made, er_final_dto = dto, er_elapsed_s = now - start\<rparr>)))
        (\<lambda>r _. r \<noteq> None) (\<lambda>_ _. True) u" if "r \<noteq> None" for r start and u :: "'a searching"
      using that by (cases r) (auto simp: wp_ret intro!: wp_after split: prod.split)
    show ?thesis
      unfolding episode_run_def i(1) wp_bind [of "lift_p (Inr (Some (nat i)))"] wp_lift sum.case
      by (rule wp_after(1), rule wp_after(1), rule wp_after(1), unfold wp_bind [of "with_close _ _"])
        (rule wp_mono [OF closed [OF i(2)]], rule finish, simp_all)
  qed (simp add: episode_run_def wp_bind wp_lift validate_max_decisions_def)
  then show ?thesis by (auto simp: wp_def split: prod.splits sum.splits)
qed

definition demo_play_client :: "nat runner_client" where
  "demo_play_client =
     decision_client.extend
       (search_client.extend demo_search_client
         (decision_client.fields (\<lambda>_ _ _ _ _ _ _. raise_p RuntimeError) (\<lambda>_. {}) (\<lambda>_. None) (\<lambda>_ _ _. ret_p ())
           (\<lambda>_ _ _. ret_p (PDict demo_decision))
           (\<lambda>_ _ _ _. ret_p [(''masked_emulator_dto'', PDict [(''terminal'', PBool True)])]) (\<lambda>w. (''h'', w))))
       (runner_client.fields (\<lambda>_ _. ret_p ''i'') (\<lambda>_ _. ret_p []))"

definition demo_player :: "nat decision_engine" where
  "demo_player = \<lparr>de_client = decision_client.truncate demo_play_client, de_beam = demo_engine,
     de_fallback = Legacy (\<lambda>actions. ret_p PNone), de_event_branch_search = True, de_beam_search_enabled = True\<rparr>"

lemma demo_player_clock: "engine_clock_advances demo_player of_nat 1"
  using demo_clock_advances
  by (simp add: engine_clock_advances_def demo_player_def demo_play_client_def demo_engine_def
      decision_client.defs search_client.defs runner_client.defs clock_advances_def never_back_def raise_p_def ret_p_def)

theorem episode_terminates_witness:
  "fst (episode_run demo_play_client demo_player ''i'' (\<lambda>_. ''s'') (PInt 10) (PInt 3) (PInt 10) 10 3 (idle_search 0)) \<noteq> Inr None"
  by (rule episode_terminates [OF demo_player_clock, of "PInt 10" 10]) (simp_all add: float_overflows_def)

lemma demo_episode:
  "map_sum id (map_option er_decisions_made) (fst (episode_run demo_play_client demo_player ''i'' (\<lambda>_. ''s'') (PInt 10) (PInt 3)
     (PInt 10) 10 3 (idle_search 0))) = Inr (Some 1)"
  by code_simp

end
