(* ===== verification/Damage_Race.thy ===== *)
theory Damage_Race
  imports Heuristic_Value
begin

text \<open>
  \<open>decision/damage_race_value.py\<close>: \<open>DamageRaceValueFunction\<close>, the value of a Combat state as the hit
  points the player will have left.  Its docstring derives closed forms for two minimisations over the
  split of the energy between attack and block; they are stated below as what they minimise.
\<close>

section \<open>Construction\<close>

text \<open>\<open>_finite\<close> and \<open>_positive\<close>\<close>

fun dr_finite :: "pyval \<Rightarrow> exn + rat" where
  "dr_finite (PInt i) = (if float_overflows i then Inl OverflowError else Inr (of_int i))"
| "dr_finite (PFloat (Fin r)) = Inr r"
| "dr_finite _ = Inl ValueError"

definition dr_positive :: "pyval \<Rightarrow> exn + rat" where
  "dr_positive v = then_r (dr_finite v) (\<lambda>r. if r \<le> 0 then Inl ValueError else Inr r)"

record damage_race =
  dr_block_per_energy :: rat
  dr_turn_attrition :: rat
  dr_default_damage_per_energy :: rat
  dr_min_damage_per_energy :: rat
  dr_calibration_prior_turns :: rat
  dr_enemy_multipliers :: "(string \<times> rat) list"
  dr_terminal_values :: "(string \<times> rat) list"

definition default_terminal_values :: "(string \<times> rat) list" where
  "default_terminal_values = [(''victory'', 100000), (''defeat'', - 100000)]"

fun dr_multipliers :: "pydict \<Rightarrow> exn + (string \<times> rat) list" where
  "dr_multipliers [] = Inr []"
| "dr_multipliers ((name, raw) # rest) =
     (if name = [] then Inl ValueError
      else then_r (dr_positive raw) (\<lambda>r. then_r (dr_multipliers rest) (\<lambda>ms. Inr ((name, r) # ms))))"

fun dr_set_terminal_values :: "(string \<times> rat) list \<Rightarrow> pydict \<Rightarrow> exn + (string \<times> rat) list" where
  "dr_set_terminal_values table [] = Inr table"
| "dr_set_terminal_values table ((name, raw) # rest) =
     then_r (dr_finite raw) (\<lambda>r. dr_set_terminal_values (AList.update name r table) rest)"

definition damage_race_init ::
  "pyval \<Rightarrow> pyval \<Rightarrow> pyval \<Rightarrow> pyval \<Rightarrow> pyval \<Rightarrow> pydict \<Rightarrow> pydict \<Rightarrow> exn + damage_race" where
  "damage_race_init block attrition default_damage min_damage prior_turns multipliers terminal_values =
     then_r (dr_positive block) (\<lambda>b.
     then_r (dr_positive attrition) (\<lambda>c.
     then_r (dr_positive default_damage) (\<lambda>d.
     then_r (dr_positive min_damage) (\<lambda>m.
     then_r (dr_positive prior_turns) (\<lambda>p.
     then_r (dr_multipliers multipliers) (\<lambda>ms.
     then_r (dr_set_terminal_values default_terminal_values terminal_values) (\<lambda>ts.
     Inr \<lparr>dr_block_per_energy = b, dr_turn_attrition = c, dr_default_damage_per_energy = d,
          dr_min_damage_per_energy = m, dr_calibration_prior_turns = p, dr_enemy_multipliers = ms,
          dr_terminal_values = ts\<rparr>)))))))"

section \<open>The model\<close>

definition unblocked_need :: "rat \<Rightarrow> rat \<Rightarrow> rat" where
  "unblocked_need incoming block = max 0 (incoming - max 0 block)"

definition energy_budget :: "rat option \<Rightarrow> rat option \<Rightarrow> rat" where
  "energy_budget max_energy energy =
     (case max_energy of
        Some m \<Rightarrow> if 0 < m then m else (case energy of Some e \<Rightarrow> if 0 < e then e else 1 | None \<Rightarrow> 1)
      | None \<Rightarrow> (case energy of Some e \<Rightarrow> if 0 < e then e else 1 | None \<Rightarrow> 1))"

text \<open>the factor of one power: the first of its three keys that names a multiplier\<close>

fun power_factor :: "damage_race \<Rightarrow> pydict \<Rightarrow> string list \<Rightarrow> rat" where
  "power_factor dr pw [] = 1"
| "power_factor dr pw (k # ks) =
     (case dget pw k of
        PStr s \<Rightarrow> (case map_of (dr_enemy_multipliers dr) s of Some f \<Rightarrow> f | None \<Rightarrow> power_factor dr pw ks)
      | _ \<Rightarrow> power_factor dr pw ks)"

definition multiplier_for :: "damage_race \<Rightarrow> enemy_observation \<Rightarrow> rat" where
  "multiplier_for dr e =
     foldl (\<lambda>factor pw. factor * power_factor dr pw [''power_id'', ''powerId'', ''id'']) 1 (eo_powers e)"

definition enemy_pool :: "enemy_observation \<Rightarrow> rat" where
  "enemy_pool e = max 0 (eo_hp e) + max 0 (eo_block e)"

definition effective_enemy_hp :: "damage_race \<Rightarrow> enemy_observation list \<Rightarrow> rat" where
  "effective_enemy_hp dr alive =
     (if dr_enemy_multipliers dr = [] then sum_list (map enemy_pool alive)
      else sum_list (map (\<lambda>e. enemy_pool e * multiplier_for dr e) alive))"

definition damage_per_energy :: "damage_race \<Rightarrow> combat_observation \<Rightarrow> rat \<Rightarrow> rat" where
  "damage_per_energy dr ob max_energy =
     (let dealt = sum_list (map (\<lambda>e. max 0 (eo_max_hp e - eo_hp e)) (ob_enemies ob));
          completed = (case ob_turn_number ob of Some turn \<Rightarrow> max 0 (turn - 1) | None \<Rightarrow> 0);
          observed_energy = max_energy * of_int completed;
          prior_energy = max_energy * dr_calibration_prior_turns dr;
          rate = (max 0 dealt + prior_energy * dr_default_damage_per_energy dr) / (observed_energy + prior_energy)
      in max (dr_min_damage_per_energy dr) rate)"

definition remaining_loss :: "damage_race \<Rightarrow> rat \<Rightarrow> rat \<Rightarrow> rat \<Rightarrow> rat \<Rightarrow> rat" where
  "remaining_loss dr remaining enemy_damage rate max_energy =
     (if remaining \<le> 0 then 0
      else
        let race_rate = (enemy_damage + dr_turn_attrition dr) / max_energy;
            spare_energy = max_energy - enemy_damage / dr_block_per_energy dr
        in remaining * (if 0 < spare_energy then min race_rate (dr_turn_attrition dr / spare_energy) else race_rate)
             / rate)"

definition cost_for_split :: "damage_race \<Rightarrow> rat \<Rightarrow> rat \<Rightarrow> rat \<Rightarrow> rat \<Rightarrow> rat \<Rightarrow> rat \<Rightarrow> rat \<Rightarrow> rat" where
  "cost_for_split dr blocking_energy energy threat remaining rate max_energy incoming =
     (let leak = max 0 (threat - blocking_energy * dr_block_per_energy dr);
          attacking_energy = max 0 (energy - blocking_energy);
          left = max 0 (remaining - attacking_energy * rate)
      in leak + remaining_loss dr left incoming rate max_energy)"

text \<open>what the current turn has to split\<close>

definition turn_energy :: "combat_observation \<Rightarrow> rat" where
  "turn_energy ob = max 0 (case ob_energy ob of Some e \<Rightarrow> e | None \<Rightarrow> 0)"

definition split_cost :: "damage_race \<Rightarrow> combat_observation \<Rightarrow> rat \<Rightarrow> rat" where
  "split_cost dr ob split =
     (let max_energy = energy_budget (ob_max_energy ob) (ob_energy ob);
          incoming = incoming_before_block ob
      in cost_for_split dr split (turn_energy ob) (unblocked_need incoming (ob_block ob))
           (effective_enemy_hp dr (alive_enemies ob)) (damage_per_energy dr ob max_energy) max_energy incoming)"

definition turn_cost :: "damage_race \<Rightarrow> combat_observation \<Rightarrow> rat" where
  "turn_cost dr ob =
     (if effective_enemy_hp dr (alive_enemies ob) \<le> 0 then max 0 (incoming_before_block ob - ob_block ob)
      else
        let threat = unblocked_need (incoming_before_block ob) (ob_block ob);
            exactly_enough = min (turn_energy ob) (threat / dr_block_per_energy dr)
        in min (split_cost dr ob 0) (min (split_cost dr ob exactly_enough) (split_cost dr ob (turn_energy ob))))"

definition dr_exact_terminal_utility :: "damage_race \<Rightarrow> pydict \<Rightarrow> exn + rat option" where
  "dr_exact_terminal_utility dr dto =
     then_r (terminal_outcome dto) (\<lambda>outcome. Inr (Option.bind outcome (map_of (dr_terminal_values dr))))"

definition dr_evaluate :: "damage_race \<Rightarrow> pydict \<Rightarrow> exn + rat" where
  "dr_evaluate dr dto =
     then_r (dr_exact_terminal_utility dr dto) (\<lambda>terminal.
       case terminal of
         Some r \<Rightarrow> Inr r
       | None \<Rightarrow> then_r (observe True dto) (\<lambda>ob. Inr (ob_hp ob - turn_cost dr ob)))"

section \<open>The damage race\<close>

text \<open>the parameters \<open>__init__\<close> lets through\<close>

definition damage_race_ok :: "damage_race \<Rightarrow> bool" where
  "damage_race_ok dr \<longleftrightarrow> 0 < dr_block_per_energy dr \<and> 0 < dr_turn_attrition dr \<and> 0 < dr_default_damage_per_energy dr \<and>
     0 < dr_min_damage_per_energy dr \<and> 0 < dr_calibration_prior_turns dr"

lemma dr_positive_Inr: "dr_positive v = Inr r \<Longrightarrow> 0 < r"
  by (auto simp: dr_positive_def then_r_eq_Inr split: if_splits)

lemma damage_race_init_ok:
  "damage_race_init block attrition dd md pt ms ts = Inr dr \<Longrightarrow> damage_race_ok dr"
  by (auto simp: damage_race_init_def then_r_eq_Inr damage_race_ok_def dest: dr_positive_Inr)

text \<open>
  The hit points a turn costs per unit of attacking energy, when \<open>x\<close> of the budget \<open>E\<close> attacks and the rest
  blocks \<open>s\<close> damage per unit of \<open>d\<close>, beside the attrition \<open>c\<close>
\<close>

definition race_cost :: "rat \<Rightarrow> rat \<Rightarrow> rat \<Rightarrow> rat \<Rightarrow> rat \<Rightarrow> rat" where
  "race_cost s c d E x = (max 0 (d - (E - x) * s) + c) / x"

definition race_loss_rate :: "rat \<Rightarrow> rat \<Rightarrow> rat \<Rightarrow> rat \<Rightarrow> rat" where
  "race_loss_rate s c d E = (if 0 < E - d / s then min ((d + c) / E) (c / (E - d / s)) else (d + c) / E)"

lemma race_cost_all_in:
  assumes "0 < x" "x \<le> E" "E * s \<le> d + c" "0 \<le> d" "0 < c" "0 < s"
  shows "(d + c) / E \<le> race_cost s c d E x"
proof -
  have "0 \<le> (E - x) * (d + c - E * s)" using assms by simp
  then have "(d + c) * x \<le> (d - (E - x) * s + c) * E" by (simp add: algebra_simps)
  moreover have "(d - (E - x) * s + c) * E \<le> (max 0 (d - (E - x) * s) + c) * E"
    using assms by (intro mult_right_mono) auto
  ultimately have "(d + c) * x \<le> (max 0 (d - (E - x) * s) + c) * E" by linarith
  then show ?thesis using assms by (simp add: race_cost_def field_simps)
qed

lemma race_cost_blocking:
  assumes "0 < x" "x \<le> E" "d + c < E * s" "0 < E - d / s" "0 < c" "0 < s"
  shows "c / (E - d / s) \<le> race_cost s c d E x"
proof -
  define y where "y = E - d / s"
  have y: "0 < y" using assms(4) by (simp add: y_def)
  have d: "d = (E - y) * s" using assms(6) by (simp add: y_def)
  have "c * x \<le> (max 0 (d - (E - x) * s) + c) * y"
  proof (cases "x \<le> y")
    case True
    then have "c * x \<le> c * y" using assms(5) by simp
    also have "\<dots> \<le> (max 0 (d - (E - x) * s) + c) * y" using y by (intro mult_right_mono) auto
    finally show ?thesis .
  next
    case False
    have "c < y * s" using assms(3) by (simp add: d algebra_simps)
    then have "0 \<le> (x - y) * (y * s - c)" using False by simp
    then have "c * x \<le> (d - (E - x) * s + c) * y" by (simp add: d algebra_simps)
    also have "\<dots> \<le> (max 0 (d - (E - x) * s) + c) * y" using y by (intro mult_right_mono) auto
    finally show ?thesis .
  qed
  then show ?thesis
    using assms(1) y by (simp add: race_cost_def y_def [symmetric] pos_divide_le_eq) (simp add: field_simps)
qed

lemma race_loss_rate_least:
  assumes "0 < x" "x \<le> E" "0 \<le> d" "0 < c" "0 < s"
  shows "race_loss_rate s c d E \<le> race_cost s c d E x"
proof (cases "0 < E - d / s")
  case True
  show ?thesis
  proof (cases "E * s \<le> d + c")
    case True
    then show ?thesis
      using race_cost_all_in [OF assms(1,2) True assms(3-5)] by (auto simp: race_loss_rate_def)
  next
    case False
    then show ?thesis
      using race_cost_blocking [OF assms(1,2) _ True assms(4,5)] True by (auto simp: race_loss_rate_def)
  qed
next
  case False
  then have "E * s \<le> d" using assms(5) by (simp add: field_simps)
  then have "E * s \<le> d + c" using assms(4) by simp
  then show ?thesis
    using race_cost_all_in [OF assms(1,2) _ assms(3-5)] False by (simp add: race_loss_rate_def)
qed

lemma race_loss_rate_attained:
  assumes "0 < E" "0 \<le> d" "0 < c" "0 < s"
  shows "\<exists>x. 0 < x \<and> x \<le> E \<and> race_loss_rate s c d E = race_cost s c d E x"
proof (cases "0 < E - d / s \<and> c / (E - d / s) \<le> (d + c) / E")
  case True
  have "race_cost s c d E (E - d / s) = c / (E - d / s)" using assms(4) by (simp add: race_cost_def)
  moreover have "race_loss_rate s c d E = c / (E - d / s)" using True by (simp add: race_loss_rate_def min_def)
  moreover have "E - d / s \<le> E" using assms(2,4) by simp
  ultimately show ?thesis using True by metis
next
  case False
  have "race_cost s c d E E = (d + c) / E" using assms(2) by (simp add: race_cost_def)
  moreover have "race_loss_rate s c d E = (d + c) / E" using False by (auto simp: race_loss_rate_def min_def)
  ultimately show ?thesis using assms(1) by auto
qed

lemma remaining_loss_rate:
  "0 < R \<Longrightarrow> remaining_loss dr R d k E = R * race_loss_rate (dr_block_per_energy dr) (dr_turn_attrition dr) d E / k"
  by (simp add: remaining_loss_def race_loss_rate_def)

text \<open>C13: The closed form of the damage race is the minimum it claims to be: for every enemy pool \<open>R\<close>, attack \<open>d\<close>,
  damage \<open>k\<close> per energy and budget \<open>E\<close>, \<open>remaining_loss\<close> is at most the cost \<open>R / (x * k) * (max 0 (d - (E - x) * s) + c)\<close>
  of the rest of the fight under any split that attacks with \<open>0 < x \<le> E\<close>, and is the cost of one of
  them.\<close>

theorem remaining_loss_is_the_minimum:
  assumes "damage_race_ok dr" "0 < R" "0 \<le> d" "0 < k" "0 < E"
  shows "(\<forall>x. 0 < x \<and> x \<le> E \<longrightarrow> remaining_loss dr R d k E \<le>
      R / (x * k) * (max 0 (d - (E - x) * dr_block_per_energy dr) + dr_turn_attrition dr)) \<and>
    (\<exists>x. 0 < x \<and> x \<le> E \<and> remaining_loss dr R d k E =
      R / (x * k) * (max 0 (d - (E - x) * dr_block_per_energy dr) + dr_turn_attrition dr))"
proof -
  let ?s = "dr_block_per_energy dr" and ?c = "dr_turn_attrition dr"
  have pos: "0 < ?s" "0 < ?c" using assms(1) by (simp_all add: damage_race_ok_def)
  have cost: "R / (x * k) * (max 0 (d - (E - x) * ?s) + ?c) = R * race_cost ?s ?c d E x / k" for x
    by (simp add: race_cost_def)
  have "remaining_loss dr R d k E \<le> R * race_cost ?s ?c d E x / k" if "0 < x" "x \<le> E" for x
    using race_loss_rate_least [OF that assms(3) pos(2,1)] assms(2,4)
    by (simp add: remaining_loss_rate divide_right_mono)
  with race_loss_rate_attained [OF assms(5,3) pos(2,1)] show ?thesis
    unfolding cost remaining_loss_rate [OF assms(2)] by metis
qed

definition demo_race :: damage_race where
  "demo_race = \<lparr>dr_block_per_energy = 5, dr_turn_attrition = 1, dr_default_damage_per_energy = 6,
     dr_min_damage_per_energy = 1, dr_calibration_prior_turns = 1, dr_enemy_multipliers = [],
     dr_terminal_values = default_terminal_values\<rparr>"

lemma demo_race_init:
  "damage_race_init (PInt 5) (PInt 1) (PInt 6) (PInt 1) (PInt 1) [] [] = Inr demo_race"
  by (simp add: damage_race_init_def dr_positive_def float_overflows_def demo_race_def)

theorem remaining_loss_is_the_minimum_witness:
  "remaining_loss demo_race 30 10 6 3 = 5 \<and>
   remaining_loss demo_race 30 10 6 3 \<le> 30 / (2 * 6) * (max 0 (10 - (3 - 2) * 5) + 1)"
proof -
  have "damage_race_ok demo_race" by (rule damage_race_init_ok [OF demo_race_init])
  from remaining_loss_is_the_minimum [OF this, of 30 10 6 3]
  have "\<forall>x. 0 < x \<and> x \<le> 3 \<longrightarrow> remaining_loss demo_race 30 10 6 3 \<le>
      30 / (x * 6) * (max 0 (10 - (3 - x) * dr_block_per_energy demo_race) + dr_turn_attrition demo_race)"
    by simp
  from spec [OF this, of 2] show ?thesis by (simp add: demo_race_def remaining_loss_def)
qed

section \<open>The split of the current turn\<close>

lemma incoming_nonneg: "0 \<le> incoming_before_block ob"
  unfolding incoming_before_block_def by (intro sum_list_nonneg) (auto simp: incoming_attack_def)

lemma energy_budget_pos: "0 < energy_budget m e"
  by (auto simp: energy_budget_def split: option.splits)

lemma damage_per_energy_pos: "damage_race_ok dr \<Longrightarrow> 0 < damage_per_energy dr ob E"
  by (simp add: damage_race_ok_def damage_per_energy_def Let_def less_max_iff_disj)

lemma race_loss_rate_nonneg: "0 \<le> d \<Longrightarrow> 0 < c \<Longrightarrow> 0 < E \<Longrightarrow> 0 \<le> race_loss_rate s c d E"
  by (auto simp: race_loss_rate_def min_def)

text \<open>the cost of a split, with \<open>q\<close> hit points per enemy hit point left\<close>

definition plain_cost :: "rat \<Rightarrow> rat \<Rightarrow> rat \<Rightarrow> rat \<Rightarrow> rat \<Rightarrow> rat \<Rightarrow> rat \<Rightarrow> rat" where
  "plain_cost s t R k e q x = max 0 (t - x * s) + max 0 (R - max 0 (e - x) * k) * q"

lemma plain_cost_linear:
  assumes "0 \<le> x" "x \<le> e" "0 < s" "0 \<le> t" "0 < k" "0 \<le> q" "e * k \<le> R"
  shows "min (plain_cost s t R k e q 0) (plain_cost s t R k e q (min e (t / s))) \<le> plain_cost s t R k e q x"
proof -
  define y where "y = min e (t / s)"
  have y: "0 \<le> y" "y \<le> e" "y * s \<le> t" using assms by (auto simp: y_def min_def field_simps)
  have left: "max 0 (R - max 0 (e - z) * k) = R - e * k + z * k" if "0 \<le> z" "z \<le> e" for z
  proof -
    have "0 \<le> z * k" using that assms(5) by simp
    then have "0 \<le> R - (e - z) * k" using assms(7) by (simp add: algebra_simps)
    with that show ?thesis by (simp add: max_def algebra_simps)
  qed
  show ?thesis
  proof (cases "x \<le> y")
    case True
    then have "x * s \<le> y * s" using assms(3) by simp
    then have xs: "x * s \<le> t" using y(3) by simp
    have eq: "plain_cost s t R k e q z = t - z * s + (R - e * k + z * k) * q" if "0 \<le> z" "z \<le> e" "z * s \<le> t" for z
      using that left [OF that(1,2)] by (simp add: plain_cost_def)
    have at: "plain_cost s t R k e q 0 = t + (R - e * k) * q"
      "plain_cost s t R k e q y = t + (R - e * k) * q + y * (k * q - s)"
      "plain_cost s t R k e q x = t + (R - e * k) * q + x * (k * q - s)"
      using eq [of 0] eq [OF y] eq [OF assms(1,2) xs] y assms(1,2,4) by (simp_all add: algebra_simps)
    show ?thesis
    proof (cases "0 \<le> k * q - s")
      case True
      then show ?thesis using at assms(1) by (simp add: y_def [symmetric] min.coboundedI1)
    next
      case False
      then have "y * (k * q - s) \<le> x * (k * q - s)"
        using \<open>x \<le> y\<close> by (intro mult_right_mono_neg) auto
      then show ?thesis using at by (simp add: y_def [symmetric] min.coboundedI2)
    qed
  next
    case False
    then have ty: "y * s = t" using assms(2,3) by (auto simp: y_def min_def split: if_splits)
    have "(R - e * k + y * k) * q \<le> (R - e * k + x * k) * q"
      using False assms(5,6) by (intro mult_right_mono) auto
    moreover have "plain_cost s t R k e q y = (R - e * k + y * k) * q"
      using ty left [OF y(1,2)] by (simp add: plain_cost_def)
    moreover have "(R - e * k + x * k) * q \<le> plain_cost s t R k e q x"
      using left [OF assms(1,2)] by (simp add: plain_cost_def)
    ultimately show ?thesis by (simp add: y_def [symmetric] min.coboundedI2)
  qed
qed

text \<open>a point of energy that attacks saves no more than one that blocks: blocking comes first\<close>

lemma plain_cost_block_first:
  assumes "0 \<le> x" "x \<le> e" "0 < s" "0 \<le> t" "0 < k" "0 \<le> q" "k * q \<le> s"
  shows "plain_cost s t R k e q (min e (t / s)) \<le> plain_cost s t R k e q x"
proof -
  define y where "y = min e (t / s)"
  have y: "0 \<le> y" "y \<le> e" "y * s \<le> t" using assms by (auto simp: y_def min_def field_simps)
  have steps: "(e - x) * k = (e - y) * k + (y - x) * k" by (simp add: algebra_simps)
  show ?thesis
  proof (cases "x \<le> y")
    case True
    then have "0 \<le> (y - x) * k" using assms(5) by simp
    then have "max 0 (R - max 0 (e - y) * k) \<le> max 0 (R - max 0 (e - x) * k) + (y - x) * k"
      using y assms(1,2) steps by (simp add: max_def)
    then have "max 0 (R - max 0 (e - y) * k) * q \<le> (max 0 (R - max 0 (e - x) * k) + (y - x) * k) * q"
      using assms(6) by (rule mult_right_mono)
    moreover have "(y - x) * (k * q) \<le> (y - x) * s" using True assms(7) by (intro mult_left_mono) auto
    moreover have "x * s \<le> y * s" using True assms(3) by simp
    ultimately show ?thesis
      using y(3) by (simp add: plain_cost_def y_def [symmetric] algebra_simps)
  next
    case False
    then have ty: "y * s = t" using assms(2,3) by (auto simp: y_def min_def split: if_splits)
    have "(e - x) * k \<le> (e - y) * k" using False assms(5) by simp
    then have "max 0 (R - max 0 (e - y) * k) * q \<le> max 0 (R - max 0 (e - x) * k) * q"
      using assms(2,6) y(2) by (intro mult_right_mono) (auto simp: max_def)
    moreover have "max 0 (t - y * s) = 0" using ty by simp
    ultimately show ?thesis by (simp add: plain_cost_def y_def [symmetric] add_increasing)
  qed
qed

lemma split_cost_plain:
  fixes ob :: combat_observation
  defines "E \<equiv> energy_budget (ob_max_energy ob) (ob_energy ob)" and "d \<equiv> incoming_before_block ob"
  shows "split_cost dr ob x = plain_cost (dr_block_per_energy dr) (unblocked_need d (ob_block ob))
    (effective_enemy_hp dr (alive_enemies ob)) (damage_per_energy dr ob E) (turn_energy ob)
    (race_loss_rate (dr_block_per_energy dr) (dr_turn_attrition dr) d E / damage_per_energy dr ob E) x"
proof -
  have "remaining_loss dr (max 0 R) d k E =
      max 0 R * (race_loss_rate (dr_block_per_energy dr) (dr_turn_attrition dr) d E / k)" for R k
  proof (cases "0 < R")
    case True
    then show ?thesis using remaining_loss_rate [of R dr d k E] by simp
  qed (simp add: remaining_loss_def)
  then show ?thesis
    by (simp add: split_cost_def cost_for_split_def plain_cost_def Let_def E_def d_def)
qed

text \<open>C14: The three splits the value of a turn compares contain a cheapest one among all splits of the turn's
  energy, when either the energy cannot kill every enemy or a point of energy spent on attack saves no
  more hit points than one spent on block; the cost is then the minimum the docstring claims.  (Without
  this proviso it is not: see \<open>turn_cost_misses_the_kill\<close>.)\<close>

theorem turn_cost_is_the_minimum:
  fixes dr :: damage_race and ob :: combat_observation
  defines "E \<equiv> energy_budget (ob_max_energy ob) (ob_energy ob)"
  assumes "damage_race_ok dr" "0 < effective_enemy_hp dr (alive_enemies ob)"
    and "turn_energy ob * damage_per_energy dr ob E \<le> effective_enemy_hp dr (alive_enemies ob) \<or>
      race_loss_rate (dr_block_per_energy dr) (dr_turn_attrition dr) (incoming_before_block ob) E \<le> dr_block_per_energy dr"
    and "0 \<le> x" "x \<le> turn_energy ob"
  shows "turn_cost dr ob \<le> split_cost dr ob x \<and>
    (\<exists>y. 0 \<le> y \<and> y \<le> turn_energy ob \<and> turn_cost dr ob = split_cost dr ob y)"
proof
  let ?s = "dr_block_per_energy dr" and ?t = "unblocked_need (incoming_before_block ob) (ob_block ob)"
    and ?k = "damage_per_energy dr ob E" and ?q = "race_loss_rate (dr_block_per_energy dr) (dr_turn_attrition dr)
      (incoming_before_block ob) E"
  let ?y = "min (turn_energy ob) (?t / ?s)"
  have cost: "turn_cost dr ob = min (split_cost dr ob 0) (min (split_cost dr ob ?y) (split_cost dr ob (turn_energy ob)))"
    using assms(3) by (simp add: turn_cost_def Let_def)
  have s: "0 < ?s" and c: "0 < dr_turn_attrition dr" using assms(2) by (simp_all add: damage_race_ok_def)
  have t: "0 \<le> ?t" by (simp add: unblocked_need_def)
  have k: "0 < ?k" by (rule damage_per_energy_pos [OF assms(2)])
  have q: "0 \<le> ?q / ?k"
    using race_loss_rate_nonneg [OF incoming_nonneg c energy_budget_pos] k by (simp add: E_def)
  have "min (split_cost dr ob 0) (split_cost dr ob ?y) \<le> split_cost dr ob x"
    using assms(4)
  proof
    assume "turn_energy ob * ?k \<le> effective_enemy_hp dr (alive_enemies ob)"
    from plain_cost_linear [OF assms(5,6) s t k q this] show ?thesis
      unfolding split_cost_plain E_def .
  next
    assume "?q \<le> ?s"
    then have "?k * (?q / ?k) \<le> ?s" using k by simp
    from plain_cost_block_first [OF assms(5,6) s t k q this] show ?thesis
      unfolding split_cost_plain E_def by (rule min.coboundedI2)
  qed
  then show "turn_cost dr ob \<le> split_cost dr ob x"
    unfolding cost by (auto simp: min_le_iff_disj)
  have "0 \<le> turn_energy ob" "0 \<le> ?y" "?y \<le> turn_energy ob"
    using s t by (simp_all add: turn_energy_def)
  then show "\<exists>y. 0 \<le> y \<and> y \<le> turn_energy ob \<and> turn_cost dr ob = split_cost dr ob y"
    unfolding cost by (smt (verit) min_def order.refl)
qed

text \<open>one enemy with a few hit points and a large attack, at the start of a fight\<close>

definition demo_race_dto :: "int \<Rightarrow> int \<Rightarrow> pydict" where
  "demo_race_dto hp attack =
     [(''hp'', PInt 50), (''maxHp'', PInt 80), (''energy'', PInt 3), (''maxEnergy'', PInt 3), (''turnNumber'', PInt 1),
      (''enemies'', PList [PDict [(''hp'', PInt hp), (''maxHp'', PInt hp),
         (''intent'', PDict [(''attackDamage'', PInt attack)])]])]"

definition demo_race_observation :: "rat \<Rightarrow> rat \<Rightarrow> combat_observation" where
  "demo_race_observation hp attack =
     \<lparr>ob_hp = 50, ob_max_hp = 80, ob_block = 0, ob_energy = Some 3, ob_max_energy = Some 3, ob_turn_number = Some 1,
      ob_enemies = [\<lparr>eo_index = None, eo_hp = hp, eo_max_hp = hp, eo_is_alive = True, eo_attack_damage = attack,
        eo_attack_repeats = 1, eo_powers = [], eo_block = 0\<rparr>], ob_hand = [], ob_potions = [],
      ob_player_powers = []\<rparr>"

lemma demo_race_observed:
  "observe True (demo_race_dto 6 15) = Inr (demo_race_observation 6 15)"
  "observe True (demo_race_dto 60 15) = Inr (demo_race_observation 60 15)"
  by code_simp+

theorem turn_cost_is_the_minimum_witness:
  "observe True (demo_race_dto 60 15) = Inr (demo_race_observation 60 15) \<and>
   turn_cost demo_race (demo_race_observation 60 15) \<le> split_cost demo_race (demo_race_observation 60 15) 2"
proof -
  have "damage_race_ok demo_race" by (rule damage_race_init_ok [OF demo_race_init])
  from turn_cost_is_the_minimum [OF this, of "demo_race_observation 60 15" 2] demo_race_observed
  show ?thesis
    by (simp add: demo_race_def demo_race_observation_def effective_enemy_hp_def alive_enemies_def enemy_pool_def
        turn_energy_def damage_per_energy_def energy_budget_def)
qed

text \<open>
  The docstring of \<open>_turn_cost\<close> says that the three splits contain the cheapest one.  The cost has a
  second kink, where the energy left is exactly enough to kill: here one point of energy kills the
  enemy and two that block leave 5 damage, but the turn is charged more.
\<close>

theorem turn_cost_misses_the_kill:
  "observe True (demo_race_dto 6 15) = Inr (demo_race_observation 6 15) \<and>
   turn_energy (demo_race_observation 6 15) = 3 \<and>
   split_cost demo_race (demo_race_observation 6 15) 2 = 5 \<and>
   turn_cost demo_race (demo_race_observation 6 15) = 16 / 3"
  by (rule conjI [OF demo_race_observed(1)]) code_simp

end
