(* ===== verification/Search_Trace.thy ===== *)
theory Search_Trace
  imports Beam_Frontier
begin

text \<open>
  \<open>decision/search_trace.py\<close>: the events a search records for training and replay, and the
  reconstruction of a pruning step from its record.  A recorded step replays exactly: its views, its
  survivors in order and its context are those of the run.
\<close>

section \<open>Events\<close>

record trace_start =
  ts_search_id :: string
  ts_instance_id :: string
  ts_root_decision_point_id :: string
  ts_beam_width :: int
  ts_top_k_actions :: int
  ts_max_depth :: int
  ts_max_continuation_steps :: int
  ts_time_budget_ms :: "rat option"
  ts_pruner_name :: string
  ts_pruner_version :: string
  ts_exhaustive_root_actions :: bool

record candidate_trace =
  ct_action_id :: string
  ct_action :: pydict
  ct_branch_id :: string
  ct_rng_id :: int
  ct_policy_rank :: "int option"
  ct_policy_score :: "rat option"
  ct_post_coverage_rank :: int
  ct_candidate_source :: string

record proposal_trace =
  pt_search_id :: string
  pt_proposal_step_id :: string
  pt_parent_node_id :: string
  pt_parent_branch_id :: string
  pt_decision_point_id :: string
  pt_legal_actions :: "pydict list"
  pt_candidates :: "candidate_trace list"
  pt_requested_top_k :: int
  pt_exhaustive_root :: bool

record resolved_trace =
  rn_search_id :: string
  rn_node_id :: string
  rn_parent_node_id :: string
  rn_branch_id :: string
  rn_parent_branch_id :: string
  rn_root_action_id :: "string option"
  rn_rng_id :: int
  rn_decision_point_id :: string
  rn_depth :: int
  rn_combat_depth :: int
  rn_continuation_steps :: int
  rn_value :: rat
  rn_value_is_fresh :: bool
  rn_value_source :: string
  rn_state_kind :: string
  rn_resolution :: string
  rn_terminal :: bool
  rn_action_id :: "string option"
  rn_action_type :: "string option"
  rn_action :: "pydict option"
  rn_policy_rank :: "int option"
  rn_policy_score :: "rat option"
  rn_post_coverage_rank :: "int option"
  rn_candidate_source :: "string option"

record fault_trace =
  ft_search_id :: string
  ft_node_id :: string
  ft_parent_node_id :: string
  ft_branch_id :: string
  ft_parent_branch_id :: string
  ft_root_action_id :: "string option"
  ft_rng_id :: int
  ft_depth :: int
  ft_combat_depth :: int
  ft_continuation_steps :: int
  ft_action_id :: string
  ft_action_type :: "string option"
  ft_action :: "pydict option"
  ft_policy_rank :: "int option"
  ft_policy_score :: "rat option"
  ft_post_coverage_rank :: "int option"
  ft_candidate_source :: "string option"
  ft_status :: string
  ft_fault_kind :: "string option"
  ft_detail :: "string option"

record drop_trace =
  dt_search_id :: string
  dt_node_id :: string
  dt_parent_node_id :: string
  dt_branch_id :: string
  dt_parent_branch_id :: string
  dt_root_action_id :: "string option"
  dt_rng_id :: int
  dt_depth :: int
  dt_combat_depth :: int
  dt_continuation_steps :: int
  dt_action_id :: string
  dt_action_type :: "string option"
  dt_action :: "pydict option"
  dt_policy_rank :: "int option"
  dt_policy_score :: "rat option"
  dt_post_coverage_rank :: "int option"
  dt_candidate_source :: "string option"
  dt_boundary :: "string option"
  dt_observed_action_types :: "string list option"
  dt_allowed_action_types :: "string list"

record prune_node_trace =
  pn_node_id :: string
  pn_parent_node_id :: string
  pn_branch_id :: string
  pn_parent_branch_id :: string
  pn_frontier_index :: int
  pn_kept :: bool
  pn_value :: rat
  pn_root_action_id :: "string option"
  pn_rng_id :: int
  pn_decision_point_id :: string
  pn_depth :: int
  pn_combat_depth :: int
  pn_continuation_steps :: int
  pn_terminal :: bool
  pn_action_id :: "string option"
  pn_action_type :: "string option"
  pn_action :: "pydict option"
  pn_policy_rank :: "int option"
  pn_policy_score :: "rat option"
  pn_post_coverage_rank :: "int option"
  pn_candidate_source :: "string option"

text \<open>a constructor outside the engine may pass anything as indices, or none\<close>

record prune_trace =
  pr_search_id :: string
  pr_prune_step_id :: string
  pr_phase :: string
  pr_k :: int
  pr_frontier_size :: int
  pr_pruner_name :: string
  pr_pruner_version :: string
  pr_max_depth :: int
  pr_depths_completed :: int
  pr_remaining_time_ms :: "rat option"
  pr_nodes :: "prune_node_trace list"
  pr_selected_indices :: "pyval list option"

record trace_end =
  te_search_id :: string
  te_reason :: string
  te_best_root_action_id :: "string option"
  te_best_value :: "rat option"
  te_depths_completed :: int
  te_nodes_expanded :: int
  te_branches_created :: int
  te_branches_faulted :: int
  te_branches_out_of_scope :: int
  te_leaves_turn_aligned :: int

datatype trace_event =
    StartEvent trace_start
  | ProposalEvent proposal_trace
  | ResolvedEvent resolved_trace
  | FaultEvent fault_trace
  | DropEvent drop_trace
  | PruneEvent prune_trace
  | EndEvent trace_end

section \<open>Reconstruction of a pruning step\<close>

definition to_prune_view :: "prune_node_trace \<Rightarrow> exn + prune_view" where
  "to_prune_view n =
     prune_view_init (PFloat (Fin (pn_value n))) (of_opt_str (pn_root_action_id n)) (PInt (pn_depth n))
       (PInt (pn_combat_depth n)) (PInt (pn_continuation_steps n)) (PBool (pn_terminal n))
       (of_opt_str (pn_action_type n)) (of_opt_int (pn_policy_rank n)) (of_opt_rat (pn_policy_score n))
       (of_opt_int (pn_post_coverage_rank n)) (of_opt_str (pn_candidate_source n))"

fun replay_indices :: "int \<Rightarrow> int list \<Rightarrow> pyval list \<Rightarrow> exn + int list" where
  "replay_indices n seen [] = Inr seen"
| "replay_indices n seen (v # vs) =
     (case v of
        PInt i \<Rightarrow>
          if i < 0 \<or> n \<le> i then Inl ValueError
          else if i \<in> set seen then Inl ValueError
          else replay_indices n (i # seen) vs
      | _ \<Rightarrow> Inl ValueError)"

definition replay_selected :: "prune_trace \<Rightarrow> exn + int list option" where
  "replay_selected tr =
     (case pr_selected_indices tr of
        None \<Rightarrow> Inr None
      | Some vs \<Rightarrow>
          if pr_k tr < int (length vs) then Inl ValueError
          else then_r (replay_indices (pr_frontier_size tr) [] vs) (\<lambda>seen. Inr (Some seen)))"

fun replay_views :: "int list option \<Rightarrow> int \<Rightarrow> prune_node_trace list \<Rightarrow> exn + prune_view list" where
  "replay_views selected index [] = Inr []"
| "replay_views selected index (n # ns) =
     (if pn_frontier_index n \<noteq> index then Inl ValueError
      else if (case selected of None \<Rightarrow> False | Some seen \<Rightarrow> pn_kept n \<noteq> (index \<in> set seen)) then Inl ValueError
      else then_r (to_prune_view n) (\<lambda>v. then_r (replay_views selected (index + 1) ns) (\<lambda>vs. Inr (v # vs))))"

definition node_views :: "prune_trace \<Rightarrow> exn + prune_view list" where
  "node_views tr =
     (if int (length (pr_nodes tr)) \<noteq> pr_frontier_size tr then Inl ValueError
      else then_r (replay_selected tr) (\<lambda>selected. replay_views selected 0 (pr_nodes tr)))"

definition selected_node_views :: "prune_trace \<Rightarrow> exn + prune_view list" where
  "selected_node_views tr =
     (case pr_selected_indices tr of
        None \<Rightarrow> Inl ValueError
      | Some vs \<Rightarrow> then_r (node_views tr) (\<lambda>views.
          Inr (map (\<lambda>v. case v of PInt i \<Rightarrow> views ! nat i | _ \<Rightarrow> hd views) vs)))"

definition to_prune_context :: "prune_trace \<Rightarrow> pyval \<Rightarrow> exn + prune_context" where
  "to_prune_context tr target =
     prune_context_init (PStr (pr_search_id tr)) (PStr (pr_prune_step_id tr)) (PStr (pr_phase tr))
       (if target = PNone then PInt (pr_k tr) else target) (PInt (pr_max_depth tr))
       (PInt (pr_depths_completed tr)) (of_opt_rat (pr_remaining_time_ms tr))"

section \<open>The record of a pruning step\<close>

definition trace_node_id :: "string \<Rightarrow> string \<Rightarrow> string" where
  "trace_node_id search_id branch_id = search_id @ '':'' @ branch_id"

definition prune_node_record :: "string \<Rightarrow> nat list \<Rightarrow> nat \<Rightarrow> beam_node \<Rightarrow> prune_view \<Rightarrow> prune_node_trace" where
  "prune_node_record search_id selected index node view =
     \<lparr>pn_node_id = trace_node_id search_id (bn_branch_id node),
      pn_parent_node_id = trace_node_id search_id (bn_parent_branch_id node),
      pn_branch_id = bn_branch_id node, pn_parent_branch_id = bn_parent_branch_id node,
      pn_frontier_index = int index, pn_kept = (index \<in> set selected), pn_value = pv_value view,
      pn_root_action_id = pv_root_action_id view, pn_rng_id = bn_rng_id node,
      pn_decision_point_id = bn_decision_point_id node, pn_depth = pv_depth view,
      pn_combat_depth = pv_combat_depth view, pn_continuation_steps = pv_continuation_steps view,
      pn_terminal = pv_terminal view, pn_action_id = bn_action_id node, pn_action_type = pv_action_type view,
      pn_action = bn_action node, pn_policy_rank = pv_policy_rank view, pn_policy_score = pv_policy_score view,
      pn_post_coverage_rank = pv_post_coverage_rank view, pn_candidate_source = pv_candidate_source view\<rparr>"

fun prune_node_records :: "string \<Rightarrow> nat list \<Rightarrow> nat \<Rightarrow> beam_node list \<Rightarrow> prune_view list \<Rightarrow> prune_node_trace list" where
  "prune_node_records search_id selected index (node # nodes) (view # views) =
     prune_node_record search_id selected index node view #
       prune_node_records search_id selected (Suc index) nodes views"
| "prune_node_records search_id selected index _ _ = []"

text \<open>the step of \<open>_prune_stable_frontier\<close> with its context, views and validated indices\<close>

definition prune_record ::
  "string \<Rightarrow> string \<Rightarrow> prune_context \<Rightarrow> beam_node list \<Rightarrow> prune_view list \<Rightarrow> nat list \<Rightarrow> prune_trace" where
  "prune_record pruner_name pruner_version ctx frontier views selected =
     \<lparr>pr_search_id = pc_search_id ctx, pr_prune_step_id = pc_prune_step_id ctx, pr_phase = pc_phase ctx,
      pr_k = pc_beam_width ctx, pr_frontier_size = int (length frontier), pr_pruner_name = pruner_name,
      pr_pruner_version = pruner_version, pr_max_depth = pc_max_depth ctx,
      pr_depths_completed = pc_depths_completed ctx, pr_remaining_time_ms = pc_remaining_time_ms ctx,
      pr_nodes = prune_node_records (pc_search_id ctx) selected 0 frontier views,
      pr_selected_indices = Some (map (\<lambda>i. PInt (int i)) selected)\<rparr>"

section \<open>A recorded step replays\<close>

lemma optional_str_again: "optional_non_empty_str v = Inr x \<Longrightarrow> optional_non_empty_str (of_opt_str x) = Inr x"
  by (cases v) (auto simp: optional_non_empty_str_def optional_check_def then_r_def split: if_splits)

lemma optional_int_again: "optional_non_negative_int v = Inr x \<Longrightarrow> optional_non_negative_int (of_opt_int x) = Inr x"
  by (cases v) (auto simp: optional_non_negative_int_def optional_check_def then_r_def split: if_splits)

lemma optional_float_again: "optional_check finite_float v = Inr x \<Longrightarrow> optional_check finite_float (of_opt_rat x) = Inr x"
  by (cases x) (auto simp: optional_check_def then_r_def split: sum.splits)

lemma optional_source_again:
  "optional_check candidate_source_field v = Inr x \<Longrightarrow> optional_check candidate_source_field (of_opt_str x) = Inr x"
  by (cases v) (auto simp: optional_check_def then_r_def split: if_splits)

lemma int_again: "non_negative_int v = Inr i \<Longrightarrow> 0 \<le> i"
  by (cases v) (auto split: if_splits)

lemma view_again:
  assumes "prune_view_init val root_id depth combat_depth steps term atype prank pscore crank source = Inr v"
  shows "prune_view_init (PFloat (Fin (pv_value v))) (of_opt_str (pv_root_action_id v)) (PInt (pv_depth v))
    (PInt (pv_combat_depth v)) (PInt (pv_continuation_steps v)) (PBool (pv_terminal v))
    (of_opt_str (pv_action_type v)) (of_opt_int (pv_policy_rank v)) (of_opt_rat (pv_policy_score v))
    (of_opt_int (pv_post_coverage_rank v)) (of_opt_str (pv_candidate_source v)) = Inr v"
  using assms
  by (auto simp: prune_view_init_def then_r_eq_Inr optional_str_again optional_int_again optional_float_again
      optional_source_again not_less dest: int_again)

lemma prune_node_record_simps [simp]:
  "pn_frontier_index (prune_node_record search_id selected index node v) = int index"
  "pn_kept (prune_node_record search_id selected index node v) = (index \<in> set selected)"
  by (simp_all add: prune_node_record_def)

lemma replayed_view:
  "stable_prune_node_view node = Inr v \<Longrightarrow> to_prune_view (prune_node_record search_id selected index node v) = Inr v"
  by (auto simp: stable_prune_node_view_def to_prune_view_def prune_node_record_def intro: view_again split: if_splits)

lemma replayed_views:
  assumes "map_r stable_prune_node_view frontier = Inr views" "\<forall>i. i \<in> set seen \<longleftrightarrow> i \<in> int ` set selected"
  shows "replay_views (Some seen) (int index) (prune_node_records search_id selected index frontier views) = Inr views"
  using assms(1)
proof (induction frontier arbitrary: index views)
  case (Cons node frontier)
  then obtain v vs where v: "views = v # vs" "stable_prune_node_view node = Inr v"
    "map_r stable_prune_node_view frontier = Inr vs"
    by (auto simp: then_r_eq_Inr)
  have "replay_views (Some seen) (int (Suc index)) (prune_node_records search_id selected (Suc index) frontier vs) = Inr vs"
    by (rule Cons.IH [OF v(3)])
  with v replayed_view [OF v(2)] assms(2) show ?case
    by (auto simp: then_r_def add.commute)
qed simp

lemma records_length:
  "length frontier = length views \<Longrightarrow> length (prune_node_records search_id selected index frontier views) = length frontier"
  by (induction frontier views arbitrary: index rule: list_induct2) simp_all

lemma replayed_indices:
  assumes "distinct is" "\<forall>i \<in> set is. i < n" "\<forall>i \<in> set is. int i \<notin> set seen"
  shows "\<exists>js. replay_indices (int n) seen (map (\<lambda>i. PInt (int i)) is) = Inr js \<and>
    (\<forall>j. j \<in> set js \<longleftrightarrow> j \<in> int ` set is \<or> j \<in> set seen)"
  using assms
proof (induction "is" arbitrary: seen)
  case (Cons i "is")
  then have "\<exists>js. replay_indices (int n) (int i # seen) (map (\<lambda>i. PInt (int i)) is) = Inr js \<and>
    (\<forall>j. j \<in> set js \<longleftrightarrow> j \<in> int ` set is \<or> j \<in> set (int i # seen))"
    by (intro Cons.IH) auto
  with Cons.prems show ?case by auto
qed simp

lemma context_again:
  assumes "prune_context_init search_id step_id phase width depth completed remaining = Inr ctx"
  shows "prune_context_init (PStr (pc_search_id ctx)) (PStr (pc_prune_step_id ctx)) (PStr (pc_phase ctx))
    (PInt (pc_beam_width ctx)) (PInt (pc_max_depth ctx)) (PInt (pc_depths_completed ctx))
    (of_opt_rat (pc_remaining_time_ms ctx)) = Inr ctx"
proof -
  have str: "x \<noteq> []" if "prune_non_empty_str v = Inr x" for v x
    using that by (cases v) (auto split: if_splits)
  have pos: "0 < i" if "positive_int v = Inr i" for v i
    using that by (cases v) (auto split: if_splits)
  have time: "optional_check remaining_time_field (of_opt_rat x) = Inr x" if "optional_check remaining_time_field v = Inr x" for v x
    using that by (cases x) (auto simp: optional_check_def remaining_time_field_def then_r_eq_Inr raise_if_def split: if_splits)
  from assms show ?thesis
    by (auto simp: prune_context_init_def then_r_eq_Inr time not_less not_le dest: str pos int_again)
qed

text \<open>C17: A recorded pruning step replays exactly: from the record of a step of a run, with any pruner,
  \<open>node_views\<close> gives back the views the pruner saw, \<open>selected_node_views\<close> the survivors in the order the
  pruner returned them, and \<open>to_prune_context\<close> the context it was called with.\<close>

theorem pruning_step_replays:
  assumes "prune_context_init search_id step_id phase width depth completed remaining = Inr ctx"
    and "map_r stable_prune_node_view frontier = Inr views"
    and "validated_pruner_indices selected (length frontier) (pc_beam_width ctx) = Inr indices"
  shows "node_views (prune_record pruner version ctx frontier views indices) = Inr views \<and>
    selected_node_views (prune_record pruner version ctx frontier views indices) = Inr (map ((!) views) indices) \<and>
    to_prune_context (prune_record pruner version ctx frontier views indices) PNone = Inr ctx"
proof -
  let ?tr = "prune_record pruner version ctx frontier views indices"
  have len: "length frontier = length views" using assms(2) by (auto simp: map_r_eq_Inr dest: list_all2_lengthD)
  from assms(3) have ok: "distinct indices" "\<forall>i \<in> set indices. i < length frontier" "int (length indices) \<le> pc_beam_width ctx"
    by (simp_all add: validated_indices_iff)
  obtain seen where seen: "replay_indices (int (length frontier)) [] (map (\<lambda>i. PInt (int i)) indices) = Inr seen"
    "\<forall>j. j \<in> set seen \<longleftrightarrow> j \<in> int ` set indices"
    using replayed_indices [OF ok(1,2), of "[]"] by auto
  have views: "node_views ?tr = Inr views"
    using replayed_views [OF assms(2) seen(2), of 0] ok(3) len seen(1) records_length [OF len]
    by (simp add: node_views_def prune_record_def replay_selected_def then_r_def)
  then have "selected_node_views ?tr = Inr (map ((!) views) indices)"
    by (simp add: selected_node_views_def then_r_def) (simp add: prune_record_def)
  with views context_again [OF assms(1)] show ?thesis
    by (simp add: to_prune_context_def prune_record_def)
qed

definition demo_leaf :: "rat \<Rightarrow> beam_node" where
  "demo_leaf v =
     \<lparr>bn_branch_id = ''b'', bn_parent_branch_id = ''root'', bn_rng_id = 1, bn_decision_point_id = ''d'', bn_dto = [],
      bn_depth = 1, bn_value = v, bn_root_action_id = Some ''a'', bn_combat_depth = 1, bn_continuation_steps = 0,
      bn_branch_log = [], bn_terminal = False, bn_action_id = Some ''a'', bn_action_type = Some ''card'',
      bn_action = None, bn_policy_rank = Some 0, bn_policy_score = None, bn_post_coverage_rank = Some 0,
      bn_candidate_source = Some ''policy''\<rparr>"

theorem pruning_step_replays_witness:
  "selected_node_views (prune_record ''value_top_k'' ''1'' demo_prune_context [demo_leaf 1, demo_leaf 2]
     [demo_view 1, demo_view 2] [1]) = Inr [demo_view 2]"
proof -
  have "prune_context_init (PStr ''s'') (PStr ''s-ply-1'') (PStr ''stable'') (PInt 2) (PInt 3) (PInt 0) PNone =
      Inr demo_prune_context"
    "map_r stable_prune_node_view [demo_leaf 1, demo_leaf 2] = Inr [demo_view 1, demo_view 2]"
    "validated_pruner_indices (index_list [1]) (length [demo_leaf 1, demo_leaf 2]) (pc_beam_width demo_prune_context) = Inr [1]"
    by code_simp+
  from pruning_step_replays [OF this] show ?thesis by simp
qed

end
