(* ===== verification/Oracle_Targets.thy ===== *)
theory Oracle_Targets
  imports Search_Trace Beam_Search Search_Modes
begin

text \<open>
  \<open>decision/oracle_search.py\<close>: the configuration of an oracle collection, what its engine adds to a search,
  and the training targets derived from a trace.  A target is the score of a future leaf; where the
  search did not follow up, or a branch below failed, there is no target.
\<close>

section \<open>Configuration\<close>

record oracle_config =
  oc_beam_config :: beam_config
  oc_target_beam_width :: int
  oc_exhaustive_root_actions :: bool
  oc_rng_sampling :: string

definition default_oracle_beam_config :: beam_config where
  "default_oracle_beam_config = default_beam_config\<lparr>beam_width := 32, top_k_actions := 8, max_depth := 4\<rparr>"

definition oracle_config_init :: "beam_config \<Rightarrow> pyval \<Rightarrow> pyval \<Rightarrow> pyval \<Rightarrow> exn + oracle_config" where
  "oracle_config_init cfg width exhaustive rng_sampling =
     (case width of
        PInt w \<Rightarrow>
          if w \<le> 0 then Inl ValueError
          else if beam_width cfg < w then Inl ValueError
          else (case exhaustive of
             PBool e \<Rightarrow>
               if rng_sampling \<noteq> PStr ''independent'' then Inl ValueError
               else Inr \<lparr>oc_beam_config = cfg, oc_target_beam_width = w, oc_exhaustive_root_actions = e,
                         oc_rng_sampling = ''independent''\<rparr>
           | _ \<Rightarrow> Inl TypeError)
      | _ \<Rightarrow> Inl ValueError)"

definition effective_time_budget_ms :: "pyval \<Rightarrow> rat option \<Rightarrow> exn + rat" where
  "effective_time_budget_ms timeout_s configured =
     then_r (finite_positive timeout_s) (\<lambda>t.
       Inr (case configured of None \<Rightarrow> t * 1000 | Some ms \<Rightarrow> min (t * 1000) ms))"

section \<open>What the collection adds to a search\<close>

definition available_trace_actions :: "pydict list \<Rightarrow> pydict list" where
  "available_trace_actions actions =
     filter (\<lambda>a. dget a ''is_available'' \<noteq> PBool False \<and> is_nonempty_str (dget a ''action_id'')) actions"

definition available_dto_actions :: "pydict \<Rightarrow> pydict list" where
  "available_dto_actions dto = available_trace_actions (legal_action_mappings dto)"

definition oracle_record :: "int \<Rightarrow> bool \<Rightarrow> rat \<Rightarrow> trace_event \<Rightarrow> trace_event list \<Rightarrow> trace_event list" where
  "oracle_record descendant_top_k exhaustive budget_ms event events =
     events @ [case event of
        StartEvent s \<Rightarrow> StartEvent (s\<lparr>ts_time_budget_ms := Some budget_ms, ts_exhaustive_root_actions := exhaustive\<rparr>)
      | ProposalEvent p \<Rightarrow>
          (let is_root = (pt_parent_branch_id p = search_root_id) in
           ProposalEvent (p\<lparr>pt_requested_top_k :=
               if is_root \<and> exhaustive then int (length (available_trace_actions (pt_legal_actions p)))
               else descendant_top_k,
             pt_exhaustive_root := is_root \<and> exhaustive\<rparr>))
      | _ \<Rightarrow> event]"

text \<open>the proposal of the root asks for every available action and checks that it got them\<close>

definition oracle_propose_frontier ::
  "bool \<Rightarrow> 'w beam_engine \<Rightarrow> beam_node list \<Rightarrow> ('w, work list \<times> beam_node list) beam" where
  "oracle_propose_frontier exhaustive en beam =
     (case beam of
        [node] \<Rightarrow>
          if bn_branch_id node = search_root_id \<and> exhaustive then
            (let available = available_dto_actions (bn_dto node);
                 wide = max (top_k_actions (be_config en)) (int (length available))
             in bind_p (propose_frontier (en\<lparr>be_config := (be_config en)\<lparr>top_k_actions := wide\<rparr>\<rparr>) beam) (\<lambda>result.
                  if (\<lambda>w. PStr (cp_action_id (bm_candidate (snd w)))) ` set (fst result)
                     \<noteq> (\<lambda>a. dget a ''action_id'') ` set available
                  then raise_p RuntimeError else ret_p result))
          else propose_frontier en beam
      | _ \<Rightarrow> propose_frontier en beam)"

text \<open>\<open>exact_terminal_utility\<close> of the value model must be a finite number or \<open>None\<close>\<close>

definition exact_terminal_score :: "pyval \<Rightarrow> exn + rat option" where
  "exact_terminal_score v =
     (case v of
        PNone \<Rightarrow> Inr None
      | PInt i \<Rightarrow> if float_overflows i then Inl OverflowError else Inr (Some (of_int i))
      | PFloat (Fin r) \<Rightarrow> Inr (Some r)
      | _ \<Rightarrow> Inl RuntimeError)"

definition resolved_record ::
  "string \<Rightarrow> int \<Rightarrow> (pydict \<Rightarrow> exn + pyval) \<Rightarrow> bool \<Rightarrow> beam_node \<Rightarrow> exn + resolved_trace" where
  "resolved_record search_id depth_limit exact_terminal finished node =
     (let continuation = is_continuation_decision (bn_dto node);
          event = \<lparr>rn_search_id = search_id, rn_node_id = trace_node_id search_id (bn_branch_id node),
            rn_parent_node_id = trace_node_id search_id (bn_parent_branch_id node), rn_branch_id = bn_branch_id node,
            rn_parent_branch_id = bn_parent_branch_id node, rn_root_action_id = bn_root_action_id node,
            rn_rng_id = bn_rng_id node, rn_decision_point_id = bn_decision_point_id node, rn_depth = bn_depth node,
            rn_combat_depth = bn_combat_depth node, rn_continuation_steps = bn_continuation_steps node,
            rn_value = bn_value node, rn_value_is_fresh = (\<not> continuation), rn_value_source = ''value_bootstrap'',
            rn_state_kind = ''stable'',
            rn_resolution = (if finished then if depth_limit \<le> bn_combat_depth node then ''max_depth'' else ''cannot_expand''
                             else ''expandable_stable''),
            rn_terminal = bn_terminal node, rn_action_id = bn_action_id node, rn_action_type = bn_action_type node,
            rn_action = bn_action node, rn_policy_rank = bn_policy_rank node, rn_policy_score = bn_policy_score node,
            rn_post_coverage_rank = bn_post_coverage_rank node, rn_candidate_source = bn_candidate_source node\<rparr>
      in if bn_terminal node then
           then_r (then_r (exact_terminal (bn_dto node)) exact_terminal_score) (\<lambda>exact.
             Inr (case exact of
                    None \<Rightarrow> event\<lparr>rn_state_kind := ''terminal'', rn_resolution := ''terminal''\<rparr>
                  | Some r \<Rightarrow> event\<lparr>rn_state_kind := ''terminal'', rn_resolution := ''terminal'',
                                    rn_value := r, rn_value_source := ''terminal''\<rparr>))
         else if continuation then
           Inr (event\<lparr>rn_state_kind := ''continuation'', rn_resolution := ''continuation'', rn_value_source := ''inherited''\<rparr>)
         else Inr event)"

section \<open>The tree of a trace\<close>

fun as_start :: "trace_event \<Rightarrow> trace_start option" where
  "as_start (StartEvent s) = Some s" | "as_start _ = None"

fun as_end :: "trace_event \<Rightarrow> trace_end option" where
  "as_end (EndEvent e) = Some e" | "as_end _ = None"

fun as_resolved :: "trace_event \<Rightarrow> resolved_trace option" where
  "as_resolved (ResolvedEvent n) = Some n" | "as_resolved _ = None"

fun as_fault :: "trace_event \<Rightarrow> fault_trace option" where
  "as_fault (FaultEvent f) = Some f" | "as_fault _ = None"

fun as_prune :: "trace_event \<Rightarrow> prune_trace option" where
  "as_prune (PruneEvent p) = Some p" | "as_prune _ = None"

fun as_proposal :: "trace_event \<Rightarrow> proposal_trace option" where
  "as_proposal (ProposalEvent p) = Some p" | "as_proposal _ = None"

text \<open>\<open>resolved_by_id\<close>, where a later node replaces an earlier one, and \<open>children\<close>\<close>

definition node_by_id :: "resolved_trace list \<Rightarrow> string \<Rightarrow> resolved_trace option" where
  "node_by_id rs i = map_of (rev (map (\<lambda>n. (rn_node_id n, n)) rs)) i"

definition children_of :: "resolved_trace list \<Rightarrow> string \<Rightarrow> string list" where
  "children_of rs p = map rn_node_id (filter (\<lambda>n. rn_parent_node_id n = p) rs)"

definition oracle_pruned_ids :: "prune_trace list \<Rightarrow> string list" where
  "oracle_pruned_ids prunes = concat (map (\<lambda>p. map pn_node_id (filter (\<lambda>n. \<not> pn_kept n) (pr_nodes p))) prunes)"

lemma node_by_id_in: "node_by_id rs i = Some n \<Longrightarrow> n \<in> set rs \<and> rn_node_id n = i"
  by (auto simp: node_by_id_def dest!: map_of_SomeD)

lemma node_by_id_none: "node_by_id rs i = None \<longleftrightarrow> i \<notin> rn_node_id ` set rs"
  by (force simp: node_by_id_def map_of_eq_None_iff)

lemma unseen_decreases: "i \<in> A \<Longrightarrow> i \<notin> set seen \<Longrightarrow> finite A \<Longrightarrow> card (A - set (i # seen)) < card (A - set seen)"
  by (rule psubset_card_mono) auto

text \<open>\<open>_descendant_nodes\<close>: the queue, with the ids seen\<close>

function descend :: "resolved_trace list \<Rightarrow> string list \<Rightarrow> string list \<Rightarrow> resolved_trace list" where
  "descend rs [] seen = []"
| "descend rs (c # queue) seen =
     (if c \<in> set seen then descend rs queue seen
      else case node_by_id rs c of
        None \<Rightarrow> descend rs queue (c # seen)
      | Some n \<Rightarrow> n # descend rs (queue @ children_of rs c) (c # seen))"
  by pat_completeness auto

termination
proof (relation "measures [\<lambda>(rs, queue, seen). card (rn_node_id ` set rs - set seen), \<lambda>(rs, queue, seen). length queue]",
    goal_cases)
  case (3 rs c queue seen)
  then have "rn_node_id ` set rs - set (c # seen) = rn_node_id ` set rs - set seen" by (auto simp: node_by_id_none)
  then show ?case by simp
next
  case (4 rs c queue seen n)
  then have "c \<in> rn_node_id ` set rs" using node_by_id_in [of rs c n] by auto
  with 4 show ?case using unseen_decreases [of c "rn_node_id ` set rs" seen] by simp
qed auto

definition descendant_nodes :: "resolved_trace list \<Rightarrow> string \<Rightarrow> resolved_trace list" where
  "descendant_nodes rs i = descend rs (children_of rs i) []"

definition leaf_fresh_nodes :: "resolved_trace list \<Rightarrow> resolved_trace list \<Rightarrow> resolved_trace list" where
  "leaf_fresh_nodes rs nodes = filter (\<lambda>n. rn_value_is_fresh n \<and> children_of rs (rn_node_id n) = []) nodes"

section \<open>Faults\<close>

definition fault_censor_reason :: "fault_trace \<Rightarrow> string" where
  "fault_censor_reason f = ''branch_fault:'' @
     (case ft_fault_kind f of Some kind \<Rightarrow> if kind = [] then ft_status f else kind | None \<Rightarrow> ft_status f)"

text \<open>\<open>d.setdefault(k, v)\<close>\<close>

definition setdefault :: "'k \<Rightarrow> 'v \<Rightarrow> ('k \<times> 'v) list \<Rightarrow> ('k \<times> 'v) list" where
  "setdefault k v d = (if k \<in> fst ` set d then d else d @ [(k, v)])"

record fault_index =
  fi_reason :: "((string \<times> int) \<times> string) list"
  fi_depth :: "((string \<times> int) \<times> int) list"
  fi_ancestor :: "(string \<times> string) list"

text \<open>the walk from the parent of a fault to the root\<close>

function mark_ancestors ::
  "resolved_trace list \<Rightarrow> string \<Rightarrow> string list \<Rightarrow> string \<Rightarrow> (string \<times> string) list \<Rightarrow> (string \<times> string) list" where
  "mark_ancestors rs reason seen i table =
     (case node_by_id rs i of
        None \<Rightarrow> table
      | Some n \<Rightarrow>
          if i \<in> set seen then table
          else mark_ancestors rs reason (i # seen) (rn_parent_node_id n) (setdefault i reason table))"
  by pat_completeness auto

termination
proof (relation "measure (\<lambda>(rs, reason, seen, i, table). card (rn_node_id ` set rs - set seen))", goal_cases)
  case (2 rs reason seen i table n)
  then have "i \<in> rn_node_id ` set rs" using node_by_id_in [of rs i n] by auto
  with 2 show ?case using unseen_decreases [of i "rn_node_id ` set rs" seen] by simp
qed simp

declare mark_ancestors.simps [simp del]

definition index_fault :: "resolved_trace list \<Rightarrow> fault_trace \<Rightarrow> fault_index \<Rightarrow> fault_index" where
  "index_fault rs f ix =
     (let reason = fault_censor_reason f;
          ix' = (case ft_root_action_id f of
              None \<Rightarrow> ix
            | Some a \<Rightarrow>
                ix\<lparr>fi_reason := setdefault (a, ft_rng_id f) reason (fi_reason ix),
                   fi_depth := AList.update (a, ft_rng_id f)
                     (max (case map_of (fi_depth ix) (a, ft_rng_id f) of None \<Rightarrow> 0 | Some d \<Rightarrow> d) (ft_combat_depth f))
                     (fi_depth ix)\<rparr>)
      in ix'\<lparr>fi_ancestor := mark_ancestors rs reason [] (ft_parent_node_id f) (fi_ancestor ix')\<rparr>)"

definition index_faults :: "resolved_trace list \<Rightarrow> fault_trace list \<Rightarrow> fault_index" where
  "index_faults rs faults = fold (index_fault rs) faults \<lparr>fi_reason = [], fi_depth = [], fi_ancestor = []\<rparr>"

section \<open>Outcomes\<close>

text \<open>the trace as \<open>build_oracle_targets\<close> reads it\<close>

record oracle_tree =
  tree_nodes :: "resolved_trace list"
  tree_pruned :: "string list"
  tree_expanded :: "string list"
  tree_faults :: fault_index
  tree_reason :: string

definition final_leaves :: "oracle_tree \<Rightarrow> resolved_trace list \<Rightarrow> resolved_trace list" where
  "final_leaves tr leaves =
     filter (\<lambda>n. rn_node_id n \<notin> set (tree_pruned tr) \<and> rn_node_id n \<notin> set (tree_expanded tr)) leaves"

text \<open>\<open>max(nodes, key=state_score, default=None)\<close>\<close>

definition best_leaf :: "resolved_trace list \<Rightarrow> resolved_trace option" where
  "best_leaf leaves = (case leaves of [] \<Rightarrow> None | n # ns \<Rightarrow> Some (first_max rn_value n ns))"

record oracle_rng_outcome =
  ro_rng_id :: int
  ro_value :: "rat option"
  ro_target_source :: string
  ro_terminal_reached :: bool
  ro_deepest_combat_depth :: int
  ro_censored :: bool
  ro_censor_reason :: "string option"
  ro_best_node_id :: "string option"

definition nodes_of_root_rng :: "oracle_tree \<Rightarrow> string \<Rightarrow> int \<Rightarrow> resolved_trace list" where
  "nodes_of_root_rng tr a rng = filter (\<lambda>n. rn_root_action_id n = Some a \<and> rn_rng_id n = rng) (tree_nodes tr)"

definition rng_outcome :: "oracle_tree \<Rightarrow> string \<Rightarrow> int \<Rightarrow> oracle_rng_outcome" where
  "rng_outcome tr a rng =
     (let nodes = nodes_of_root_rng tr a rng;
          raw_leaves = leaf_fresh_nodes (tree_nodes tr) nodes;
          leaves = final_leaves tr raw_leaves;
          deepest = max (case map rn_combat_depth nodes of [] \<Rightarrow> 0 | d # ds \<Rightarrow> fold max ds d)
                        (case map_of (fi_depth (tree_faults tr)) (a, rng) of None \<Rightarrow> 0 | Some d \<Rightarrow> d);
          terminal_reached = (\<exists>n \<in> set leaves. rn_terminal n)
      in case map_of (fi_reason (tree_faults tr)) (a, rng) of
           Some reason \<Rightarrow>
             \<lparr>ro_rng_id = rng, ro_value = None, ro_target_source = ''no_target'', ro_terminal_reached = terminal_reached,
              ro_deepest_combat_depth = deepest, ro_censored = True, ro_censor_reason = Some reason, ro_best_node_id = None\<rparr>
         | None \<Rightarrow>
             (case best_leaf leaves of
                None \<Rightarrow>
                  \<lparr>ro_rng_id = rng, ro_value = None, ro_target_source = ''no_target'', ro_terminal_reached = False,
                   ro_deepest_combat_depth = deepest, ro_censored = True,
                   ro_censor_reason = Some
                     (if \<exists>n \<in> set raw_leaves. rn_node_id n \<in> set (tree_pruned tr) then ''oracle_pruned_before_followup''
                      else if \<exists>n \<in> set raw_leaves. rn_node_id n \<in> set (tree_expanded tr)
                      then ''expansion_attempted_without_outcome:'' @ tree_reason tr
                      else ''no_fresh_leaf_outcome:'' @ tree_reason tr),
                   ro_best_node_id = None\<rparr>
              | Some best \<Rightarrow>
                  (let censored = (rn_value_source best \<noteq> ''terminal'') in
                   \<lparr>ro_rng_id = rng, ro_value = Some (rn_value best), ro_target_source = rn_value_source best,
                    ro_terminal_reached = terminal_reached, ro_deepest_combat_depth = deepest, ro_censored = censored,
                    ro_censor_reason = (if censored then Some (''value_bootstrap:'' @ rn_resolution best) else None),
                    ro_best_node_id = Some (rn_node_id best)\<rparr>)))"

section \<open>Targets of root actions\<close>

record root_action_oracle_target =
  rt_action_id :: string
  rt_action :: pydict
  rt_evaluated :: bool
  rt_estimated_q :: "rat option"
  rt_rng_outcomes :: "oracle_rng_outcome list"
  rt_target_source :: string
  rt_terminal_reached :: bool
  rt_censored :: bool
  rt_censor_reason :: "string option"

definition unevaluated_target :: "string \<Rightarrow> pydict \<Rightarrow> string \<Rightarrow> root_action_oracle_target" where
  "unevaluated_target a action reason =
     \<lparr>rt_action_id = a, rt_action = action, rt_evaluated = False, rt_estimated_q = None, rt_rng_outcomes = [],
      rt_target_source = ''no_target'', rt_terminal_reached = False, rt_censored = True, rt_censor_reason = Some reason\<rparr>"

text \<open>the sets of RNG ids that resolved or failed, ascending\<close>

definition root_rng_ids :: "oracle_tree \<Rightarrow> string \<Rightarrow> int list" where
  "root_rng_ids tr a =
     sorted_list_of_set
       (set (map rn_rng_id (filter (\<lambda>n. rn_root_action_id n = Some a) (tree_nodes tr))) \<union>
        set (map (\<lambda>e. snd (fst e)) (filter (\<lambda>e. fst (fst e) = a) (fi_reason (tree_faults tr)))))"

definition fmean :: "rat list \<Rightarrow> rat" where
  "fmean xs = sum_list xs / of_nat (length xs)"

definition is_fault_reason :: "string \<Rightarrow> bool" where
  "is_fault_reason r \<longleftrightarrow> take 13 r = ''branch_fault:''"

definition aggregate_outcomes :: "string \<Rightarrow> pydict \<Rightarrow> oracle_rng_outcome list \<Rightarrow> root_action_oracle_target" where
  "aggregate_outcomes a action outcomes =
     (let scores = List.map_filter ro_value outcomes;
          sources = set (map ro_target_source (filter (\<lambda>r. ro_value r \<noteq> None) outcomes));
          reasons = List.map_filter ro_censor_reason outcomes;
          fault = List.find is_fault_reason reasons;
          (source, q) =
            (if fault \<noteq> None then (''no_target'', None)
             else if scores = [] then (''no_target'', None)
             else if sources = {''terminal''} then (''terminal'', Some (fmean scores))
             else if sources = {''value_bootstrap''} then (''value_bootstrap'', Some (fmean scores))
             else (''mixed'', Some (fmean scores)))
      in \<lparr>rt_action_id = a, rt_action = action, rt_evaluated = True, rt_estimated_q = q, rt_rng_outcomes = outcomes,
          rt_target_source = source, rt_terminal_reached = (\<exists>r \<in> set outcomes. ro_terminal_reached r),
          rt_censored = ((\<exists>r \<in> set outcomes. ro_censored r) \<or> scores = []),
          rt_censor_reason = (case fault of Some r \<Rightarrow> Some r | None \<Rightarrow> (case reasons of [] \<Rightarrow> None | r # _ \<Rightarrow> Some r))\<rparr>)"

definition root_action_target :: "oracle_tree \<Rightarrow> proposal_trace \<Rightarrow> bool \<Rightarrow> pydict \<Rightarrow> exn + root_action_oracle_target" where
  "root_action_target tr proposal exhaustive action =
     (let a = string_or_empty (dget action ''action_id'') in
      if a \<notin> ct_action_id ` set (pt_candidates proposal) then
        Inr (unevaluated_target a action
          (if exhaustive then ''exhaustive_root_missing_candidate'' else ''policy_candidate_limit''))
      else case root_rng_ids tr a of
        [] \<Rightarrow> if exhaustive then Inl RuntimeError
              else Inr (unevaluated_target a action (''candidate_not_materialized:'' @ tree_reason tr))
      | rngs \<Rightarrow> Inr (aggregate_outcomes a action (map (rng_outcome tr a) rngs)))"

definition root_action_targets :: "oracle_tree \<Rightarrow> proposal_trace \<Rightarrow> bool \<Rightarrow> exn + root_action_oracle_target list" where
  "root_action_targets tr proposal exhaustive =
     map_r (root_action_target tr proposal exhaustive) (available_trace_actions (pt_legal_actions proposal))"

section \<open>Targets of stable nodes\<close>

record stable_node_oracle_target =
  st_prune_step_id :: string
  st_node_id :: string
  st_root_action_id :: "string option"
  st_frontier_index :: int
  st_oracle_kept :: bool
  st_target_beam_width :: int
  st_baseline_would_keep :: bool
  st_target_value :: "rat option"
  st_target_source :: string
  st_terminal_reached :: bool
  st_censored :: bool
  st_censor_reason :: "string option"
  st_best_descendant :: "string option"

definition state_score_top_k_ids :: "prune_trace \<Rightarrow> int \<Rightarrow> string list" where
  "state_score_top_k_ids p k = map pn_node_id (take (nat k) (sorted_desc pn_value (pr_nodes p)))"

definition stable_node_target :: "oracle_tree \<Rightarrow> int \<Rightarrow> prune_trace \<Rightarrow> prune_node_trace \<Rightarrow> stable_node_oracle_target" where
  "stable_node_target tr width p node =
     (let raw_leaves = leaf_fresh_nodes (tree_nodes tr) (descendant_nodes (tree_nodes tr) (pn_node_id node));
          leaves = final_leaves tr raw_leaves;
          terminal_reached = (\<exists>n \<in> set leaves. rn_terminal n);
          (q, source, terminal, censored, reason, best_id) =
            (case map_of (fi_ancestor (tree_faults tr)) (pn_node_id node) of
               Some reason \<Rightarrow> (None, ''no_target'', terminal_reached, True, Some reason, None)
             | None \<Rightarrow>
                 (case best_leaf leaves of
                    None \<Rightarrow>
                      (None, ''no_target'', False, True,
                       Some (if \<not> pn_kept node then ''oracle_pruned_before_followup''
                         else if \<exists>n \<in> set raw_leaves. rn_node_id n \<in> set (tree_pruned tr)
                         then ''oracle_descendant_pruned_before_followup''
                         else if \<exists>n \<in> set raw_leaves. rn_node_id n \<in> set (tree_expanded tr)
                         then ''oracle_descendant_expansion_without_outcome:'' @ tree_reason tr
                         else ''search_ended_before_followup:'' @ tree_reason tr), None)
                  | Some best \<Rightarrow>
                      (Some (rn_value best), rn_value_source best, terminal_reached, rn_value_source best \<noteq> ''terminal'',
                       if rn_value_source best \<noteq> ''terminal'' then Some (''value_bootstrap:'' @ rn_resolution best) else None,
                       Some (rn_node_id best))))
      in \<lparr>st_prune_step_id = pr_prune_step_id p, st_node_id = pn_node_id node, st_root_action_id = pn_root_action_id node,
          st_frontier_index = pn_frontier_index node, st_oracle_kept = pn_kept node, st_target_beam_width = width,
          st_baseline_would_keep = (pn_node_id node \<in> set (state_score_top_k_ids p width)), st_target_value = q,
          st_target_source = source, st_terminal_reached = terminal, st_censored = censored, st_censor_reason = reason,
          st_best_descendant = best_id\<rparr>)"

definition stable_node_targets :: "oracle_tree \<Rightarrow> int \<Rightarrow> prune_trace list \<Rightarrow> stable_node_oracle_target list" where
  "stable_node_targets tr width prunes =
     concat (map (\<lambda>p. map (stable_node_target tr width p) (pr_nodes p)) prunes)"

section \<open>All targets of a trace\<close>

record oracle_targets =
  ot_start :: trace_start
  ot_target_beam_width :: int
  ot_exhaustive_root_actions :: bool
  ot_rng_sampling :: string
  ot_search_reason :: string
  ot_root_actions :: "root_action_oracle_target list"
  ot_stable_nodes :: "stable_node_oracle_target list"

definition oracle_tree_of :: "trace_event list \<Rightarrow> string \<Rightarrow> oracle_tree" where
  "oracle_tree_of events reason =
     (let rs = List.map_filter as_resolved events in
      \<lparr>tree_nodes = rs, tree_pruned = oracle_pruned_ids (List.map_filter as_prune events),
       tree_expanded = map pt_parent_node_id (List.map_filter as_proposal events),
       tree_faults = index_faults rs (List.map_filter as_fault events), tree_reason = reason\<rparr>)"

definition build_oracle_targets :: "trace_event list \<Rightarrow> pyval \<Rightarrow> bool \<Rightarrow> string \<Rightarrow> exn + oracle_targets" where
  "build_oracle_targets events width exhaustive rng_sampling =
     (case (List.map_filter as_start events, List.map_filter as_end events) of
        ([start], [finish]) \<Rightarrow>
          (case width of
             PInt w \<Rightarrow>
               if w \<le> 0 then Inl ValueError
               else if ts_beam_width start < w then Inl ValueError
               else (case filter (\<lambda>p. pt_parent_branch_id p = search_root_id) (List.map_filter as_proposal events) of
                  [proposal] \<Rightarrow>
                    (let tr = oracle_tree_of events (te_reason finish) in
                     then_r (root_action_targets tr proposal exhaustive) (\<lambda>roots.
                       Inr \<lparr>ot_start = start, ot_target_beam_width = w, ot_exhaustive_root_actions = exhaustive,
                            ot_rng_sampling = rng_sampling, ot_search_reason = te_reason finish,
                            ot_root_actions = roots,
                            ot_stable_nodes = stable_node_targets tr w (List.map_filter as_prune events)\<rparr>))
                | _ \<Rightarrow> Inl ValueError)
           | _ \<Rightarrow> Inl ValueError)
      | _ \<Rightarrow> Inl ValueError)"

end
