(* ===== verification/Oracle_Properties.thy ===== *)
theory Oracle_Properties
  imports Oracle_Targets
begin

text \<open>
  What the targets of \<open>decision/oracle_search.py\<close> mean, stated over the tree of the trace: the descendants
  that the queue finds are those of the parent relation, the walk of a fault marks exactly its ancestors,
  a target is the best score of a future leaf, and the baseline of the labels is the runtime's pruner.
\<close>

section \<open>Paths that avoid what has been seen\<close>

definition avoiding :: "('a \<Rightarrow> 'a \<Rightarrow> bool) \<Rightarrow> 'a set \<Rightarrow> 'a \<Rightarrow> 'a \<Rightarrow> bool" where
  "avoiding r S y z \<longleftrightarrow> r y z \<and> z \<notin> S"

lemma avoiding_nothing: "avoiding r {} = r"
  by (simp add: avoiding_def fun_eq_iff)

lemma avoid_less: "(avoiding r (insert c S))\<^sup>*\<^sup>* q x \<Longrightarrow> (avoiding r S)\<^sup>*\<^sup>* q x"
  by (erule rtranclp_mono [THEN predicate2D, rotated]) (auto simp: avoiding_def)

text \<open>the rest of a path after its last visit to its start\<close>

lemma avoid_from:
  assumes "(avoiding r S)\<^sup>*\<^sup>* a x"
  shows "x = a \<or> (\<exists>b. avoiding r (insert a S) a b \<and> (avoiding r (insert a S))\<^sup>*\<^sup>* b x)"
  using assms
proof (induction rule: rtranclp_induct)
  case (step y z)
  then show ?case
    by (cases "z = a") (auto simp: avoiding_def intro: rtranclp.rtrancl_into_rtrancl)
qed simp

lemma avoid_split:
  assumes "(avoiding r S)\<^sup>*\<^sup>* q x" "q \<noteq> c"
  shows "(avoiding r (insert c S))\<^sup>*\<^sup>* q x \<or> (avoiding r S)\<^sup>*\<^sup>* c x"
  using assms(1)
proof (induction rule: rtranclp_induct)
  case (step y z)
  show ?case
  proof (cases "z = c")
    case False
    with step.hyps(2) have "avoiding r (insert c S) y z" by (simp add: avoiding_def)
    with step.IH step.hyps(2) show ?thesis by (auto intro: rtranclp.rtrancl_into_rtrancl)
  qed simp
qed simp

section \<open>Descendants\<close>

definition child_of :: "resolved_trace list \<Rightarrow> string \<Rightarrow> string \<Rightarrow> bool" where
  "child_of rs p x \<longleftrightarrow> (\<exists>n \<in> set rs. rn_parent_node_id n = p \<and> rn_node_id n = x)"

abbreviation below :: "resolved_trace list \<Rightarrow> string \<Rightarrow> string \<Rightarrow> bool" where
  "below rs \<equiv> (child_of rs)\<^sup>+\<^sup>+"

lemma children_of_set: "set (children_of rs p) = {x. child_of rs p x}"
  by (auto simp: children_of_def child_of_def)

lemma children_known: "set (children_of rs p) \<subseteq> rn_node_id ` set rs"
  by (auto simp: children_of_def)

definition reached :: "resolved_trace list \<Rightarrow> string set \<Rightarrow> string set \<Rightarrow> string set" where
  "reached rs Q S = {x. \<exists>q \<in> Q. q \<notin> S \<and> (avoiding (child_of rs) S)\<^sup>*\<^sup>* q x}"

lemma reached_seen: "c \<in> S \<Longrightarrow> reached rs (insert c Q) S = reached rs Q S"
  by (auto simp: reached_def)

lemma reached_new:
  assumes "c \<notin> S"
  shows "reached rs (insert c Q) S = insert c (reached rs (Q \<union> {x. child_of rs c x}) (insert c S))"
proof (intro set_eqI iffI)
  fix x assume "x \<in> reached rs (insert c Q) S"
  then obtain q where q: "q \<in> insert c Q" "q \<notin> S" "(avoiding (child_of rs) S)\<^sup>*\<^sup>* q x" by (auto simp: reached_def)
  have from_c: "x \<in> insert c (reached rs (Q \<union> {x. child_of rs c x}) (insert c S))"
    if "(avoiding (child_of rs) S)\<^sup>*\<^sup>* c x"
    using avoid_from [OF that] by (auto simp: reached_def avoiding_def)
  show "x \<in> insert c (reached rs (Q \<union> {x. child_of rs c x}) (insert c S))"
  proof (cases "q = c")
    case False
    with q show ?thesis
      using avoid_split [OF q(3) False] from_c by (auto simp: reached_def)
  qed (use q from_c in simp)
next
  fix x assume "x \<in> insert c (reached rs (Q \<union> {x. child_of rs c x}) (insert c S))"
  then consider "x = c" | q where "q \<in> Q \<or> child_of rs c q" "q \<notin> insert c S" "(avoiding (child_of rs) (insert c S))\<^sup>*\<^sup>* q x"
    by (auto simp: reached_def)
  then show "x \<in> reached rs (insert c Q) S"
  proof cases
    case (2 q)
    from 2(3) have path: "(avoiding (child_of rs) S)\<^sup>*\<^sup>* q x" by (rule avoid_less)
    have "(avoiding (child_of rs) S)\<^sup>*\<^sup>* c x" if "child_of rs c q"
      using that 2(2) by (intro converse_rtranclp_into_rtranclp [OF _ path]) (simp add: avoiding_def)
    with 2 path assms show ?thesis by (auto simp: reached_def)
  qed (use assms in \<open>auto simp: reached_def\<close>)
qed

lemma descend_reached:
  "set queue \<subseteq> rn_node_id ` set rs \<Longrightarrow>
     rn_node_id ` set (descend rs queue seen) = reached rs (set queue) (set seen) \<and>
     distinct (map rn_node_id (descend rs queue seen)) \<and>
     (\<forall>n \<in> set (descend rs queue seen). node_by_id rs (rn_node_id n) = Some n \<and> rn_node_id n \<notin> set seen)"
proof (induction rs queue seen rule: descend.induct)
  case (1 rs seen)
  then show ?case by (simp add: reached_def)
next
  case (2 rs c queue seen)
  show ?case
  proof (cases "c \<in> set seen")
    case True
    with 2 show ?thesis by (simp add: reached_seen)
  next
    case False
    from 2(4) obtain n where n: "node_by_id rs c = Some n"
      using node_by_id_none [of rs c] by (cases "node_by_id rs c") auto
    then have id: "rn_node_id n = c" by (simp add: node_by_id_in)
    have "set (queue @ children_of rs c) \<subseteq> rn_node_id ` set rs"
      using 2(4) children_known by auto
    note IH = 2(3) [OF False n this]
    have fresh: "c \<notin> rn_node_id ` set (descend rs (queue @ children_of rs c) (c # seen))"
      using conjunct2 [OF conjunct2 [OF IH]] by force
    have "reached rs (set (c # queue)) (set seen) =
        insert c (reached rs (set (queue @ children_of rs c)) (set (c # seen)))"
      using reached_new [of c "set seen" rs "set queue"] False by (simp add: children_of_set)
    then have "rn_node_id ` set (descend rs (c # queue) seen) = reached rs (set (c # queue)) (set seen)"
      using IH n id False by simp
    with IH n id False fresh show ?thesis by simp
  qed
qed

lemma descendant_ids: "rn_node_id ` set (descendant_nodes rs i) = {x. below rs i x}"
proof -
  have "reached rs (set (children_of rs i)) {} = {x. below rs i x}"
    by (auto simp: reached_def children_of_set avoiding_nothing tranclp_unfold_left relcompp_apply
        dest: tranclpD intro: rtranclp_into_tranclp2)
  then show ?thesis
    using descend_reached [OF children_known, of rs i "[]"] by (simp add: descendant_nodes_def)
qed

lemma descendant_nodes_distinct: "distinct (map rn_node_id (descendant_nodes rs i))"
  using descend_reached [OF children_known, of rs i "[]"] by (simp add: descendant_nodes_def)

lemma descendant_nodes_known: "n \<in> set (descendant_nodes rs i) \<Longrightarrow> node_by_id rs (rn_node_id n) = Some n"
  using descend_reached [OF children_known, of rs i "[]"] by (simp add: descendant_nodes_def)

lemma node_by_id_distinct:
  "distinct (map rn_node_id rs) \<Longrightarrow> n \<in> set rs \<Longrightarrow> node_by_id rs (rn_node_id n) = Some n"
  by (auto simp: node_by_id_def o_def distinct_rev rev_map [symmetric] intro!: map_of_is_SomeI)

lemma descendant_nodes_set:
  assumes "distinct (map rn_node_id rs)"
  shows "set (descendant_nodes rs i) = {n \<in> set rs. below rs i (rn_node_id n)}"
proof (intro set_eqI iffI)
  fix n assume n: "n \<in> set (descendant_nodes rs i)"
  then have "rn_node_id n \<in> {x. below rs i x}" using descendant_ids [of rs i] by blast
  with descendant_nodes_known [OF n] node_by_id_in [of rs "rn_node_id n" n]
  show "n \<in> {n \<in> set rs. below rs i (rn_node_id n)}" by simp
next
  fix n assume n: "n \<in> {n \<in> set rs. below rs i (rn_node_id n)}"
  then have "rn_node_id n \<in> rn_node_id ` set (descendant_nodes rs i)" by (simp add: descendant_ids)
  then obtain m where m: "m \<in> set (descendant_nodes rs i)" "rn_node_id m = rn_node_id n" by auto
  have "m = n"
    using descendant_nodes_known [OF m(1)] node_by_id_distinct [OF assms, of n] n m(2) by simp
  with m(1) show "n \<in> set (descendant_nodes rs i)" by simp
qed

section \<open>The walk of a fault\<close>

definition up :: "resolved_trace list \<Rightarrow> string \<Rightarrow> string \<Rightarrow> bool" where
  "up rs y z \<longleftrightarrow> (\<exists>n. node_by_id rs y = Some n \<and> z = rn_parent_node_id n \<and> z \<in> rn_node_id ` set rs)"

definition walked :: "resolved_trace list \<Rightarrow> string set \<Rightarrow> string \<Rightarrow> string set" where
  "walked rs S i = {x. i \<in> rn_node_id ` set rs \<and> i \<notin> S \<and> (avoiding (up rs) S)\<^sup>*\<^sup>* i x}"

lemma walked_new:
  assumes "node_by_id rs i = Some n" "i \<notin> S"
  shows "walked rs S i = insert i (walked rs (insert i S) (rn_parent_node_id n))"
proof (intro set_eqI iffI)
  fix x assume "x \<in> walked rs S i"
  then have "(avoiding (up rs) S)\<^sup>*\<^sup>* i x" by (simp add: walked_def)
  from avoid_from [OF this] assms show "x \<in> insert i (walked rs (insert i S) (rn_parent_node_id n))"
    by (auto simp: walked_def avoiding_def up_def)
next
  fix x assume x: "x \<in> insert i (walked rs (insert i S) (rn_parent_node_id n))"
  have i: "i \<in> rn_node_id ` set rs" using node_by_id_in [OF assms(1)] by auto
  have "(avoiding (up rs) S)\<^sup>*\<^sup>* i x" if "x \<noteq> i"
  proof -
    have p: "rn_parent_node_id n \<in> rn_node_id ` set rs" "rn_parent_node_id n \<notin> insert i S"
      "(avoiding (up rs) (insert i S))\<^sup>*\<^sup>* (rn_parent_node_id n) x"
      using x that by (auto simp: walked_def)
    have "avoiding (up rs) S i (rn_parent_node_id n)" using p(1,2) assms(1) by (simp add: avoiding_def up_def)
    then show ?thesis using avoid_less [OF p(3)] by (rule converse_rtranclp_into_rtranclp)
  qed
  with i assms(2) show "x \<in> walked rs S i" by (cases "x = i") (simp_all add: walked_def)
qed

lemma setdefault_keys: "fst ` set (setdefault k v d) = insert k (fst ` set d)"
  by (auto simp: setdefault_def)

lemma mark_keys:
  "fst ` set (mark_ancestors rs reason seen i table) = fst ` set table \<union> walked rs (set seen) i"
proof (induction rs reason seen i table rule: mark_ancestors.induct)
  case (1 rs reason seen i table)
  show ?case
  proof (cases "node_by_id rs i")
    case None
    then have "i \<notin> rn_node_id ` set rs" by (simp add: node_by_id_none)
    with None show ?thesis by (subst mark_ancestors.simps) (simp add: walked_def)
  next
    case (Some n)
    show ?thesis
    proof (cases "i \<in> set seen")
      case False
      have "walked rs (set seen) i = insert i (walked rs (set (i # seen)) (rn_parent_node_id n))"
        using walked_new [OF Some False] by simp
      with 1 [OF Some False] Some False show ?thesis
        by (subst mark_ancestors.simps) (simp add: setdefault_keys)
    qed (use Some in \<open>subst mark_ancestors.simps, simp add: walked_def\<close>)
  qed
qed

lemma up_child_of:
  assumes "distinct (map rn_node_id rs)"
  shows "up rs y z \<longleftrightarrow> child_of rs z y \<and> z \<in> rn_node_id ` set rs"
  using node_by_id_in [of rs y] node_by_id_distinct [OF assms] unfolding up_def child_of_def by auto

lemma up_ancestors:
  assumes "distinct (map rn_node_id rs)" "a \<in> rn_node_id ` set rs"
  shows "(up rs)\<^sup>*\<^sup>* a x \<longleftrightarrow> x \<in> rn_node_id ` set rs \<and> (x = a \<or> below rs x a)"
proof
  assume "(up rs)\<^sup>*\<^sup>* a x"
  then show "x \<in> rn_node_id ` set rs \<and> (x = a \<or> below rs x a)"
    by (induction rule: rtranclp_induct)
      (use assms(2) in \<open>auto simp: up_child_of [OF assms(1)] intro: tranclp_into_tranclp2\<close>)
next
  have "(up rs)\<^sup>*\<^sup>* a x" if x: "x \<in> rn_node_id ` set rs" and "below rs x a"
    using that(2)
  proof (induction rule: tranclp_induct)
    case (base y)
    with x show ?case by (auto simp: up_child_of [OF assms(1)])
  next
    case (step y z)
    from step.hyps(1) have "y \<in> rn_node_id ` set rs" by (cases rule: tranclp.cases) (auto simp: child_of_def)
    with step.hyps(2) have "up rs z y" by (simp add: up_child_of [OF assms(1)])
    then show ?case using step.IH by (rule converse_rtranclp_into_rtranclp)
  qed
  then show "(up rs)\<^sup>*\<^sup>* a x" if "x \<in> rn_node_id ` set rs \<and> (x = a \<or> below rs x a)"
    using that by auto
qed

text \<open>the nodes whose subtree, or whose own children, a fault touches\<close>

definition has_fault_below :: "resolved_trace list \<Rightarrow> fault_trace list \<Rightarrow> string \<Rightarrow> bool" where
  "has_fault_below rs faults x \<longleftrightarrow> x \<in> rn_node_id ` set rs \<and>
     (\<exists>f \<in> set faults. ft_parent_node_id f = x \<or> below rs x (ft_parent_node_id f))"

lemma walked_ancestors:
  assumes "distinct (map rn_node_id rs)"
  shows "walked rs {} a = {x. x \<in> rn_node_id ` set rs \<and> (a = x \<or> below rs x a)}"
proof -
  have "a \<in> rn_node_id ` set rs" if "below rs x a" for x
    using that by (cases rule: tranclp.cases) (auto simp: child_of_def)
  then show ?thesis
    using up_ancestors [OF assms, of a] by (auto simp: walked_def avoiding_nothing)
qed

lemma index_fault_ancestors:
  assumes "distinct (map rn_node_id rs)"
  shows "fst ` set (fi_ancestor (fold (index_fault rs) faults ix)) = fst ` set (fi_ancestor ix) \<union> {x. has_fault_below rs faults x}"
proof (induction faults arbitrary: ix)
  case (Cons f faults)
  have "fst ` set (fi_ancestor (index_fault rs f ix)) = fst ` set (fi_ancestor ix) \<union> walked rs {} (ft_parent_node_id f)"
    by (simp add: index_fault_def Let_def mark_keys split: option.split)
  with Cons.IH [of "index_fault rs f ix"] show ?case
    by (auto simp: walked_ancestors [OF assms] has_fault_below_def)
qed (auto simp: has_fault_below_def)

lemma fault_below_iff:
  assumes "distinct (map rn_node_id rs)"
  shows "map_of (fi_ancestor (index_faults rs faults)) x = None \<longleftrightarrow> \<not> has_fault_below rs faults x"
  using index_fault_ancestors [OF assms, of faults "\<lparr>fi_reason = [], fi_depth = [], fi_ancestor = []\<rparr>"]
  by (auto simp: map_of_eq_None_iff index_faults_def)

section \<open>A trace\<close>

text \<open>a search that tries two actions, follows up the first and prunes the second\<close>

definition demo_resolved :: "string \<Rightarrow> string \<Rightarrow> string \<Rightarrow> int \<Rightarrow> rat \<Rightarrow> resolved_trace" where
  "demo_resolved i parent a rng v =
     \<lparr>rn_search_id = ''s'', rn_node_id = i, rn_parent_node_id = parent, rn_branch_id = i, rn_parent_branch_id = parent,
      rn_root_action_id = Some a, rn_rng_id = rng, rn_decision_point_id = ''d'', rn_depth = 1, rn_combat_depth = 1,
      rn_continuation_steps = 0, rn_value = v, rn_value_is_fresh = True, rn_value_source = ''value_bootstrap'',
      rn_state_kind = ''stable'', rn_resolution = ''max_depth'', rn_terminal = False, rn_action_id = Some a,
      rn_action_type = None, rn_action = None, rn_policy_rank = None, rn_policy_score = None,
      rn_post_coverage_rank = None, rn_candidate_source = None\<rparr>"

definition demo_candidate :: "string \<Rightarrow> candidate_trace" where
  "demo_candidate a =
     \<lparr>ct_action_id = a, ct_action = [(''action_id'', PStr a)], ct_branch_id = a, ct_rng_id = 1, ct_policy_rank = None,
      ct_policy_score = None, ct_post_coverage_rank = 0, ct_candidate_source = ''policy''\<rparr>"

definition demo_proposal :: "string \<Rightarrow> string list \<Rightarrow> proposal_trace" where
  "demo_proposal parent actions =
     \<lparr>pt_search_id = ''s'', pt_proposal_step_id = parent, pt_parent_node_id = parent, pt_parent_branch_id = parent,
      pt_decision_point_id = ''d'', pt_legal_actions = map (\<lambda>a. [(''action_id'', PStr a)]) actions,
      pt_candidates = map demo_candidate actions, pt_requested_top_k = 2, pt_exhaustive_root = False\<rparr>"

definition demo_pruned :: "nat \<Rightarrow> bool \<Rightarrow> string \<Rightarrow> rat \<Rightarrow> prune_node_trace" where
  "demo_pruned index kept i v = (prune_node_record ''s'' (if kept then [index] else []) index (demo_leaf v) (demo_view v))
     \<lparr>pn_node_id := i\<rparr>"

definition demo_prune :: prune_trace where
  "demo_prune = (prune_record ''value_top_k'' ''1'' demo_prune_context [] [] [0])
     \<lparr>pr_k := 1, pr_frontier_size := 2, pr_nodes := [demo_pruned 0 True ''x'' 5, demo_pruned 1 False ''y'' 3]\<rparr>"

definition demo_trace :: "trace_event list" where
  "demo_trace =
     [StartEvent \<lparr>ts_search_id = ''s'', ts_instance_id = ''i'', ts_root_decision_point_id = ''d'', ts_beam_width = 1,
        ts_top_k_actions = 2, ts_max_depth = 3, ts_max_continuation_steps = 4, ts_time_budget_ms = None,
        ts_pruner_name = ''value_top_k'', ts_pruner_version = ''1'', ts_exhaustive_root_actions = False\<rparr>,
      ProposalEvent (demo_proposal search_root_id [''a'', ''b'']),
      ResolvedEvent (demo_resolved ''x'' search_root_id ''a'' 1 5),
      ResolvedEvent (demo_resolved ''y'' search_root_id ''b'' 2 3),
      PruneEvent demo_prune,
      ProposalEvent (demo_proposal ''x'' [''c'']),
      ResolvedEvent (demo_resolved ''z'' ''x'' ''a'' 1 9),
      EndEvent \<lparr>te_search_id = ''s'', te_reason = ''completed'', te_best_root_action_id = Some ''a'',
        te_best_value = Some 9, te_depths_completed = 2, te_nodes_expanded = 3, te_branches_created = 3,
        te_branches_faulted = 0, te_branches_out_of_scope = 0, te_leaves_turn_aligned = 1\<rparr>]"

lemma demo_targets:
  "\<exists>ts. build_oracle_targets demo_trace (PInt 1) False ''independent'' = Inr ts \<and>
     map (\<lambda>t. (st_node_id t, st_target_value t)) (ot_stable_nodes ts) = [(''x'', Some 9), (''y'', None)] \<and>
     map (\<lambda>t. (rt_action_id t, rt_estimated_q t)) (ot_root_actions ts) = [(''a'', Some 9), (''b'', None)]"
proof -
  have "case build_oracle_targets demo_trace (PInt 1) False ''independent'' of
      Inl _ \<Rightarrow> False
    | Inr ts \<Rightarrow>
        map (\<lambda>t. (st_node_id t, st_target_value t)) (ot_stable_nodes ts) = [(''x'', Some 9), (''y'', None)] \<and>
        map (\<lambda>t. (rt_action_id t, rt_estimated_q t)) (ot_root_actions ts) = [(''a'', Some 9), (''b'', None)]"
    by code_simp
  then show ?thesis by (auto split: sum.splits)
qed

section \<open>Targets of stable nodes\<close>

abbreviation resolved_of :: "trace_event list \<Rightarrow> resolved_trace list" where
  "resolved_of events \<equiv> List.map_filter as_resolved events"

abbreviation faults_of :: "trace_event list \<Rightarrow> fault_trace list" where
  "faults_of events \<equiv> List.map_filter as_fault events"

text \<open>a state that was scored itself, was not expanded, and was not pruned\<close>

definition open_leaf :: "trace_event list \<Rightarrow> resolved_trace \<Rightarrow> bool" where
  "open_leaf events n \<longleftrightarrow> n \<in> set (resolved_of events) \<and> rn_value_is_fresh n \<and>
     (\<forall>m \<in> set (resolved_of events). rn_parent_node_id m \<noteq> rn_node_id n) \<and>
     (\<forall>p \<in> set (List.map_filter as_prune events). \<forall>q \<in> set (pr_nodes p). pn_node_id q = rn_node_id n \<longrightarrow> pn_kept q) \<and>
     (\<forall>p \<in> set (List.map_filter as_proposal events). pt_parent_node_id p \<noteq> rn_node_id n)"

definition future_leaf :: "trace_event list \<Rightarrow> string \<Rightarrow> resolved_trace \<Rightarrow> bool" where
  "future_leaf events i n \<longleftrightarrow> open_leaf events n \<and> below (resolved_of events) i (rn_node_id n)"

lemma oracle_tree_of_simps [simp]:
  "tree_nodes (oracle_tree_of events reason) = resolved_of events"
  "tree_faults (oracle_tree_of events reason) = index_faults (resolved_of events) (faults_of events)"
  by (simp_all add: oracle_tree_of_def Let_def)

lemma open_leaves:
  assumes "set nodes \<subseteq> set (resolved_of events)"
  shows "set (final_leaves (oracle_tree_of events reason) (leaf_fresh_nodes (resolved_of events) nodes)) =
     {n \<in> set nodes. open_leaf events n}"
proof -
  have pruned: "i \<notin> set (tree_pruned (oracle_tree_of events reason)) \<longleftrightarrow>
      (\<forall>p \<in> set (List.map_filter as_prune events). \<forall>q \<in> set (pr_nodes p). pn_node_id q = i \<longrightarrow> pn_kept q)" for i
    by (auto simp: oracle_tree_of_def Let_def oracle_pruned_ids_def)
  have expanded: "i \<notin> set (tree_expanded (oracle_tree_of events reason)) \<longleftrightarrow>
      (\<forall>p \<in> set (List.map_filter as_proposal events). pt_parent_node_id p \<noteq> i)" for i
    by (auto simp: oracle_tree_of_def Let_def)
  have leaf: "children_of (resolved_of events) i = [] \<longleftrightarrow> (\<forall>m \<in> set (resolved_of events). rn_parent_node_id m \<noteq> i)" for i
    by (simp add: children_of_def filter_empty_conv)
  show ?thesis
    using assms by (auto simp: final_leaves_def leaf_fresh_nodes_def open_leaf_def pruned expanded leaf)
qed

lemma best_leaf_None [simp]: "best_leaf leaves = None \<longleftrightarrow> leaves = []"
  by (simp add: best_leaf_def split: list.split)

lemma first_max_best: "first_max key x xs \<in> set (x # xs) \<and> (\<forall>y \<in> set (x # xs). key y \<le> key (first_max key x xs))"
  by (induction xs arbitrary: x) (fastforce split: if_splits)+

lemma best_leaf_Some:
  "best_leaf leaves = Some b \<Longrightarrow> b \<in> set leaves \<and> (\<forall>n \<in> set leaves. rn_value n \<le> rn_value b)"
  using first_max_best [of rn_value] by (auto simp: best_leaf_def split: list.splits)

lemma build_Inr:
  assumes "build_oracle_targets events width exhaustive rng = Inr ts"
  shows "\<exists>start finish w proposal. List.map_filter as_start events = [start] \<and>
    List.map_filter as_end events = [finish] \<and> width = PInt w \<and> 0 < w \<and> w \<le> ts_beam_width start \<and>
    filter (\<lambda>p. pt_parent_branch_id p = search_root_id) (List.map_filter as_proposal events) = [proposal] \<and>
    root_action_targets (oracle_tree_of events (te_reason finish)) proposal exhaustive = Inr (ot_root_actions ts) \<and>
    ot_stable_nodes ts = stable_node_targets (oracle_tree_of events (te_reason finish)) w (List.map_filter as_prune events) \<and>
    ot_target_beam_width ts = w"
  using assms by (auto simp: build_oracle_targets_def Let_def then_r_eq_Inr split: list.splits pyval.splits if_splits)

lemma stable_target_cases:
  "st_node_id (stable_node_target tr w p q) = pn_node_id q"
  "st_target_value (stable_node_target tr w p q) =
     (if map_of (fi_ancestor (tree_faults tr)) (pn_node_id q) \<noteq> None then None
      else map_option rn_value (best_leaf (final_leaves tr
             (leaf_fresh_nodes (tree_nodes tr) (descendant_nodes (tree_nodes tr) (pn_node_id q))))))"
  "st_target_value (stable_node_target tr w p q) = None \<Longrightarrow>
     st_censored (stable_node_target tr w p q) \<and> st_target_source (stable_node_target tr w p q) = ''no_target''"
  "st_target_value (stable_node_target tr w p q) \<noteq> None \<Longrightarrow>
     \<exists>b. best_leaf (final_leaves tr (leaf_fresh_nodes (tree_nodes tr)
            (descendant_nodes (tree_nodes tr) (pn_node_id q)))) = Some b \<and>
       st_best_descendant (stable_node_target tr w p q) = Some (rn_node_id b) \<and>
       st_target_source (stable_node_target tr w p q) = rn_value_source b"
  by (cases "map_of (fi_ancestor (tree_faults tr)) (pn_node_id q)";
      cases "best_leaf (final_leaves tr (leaf_fresh_nodes (tree_nodes tr)
             (descendant_nodes (tree_nodes tr) (pn_node_id q))))";
      simp add: stable_node_target_def Let_def del: best_leaf_None)+

text \<open>C15: A stable target is the score of a future leaf: the oracle's label of a pruned or kept node is the highest
  score of a descendant that was scored itself, never expanded and never pruned; it is missing exactly when
  there is no such descendant or a branch failed at the node or below it, and is then marked as censored.
  In particular no node is labelled with its own score.\<close>

theorem stable_target_is_a_future_leaf:
  assumes "build_oracle_targets events width exhaustive rng = Inr ts"
    and "distinct (map rn_node_id (resolved_of events))" "t \<in> set (ot_stable_nodes ts)"
  shows "case st_target_value t of
     Some v \<Rightarrow> \<not> has_fault_below (resolved_of events) (faults_of events) (st_node_id t) \<and>
        (\<exists>n. future_leaf events (st_node_id t) n \<and> v = rn_value n \<and> st_best_descendant t = Some (rn_node_id n) \<and>
             st_target_source t = rn_value_source n) \<and>
        (\<forall>n. future_leaf events (st_node_id t) n \<longrightarrow> rn_value n \<le> v)
   | None \<Rightarrow> st_censored t \<and> st_target_source t = ''no_target'' \<and>
        (has_fault_below (resolved_of events) (faults_of events) (st_node_id t) \<or>
         (\<forall>n. \<not> future_leaf events (st_node_id t) n))"
proof -
  from build_Inr [OF assms(1)] obtain finish :: trace_end and w
    where "ot_stable_nodes ts = stable_node_targets (oracle_tree_of events (te_reason finish)) w (List.map_filter as_prune events)"
    by blast
  with assms(3) obtain p q where t: "t = stable_node_target (oracle_tree_of events (te_reason finish)) w p q"
    by (auto simp: stable_node_targets_def)
  let ?tr = "oracle_tree_of events (te_reason finish)"
  let ?leaves = "final_leaves ?tr (leaf_fresh_nodes (resolved_of events) (descendant_nodes (resolved_of events) (pn_node_id q)))"
  have id: "st_node_id t = pn_node_id q" by (simp add: t stable_target_cases)
  have leaves: "set ?leaves = {n. future_leaf events (pn_node_id q) n}"
    using open_leaves [of "descendant_nodes (resolved_of events) (pn_node_id q)" events "te_reason finish"]
    by (auto simp: descendant_nodes_set [OF assms(2)] future_leaf_def open_leaf_def)
  have fault: "map_of (fi_ancestor (tree_faults ?tr)) (pn_node_id q) \<noteq> None \<longleftrightarrow>
      has_fault_below (resolved_of events) (faults_of events) (pn_node_id q)"
    using fault_below_iff [OF assms(2)] by simp
  show ?thesis
  proof (cases "st_target_value t")
    case None
    then have "has_fault_below (resolved_of events) (faults_of events) (pn_node_id q) \<or> ?leaves = []"
      using fault by (auto simp: t stable_target_cases(2) split: if_splits)
    then have "has_fault_below (resolved_of events) (faults_of events) (st_node_id t) \<or>
        (\<forall>n. \<not> future_leaf events (st_node_id t) n)"
      using leaves id by auto
    with None stable_target_cases(3) [of ?tr w p q] show ?thesis by (simp add: t [symmetric])
  next
    case (Some v)
    then have ok: "\<not> has_fault_below (resolved_of events) (faults_of events) (st_node_id t)"
      and v: "map_option rn_value (best_leaf ?leaves) = Some v"
      using fault id by (auto simp: t stable_target_cases(2) split: if_splits)
    from stable_target_cases(4) [of ?tr w p q] Some obtain b where b: "best_leaf ?leaves = Some b"
      "st_best_descendant t = Some (rn_node_id b)" "st_target_source t = rn_value_source b"
      by (auto simp: t [symmetric])
    from best_leaf_Some [OF b(1)] leaves id have "future_leaf events (st_node_id t) b"
      "\<forall>n. future_leaf events (st_node_id t) n \<longrightarrow> rn_value n \<le> rn_value b" by auto
    with ok v b Some show ?thesis by auto
  qed
qed

theorem stable_target_is_a_future_leaf_witness:
  "\<exists>ts t. build_oracle_targets demo_trace (PInt 1) False ''independent'' = Inr ts \<and> t \<in> set (ot_stable_nodes ts) \<and>
     st_node_id t = ''x'' \<and> st_target_value t = Some 9 \<and> (\<exists>n. future_leaf demo_trace ''x'' n \<and> rn_value n = 9)"
proof -
  obtain ts where ts: "build_oracle_targets demo_trace (PInt 1) False ''independent'' = Inr ts"
    "map (\<lambda>t. (st_node_id t, st_target_value t)) (ot_stable_nodes ts) = [(''x'', Some 9), (''y'', None)]"
    using demo_targets by (elim exE conjE) (rule that)
  from ts(2) obtain t u where "ot_stable_nodes ts = [t, u]" "st_node_id t = ''x''" "st_target_value t = Some 9"
    by (auto simp: map_eq_Cons_conv)
  then have t: "t \<in> set (ot_stable_nodes ts)" "st_node_id t = ''x''" "st_target_value t = Some 9" by simp_all
  have "distinct (map rn_node_id (resolved_of demo_trace))" by code_simp
  from stable_target_is_a_future_leaf [OF ts(1) this t(1)] t ts(1) show ?thesis by auto
qed

section \<open>Targets of root actions\<close>

definition root_leaf :: "trace_event list \<Rightarrow> string \<Rightarrow> int \<Rightarrow> resolved_trace \<Rightarrow> bool" where
  "root_leaf events a rng n \<longleftrightarrow> open_leaf events n \<and> rn_root_action_id n = Some a \<and> rn_rng_id n = rng"

definition root_leaf_rngs :: "trace_event list \<Rightarrow> string \<Rightarrow> int set" where
  "root_leaf_rngs events a = {rng. \<exists>n. root_leaf events a rng n}"

definition failed_root :: "trace_event list \<Rightarrow> string \<Rightarrow> bool" where
  "failed_root events a \<longleftrightarrow> (\<exists>f \<in> set (faults_of events). ft_root_action_id f = Some a)"

lemma fault_reasons:
  "fst ` set (fi_reason (fold (index_fault rs) faults ix)) =
     fst ` set (fi_reason ix) \<union> {(a, rng). \<exists>f \<in> set faults. ft_root_action_id f = Some a \<and> ft_rng_id f = rng} \<and>
   snd ` set (fi_reason (fold (index_fault rs) faults ix)) \<subseteq> snd ` set (fi_reason ix) \<union> fault_censor_reason ` set faults"
proof (induction faults arbitrary: ix)
  case (Cons f faults)
  have keys: "fst ` set (fi_reason (index_fault rs f ix)) = fst ` set (fi_reason ix) \<union>
      {(a, rng). ft_root_action_id f = Some a \<and> ft_rng_id f = rng}"
    and reasons: "snd ` set (fi_reason (index_fault rs f ix)) \<subseteq> insert (fault_censor_reason f) (snd ` set (fi_reason ix))"
    by (auto simp: index_fault_def Let_def setdefault_def image_iff split: option.split)
  note IH = Cons.IH [of "index_fault rs f ix"]
  show ?case
  proof
    show "fst ` set (fi_reason (fold (index_fault rs) (f # faults) ix)) = fst ` set (fi_reason ix) \<union>
        {(a, rng). \<exists>f \<in> set (f # faults). ft_root_action_id f = Some a \<and> ft_rng_id f = rng}"
      using conjunct1 [OF IH] keys by auto
    show "snd ` set (fi_reason (fold (index_fault rs) (f # faults) ix)) \<subseteq>
        snd ` set (fi_reason ix) \<union> fault_censor_reason ` set (f # faults)"
      using subset_trans [OF conjunct2 [OF IH] Un_mono [OF reasons subset_refl]] by simp
  qed
qed auto

lemma is_fault_reason_fault: "is_fault_reason (fault_censor_reason f)"
  by (simp add: is_fault_reason_def fault_censor_reason_def)

lemma fault_reason_iff:
  "map_of (fi_reason (index_faults rs faults)) (a, rng) = None \<longleftrightarrow>
     \<not> (\<exists>f \<in> set faults. ft_root_action_id f = Some a \<and> ft_rng_id f = rng)"
  "map_of (fi_reason (index_faults rs faults)) (a, rng) = Some r \<Longrightarrow> is_fault_reason r"
proof -
  note keys = fault_reasons [of rs faults "\<lparr>fi_reason = [], fi_depth = [], fi_ancestor = []\<rparr>"]
  show "map_of (fi_reason (index_faults rs faults)) (a, rng) = None \<longleftrightarrow>
     \<not> (\<exists>f \<in> set faults. ft_root_action_id f = Some a \<and> ft_rng_id f = rng)"
    using keys by (simp add: map_of_eq_None_iff index_faults_def)
  assume "map_of (fi_reason (index_faults rs faults)) (a, rng) = Some r"
  then have "r \<in> snd ` set (fi_reason (index_faults rs faults))" by (force dest: map_of_SomeD)
  with keys show "is_fault_reason r" by (auto simp: index_faults_def is_fault_reason_fault)
qed

lemma rng_outcome_failed:
  assumes "map_of (fi_reason (tree_faults tr)) (a, rng) = Some r"
  shows "ro_value (rng_outcome tr a rng) = None" "ro_censor_reason (rng_outcome tr a rng) = Some r"
  using assms by (simp_all add: rng_outcome_def Let_def)

lemma rng_outcome_leaves:
  assumes "map_of (fi_reason (tree_faults tr)) (a, rng) = None"
  shows "ro_value (rng_outcome tr a rng) =
      map_option rn_value (best_leaf (final_leaves tr (leaf_fresh_nodes (tree_nodes tr) (nodes_of_root_rng tr a rng))))"
    and "ro_censor_reason (rng_outcome tr a rng) = Some r \<Longrightarrow> \<not> is_fault_reason r"
  using assms
  by (auto simp: rng_outcome_def Let_def is_fault_reason_def simp del: best_leaf_None split: option.splits if_splits)

lemma root_leaves:
  "set (final_leaves (oracle_tree_of events reason)
     (leaf_fresh_nodes (resolved_of events) (nodes_of_root_rng (oracle_tree_of events reason) a rng))) =
   {n. root_leaf events a rng n}"
  using open_leaves [of "nodes_of_root_rng (oracle_tree_of events reason) a rng" events reason]
  by (auto simp: nodes_of_root_rng_def root_leaf_def open_leaf_def)

lemma best_leaf_Max:
  "leaves \<noteq> [] \<Longrightarrow> map_option rn_value (best_leaf leaves) = Some (Max (rn_value ` set leaves))"
proof (cases "best_leaf leaves")
  case (Some b)
  from best_leaf_Some [OF Some] have "Max (rn_value ` set leaves) = rn_value b" by (intro Max_eqI) auto
  with Some show ?thesis by simp
qed simp

lemma rng_outcome_value:
  assumes "\<not> failed_root events a"
  shows "ro_value (rng_outcome (oracle_tree_of events reason) a rng) =
    (if rng \<in> root_leaf_rngs events a then Some (Max (rn_value ` {n. root_leaf events a rng n})) else None)"
proof -
  let ?tr = "oracle_tree_of events reason"
  let ?leaves = "final_leaves ?tr (leaf_fresh_nodes (resolved_of events) (nodes_of_root_rng ?tr a rng))"
  have "map_of (fi_reason (tree_faults ?tr)) (a, rng) = None"
    using assms by (auto simp: fault_reason_iff(1) failed_root_def)
  then have v: "ro_value (rng_outcome ?tr a rng) = map_option rn_value (best_leaf ?leaves)"
    using rng_outcome_leaves(1) [of ?tr a rng] by simp
  have leaves: "set ?leaves = {n. root_leaf events a rng n}" by (rule root_leaves)
  show ?thesis
  proof (cases "?leaves = []")
    case True
    with leaves have "rng \<notin> root_leaf_rngs events a" by (auto simp: root_leaf_rngs_def)
    with v True show ?thesis by (simp add: best_leaf_def)
  next
    case False
    then have "set ?leaves \<noteq> {}" by simp
    then have "rng \<in> root_leaf_rngs events a" unfolding leaves by (auto simp: root_leaf_rngs_def)
    with v best_leaf_Max [OF False] leaves show ?thesis by simp
  qed
qed

definition root_rng_set :: "oracle_tree \<Rightarrow> string \<Rightarrow> int set" where
  "root_rng_set tr a = set (root_rng_ids tr a)"

lemma root_rng_ids_set:
  "set (root_rng_ids (oracle_tree_of events reason) a) =
     {rn_rng_id n |n. n \<in> set (resolved_of events) \<and> rn_root_action_id n = Some a} \<union>
     {ft_rng_id f |f. f \<in> set (faults_of events) \<and> ft_root_action_id f = Some a}"
proof -
  have keys: "fst ` set (fi_reason (index_faults (resolved_of events) (faults_of events))) =
      {(a, rng). \<exists>f \<in> set (faults_of events). ft_root_action_id f = Some a \<and> ft_rng_id f = rng}"
    using fault_reasons [of "resolved_of events" "faults_of events" "\<lparr>fi_reason = [], fi_depth = [], fi_ancestor = []\<rparr>"]
    by (simp add: index_faults_def)
  have "(\<lambda>e. snd (fst e)) ` {e \<in> set (fi_reason (index_faults (resolved_of events) (faults_of events))). fst (fst e) = a} =
      {rng. (a, rng) \<in> fst ` set (fi_reason (index_faults (resolved_of events) (faults_of events)))}"
    by force
  then show ?thesis
    by (auto simp: root_rng_ids_def keys)
qed

lemma root_rng_ids_distinct: "distinct (root_rng_ids tr a)"
  by (simp add: root_rng_ids_def)

lemma leaf_rngs_known: "root_leaf_rngs events a \<subseteq> set (root_rng_ids (oracle_tree_of events reason) a)"
  unfolding root_rng_ids_set by (auto simp: root_leaf_rngs_def root_leaf_def open_leaf_def)

text \<open>the mean over the RNG hypotheses of the best future leaf of each\<close>

definition mean_best_leaf :: "trace_event list \<Rightarrow> string \<Rightarrow> rat" where
  "mean_best_leaf events a =
     (\<Sum>rng \<in> root_leaf_rngs events a. Max (rn_value ` {n. root_leaf events a rng n})) / of_nat (card (root_leaf_rngs events a))"

lemma outcome_scores:
  assumes "\<not> failed_root events a"
  shows "fmean (List.map_filter ro_value (map (rng_outcome (oracle_tree_of events reason) a)
      (root_rng_ids (oracle_tree_of events reason) a))) = mean_best_leaf events a"
    and "List.map_filter ro_value (map (rng_outcome (oracle_tree_of events reason) a)
      (root_rng_ids (oracle_tree_of events reason) a)) = [] \<longleftrightarrow> root_leaf_rngs events a = {}"
proof -
  let ?rngs = "root_rng_ids (oracle_tree_of events reason) a"
  let ?known = "filter (\<lambda>rng. rng \<in> root_leaf_rngs events a) ?rngs"
  let ?best = "\<lambda>rng. Max (rn_value ` {n. root_leaf events a rng n})"
  have scores: "List.map_filter ro_value (map (rng_outcome (oracle_tree_of events reason) a) rngs) =
      map ?best (filter (\<lambda>rng. rng \<in> root_leaf_rngs events a) rngs)" for rngs
    by (induction rngs) (simp_all add: List.map_filter_simps rng_outcome_value [OF assms])
  have known: "set ?known = root_leaf_rngs events a" "distinct ?known"
    using leaf_rngs_known [of events a reason] root_rng_ids_distinct by auto
  then have "length ?known = card (root_leaf_rngs events a)" by (metis distinct_card)
  moreover have "sum_list (map ?best ?known) = (\<Sum>rng \<in> root_leaf_rngs events a. ?best rng)"
    using known by (simp add: sum_list_distinct_conv_sum_set)
  ultimately show "fmean (List.map_filter ro_value (map (rng_outcome (oracle_tree_of events reason) a) ?rngs)) =
      mean_best_leaf events a"
    by (simp add: scores fmean_def mean_best_leaf_def)
  show "List.map_filter ro_value (map (rng_outcome (oracle_tree_of events reason) a) ?rngs) = [] \<longleftrightarrow>
      root_leaf_rngs events a = {}"
    using known(1) by (metis map_is_Nil_conv scores set_empty)
qed

lemma aggregate_failed:
  assumes "\<exists>r \<in> set outcomes. \<exists>reason. ro_censor_reason r = Some reason \<and> is_fault_reason reason"
  shows "rt_estimated_q (aggregate_outcomes a action outcomes) = None"
proof -
  from assms obtain r reason where "r \<in> set outcomes" "ro_censor_reason r = Some reason" "is_fault_reason reason" by blast
  then have "reason \<in> set (List.map_filter ro_censor_reason outcomes)" "is_fault_reason reason"
    by (auto simp: List.map_filter_def image_iff intro!: bexI [of _ r])
  then have "List.find is_fault_reason (List.map_filter ro_censor_reason outcomes) \<noteq> None"
    by (metis find_None_iff)
  then show ?thesis by (simp add: aggregate_outcomes_def Let_def split: prod.split)
qed

lemma aggregate_scores:
  assumes "\<forall>r \<in> set outcomes. \<forall>reason. ro_censor_reason r = Some reason \<longrightarrow> \<not> is_fault_reason reason"
  shows "rt_estimated_q (aggregate_outcomes a action outcomes) =
    (if List.map_filter ro_value outcomes = [] then None else Some (fmean (List.map_filter ro_value outcomes)))"
proof -
  have "List.find is_fault_reason (List.map_filter ro_censor_reason outcomes) = None"
    using assms by (auto simp: find_None_iff List.map_filter_def)
  then show ?thesis by (simp add: aggregate_outcomes_def Let_def)
qed

lemma aggregated_target:
  "rt_estimated_q (aggregate_outcomes a action (map (rng_outcome (oracle_tree_of events reason) a)
     (root_rng_ids (oracle_tree_of events reason) a))) =
   (if failed_root events a \<or> root_leaf_rngs events a = {} then None else Some (mean_best_leaf events a))"
proof (cases "failed_root events a")
  case True
  let ?tr = "oracle_tree_of events reason"
  from True obtain f where f: "f \<in> set (faults_of events)" "ft_root_action_id f = Some a" by (auto simp: failed_root_def)
  then obtain r where r: "map_of (fi_reason (tree_faults ?tr)) (a, ft_rng_id f) = Some r"
    using fault_reason_iff(1) [of "resolved_of events" "faults_of events" a "ft_rng_id f"] by fastforce
  have "ft_rng_id f \<in> set (root_rng_ids ?tr a)" using f by (auto simp: root_rng_ids_set)
  moreover have "is_fault_reason r" using r fault_reason_iff(2) by simp
  ultimately have "\<exists>o' \<in> set (map (rng_outcome ?tr a) (root_rng_ids ?tr a)).
      \<exists>reason. ro_censor_reason o' = Some reason \<and> is_fault_reason reason"
    using rng_outcome_failed(2) [OF r] by fastforce
  from aggregate_failed [OF this] True show ?thesis by simp
next
  case False
  have none: "map_of (fi_reason (tree_faults (oracle_tree_of events reason))) (a, rng) = None" for rng
    using False by (auto simp: fault_reason_iff(1) failed_root_def)
  have "\<forall>r \<in> set (map (rng_outcome (oracle_tree_of events reason) a) (root_rng_ids (oracle_tree_of events reason) a)).
      \<forall>c. ro_censor_reason r = Some c \<longrightarrow> \<not> is_fault_reason c"
    using rng_outcome_leaves(2) [OF none] by auto
  from aggregate_scores [OF this] False outcome_scores [OF False, of reason] show ?thesis by simp
qed

lemma no_rngs_no_leaves: "root_rng_ids (oracle_tree_of events reason) a = [] \<Longrightarrow> root_leaf_rngs events a = {}"
  using leaf_rngs_known [of events a reason] by simp

lemma root_action_target_q:
  assumes "root_action_target (oracle_tree_of events reason) proposal exhaustive action = Inr t"
  shows "rt_action_id t = string_or_empty (dget action ''action_id'') \<and>
    rt_estimated_q t = (if rt_action_id t \<notin> ct_action_id ` set (pt_candidates proposal) \<or>
        failed_root events (rt_action_id t) \<or> root_leaf_rngs events (rt_action_id t) = {}
      then None else Some (mean_best_leaf events (rt_action_id t)))"
proof -
  have agg: "rt_action_id (aggregate_outcomes a action os) = a" for a os
    by (simp add: aggregate_outcomes_def Let_def split: prod.split)
  show ?thesis
    using assms no_rngs_no_leaves [of events reason "string_or_empty (dget action ''action_id'')"]
      aggregated_target [of "string_or_empty (dget action ''action_id'')" action events reason]
    by (auto simp: root_action_target_def Let_def unevaluated_target_def agg split: if_splits list.splits)
qed

text \<open>C16: A root target is the mean over the RNG hypotheses of their best future leaf: there is one target for every available
  action of the root, in their order; it has an estimate exactly when the action was proposed, some
  hypothesis has an open leaf and no branch of the action failed, and the estimate is then the mean, over the
  hypotheses with an open leaf, of the highest score of such a leaf.\<close>

theorem root_target_is_the_mean_best_leaf:
  assumes "build_oracle_targets events width exhaustive rng = Inr ts"
  shows "\<exists>proposal. proposal \<in> set (List.map_filter as_proposal events) \<and> pt_parent_branch_id proposal = search_root_id \<and>
    map rt_action_id (ot_root_actions ts) =
      map (\<lambda>a. string_or_empty (dget a ''action_id'')) (available_trace_actions (pt_legal_actions proposal)) \<and>
    (\<forall>t \<in> set (ot_root_actions ts). rt_estimated_q t =
      (if rt_action_id t \<notin> ct_action_id ` set (pt_candidates proposal) \<or> failed_root events (rt_action_id t) \<or>
          root_leaf_rngs events (rt_action_id t) = {}
       then None else Some (mean_best_leaf events (rt_action_id t))))"
proof -
  from build_Inr [OF assms] obtain finish :: trace_end and proposal
    where p: "filter (\<lambda>p. pt_parent_branch_id p = search_root_id) (List.map_filter as_proposal events) = [proposal]"
      and roots: "root_action_targets (oracle_tree_of events (te_reason finish)) proposal exhaustive = Inr (ot_root_actions ts)"
    by blast
  from p have "proposal \<in> set (filter (\<lambda>p. pt_parent_branch_id p = search_root_id) (List.map_filter as_proposal events))" by simp
  then have "proposal \<in> set (List.map_filter as_proposal events)" "pt_parent_branch_id proposal = search_root_id"
    by simp_all
  moreover have ts: "list_all2 (\<lambda>action t. root_action_target (oracle_tree_of events (te_reason finish)) proposal exhaustive action = Inr t)
      (available_trace_actions (pt_legal_actions proposal)) (ot_root_actions ts)"
    using roots by (simp add: root_action_targets_def map_r_eq_Inr)
  moreover have "map rt_action_id (ot_root_actions ts) =
      map (\<lambda>a. string_or_empty (dget a ''action_id'')) (available_trace_actions (pt_legal_actions proposal))"
    using ts by (induction rule: list_all2_induct) (simp_all add: conjunct1 [OF root_action_target_q])
  moreover have "\<forall>t \<in> set (ot_root_actions ts). rt_estimated_q t =
      (if rt_action_id t \<notin> ct_action_id ` set (pt_candidates proposal) \<or> failed_root events (rt_action_id t) \<or>
          root_leaf_rngs events (rt_action_id t) = {}
       then None else Some (mean_best_leaf events (rt_action_id t)))"
  proof
    fix t assume "t \<in> set (ot_root_actions ts)"
    with ts obtain action where "root_action_target (oracle_tree_of events (te_reason finish)) proposal exhaustive action = Inr t"
      by (auto simp: list_all2_conv_all_nth in_set_conv_nth)
    from conjunct2 [OF root_action_target_q [OF this]] show "rt_estimated_q t =
      (if rt_action_id t \<notin> ct_action_id ` set (pt_candidates proposal) \<or> failed_root events (rt_action_id t) \<or>
          root_leaf_rngs events (rt_action_id t) = {}
       then None else Some (mean_best_leaf events (rt_action_id t)))" .
  qed
  ultimately show ?thesis by blast
qed

theorem root_target_is_the_mean_best_leaf_witness:
  "mean_best_leaf demo_trace ''a'' = 9 \<and> \<not> failed_root demo_trace ''a'' \<and> root_leaf_rngs demo_trace ''b'' = {}"
proof -
  obtain ts where ts: "build_oracle_targets demo_trace (PInt 1) False ''independent'' = Inr ts"
    "map (\<lambda>t. (rt_action_id t, rt_estimated_q t)) (ot_root_actions ts) = [(''a'', Some 9), (''b'', None)]"
    using demo_targets by (elim exE conjE) (rule that)
  from ts(2) obtain t u where "ot_root_actions ts = [t, u]" "rt_action_id t = ''a''" "rt_estimated_q t = Some 9"
    "rt_action_id u = ''b''" "rt_estimated_q u = None"
    by (auto simp: map_eq_Cons_conv)
  then have t: "t \<in> set (ot_root_actions ts)" "rt_action_id t = ''a''" "rt_estimated_q t = Some 9"
    and u: "u \<in> set (ot_root_actions ts)" "rt_action_id u = ''b''" "rt_estimated_q u = None" by simp_all
  have only: "p = demo_proposal search_root_id [''a'', ''b'']"
    if "p \<in> set (List.map_filter as_proposal demo_trace)" "pt_parent_branch_id p = search_root_id" for p
    using that by (auto simp: demo_trace_def List.map_filter_simps demo_proposal_def search_root_id_def)
  have ids: "ct_action_id ` set (pt_candidates (demo_proposal search_root_id [''a'', ''b''])) = {''a'', ''b''}"
    by (simp add: demo_proposal_def demo_candidate_def)
  have faults: "\<not> failed_root demo_trace x" for x
    by (simp add: failed_root_def demo_trace_def List.map_filter_simps)
  obtain proposal where p: "proposal \<in> set (List.map_filter as_proposal demo_trace)"
    "pt_parent_branch_id proposal = search_root_id"
    and q: "\<forall>t \<in> set (ot_root_actions ts). rt_estimated_q t =
      (if rt_action_id t \<notin> ct_action_id ` set (pt_candidates proposal) \<or> failed_root demo_trace (rt_action_id t) \<or>
          root_leaf_rngs demo_trace (rt_action_id t) = {}
       then None else Some (mean_best_leaf demo_trace (rt_action_id t)))"
    using root_target_is_the_mean_best_leaf [OF ts(1)] by (elim exE conjE) (rule that)
  note q' = q [unfolded only [OF p] ids]
  from bspec [OF q' t(1)] t faults have "mean_best_leaf demo_trace ''a'' = 9" by (simp split: if_splits)
  moreover from bspec [OF q' u(1)] u faults have "root_leaf_rngs demo_trace ''b'' = {}" by (simp split: if_splits)
  ultimately show ?thesis using faults by simp
qed

section \<open>The baseline\<close>

lemma insort_key_map: "insort_key f (g x) (map g xs) = map g (insort_key (\<lambda>x. f (g x)) x xs)"
  by (induction xs) auto

lemma sort_key_map: "sort_key f (map g xs) = map g (sort_key (\<lambda>x. f (g x)) xs)"
  by (induction xs) (simp_all add: sort_key_simps insort_key_map)

lemma sorted_desc_map: "sorted_desc key (map g xs) = map g (sorted_desc (\<lambda>x. key (g x)) xs)"
  by (simp add: sorted_desc_def sort_key_map)

lemma sorted_desc_indices: "sorted_desc key xs = map ((!) xs) (sorted_desc (\<lambda>i. key (xs ! i)) [0 ..< length xs])"
  using sorted_desc_map [of key "(!) xs" "[0 ..< length xs]"] by (simp add: map_nth)

lemma replay_view_value: "to_prune_view n = Inr v \<Longrightarrow> pv_value v = pn_value n"
  by (auto simp: to_prune_view_def prune_view_init_def then_r_eq_Inr)

lemma replay_views_values: "replay_views seen i ns = Inr vs \<Longrightarrow> map pv_value vs = map pn_value ns"
  by (induction seen i ns arbitrary: vs rule: replay_views.induct)
    (auto simp: then_r_eq_Inr replay_view_value split: if_splits)

text \<open>C18: The baseline of the labels is the runtime's pruner: on a recorded pruning step whose nodes have different ids,
  the nodes that \<open>baseline_would_keep\<close> marks for a beam of width \<open>k\<close> are exactly those whose indices
  \<open>ValueTopKPruner\<close> selects from the replayed views, ties included.\<close>

theorem baseline_is_value_top_k:
  assumes "node_views p = Inr views" "distinct (map pn_node_id (pr_nodes p))"
    and "value_top_k_select views (PInt k) ctx = Inr (index_list is)" "i < length (pr_nodes p)"
  shows "pn_node_id (pr_nodes p ! i) \<in> set (state_score_top_k_ids p k) \<longleftrightarrow> i \<in> set is"
proof -
  let ?ns = "pr_nodes p"
  from assms(1) obtain seen where "replay_views seen 0 ?ns = Inr views"
    by (auto simp: node_views_def then_r_eq_Inr split: if_splits)
  then have vals: "map pv_value views = map pn_value ?ns" by (rule replay_views_values)
  then have len: "length views = length ?ns" by (metis length_map)
  have "value_top_k_ranked views = sorted_desc (\<lambda>i. pn_value (?ns ! i)) [0 ..< length ?ns]"
    unfolding value_top_k_ranked_def len
    by (rule sorted_desc_cong) (use vals len in \<open>metis atLeastLessThan_iff nth_map set_upt\<close>)
  then have "is = take (nat k) (sorted_desc (\<lambda>i. pn_value (?ns ! i)) [0 ..< length ?ns])"
    using assms(3) by (auto simp: value_top_k_select_def then_r_eq_Inr split: if_splits)
  moreover have "state_score_top_k_ids p k =
      map (\<lambda>i. pn_node_id (?ns ! i)) (take (nat k) (sorted_desc (\<lambda>i. pn_value (?ns ! i)) [0 ..< length ?ns]))"
    by (subst state_score_top_k_ids_def, subst sorted_desc_indices) (simp add: take_map)
  ultimately have ids: "state_score_top_k_ids p k = map (\<lambda>i. pn_node_id (?ns ! i)) is"
    and bound: "set is \<subseteq> {..< length ?ns}" by (auto dest!: in_set_takeD)
  have "j = i" if "j \<in> set is" "pn_node_id (?ns ! j) = pn_node_id (?ns ! i)" for j
    using that assms(2,4) bound by (auto simp: distinct_conv_nth)
  then show ?thesis by (auto simp: ids)
qed

theorem baseline_is_value_top_k_witness:
  "(pn_node_id (pr_nodes demo_prune ! 0) \<in> set (state_score_top_k_ids demo_prune 1)) = (0 \<in> set [0 :: nat]) \<and>
   ''y'' \<notin> set (state_score_top_k_ids demo_prune 1)"
proof -
  have pre: "node_views demo_prune = Inr [demo_view 5, demo_view 3]" "distinct (map pn_node_id (pr_nodes demo_prune))"
    "value_top_k_select [demo_view 5, demo_view 3] (PInt 1) demo_prune_context = Inr (index_list [0])"
    "0 < length (pr_nodes demo_prune)" "1 < length (pr_nodes demo_prune)" "pn_node_id (pr_nodes demo_prune ! 1) = ''y''"
    by code_simp+
  from baseline_is_value_top_k [OF pre(1,2,3,4)] baseline_is_value_top_k [OF pre(1,2,3,5)] pre(6)
  show ?thesis by simp
qed

end
