(* ===== verification/Learned_Pruner.thy ===== *)
theory Learned_Pruner
  imports Stable_Pruner Complex_Main
begin

text \<open>
  \<open>decision/pruner_features.py\<close> and \<open>decision/learned_pruner.py\<close>: the features of a stable frontier and the
  linear pruner that ranks by a learned score.  The floats that a square root, an exponential or a
  weight touches are reals: their rounding is not modelled.  Integers that do not fit a float raise
  \<open>OverflowError\<close>, as \<open>float(i)\<close> does.
\<close>

section \<open>Conversions\<close>

definition float_of_int :: "int \<Rightarrow> exn + real" where
  "float_of_int i = (if float_overflows i then Inl OverflowError else Inr (of_int i))"

text \<open>\<open>float(x)\<close>; \<open>parse_float\<close> reads the text of a float\<close>

fun py_float :: "(string \<Rightarrow> pyfloat option) \<Rightarrow> pyval \<Rightarrow> exn + pyfloat" where
  "py_float parse_float (PBool b) = Inr (Fin (if b then 1 else 0))"
| "py_float parse_float (PInt i) = (if float_overflows i then Inl OverflowError else Inr (Fin (of_int i)))"
| "py_float parse_float (PFloat f) = Inr f"
| "py_float parse_float (PStr s) = (case parse_float s of None \<Rightarrow> Inl ValueError | Some f \<Rightarrow> Inr f)"
| "py_float parse_float _ = Inl TypeError"

fun finite_real :: "pyfloat \<Rightarrow> real option" where
  "finite_real (Fin r) = Some (real_of_rat r)"
| "finite_real _ = None"

text \<open>what iterating over a JSON value gives\<close>

fun py_items :: "pyval \<Rightarrow> exn + pyval list" where
  "py_items (PList vs) = Inr vs"
| "py_items (PStr s) = Inr (map (\<lambda>c. PStr [c]) s)"
| "py_items (PDict d) = Inr (map (\<lambda>k. PStr k) (dkeys d))"
| "py_items _ = Inl TypeError"

section \<open>Features\<close>

definition pruner_feature_schema_version :: int where
  "pruner_feature_schema_version = 2"

definition pruner_feature_names :: "string list" where
  "pruner_feature_names =
     [''node_value'', ''frontier_value_max'', ''frontier_value_min'', ''frontier_value_mean'', ''frontier_value_std'',
      ''value_gap_to_max'', ''value_zscore'', ''value_rank_fraction'', ''root_group_size'', ''root_group_fraction'',
      ''root_group_value_max'', ''root_group_value_mean'', ''root_group_value_gap_to_max'',
      ''within_root_value_rank_fraction'', ''depth'', ''combat_depth'', ''continuation_steps'', ''terminal'',
      ''policy_rank_missing'', ''policy_rank'', ''policy_score_missing'', ''policy_score'',
      ''post_coverage_rank_missing'', ''post_coverage_rank'', ''candidate_source_structural_coverage'',
      ''action_type_card'', ''action_type_system'', ''action_type_potion'', ''beam_width'', ''frontier_size'']"

text \<open>\<open>ranks[index] = rank\<close> along the sorted order\<close>

definition stable_descending_rank :: "real list \<Rightarrow> nat list" where
  "stable_descending_rank scores =
     fold (\<lambda>(rank, index) ranks. ranks[index := rank])
       (enumerate 0 (sorted_desc (\<lambda>i. scores ! i) [0 ..< length scores])) (replicate (length scores) 0)"

definition rank_fraction :: "nat \<Rightarrow> nat \<Rightarrow> real" where
  "rank_fraction rank n = (if n \<le> 1 then 0 else real rank / real (n - 1))"

definition real_mean :: "real list \<Rightarrow> real" where
  "real_mean xs = sum_list xs / real (length xs)"

definition state_std :: "real list \<Rightarrow> real" where
  "state_std xs = sqrt (max 0 (real_mean (map (\<lambda>x. (x - real_mean xs)\<^sup>2) xs)))"

text \<open>the positions of the nodes with the same root action, ascending\<close>

definition root_group :: "prune_view list \<Rightarrow> prune_view \<Rightarrow> nat list" where
  "root_group frontier node = filter (\<lambda>i. pv_root_action_id (frontier ! i) = pv_root_action_id node) [0 ..< length frontier]"

text \<open>the rank of a position among those of its group\<close>

definition local_rank :: "real list \<Rightarrow> nat list \<Rightarrow> nat \<Rightarrow> nat" where
  "local_rank scores members index =
     (case map_of (zip members (stable_descending_rank (map ((!) scores) members))) index of Some rank \<Rightarrow> rank | None \<Rightarrow> 0)"

definition float_flag :: "bool \<Rightarrow> real" where
  "float_flag b = (if b then 1 else 0)"

definition optional_float :: "int option \<Rightarrow> exn + real" where
  "optional_float x = (case x of None \<Rightarrow> Inr 0 | Some i \<Rightarrow> float_of_int i)"

definition feature_row :: "prune_view list \<Rightarrow> prune_context \<Rightarrow> real list \<Rightarrow> nat list \<Rightarrow> nat \<Rightarrow> exn + real list" where
  "feature_row frontier ctx scores ranks index =
     (let node = frontier ! index; score = scores ! index;
          members = root_group frontier node; group_scores = map ((!) scores) members in
      then_r (float_of_int (pv_depth node)) (\<lambda>depth.
      then_r (float_of_int (pv_combat_depth node)) (\<lambda>combat_depth.
      then_r (float_of_int (pv_continuation_steps node)) (\<lambda>steps.
      then_r (optional_float (pv_policy_rank node)) (\<lambda>rank.
      then_r (optional_float (pv_post_coverage_rank node)) (\<lambda>coverage_rank.
      then_r (float_of_int (pc_beam_width ctx)) (\<lambda>width.
      Inr [score, Max (set scores), Min (set scores), real_mean scores, state_std scores, Max (set scores) - score,
           if state_std scores = 0 then 0 else (score - real_mean scores) / state_std scores,
           rank_fraction (ranks ! index) (length frontier),
           real (length members), real (length members) / real (length frontier),
           Max (set group_scores), real_mean group_scores, Max (set group_scores) - score,
           rank_fraction (local_rank scores members index) (length members),
           depth, combat_depth, steps, float_flag (pv_terminal node),
           float_flag (pv_policy_rank node = None), rank,
           float_flag (pv_policy_score node = None),
           case pv_policy_score node of None \<Rightarrow> 0 | Some s \<Rightarrow> real_of_rat s,
           float_flag (pv_post_coverage_rank node = None), coverage_rank,
           float_flag (pv_candidate_source node = Some ''structural_coverage''),
           float_flag (pv_action_type node = Some ''card''), float_flag (pv_action_type node = Some ''system''),
           float_flag (pv_action_type node = Some ''potion''), width, real (length frontier)])))))))"

definition stable_pruner_feature_matrix :: "prune_view list \<Rightarrow> prune_context \<Rightarrow> exn + real list list" where
  "stable_pruner_feature_matrix frontier ctx =
     (let scores = map (\<lambda>v. real_of_rat (pv_value v)) frontier in
      map_r (feature_row frontier ctx scores (stable_descending_rank scores)) [0 ..< length frontier])"

section \<open>The linear pruner\<close>

definition learned_pruner_artifact_schema_version :: int where
  "learned_pruner_artifact_schema_version = 2"

definition stable_prune_node_view_schema_version :: int where
  "stable_prune_node_view_schema_version = 1"

record linear_pruner =
  lp_feature_names :: "string list"
  lp_coefficients :: "real list"
  lp_scale :: "real list"
  lp_artifact_metadata :: pydict
  lp_version :: string

text \<open>\<open>tuple(float(v) for v in values)\<close>, then the check of the entries\<close>

definition checked_floats :: "(string \<Rightarrow> pyfloat option) \<Rightarrow> (real \<Rightarrow> bool) \<Rightarrow> pyval list \<Rightarrow> exn + real list" where
  "checked_floats parse_float ok vs =
     then_r (map_r (py_float parse_float) vs) (\<lambda>fs.
       if \<forall>f \<in> set fs. case finite_real f of None \<Rightarrow> False | Some r \<Rightarrow> ok r
       then Inr (List.map_filter finite_real fs) else Inl ValueError)"

definition linear_pruner_init ::
  "(string \<Rightarrow> pyfloat option) \<Rightarrow> pyval \<Rightarrow> pyval \<Rightarrow> pyval \<Rightarrow> pydict \<Rightarrow> exn + linear_pruner" where
  "linear_pruner_init parse_float feature_names coefficients scale metadata =
     then_r (py_items feature_names) (\<lambda>names.
     if names \<noteq> map (\<lambda>s. PStr s) pruner_feature_names then Inl ValueError else
     then_r (py_items coefficients) (\<lambda>cs.
     if length cs \<noteq> length names then Inl ValueError else
     then_r (if scale = PNone then Inr (replicate (length names) (PInt 1)) else py_items scale) (\<lambda>ss.
     if length ss \<noteq> length names then Inl ValueError else
     then_r (checked_floats parse_float (\<lambda>_. True) cs) (\<lambda>cs.
     then_r (checked_floats parse_float (\<lambda>s. 0 < s) ss) (\<lambda>ss.
     Inr \<lparr>lp_feature_names = pruner_feature_names, lp_coefficients = cs, lp_scale = ss, lp_artifact_metadata = metadata,
          lp_version = (case dget metadata ''artifact_sha256'' of
             PStr sha \<Rightarrow> if sha = [] then ''1'' else ''artifact:'' @ take 12 sha
           | _ \<Rightarrow> ''1'')\<rparr>)))))"

text \<open>\<open>payload[key]\<close>\<close>

definition py_lookup :: "pydict \<Rightarrow> string \<Rightarrow> exn + pyval" where
  "py_lookup d k = (if dhas d k then Inr (dget d k) else Inl KeyError)"

text \<open>the payload read from a weights file, and the digest of its bytes\<close>

definition from_weights_payload :: "(string \<Rightarrow> pyfloat option) \<Rightarrow> pyval \<Rightarrow> string \<Rightarrow> exn + linear_pruner" where
  "from_weights_payload parse_float payload sha256 =
     (case payload of
        PDict d \<Rightarrow>
          if \<not> py_eq (dget d ''model_type'') (PStr ''pairwise_logistic_linear_pruner'') then Inl ValueError
          else if \<not> py_eq (dget d ''artifact_schema_version'') (PInt learned_pruner_artifact_schema_version)
          then Inl ValueError
          else if \<not> py_eq (dget d ''stable_prune_node_view_schema_version'') (PInt stable_prune_node_view_schema_version)
          then Inl ValueError
          else if \<not> py_eq (dget d ''feature_schema_version'') (PInt pruner_feature_schema_version) then Inl ValueError
          else
            then_r (py_lookup d ''feature_names'') (\<lambda>names.
            then_r (py_lookup d ''coefficients'') (\<lambda>coefficients.
            linear_pruner_init parse_float names coefficients (dget d ''scale'')
              (dset (filter (\<lambda>e. fst e \<notin> {''feature_names'', ''coefficients'', ''scale''}) d)
                 ''artifact_sha256'' (PStr sha256))))
      | _ \<Rightarrow> Inl AttributeError)"

definition score_row :: "linear_pruner \<Rightarrow> real list \<Rightarrow> exn + real" where
  "score_row lp row =
     (if length row \<noteq> length (lp_coefficients lp) then Inl ValueError
      else Inr (sum_list (map (\<lambda>(c, v, s). c * (v / s)) (zip (lp_coefficients lp) (zip row (lp_scale lp))))))"

definition frontier_scores :: "linear_pruner \<Rightarrow> prune_view list \<Rightarrow> prune_context \<Rightarrow> exn + real list" where
  "frontier_scores lp frontier ctx = then_r (stable_pruner_feature_matrix frontier ctx) (map_r (score_row lp))"

fun positive_k :: "pyval \<Rightarrow> exn + nat" where
  "positive_k (PInt k) = (if k \<le> 0 then Inl ValueError else Inr (nat k))"
| "positive_k _ = Inl ValueError"

definition score_order :: "real list \<Rightarrow> nat list" where
  "score_order scores = sorted_desc (\<lambda>i. scores ! i) [0 ..< length scores]"

definition linear_select :: "linear_pruner \<Rightarrow> prune_view list \<Rightarrow> pyval \<Rightarrow> prune_context \<Rightarrow> exn + pyval" where
  "linear_select lp frontier k ctx =
     then_r (positive_k k) (\<lambda>k.
     then_r (frontier_scores lp frontier ctx) (\<lambda>scores.
     Inr (index_list (take k (score_order scores)))))"

section \<open>What a ranking promises\<close>

text \<open>every integer that becomes a feature fits a float\<close>

definition fits_floats :: "prune_view list \<Rightarrow> prune_context \<Rightarrow> bool" where
  "fits_floats frontier ctx \<longleftrightarrow> \<not> float_overflows (pc_beam_width ctx) \<and>
     list_all (\<lambda>v. \<not> float_overflows (pv_depth v) \<and> \<not> float_overflows (pv_combat_depth v) \<and>
       \<not> float_overflows (pv_continuation_steps v) \<and>
       (case pv_policy_rank v of None \<Rightarrow> True | Some i \<Rightarrow> \<not> float_overflows i) \<and>
       (case pv_post_coverage_rank v of None \<Rightarrow> True | Some i \<Rightarrow> \<not> float_overflows i)) frontier"

lemma feature_row_length:
  "feature_row frontier ctx scores ranks i = Inr row \<Longrightarrow> length row = length pruner_feature_names"
  by (auto simp: feature_row_def Let_def then_r_eq_Inr pruner_feature_names_def)

lemma feature_row_score: "feature_row frontier ctx scores ranks i = Inr row \<Longrightarrow> row ! 0 = scores ! i"
  by (auto simp: feature_row_def Let_def then_r_eq_Inr)

lemma feature_row_fits:
  assumes "fits_floats frontier ctx" "i < length frontier"
  shows "\<exists>row. feature_row frontier ctx scores ranks i = Inr row"
proof -
  from assms(2) have "frontier ! i \<in> set frontier" by simp
  with assms(1) show ?thesis
    by (auto simp: fits_floats_def list_all_iff feature_row_def Let_def float_of_int_def optional_float_def
        split: option.splits)
qed

lemma feature_row_raises: "feature_row frontier ctx scores ranks i = Inl e \<Longrightarrow> e = OverflowError"
  by (auto simp: feature_row_def Let_def then_r_eq_Inl float_of_int_def optional_float_def split: if_splits option.splits)

lemma feature_matrix_rows:
  assumes "stable_pruner_feature_matrix frontier ctx = Inr rows"
  shows "length rows = length frontier" "\<forall>row \<in> set rows. length row = length pruner_feature_names"
    and "\<forall>i < length frontier. rows ! i ! 0 = real_of_rat (pv_value (frontier ! i))"
proof -
  let ?scores = "map (\<lambda>v. real_of_rat (pv_value v)) frontier"
  have rows: "length frontier = length rows"
    "\<forall>i < length frontier. feature_row frontier ctx ?scores (stable_descending_rank ?scores) i = Inr (rows ! i)"
    using assms by (auto simp: stable_pruner_feature_matrix_def Let_def map_r_eq_Inr list_all2_conv_all_nth)
  then show "length rows = length frontier" by simp
  show "\<forall>row \<in> set rows. length row = length pruner_feature_names"
  proof
    fix row assume "row \<in> set rows"
    then obtain i where "i < length rows" "rows ! i = row" by (auto simp: in_set_conv_nth)
    with rows feature_row_length [of frontier ctx ?scores "stable_descending_rank ?scores" i row]
    show "length row = length pruner_feature_names" by simp
  qed
  show "\<forall>i < length frontier. rows ! i ! 0 = real_of_rat (pv_value (frontier ! i))"
  proof (intro allI impI)
    fix i assume "i < length frontier"
    with rows have "feature_row frontier ctx ?scores (stable_descending_rank ?scores) i = Inr (rows ! i)" by blast
    then have "rows ! i ! 0 = ?scores ! i" by (rule feature_row_score)
    with \<open>i < length frontier\<close> show "rows ! i ! 0 = real_of_rat (pv_value (frontier ! i))" by simp
  qed
qed

lemma feature_matrix_fits:
  assumes "fits_floats frontier ctx"
  shows "\<exists>rows. stable_pruner_feature_matrix frontier ctx = Inr rows"
proof -
  have rows: "\<exists>rows. map_r (feature_row frontier ctx scores ranks) is = Inr rows" if "set is \<subseteq> {..< length frontier}"
    for scores ranks "is"
    using that
  proof (induction "is")
    case (Cons i "is")
    with feature_row_fits [OF assms, of i scores ranks] show ?case by auto
  qed simp
  show ?thesis unfolding stable_pruner_feature_matrix_def Let_def by (rule rows) auto
qed

definition well_formed_pruner :: "linear_pruner \<Rightarrow> bool" where
  "well_formed_pruner lp \<longleftrightarrow> length (lp_coefficients lp) = length pruner_feature_names \<and>
     length (lp_scale lp) = length pruner_feature_names \<and> (\<forall>s \<in> set (lp_scale lp). 0 < s)"

lemma checked_floats_Inr:
  assumes "checked_floats parse_float ok vs = Inr xs"
  shows "length xs = length vs \<and> (\<forall>x \<in> set xs. ok x)"
proof -
  from assms obtain fs where fs: "map_r (py_float parse_float) vs = Inr fs"
    "\<forall>f \<in> set fs. case finite_real f of None \<Rightarrow> False | Some r \<Rightarrow> ok r" "xs = List.map_filter finite_real fs"
    by (auto simp: checked_floats_def then_r_eq_Inr split: if_splits)
  have "length (List.map_filter finite_real fs) = length fs \<and> (\<forall>x \<in> set (List.map_filter finite_real fs). ok x)"
    using fs(2) by (induction fs) (auto simp: List.map_filter_simps split: option.splits)
  with fs show ?thesis by (auto simp: map_r_eq_Inr dest: list_all2_lengthD)
qed

lemma linear_pruner_init_well_formed:
  "linear_pruner_init parse_float names coefficients scale metadata = Inr lp \<Longrightarrow> well_formed_pruner lp"
  by (auto simp: linear_pruner_init_def then_r_eq_Inr well_formed_pruner_def split: if_splits
      dest!: checked_floats_Inr)

definition weighted :: "linear_pruner \<Rightarrow> real list \<Rightarrow> real" where
  "weighted lp row = (\<Sum>j < length (lp_coefficients lp). lp_coefficients lp ! j * (row ! j / lp_scale lp ! j))"

lemma score_row_sum:
  assumes "length row = length (lp_coefficients lp)" "length (lp_scale lp) = length (lp_coefficients lp)"
  shows "score_row lp row = Inr (weighted lp row)"
proof -
  have "sum_list (map (\<lambda>(c, v, s). c * (v / s)) (zip (lp_coefficients lp) (zip row (lp_scale lp)))) = weighted lp row"
    by (simp add: sum_list_sum_nth weighted_def assms lessThan_atLeast0)
  then show ?thesis by (simp add: score_row_def assms)
qed

lemma score_row_weighted:
  "well_formed_pruner lp \<Longrightarrow> length row = length pruner_feature_names \<Longrightarrow> score_row lp row = Inr (weighted lp row)"
  by (intro score_row_sum) (simp_all add: well_formed_pruner_def)

lemma map_r_Inr: "(\<And>x. x \<in> set xs \<Longrightarrow> f x = Inr (g x)) \<Longrightarrow> map_r f xs = Inr (map g xs)"
  by (induction xs) simp_all

lemma frontier_scores_fits:
  assumes "well_formed_pruner lp" "fits_floats frontier ctx"
  obtains rows where "stable_pruner_feature_matrix frontier ctx = Inr rows" "length rows = length frontier"
    "frontier_scores lp frontier ctx = Inr (map (weighted lp) rows)"
proof -
  from feature_matrix_fits [OF assms(2)] obtain rows where rows: "stable_pruner_feature_matrix frontier ctx = Inr rows" by blast
  moreover have "frontier_scores lp frontier ctx = Inr (map (weighted lp) rows)"
    using feature_matrix_rows(2) [OF rows] score_row_weighted [OF assms(1)]
    by (simp add: frontier_scores_def rows map_r_Inr)
  ultimately show thesis using feature_matrix_rows(1) that by blast
qed

text \<open>C22: The learned pruner keeps the contract of a pruner: one built from an artifact that passes the checks of
  the constructor selects, from every frontier whose integers fit floats, the first \<open>k\<close> indices of a stable
  descending sort by its weighted feature sum, and the engine accepts them as they are.\<close>

theorem learned_pruner_ranks_by_score:
  assumes "linear_pruner_init parse_float names coefficients scale metadata = Inr lp"
    and "fits_floats frontier ctx" "0 < k"
  shows "\<exists>rows is. stable_pruner_feature_matrix frontier ctx = Inr rows \<and> length rows = length frontier \<and>
    linear_select lp frontier (PInt k) ctx = Inr (index_list is) \<and>
    validated_pruner_indices (index_list is) (length frontier) k = Inr is \<and>
    is_top_k (\<lambda>i. weighted lp (rows ! i)) (length frontier) (nat k) is"
proof -
  have wf: "well_formed_pruner lp" using assms(1) by (rule linear_pruner_init_well_formed)
  obtain rows where rows: "stable_pruner_feature_matrix frontier ctx = Inr rows" "length rows = length frontier"
    and scores: "frontier_scores lp frontier ctx = Inr (map (weighted lp) rows)"
    using wf assms(2) by (rule frontier_scores_fits)
  let ?is = "take (nat k) (score_order (map (weighted lp) rows))"
  have "score_order (map (weighted lp) rows) = sorted_desc (\<lambda>i. weighted lp (rows ! i)) [0 ..< length frontier]"
    unfolding score_order_def length_map rows(2) by (rule sorted_desc_cong) (simp add: rows(2))
  then have top: "is_top_k (\<lambda>i. weighted lp (rows ! i)) (length frontier) (nat k) ?is"
    by (simp add: is_top_k_take)
  moreover from top assms(3) have "validated_pruner_indices (index_list ?is) (length frontier) k = Inr ?is"
    by (auto simp: validated_indices_iff is_top_k_def)
  moreover have "linear_select lp frontier (PInt k) ctx = Inr (index_list ?is)"
    using assms(3) by (simp add: linear_select_def scores)
  ultimately show ?thesis using rows by blast
qed

text \<open>sorting by a key that orders the elements the same way\<close>

lemma sorted_desc_mono:
  assumes "\<And>x y. x \<in> set xs \<Longrightarrow> y \<in> set xs \<Longrightarrow> f x \<le> f y \<longleftrightarrow> g x \<le> g y"
  shows "sorted_desc f xs = sorted_desc g xs"
proof -
  have insort: "insort_key (\<lambda>x. - f x) x ys = insort_key (\<lambda>x. - g x) x ys"
    if "\<And>y. y \<in> set ys \<Longrightarrow> f y \<le> f x \<longleftrightarrow> g y \<le> g x" for x ys
    using that by (induction ys) auto
  have "sort_key (\<lambda>x. - f x) xs = sort_key (\<lambda>x. - g x) xs"
    using assms
  proof (induction xs)
    case (Cons x xs)
    then have "sort_key (\<lambda>x. - f x) xs = sort_key (\<lambda>x. - g x) xs" by simp
    with insort [of "sort_key (\<lambda>x. - g x) xs" x] Cons.prems show ?case by (simp add: sort_key_simps)
  qed simp
  then show ?thesis by (simp add: sorted_desc_def)
qed

text \<open>C23: The baseline is a learned pruner: one that weighs the state score positively and no other feature selects
  from every frontier what \<open>ValueTopKPruner\<close> does, with the same order among ties.\<close>

theorem score_weight_is_value_top_k:
  assumes "linear_pruner_init parse_float names coefficients scale metadata = Inr lp"
    and "fits_floats frontier ctx" "0 < k" "lp_coefficients lp = c # replicate n 0" "0 < c"
  shows "linear_select lp frontier (PInt k) ctx = value_top_k_select frontier (PInt k) ctx"
proof -
  have wf: "well_formed_pruner lp" using assms(1) by (rule linear_pruner_init_well_formed)
  obtain rows where rows: "stable_pruner_feature_matrix frontier ctx = Inr rows" "length rows = length frontier"
    and scores: "frontier_scores lp frontier ctx = Inr (map (weighted lp) rows)"
    using wf assms(2) by (rule frontier_scores_fits)
  have s: "0 < lp_scale lp ! 0" using wf by (simp add: well_formed_pruner_def pruner_feature_names_def)
  have weight: "weighted lp row = c * (row ! 0 / lp_scale lp ! 0)" for row
    by (simp add: weighted_def assms(4) sum.lessThan_Suc_shift del: sum.lessThan_Suc)
  have "score_order (map (weighted lp) rows) = value_top_k_ranked frontier"
    unfolding score_order_def value_top_k_ranked_def length_map rows(2)
    by (rule sorted_desc_mono)
      (use feature_matrix_rows(3) [OF rows(1)] s assms(5) in \<open>simp add: rows(2) weight divide_le_cancel of_rat_less_eq\<close>)
  with assms(3) show ?thesis by (simp add: linear_select_def scores value_top_k_select_def)
qed

definition demo_pruner :: "exn + linear_pruner" where
  "demo_pruner = linear_pruner_init (\<lambda>_. None) (PList (map (\<lambda>s. PStr s) pruner_feature_names))
     (PList (PInt 2 # replicate 29 (PInt 0))) PNone []"

lemma small_ints_fit [simp]: "\<not> float_overflows 0" "\<not> float_overflows 1" "\<not> float_overflows 2" "\<not> float_overflows 3"
  by (code_simp)+

lemma checked_floats_Cons:
  assumes "py_float parse_float v = Inr f" "finite_real f = Some r" "ok r"
    "checked_floats parse_float ok vs = Inr rs"
  shows "checked_floats parse_float ok (v # vs) = Inr (r # rs)"
proof -
  from assms(4) obtain fs where "map_r (py_float parse_float) vs = Inr fs"
    "\<forall>f \<in> set fs. case finite_real f of None \<Rightarrow> False | Some r \<Rightarrow> ok r" "rs = List.map_filter finite_real fs"
    by (auto simp: checked_floats_def then_r_eq_Inr split: if_splits)
  with assms(1-3) show ?thesis by (simp add: checked_floats_def List.map_filter_simps)
qed

lemma checked_floats_replicate:
  assumes "py_float parse_float v = Inr f" "finite_real f = Some r" "ok r"
  shows "checked_floats parse_float ok (replicate n v) = Inr (replicate n r)"
proof (induction n)
  case (Suc n)
  from checked_floats_Cons [of parse_float v f r ok, OF assms Suc.IH] show ?case by simp
qed (simp add: checked_floats_def List.map_filter_simps)

lemma demo_pruner_Inr: "\<exists>lp. demo_pruner = Inr lp \<and> lp_coefficients lp = 2 # replicate 29 0"
proof -
  have len: "length pruner_feature_names = 30" by (simp add: pruner_feature_names_def)
  have "checked_floats (\<lambda>_. None) (\<lambda>_. True) (PInt 2 # replicate 29 (PInt 0)) = Inr (2 # replicate 29 0)"
    by (rule checked_floats_Cons [where f = "Fin 2", OF _ _ _ checked_floats_replicate [where f = "Fin 0"]]) simp_all
  moreover have "checked_floats (\<lambda>_. None) (\<lambda>s. 0 < s) (replicate 30 (PInt 1)) = Inr (replicate 30 1)"
    by (rule checked_floats_replicate [where f = "Fin 1"]) simp_all
  ultimately show ?thesis
    by (simp add: demo_pruner_def linear_pruner_init_def len dget_def)
qed

lemma demo_fits: "fits_floats [demo_view 1, demo_view 3] demo_prune_context"
  by (simp add: fits_floats_def demo_view_def demo_prune_context_def)

theorem learned_pruner_ranks_by_score_witness:
  "\<exists>lp is. demo_pruner = Inr lp \<and> linear_select lp [demo_view 1, demo_view 3] (PInt 1) demo_prune_context = Inr (index_list is) \<and>
     length is = 1 \<and> distinct is"
proof -
  from demo_pruner_Inr obtain lp where lp: "demo_pruner = Inr lp" by blast
  from learned_pruner_ranks_by_score [OF lp [unfolded demo_pruner_def] demo_fits, of 1] lp show ?thesis
    by (auto simp: is_top_k_def)
qed

theorem score_weight_is_value_top_k_witness:
  "\<exists>lp. demo_pruner = Inr lp \<and>
     linear_select lp [demo_view 1, demo_view 3] (PInt 1) demo_prune_context = Inr (index_list [1])"
proof -
  from demo_pruner_Inr obtain lp where lp: "demo_pruner = Inr lp" "lp_coefficients lp = 2 # replicate 29 0" by blast
  have "value_top_k_select [demo_view 1, demo_view 3] (PInt 1) demo_prune_context = Inr (index_list [1])" by code_simp
  with score_weight_is_value_top_k [OF lp(1) [unfolded demo_pruner_def] demo_fits, of 1 2 29] lp show ?thesis by auto
qed

end
