(* ===== verification/Pruner_Exploration.thy ===== *)
theory Pruner_Exploration
  imports Learned_Pruner
begin

text \<open>
  \<open>decision/pruner_rl.py\<close>: the exploration around a learned pruner.  It draws survivors one after the other with
  probabilities that are the softmax of the scores left (a Plackett-Luce order), records the draw with
  its log probability, and offers the gradient of that log probability for policy-gradient training.
  Scores are reals; the random generator is a parameter as in the prelude.
\<close>

section \<open>Softmax\<close>

text \<open>over reals the logits are finite, and the maximum only shifts them\<close>

definition softmax :: "real list \<Rightarrow> real list" where
  "softmax logits =
     (if logits = [] then []
      else let weights = map (\<lambda>v. exp (v - Max (set logits))) logits in map (\<lambda>w. w / sum_list weights) weights)"

definition logsumexp :: "real list \<Rightarrow> exn + real" where
  "logsumexp logits =
     (if logits = [] then Inl ValueError
      else Inr (Max (set logits) + ln (sum_list (map (\<lambda>v. exp (v - Max (set logits))) logits))))"

definition logits_of :: "real list \<Rightarrow> real \<Rightarrow> nat list \<Rightarrow> real list" where
  "logits_of scores temperature available = map (\<lambda>i. scores ! i / temperature) available"

text \<open>\<open>_validate_temperature\<close>; the value is compared and used as a float\<close>

definition validate_temperature :: "pyval \<Rightarrow> exn + real" where
  "validate_temperature v =
     (case v of
        PInt i \<Rightarrow> if float_overflows i then Inl OverflowError else if i \<le> 0 then Inl ValueError else Inr (of_int i)
      | PFloat (Fin r) \<Rightarrow> if r \<le> 0 then Inl ValueError else Inr (real_of_rat r)
      | _ \<Rightarrow> Inl ValueError)"

section \<open>Log probability and gradient\<close>

text \<open>the check of one sampled index\<close>

definition sampled_index :: "nat \<Rightarrow> nat list \<Rightarrow> nat list \<Rightarrow> pyval \<Rightarrow> exn + nat" where
  "sampled_index n available seen v =
     (case v of
        PInt i \<Rightarrow> if i < 0 \<or> int n \<le> i \<or> nat i \<in> set seen \<or> nat i \<notin> set available then Inl ValueError else Inr (nat i)
      | _ \<Rightarrow> Inl ValueError)"

fun log_probability_loop :: "real list \<Rightarrow> real \<Rightarrow> nat list \<Rightarrow> nat list \<Rightarrow> real \<Rightarrow> pyval list \<Rightarrow> exn + real" where
  "log_probability_loop scores t available seen acc [] = Inr acc"
| "log_probability_loop scores t available seen acc (v # vs) =
     then_r (sampled_index (length scores) available seen v) (\<lambda>i.
     then_r (logsumexp (logits_of scores t available)) (\<lambda>log_denominator.
     log_probability_loop scores t (remove1 i available) (i # seen) (acc + (scores ! i / t - log_denominator)) vs))"

definition plackett_luce_log_probability :: "real list \<Rightarrow> pyval list \<Rightarrow> pyval \<Rightarrow> exn + real" where
  "plackett_luce_log_probability scores sampled temperature =
     then_r (validate_temperature temperature) (\<lambda>t.
     log_probability_loop scores t [0 ..< length scores] [] 0 sampled)"

text \<open>what one draw adds to every component of the gradient\<close>

definition gradient_step :: "real list \<Rightarrow> real \<Rightarrow> real list list \<Rightarrow> nat list \<Rightarrow> nat \<Rightarrow> real list \<Rightarrow> real list" where
  "gradient_step scores t phi available selected gradient =
     (let probabilities = softmax (logits_of scores t available) in
      map (\<lambda>(j, g). g + (phi ! selected ! j -
            sum_list (map (\<lambda>(p, i). p * phi ! i ! j) (zip probabilities available))) * (1 / t))
        (enumerate 0 gradient))"

fun gradient_loop ::
  "real list \<Rightarrow> real \<Rightarrow> real list list \<Rightarrow> nat list \<Rightarrow> nat list \<Rightarrow> real list \<Rightarrow> pyval list \<Rightarrow> exn + real list" where
  "gradient_loop scores t phi available seen gradient [] = Inr gradient"
| "gradient_loop scores t phi available seen gradient (v # vs) =
     then_r (sampled_index (length scores) available seen v) (\<lambda>i.
     gradient_loop scores t phi (remove1 i available) (i # seen) (gradient_step scores t phi available i gradient) vs)"

definition plackett_luce_logprob_gradient ::
  "real list \<Rightarrow> real list list \<Rightarrow> pyval list \<Rightarrow> pyval \<Rightarrow> real list \<Rightarrow> exn + real list" where
  "plackett_luce_logprob_gradient scores rows sampled temperature scale =
     then_r (validate_temperature temperature) (\<lambda>t.
     if length scores \<noteq> length rows then Inl ValueError
     else if rows = [] then Inr (map (\<lambda>_. 0) scale)
     else if \<exists>row \<in> set rows. length row \<noteq> length scale then Inl ValueError
     else if \<not> (\<forall>s \<in> set scale. 0 < s) then Inl ValueError
     else gradient_loop scores t (map (\<lambda>row. map (\<lambda>(v, s). v / s) (zip row scale)) rows) [0 ..< length scores] []
            (replicate (length scale) 0) sampled)"

section \<open>Sampling\<close>

text \<open>the first position whose cumulative probability exceeds the threshold, else the last one\<close>

fun pick_position :: "real \<Rightarrow> real \<Rightarrow> nat \<Rightarrow> nat \<Rightarrow> real list \<Rightarrow> nat" where
  "pick_position threshold cumulative position final [] = final"
| "pick_position threshold cumulative position final (p # ps) =
     (if threshold < cumulative + p then position
      else pick_position threshold (cumulative + p) (Suc position) final ps)"

fun sample_loop :: "('g \<Rightarrow> nat \<times> 'g) \<Rightarrow> real list \<Rightarrow> real \<Rightarrow> nat \<Rightarrow> nat list \<Rightarrow> ('g, exn, nat list) py" where
  "sample_loop draw scores t 0 available = ret_p []"
| "sample_loop draw scores t (Suc n) available =
     bind_p (rng_random draw) (\<lambda>threshold.
       let position = pick_position (real_of_rat threshold) 0 0 (length available - 1) (softmax (logits_of scores t available));
           selected = available ! position
       in bind_p (sample_loop draw scores t n (take position available @ drop (Suc position) available))
            (\<lambda>rest. ret_p (selected # rest)))"

section \<open>The exploring pruner\<close>

record rl_step =
  rs_search_id :: string
  rs_prune_step_id :: string
  rs_phase :: string
  rs_beam_width :: int
  rs_max_depth :: int
  rs_depths_completed :: int
  rs_remaining_time_ms :: "rat option"
  rs_view_schema_version :: int
  rs_feature_schema_version :: int
  rs_temperature :: real
  rs_sampler_seed :: int
  rs_frontier_features :: "real list list"
  rs_behavior_scores :: "real list"
  rs_sampled_indices :: "nat list"
  rs_returned_indices :: "nat list"
  rs_selection_log_probability :: real

record 'g pl_pruner =
  pl_base :: linear_pruner
  pl_temperature :: real
  pl_seed :: int
  pl_rng :: 'g
  pl_collector :: "rl_step list option"

text \<open>\<open>seed_rng\<close> stands for \<open>random.Random(seed)\<close>\<close>

definition pl_pruner_init ::
  "(int \<Rightarrow> 'g) \<Rightarrow> linear_pruner \<Rightarrow> pyval \<Rightarrow> pyval \<Rightarrow> rl_step list option \<Rightarrow> exn + 'g pl_pruner" where
  "pl_pruner_init seed_rng base temperature seed collector =
     then_r (validate_temperature temperature) (\<lambda>t.
     case seed of
       PInt s \<Rightarrow> Inr \<lparr>pl_base = base, pl_temperature = t, pl_seed = s, pl_rng = seed_rng s, pl_collector = collector\<rparr>
     | _ \<Rightarrow> Inl ValueError)"

text \<open>\<open>_sample_plackett_luce_order\<close> on the generator of the pruner\<close>

definition sample_order :: "('g \<Rightarrow> nat \<times> 'g) \<Rightarrow> real list \<Rightarrow> nat \<Rightarrow> ('g pl_pruner, exn, nat list) py" where
  "sample_order draw scores n =
     (\<lambda>pl. if length scores < n then (Inl ValueError, pl)
       else case sample_loop draw scores (pl_temperature pl) n [0 ..< length scores] (pl_rng pl) of
         (r, g) \<Rightarrow> (r, pl\<lparr>pl_rng := g\<rparr>))"

definition record_step :: "rl_step \<Rightarrow> ('g pl_pruner, exn, unit) py" where
  "record_step s = modify_p (\<lambda>pl. pl\<lparr>pl_collector := map_option (\<lambda>steps. steps @ [s]) (pl_collector pl)\<rparr>)"

definition selection_log_probability :: "real \<Rightarrow> real list \<Rightarrow> nat list \<Rightarrow> exn + real" where
  "selection_log_probability t scores sampled =
     log_probability_loop scores t [0 ..< length scores] [] 0 (map (\<lambda>i. PInt (int i)) sampled)"

definition selection_step ::
  "'g pl_pruner \<Rightarrow> prune_context \<Rightarrow> real list list \<Rightarrow> real list \<Rightarrow> nat list \<Rightarrow> nat list \<Rightarrow> real \<Rightarrow> rl_step" where
  "selection_step pl ctx rows scores sampled returned log_probability =
     \<lparr>rs_search_id = pc_search_id ctx, rs_prune_step_id = pc_prune_step_id ctx, rs_phase = pc_phase ctx,
      rs_beam_width = pc_beam_width ctx, rs_max_depth = pc_max_depth ctx, rs_depths_completed = pc_depths_completed ctx,
      rs_remaining_time_ms = pc_remaining_time_ms ctx, rs_view_schema_version = stable_prune_node_view_schema_version,
      rs_feature_schema_version = pruner_feature_schema_version, rs_temperature = pl_temperature pl,
      rs_sampler_seed = pl_seed pl, rs_frontier_features = rows, rs_behavior_scores = scores,
      rs_sampled_indices = sampled, rs_returned_indices = returned, rs_selection_log_probability = log_probability\<rparr>"

definition pl_select ::
  "('g \<Rightarrow> nat \<times> 'g) \<Rightarrow> prune_view list \<Rightarrow> pyval \<Rightarrow> prune_context \<Rightarrow> ('g pl_pruner, exn, nat list) py" where
  "pl_select draw frontier k ctx =
     bind_p (lift_p (positive_k k)) (\<lambda>k.
     if frontier = [] then ret_p [] else
     bind_p (lift_p (stable_pruner_feature_matrix frontier ctx)) (\<lambda>rows.
     with_p (\<lambda>pl.
     bind_p (lift_p (map_r (score_row (pl_base pl)) rows)) (\<lambda>scores.
     let base_order = score_order scores; n = min k (length frontier) in
     if n = length frontier then ret_p base_order else
     bind_p (sample_order draw scores n) (\<lambda>sampled.
     let returned = filter (\<lambda>i. i \<in> set sampled) base_order in
     bind_p (lift_p (selection_log_probability (pl_temperature pl) scores sampled)) (\<lambda>log_probability.
     bind_p (record_step (selection_step pl ctx rows scores sampled returned log_probability)) (\<lambda>_. ret_p returned)))))))"

section \<open>Softmax as a distribution\<close>

abbreviation total_weight :: "real list \<Rightarrow> real \<Rightarrow> nat set \<Rightarrow> real" where
  "total_weight scores t A \<equiv> (\<Sum>i \<in> A. exp (scores ! i / t))"

lemma sum_exp_pos: "logits \<noteq> [] \<Longrightarrow> 0 < sum_list (map exp (logits :: real list))"
  by (induction logits rule: list_nonempty_induct) (auto intro: add_pos_pos)

lemma shifted_sum: "sum_list (map (\<lambda>v. exp (v - m)) logits) = sum_list (map exp logits) / exp (m :: real)"
  by (induction logits) (simp_all add: exp_diff add_divide_distrib)

lemma sum_list_divide: "sum_list (map (\<lambda>v. f v / c) xs) = sum_list (map f xs) / (c :: real)"
  by (induction xs) (simp_all add: add_divide_distrib)

lemma softmax_eq: "softmax logits = map (\<lambda>v. exp v / sum_list (map exp logits)) logits"
proof -
  have "softmax logits = map (\<lambda>v. exp (v - Max (set logits)) / (sum_list (map exp logits) / exp (Max (set logits)))) logits"
    by (simp add: softmax_def Let_def shifted_sum o_def)
  then show ?thesis by (simp add: exp_diff)
qed

lemma logsumexp_eq: "logits \<noteq> [] \<Longrightarrow> logsumexp logits = Inr (ln (sum_list (map exp logits)))"
  using sum_exp_pos [of logits] by (simp add: logsumexp_def shifted_sum ln_div)

lemma sum_logits:
  "distinct available \<Longrightarrow> sum_list (map exp (logits_of scores t available)) = total_weight scores t (set available)"
  by (simp add: logits_of_def o_def sum_list_distinct_conv_sum_set)

lemma softmax_sum: "logits \<noteq> [] \<Longrightarrow> sum_list (softmax logits) = 1"
  using sum_exp_pos [of logits] by (simp add: softmax_eq sum_list_divide)

section \<open>The log probability of an order\<close>

fun order_log_probability :: "real list \<Rightarrow> real \<Rightarrow> nat set \<Rightarrow> nat list \<Rightarrow> real" where
  "order_log_probability scores t A [] = 0"
| "order_log_probability scores t A (i # is) =
     scores ! i / t - ln (total_weight scores t A) + order_log_probability scores t (A - {i}) is"

definition index_values :: "nat list \<Rightarrow> pyval list" where
  "index_values is = map (\<lambda>i. PInt (int i)) is"

lemma index_values_inject [simp]: "index_values is = index_values js \<longleftrightarrow> is = js"
  by (auto simp: index_values_def inj_map_eq_map inj_def)

lemma index_values_Cons: "PInt (int i) # vs = index_values is \<longleftrightarrow> (\<exists>js. is = i # js \<and> vs = index_values js)"
  by (auto simp: index_values_def Cons_eq_map_conv)

lemma sampled_index_Inr:
  "sampled_index n available seen v = Inr i \<longleftrightarrow> v = PInt (int i) \<and> i < n \<and> i \<notin> set seen \<and> i \<in> set available"
  by (auto simp: sampled_index_def split: pyval.splits)

lemma log_probability_loop_eq:
  assumes "distinct available" "set available \<subseteq> {..< length scores}" "set seen \<inter> set available = {}"
  shows "log_probability_loop scores t available seen acc vs = Inr r \<longleftrightarrow>
    (\<exists>is. vs = index_values is \<and> distinct is \<and> set is \<subseteq> set available \<and>
       r = acc + order_log_probability scores t (set available) is)"
  using assms
proof (induction vs arbitrary: available seen acc)
  case Nil
  show ?case by (auto simp: index_values_def)
next
  case (Cons v vs)
  show ?case
  proof (cases "\<exists>i. sampled_index (length scores) available seen v = Inr i")
    case True
    then obtain i where i: "sampled_index (length scores) available seen v = Inr i" ..
    then have v: "v = PInt (int i)" "i < length scores" "i \<notin> set seen" "i \<in> set available"
      by (auto simp: sampled_index_Inr)
    then have "logits_of scores t available \<noteq> []" by (auto simp: logits_of_def)
    then have step: "log_probability_loop scores t available seen acc (v # vs) =
        log_probability_loop scores t (remove1 i available) (i # seen)
          (acc + (scores ! i / t - ln (total_weight scores t (set available)))) vs"
      by (simp add: i logsumexp_eq sum_logits Cons.prems(1))
    have "log_probability_loop scores t available seen acc (v # vs) = Inr r \<longleftrightarrow> (\<exists>js. vs = index_values js \<and> distinct js \<and> set js \<subseteq> set available - {i} \<and>
        r = acc + (scores ! i / t - ln (total_weight scores t (set available))) +
          order_log_probability scores t (set available - {i}) js)"
      using Cons.IH [of "remove1 i available" "i # seen"] Cons.prems set_remove1_eq [OF Cons.prems(1), of i] unfolding step by auto
    also have "\<dots> \<longleftrightarrow> (\<exists>js. vs = index_values js \<and> distinct (i # js) \<and> set (i # js) \<subseteq> set available \<and>
        r = acc + order_log_probability scores t (set available) (i # js))"
      using v(4) by (intro ex_cong1) (auto simp: add.assoc)
    also have "\<dots> \<longleftrightarrow> (\<exists>is. v # vs = index_values is \<and> distinct is \<and> set is \<subseteq> set available \<and>
        r = acc + order_log_probability scores t (set available) is)"
      unfolding v(1) index_values_Cons by blast
    finally show ?thesis .
  next
    case False
    then have "log_probability_loop scores t available seen acc (v # vs) \<noteq> Inr r"
      by (cases "sampled_index (length scores) available seen v") auto
    moreover have "\<not> (\<exists>is. v # vs = index_values is \<and> distinct is \<and> set is \<subseteq> set available)"
      using False Cons.prems by (fastforce simp: index_values_def Cons_eq_map_conv sampled_index_Inr)
    ultimately show ?thesis by blast
  qed
qed

lemma log_probability_iff:
  "plackett_luce_log_probability scores sampled temperature = Inr r \<longleftrightarrow>
     (\<exists>t is. validate_temperature temperature = Inr t \<and> sampled = index_values is \<and> distinct is \<and>
        set is \<subseteq> {..< length scores} \<and> r = order_log_probability scores t {..< length scores} is)"
  using log_probability_loop_eq [of "[0 ..< length scores]" scores "[]"]
  by (auto simp: plackett_luce_log_probability_def then_r_eq_Inr lessThan_atLeast0)

lemma temperature_pos: "validate_temperature v = Inr t \<Longrightarrow> 0 < t"
  by (auto simp: validate_temperature_def split: pyval.splits pyfloat.splits if_splits)

text \<open>the orders of \<open>n\<close> different elements of \<open>A\<close>\<close>

definition orders :: "nat \<Rightarrow> nat set \<Rightarrow> nat list set" where
  "orders n A = {is. length is = n \<and> distinct is \<and> set is \<subseteq> A}"

lemma orders_Suc: "orders (Suc n) A = (\<Union>i \<in> A. (#) i ` orders n (A - {i}))"
  by (auto simp: orders_def length_Suc_conv image_iff)

lemma finite_orders: "finite A \<Longrightarrow> finite (orders n A)"
  by (rule finite_subset [OF _ finite_lists_length_eq [of A n]]) (auto simp: orders_def)

lemma orders_total:
  assumes "finite A" "n \<le> card A"
  shows "(\<Sum>is \<in> orders n A. exp (order_log_probability scores t A is)) = 1"
  using assms
proof (induction n arbitrary: A)
  case 0
  have "orders 0 A = {[]}" by (auto simp: orders_def)
  then show ?case by simp
next
  case (Suc n)
  from Suc.prems(2) have "A \<noteq> {}" by auto
  with Suc.prems(1) have pos: "0 < total_weight scores t A" by (simp add: sum_pos)
  have step: "(\<Sum>is \<in> (#) i ` orders n (A - {i}). exp (order_log_probability scores t A is)) =
      exp (scores ! i / t) / total_weight scores t A" if "i \<in> A" for i
  proof -
    have "(\<Sum>is \<in> (#) i ` orders n (A - {i}). exp (order_log_probability scores t A is)) =
        (\<Sum>is \<in> orders n (A - {i}). exp (scores ! i / t) / total_weight scores t A *
           exp (order_log_probability scores t (A - {i}) is))"
      using pos by (subst sum.reindex) (auto simp: exp_add exp_diff intro!: sum.cong)
    also have "\<dots> = exp (scores ! i / t) / total_weight scores t A *
        (\<Sum>is \<in> orders n (A - {i}). exp (order_log_probability scores t (A - {i}) is))"
      by (simp add: sum_distrib_left)
    also have "\<dots> = exp (scores ! i / t) / total_weight scores t A"
      using Suc.IH [of "A - {i}"] Suc.prems that by (simp add: card_Diff_singleton)
    finally show ?thesis .
  qed
  have "(\<Sum>is \<in> orders (Suc n) A. exp (order_log_probability scores t A is)) =
      (\<Sum>i \<in> A. \<Sum>is \<in> (#) i ` orders n (A - {i}). exp (order_log_probability scores t A is))"
    unfolding orders_Suc by (rule sum.UNION_disjoint) (use Suc.prems finite_orders in auto)
  also have "\<dots> = (\<Sum>i \<in> A. exp (scores ! i / t) / total_weight scores t A)"
    using step by simp
  also have "\<dots> = 1"
    using pos by (simp add: sum_divide_distrib [symmetric])
  finally show ?case .
qed

text \<open>C20: The log probabilities of a draw are those of a distribution: for every temperature that is accepted and
  every number \<open>n\<close> of survivors, \<open>plackett_luce_log_probability\<close> returns for each order of \<open>n\<close> different indices of
  the frontier, raises for any other sequence, and the probabilities of the orders sum to one.\<close>

theorem log_probability_is_a_distribution:
  assumes "validate_temperature temperature = Inr t" "n \<le> length scores"
  shows "\<exists>log_probability.
    (\<forall>is. (if is \<in> orders n {..< length scores}
       then plackett_luce_log_probability scores (index_values is) temperature = Inr (log_probability is)
       else length is \<noteq> n \<or> (\<exists>e. plackett_luce_log_probability scores (index_values is) temperature = Inl e))) \<and>
    (\<Sum>is \<in> orders n {..< length scores}. exp (log_probability is)) = 1"
proof (intro exI conjI allI)
  fix "is"
  have eq: "plackett_luce_log_probability scores (index_values is) temperature = Inr r \<longleftrightarrow>
      distinct is \<and> set is \<subseteq> {..< length scores} \<and> r = order_log_probability scores t {..< length scores} is" for r
    using assms(1) by (auto simp: log_probability_iff)
  show "if is \<in> orders n {..< length scores}
      then plackett_luce_log_probability scores (index_values is) temperature =
        Inr (order_log_probability scores t {..< length scores} is)
      else length is \<noteq> n \<or> (\<exists>e. plackett_luce_log_probability scores (index_values is) temperature = Inl e)"
    using eq by (cases "plackett_luce_log_probability scores (index_values is) temperature") (auto simp: orders_def)
next
  show "(\<Sum>is \<in> orders n {..< length scores}. exp (order_log_probability scores t {..< length scores} is)) = 1"
    using assms(2) by (intro orders_total) simp_all
qed

theorem log_probability_is_a_distribution_witness:
  "\<exists>log_probability. plackett_luce_log_probability [0, 1] (index_values [1]) (PInt 1) = Inr (log_probability [1]) \<and>
     (\<Sum>is \<in> orders 1 {..< 2}. exp (log_probability is :: real)) = 1"
proof -
  have "validate_temperature (PInt 1) = Inr 1" by (simp add: validate_temperature_def)
  from log_probability_is_a_distribution [OF this, of 1 "[0, 1]"] obtain log_probability
    where each: "\<forall>is. (if is \<in> orders 1 {..< length [0, 1 :: real]}
        then plackett_luce_log_probability [0, 1] (index_values is) (PInt 1) = Inr (log_probability is)
        else length is \<noteq> 1 \<or> (\<exists>e. plackett_luce_log_probability [0, 1] (index_values is) (PInt 1) = Inl e))"
      and total: "(\<Sum>is \<in> orders 1 {..< length [0, 1 :: real]}. exp (log_probability is)) = 1"
    by auto
  have "[1] \<in> orders 1 {..< length [0, 1 :: real]}" by (simp add: orders_def)
  with each have "plackett_luce_log_probability [0, 1] (index_values [1]) (PInt 1) = Inr (log_probability [1])"
    by (metis (full_types))
  moreover from total have "(\<Sum>is \<in> orders 1 {..< 2}. exp (log_probability is)) = 1" by (simp add: numeral_2_eq_2)
  ultimately show ?thesis by blast
qed

section \<open>The gradient\<close>

fun order_gradient :: "real list \<Rightarrow> real \<Rightarrow> real list list \<Rightarrow> nat \<Rightarrow> nat set \<Rightarrow> nat list \<Rightarrow> real" where
  "order_gradient scores t phi j A [] = 0"
| "order_gradient scores t phi j A (i # is) =
     (phi ! i ! j - (\<Sum>k \<in> A. exp (scores ! k / t) / total_weight scores t A * phi ! k ! j)) / t +
     order_gradient scores t phi j (A - {i}) is"

lemma expected_feature:
  assumes "distinct available"
  shows "sum_list (map (\<lambda>(p, i). p * phi ! i ! j) (zip (softmax (logits_of scores t available)) available)) =
    (\<Sum>k \<in> set available. exp (scores ! k / t) / total_weight scores t (set available) * phi ! k ! j)"
proof -
  have "softmax (logits_of scores t available) =
      map (\<lambda>k. exp (scores ! k / t) / total_weight scores t (set available)) available"
    unfolding softmax_eq sum_logits [OF assms] by (simp add: logits_of_def)
  then have "map (\<lambda>(p, i). p * phi ! i ! j) (zip (softmax (logits_of scores t available)) available) =
      map (\<lambda>k. exp (scores ! k / t) / total_weight scores t (set available) * phi ! k ! j) available"
    by (simp add: zip_map1 zip_same_conv_map o_def)
  then show ?thesis by (simp only: sum_list_distinct_conv_sum_set [OF assms])
qed

lemma gradient_step_nth:
  assumes "distinct available" "j < length gradient"
  shows "gradient_step scores t phi available i gradient ! j = gradient ! j +
    (phi ! i ! j - (\<Sum>k \<in> set available. exp (scores ! k / t) / total_weight scores t (set available) * phi ! k ! j)) / t"
  using assms by (simp add: gradient_step_def Let_def nth_enumerate_eq expected_feature)

lemma gradient_step_length [simp]: "length (gradient_step scores t phi available i gradient) = length gradient"
  by (simp add: gradient_step_def Let_def)

lemma gradient_loop_eq:
  assumes "gradient_loop scores t phi available seen gradient vs = Inr g" "distinct available"
    "set available \<subseteq> {..< length scores}" "j < length gradient"
  shows "\<exists>is. vs = index_values is \<and> distinct is \<and> set is \<subseteq> set available \<and>
    g ! j = gradient ! j + order_gradient scores t phi j (set available) is"
  using assms
proof (induction vs arbitrary: available seen gradient)
  case (Cons v vs)
  then obtain i where i: "sampled_index (length scores) available seen v = Inr i"
    and rest: "gradient_loop scores t phi (remove1 i available) (i # seen) (gradient_step scores t phi available i gradient) vs = Inr g"
    by (auto simp: then_r_eq_Inr)
  from i have v: "v = PInt (int i)" "i \<in> set available" by (simp_all add: sampled_index_Inr)
  have A: "set (remove1 i available) = set available - {i}" using Cons.prems(2) by (rule set_remove1_eq)
  obtain js where js: "vs = index_values js" "distinct js" "set js \<subseteq> set available - {i}"
    "g ! j = gradient_step scores t phi available i gradient ! j + order_gradient scores t phi j (set available - {i}) js"
    using Cons.IH [OF rest] Cons.prems A by auto
  with v Cons.prems show ?case
    by (intro exI [of _ "i # js"]) (auto simp: index_values_def gradient_step_nth)
qed (auto simp: index_values_def)

text \<open>the derivative of the log probability along a curve of scores\<close>

lemma order_log_probability_derivative:
  assumes "finite A" "distinct is" "set is \<subseteq> A" "0 < t"
    and "\<And>i. i \<in> A \<Longrightarrow> ((\<lambda>c. s c ! i) has_real_derivative phi ! i ! j) (at x)"
  shows "((\<lambda>c. order_log_probability (s c) t A is) has_real_derivative order_gradient (s x) t phi j A is) (at x)"
  using assms(1-3,5)
proof (induction "is" arbitrary: A)
  case (Cons i "is")
  from Cons.prems have "A \<noteq> {}" "i \<in> A" by auto
  with Cons.prems have pos: "0 < total_weight (s x) t A" by (simp add: sum_pos)
  have rest: "((\<lambda>c. order_log_probability (s c) t (A - {i}) is) has_real_derivative
      order_gradient (s x) t phi j (A - {i}) is) (at x)"
    using Cons.prems by (intro Cons.IH) auto
  have weight: "((\<lambda>c. total_weight (s c) t A) has_real_derivative
      (\<Sum>k \<in> A. exp (s x ! k / t) * (phi ! k ! j / t))) (at x)"
    using Cons.prems(4) assms(4) by (intro DERIV_sum) (auto intro!: derivative_eq_intros)
  have "((\<lambda>c. s c ! i / t - ln (total_weight (s c) t A)) has_real_derivative
      phi ! i ! j / t - (\<Sum>k \<in> A. exp (s x ! k / t) * (phi ! k ! j / t)) / total_weight (s x) t A) (at x)"
    using DERIV_diff [OF DERIV_cdivide [OF Cons.prems(4) [OF \<open>i \<in> A\<close>]] DERIV_chain2 [OF DERIV_ln [OF pos] weight]]
    by (simp add: divide_inverse mult.commute)
  moreover have "(\<Sum>k \<in> A. exp (s x ! k / t) * (phi ! k ! j / t)) / total_weight (s x) t A =
      (\<Sum>k \<in> A. exp (s x ! k / t) / total_weight (s x) t A * phi ! k ! j) / t"
    by (simp add: sum_divide_distrib mult.commute)
  ultimately have "((\<lambda>c. s c ! i / t - ln (total_weight (s c) t A)) has_real_derivative
      (phi ! i ! j - (\<Sum>k \<in> A. exp (s x ! k / t) / total_weight (s x) t A * phi ! k ! j)) / t) (at x)"
    by (simp add: diff_divide_distrib)
  from DERIV_add [OF this rest] show ?case by simp
qed simp

lemma sum_pick: "j < n \<Longrightarrow> (\<Sum>l < (n :: nat). (if l = j then 1 else 0) * q l) = (q j :: real)"
  by (subst sum.remove [of _ j]) (auto intro!: sum.neutral)

lemma weighted_derivative:
  assumes "j < length (lp_coefficients lp)"
  shows "((\<lambda>c. weighted (lp\<lparr>lp_coefficients := (lp_coefficients lp)[j := c]\<rparr>) row) has_real_derivative
    row ! j / lp_scale lp ! j) (at x)"
proof -
  let ?n = "length (lp_coefficients lp)"
  let ?q = "\<lambda>l. row ! l / lp_scale lp ! l"
  have "((\<lambda>c. \<Sum>l < ?n. (if l = j then c else lp_coefficients lp ! l) * ?q l) has_real_derivative
      (\<Sum>l < ?n. (if l = j then 1 else 0) * ?q l)) (at x)"
    by (intro DERIV_sum DERIV_cmult_right) simp
  also have "(\<Sum>l < ?n. (if l = j then 1 else 0) * ?q l) = ?q j"
    using assms by (rule sum_pick)
  finally have "((\<lambda>c. \<Sum>l < ?n. (if l = j then c else lp_coefficients lp ! l) * ?q l) has_real_derivative ?q j) (at x)" .
  moreover have "(\<lambda>c. weighted (lp\<lparr>lp_coefficients := (lp_coefficients lp)[j := c]\<rparr>) row) =
      (\<lambda>c. \<Sum>l < ?n. (if l = j then c else lp_coefficients lp ! l) * ?q l)"
    by (rule ext) (auto simp: weighted_def nth_list_update intro!: sum.cong)
  ultimately show ?thesis by (simp only:)
qed

text \<open>C19: The gradient used for training is the derivative of the log probability: for every coefficient of a linear
  pruner, the component that \<open>plackett_luce_logprob_gradient\<close> returns at the scores of the pruner is the derivative,
  in that coefficient, of the log probability of the sampled order under the scores the pruner would give.\<close>

theorem gradient_is_the_derivative:
  assumes "map_r (score_row lp) rows = Inr scores" "rows \<noteq> []" "length (lp_scale lp) = length (lp_coefficients lp)"
    and "plackett_luce_logprob_gradient scores rows sampled temperature (lp_scale lp) = Inr g"
    and "j < length (lp_coefficients lp)"
  shows "\<exists>f. (\<forall>c. then_r (map_r (score_row (lp\<lparr>lp_coefficients := (lp_coefficients lp)[j := c]\<rparr>)) rows)
        (\<lambda>scores. plackett_luce_log_probability scores sampled temperature) = Inr (f c)) \<and>
    (f has_real_derivative g ! j) (at (lp_coefficients lp ! j))"
proof -
  let ?lp = "\<lambda>c. lp\<lparr>lp_coefficients := (lp_coefficients lp)[j := c]\<rparr>"
  let ?s = "\<lambda>c. map (weighted (?lp c)) rows"
  let ?phi = "map (\<lambda>row. map (\<lambda>(v, s). v / s) (zip row (lp_scale lp))) rows"
  from assms(2,4) obtain t where t: "validate_temperature temperature = Inr t" and len: "length scores = length rows"
    and widths: "\<forall>row \<in> set rows. length row = length (lp_scale lp)"
    and loop: "gradient_loop scores t ?phi [0 ..< length scores] [] (replicate (length (lp_scale lp)) 0) sampled = Inr g"
    by (auto simp: plackett_luce_logprob_gradient_def then_r_eq_Inr split: if_splits)
  obtain "is" where "is": "sampled = index_values is" "distinct is" "set is \<subseteq> {..< length rows}"
    and g: "g ! j = order_gradient scores t ?phi j {..< length rows} is"
    using gradient_loop_eq [OF loop, of j] assms(3,5) len by (auto simp: lessThan_atLeast0)
  have new: "map_r (score_row (?lp c)) rows = Inr (?s c)" for c
    by (rule map_r_Inr) (rule score_row_sum; use widths assms(3) in simp)
  have "?lp (lp_coefficients lp ! j) = lp" by simp
  with new [of "lp_coefficients lp ! j"] assms(1) have now: "map (weighted lp) rows = scores" by simp
  have phi: "((\<lambda>c. ?s c ! i) has_real_derivative ?phi ! i ! j) (at x)" if "i \<in> {..< length rows}" for i x
    using that widths assms(3,5) weighted_derivative [OF assms(5), of "rows ! i" x] by simp
  have "((\<lambda>c. order_log_probability (?s c) t {..< length rows} is) has_real_derivative g ! j) (at (lp_coefficients lp ! j))"
    using order_log_probability_derivative [where s = ?s and x = "lp_coefficients lp ! j", OF _ "is"(2,3) temperature_pos [OF t] phi]
    by (simp add: g now)
  moreover have "then_r (map_r (score_row (?lp c)) rows)
      (\<lambda>scores. plackett_luce_log_probability scores sampled temperature) =
      Inr (order_log_probability (?s c) t {..< length rows} is)" for c
    using t "is" by (simp add: new log_probability_iff)
  ultimately show ?thesis
    by (intro exI [of _ "\<lambda>c. order_log_probability (?s c) t {..< length rows} is"] conjI allI)
qed

definition demo_weights :: linear_pruner where
  "demo_weights = \<lparr>lp_feature_names = [''f''], lp_coefficients = [0], lp_scale = [1], lp_artifact_metadata = [],
     lp_version = ''1''\<rparr>"

theorem gradient_is_the_derivative_witness:
  "\<exists>f. then_r (map_r (score_row (demo_weights\<lparr>lp_coefficients := [3]\<rparr>)) [[2], [0]])
       (\<lambda>scores. plackett_luce_log_probability scores [PInt 0] (PInt 1)) = Inr (f 3) \<and> (f has_real_derivative 1) (at 0)"
proof -
  have scores: "map_r (score_row demo_weights) [[2], [0]] = Inr [0, 0]"
    by (simp add: demo_weights_def score_row_def)
  have "plackett_luce_logprob_gradient [0, 0] [[2], [0]] [PInt 0] (PInt 1) (lp_scale demo_weights) = Inr [1]"
    by (simp add: plackett_luce_logprob_gradient_def validate_temperature_def demo_weights_def
        sampled_index_def gradient_step_def softmax_def logits_of_def Let_def upt_rec enumerate_eq_zip)
  from gradient_is_the_derivative [OF scores _ _ this, of 0]
  obtain f where "\<forall>c. then_r (map_r (score_row (demo_weights\<lparr>lp_coefficients := [c]\<rparr>)) [[2], [0]])
      (\<lambda>scores. plackett_luce_log_probability scores [PInt 0] (PInt 1)) = Inr (f c)" "(f has_real_derivative 1) (at 0)"
    by (auto simp: demo_weights_def)
  then show ?thesis by blast
qed

section \<open>Draws\<close>

lemma pick_position_ge:
  "u < c + sum_list ps \<Longrightarrow> c \<le> u \<Longrightarrow> pos \<le> pick_position u c pos final ps"
proof (induction ps arbitrary: c pos)
  case (Cons p ps)
  from Cons.prems(1) have "u < (c + p) + sum_list ps" by simp
  with Cons.IH [of "c + p" "Suc pos"] Cons.prems(2) show ?case by auto
qed simp

lemma pick_position_iff:
  assumes "\<forall>p \<in> set ps. 0 \<le> p" "c \<le> u" "u < c + sum_list ps" "q < length ps"
  shows "pick_position u c pos final ps = pos + q \<longleftrightarrow>
    c + sum_list (take q ps) \<le> u \<and> u < c + sum_list (take (Suc q) ps)"
  using assms
proof (induction ps arbitrary: c pos q)
  case (Cons p ps)
  show ?case
  proof (cases "u < c + p")
    case True
    have nonneg: "0 \<le> sum_list (take r ps)" for r
      using Cons.prems(1) by (intro sum_list_nonneg) (auto dest: in_set_takeD)
    show ?thesis
    proof (cases q)
      case (Suc r)
      with True nonneg [of r] show ?thesis by simp
    qed (use True Cons.prems(2) in simp)
  next
    case False
    then have rest: "c + p \<le> u" "u < c + p + sum_list ps" using Cons.prems(3) by (simp_all add: add.assoc)
    show ?thesis
    proof (cases q)
      case 0
      with False pick_position_ge [OF rest(2,1), of "Suc pos" final] show ?thesis by simp
    next
      case (Suc r)
      with False Cons.IH [OF _ rest, of r "Suc pos"] Cons.prems show ?thesis by (simp add: add.assoc)
    qed
  qed
qed simp

lemma pick_position_less: "pos + length ps \<le> n \<Longrightarrow> final < n \<Longrightarrow> pick_position u c pos final ps < n"
  by (induction ps arbitrary: c pos) auto

text \<open>A draw follows the softmax: a random number of the unit interval selects position \<open>p\<close> exactly when it lies in the
  \<open>p\<close>-th interval of the cumulative softmax, an interval whose length is the weight of that logit over the total,
  and the lengths sum to one.\<close>

theorem draw_follows_softmax:
  assumes "logits \<noteq> []" "0 \<le> u" "u < 1" "p < length logits"
  shows "(pick_position u 0 0 (length logits - 1) (softmax logits) = p \<longleftrightarrow>
      sum_list (take p (softmax logits)) \<le> u \<and> u < sum_list (take (Suc p) (softmax logits))) \<and>
    sum_list (take (Suc p) (softmax logits)) - sum_list (take p (softmax logits)) =
      exp (logits ! p) / (\<Sum>i < length logits. exp (logits ! i)) \<and>
    sum_list (softmax logits) = 1"
proof (intro conjI)
  have len: "length (softmax logits) = length logits" by (simp add: softmax_eq)
  have pos: "\<forall>x \<in> set (softmax logits). 0 \<le> x"
    using sum_exp_pos [OF assms(1)] by (auto simp: softmax_eq)
  show one: "sum_list (softmax logits) = 1" using assms(1) by (rule softmax_sum)
  show "pick_position u 0 0 (length logits - 1) (softmax logits) = p \<longleftrightarrow>
      sum_list (take p (softmax logits)) \<le> u \<and> u < sum_list (take (Suc p) (softmax logits))"
    using pick_position_iff [OF pos, of 0 u p 0] assms one len by simp
  have "sum_list (map exp logits) = (\<Sum>i < length logits. exp (logits ! i))"
    by (simp add: sum_list_sum_nth lessThan_atLeast0)
  then show "sum_list (take (Suc p) (softmax logits)) - sum_list (take p (softmax logits)) =
      exp (logits ! p) / (\<Sum>i < length logits. exp (logits ! i))"
    using assms(4) by (simp add: softmax_eq take_Suc_conv_app_nth)
qed

theorem draw_follows_softmax_witness: "pick_position (3 / 4) 0 0 (length [0 :: real, 0] - 1) (softmax [0, 0]) = 1"
proof -
  have "softmax [0, 0] = [1 / 2, 1 / 2]" by (simp add: softmax_def Let_def)
  with draw_follows_softmax [of "[0, 0]" "3 / 4" 1] show ?thesis by simp
qed

lemma drop_nth:
  assumes "p < length xs" "distinct xs"
  shows "distinct (take p xs @ drop (Suc p) xs)" "set (take p xs @ drop (Suc p) xs) = set xs - {xs ! p}"
    "length (take p xs @ drop (Suc p) xs) = length xs - 1"
proof -
  from assms(1) have xs: "xs = take p xs @ xs ! p # drop (Suc p) xs" by (rule id_take_nth_drop)
  with assms(2) have "distinct (take p xs @ xs ! p # drop (Suc p) xs)" by simp
  then show "distinct (take p xs @ drop (Suc p) xs)" by simp
  from xs have "set xs = set (take p xs @ xs ! p # drop (Suc p) xs)" by simp
  with \<open>distinct (take p xs @ xs ! p # drop (Suc p) xs)\<close>
  show "set (take p xs @ drop (Suc p) xs) = set xs - {xs ! p}" by auto
  show "length (take p xs @ drop (Suc p) xs) = length xs - 1" using assms(1) by simp
qed

lemma sample_loop_returns:
  assumes "n \<le> length available" "distinct available"
  shows "\<exists>is g'. sample_loop draw scores t n available g = (Inr is, g') \<and> is \<in> orders n (set available)"
  using assms
proof (induction n arbitrary: available g)
  case 0
  then show ?case by (simp add: ret_p_def orders_def)
next
  case (Suc n)
  obtain m g1 where draw: "draw g = (m, g1)" by (cases "draw g")
  define p where "p = pick_position (real_of_rat (of_nat (m mod 2 ^ 53) / 2 ^ 53)) 0 0 (length available - 1)
    (softmax (logits_of scores t available))"
  define left where "left = take p available @ drop (Suc p) available"
  have p: "p < length available"
    unfolding p_def using Suc.prems(1) by (intro pick_position_less) (auto simp: softmax_eq logits_of_def)
  note drop = drop_nth [OF p Suc.prems(2), folded left_def]
  have "n \<le> length left" using drop(3) Suc.prems(1) by linarith
  from Suc.IH [OF this drop(1), of g1] obtain js g2
    where js: "sample_loop draw scores t n left g1 = (Inr js, g2)" "js \<in> orders n (set left)" by blast
  have "sample_loop draw scores t (Suc n) available g = (Inr (available ! p # js), g2)"
    using js(1) by (simp add: bind_p_def rng_random_def draw Let_def ret_p_def p_def left_def)
  moreover have "available ! p # js \<in> orders (Suc n) (set available)"
    using js(2) p unfolding drop(2) orders_Suc by auto
  ultimately show ?case by blast
qed

section \<open>The contract of the exploring pruner\<close>

lemma score_order_set [simp]: "set (score_order scores) = {..< length scores}" "distinct (score_order scores)"
    "length (score_order scores) = length scores"
  by (auto simp: score_order_def)

lemma selection_log_probability_eq:
  "is \<in> orders n {..< length scores} \<Longrightarrow>
     selection_log_probability t scores is = Inr (order_log_probability scores t {..< length scores} is)"
  using log_probability_loop_eq [of "[0 ..< length scores]" scores "[]" t 0 "index_values is"]
  by (simp add: selection_log_probability_def index_values_def [symmetric] orders_def lessThan_atLeast0)

text \<open>the order of a sampled set in the ranking\<close>

lemma in_base_order:
  assumes "is \<in> orders n {..< length scores}" "js = filter (\<lambda>i. i \<in> set is) (score_order scores)"
  shows "set js = set is" "distinct js" "length js = n"
proof -
  show set: "set js = set is" using assms by (auto simp: orders_def)
  show dist: "distinct js" using assms(2) by simp
  have "card (set is) = n" using assms(1) by (auto simp: orders_def distinct_card)
  with distinct_card [OF dist] set show "length js = n" by simp
qed

lemma sample_order_returns:
  assumes "n \<le> length scores"
  obtains "is" g where "sample_order draw scores n pl = (Inr is, pl\<lparr>pl_rng := g\<rparr>)" "is \<in> orders n {..< length scores}"
proof -
  from sample_loop_returns [of n "[0 ..< length scores]" draw scores "pl_temperature pl" "pl_rng pl"] assms
  obtain "is" g where "sample_loop draw scores (pl_temperature pl) n [0 ..< length scores] (pl_rng pl) = (Inr is, g)"
    "is \<in> orders n {..< length scores}" by (auto simp: lessThan_atLeast0)
  with assms that show thesis by (simp add: sample_order_def)
qed

text \<open>C21: Exploration keeps the contract of a pruner: whatever numbers the generator draws, \<open>select\<close> returns as many
  different indices as fit, in the order of the learned ranking, and the engine accepts them; when every node
  survives it draws nothing and records nothing, otherwise it records one step with the sampled order of the
  returned indices and its log probability.\<close>

theorem exploration_keeps_the_contract:
  assumes "linear_pruner_init parse_float names coefficients scale metadata = Inr (pl_base pl)"
    and "fits_floats frontier ctx" "0 < k"
  shows "\<exists>is pl' scores. pl_select draw frontier (PInt k) ctx pl = (Inr is, pl') \<and>
    validated_pruner_indices (index_list is) (length frontier) k = Inr is \<and>
    length is = min (nat k) (length frontier) \<and> frontier_scores (pl_base pl) frontier ctx = Inr scores \<and>
    is = filter (\<lambda>i. i \<in> set is) (score_order scores) \<and>
    (if length frontier \<le> nat k then pl' = pl
     else \<exists>s g. pl' = pl\<lparr>pl_rng := g, pl_collector := map_option (\<lambda>steps. steps @ [s]) (pl_collector pl)\<rparr> \<and>
       rs_behavior_scores s = scores \<and> rs_returned_indices s = is \<and>
       distinct (rs_sampled_indices s) \<and> set (rs_sampled_indices s) = set is \<and>
       selection_log_probability (pl_temperature pl) scores (rs_sampled_indices s) = Inr (rs_selection_log_probability s))"
proof -
  have wf: "well_formed_pruner (pl_base pl)" using assms(1) by (rule linear_pruner_init_well_formed)
  obtain rows where rows: "stable_pruner_feature_matrix frontier ctx = Inr rows" "length rows = length frontier"
    and scores: "frontier_scores (pl_base pl) frontier ctx = Inr (map (weighted (pl_base pl)) rows)"
    using wf assms(2) by (rule frontier_scores_fits)
  let ?scores = "map (weighted (pl_base pl)) rows"
  have each: "map_r (score_row (pl_base pl)) rows = Inr ?scores" using scores by (simp add: frontier_scores_def rows(1))
  have base: "?scores = [] \<longleftrightarrow> frontier = []" "length ?scores = length frontier" using rows(2) by auto
  show ?thesis
  proof (cases "length frontier \<le> nat k")
    case True
    have "pl_select draw frontier (PInt k) ctx pl = (Inr (score_order ?scores), pl)"
      using assms(3) True base
      by (auto simp: pl_select_def with_p_def rows(1) each Let_def ret_p_def score_order_def sorted_desc_def)
    moreover have "validated_pruner_indices (index_list (score_order ?scores)) (length frontier) k = Inr (score_order ?scores)"
      using True base(2) assms(3) by (auto simp: validated_indices_iff le_nat_iff)
    moreover have "score_order ?scores = filter (\<lambda>i. i \<in> set (score_order ?scores)) (score_order ?scores)" by simp
    ultimately show ?thesis using True scores base(2) by (intro exI conjI) auto
  next
    case False
    then have n: "nat k \<le> length ?scores" "min (nat k) (length frontier) = nat k" using base(2) by simp_all
    obtain js g where js: "sample_order draw ?scores (nat k) pl = (Inr js, pl\<lparr>pl_rng := g\<rparr>)"
      "js \<in> orders (nat k) {..< length ?scores}"
      using n(1) by (rule sample_order_returns)
    let ?is = "filter (\<lambda>i. i \<in> set js) (score_order ?scores)"
    note order = in_base_order [OF js(2) refl]
    have log: "selection_log_probability (pl_temperature pl) ?scores js =
        Inr (order_log_probability ?scores (pl_temperature pl) {..< length ?scores} js)"
      using js(2) by (rule selection_log_probability_eq)
    let ?s = "selection_step pl ctx rows ?scores js ?is (order_log_probability ?scores (pl_temperature pl) {..< length ?scores} js)"
    have "frontier \<noteq> []" "nat k \<noteq> length frontier" using False by auto
    with assms(3) n(2) have "pl_select draw frontier (PInt k) ctx pl =
        bind_p (sample_order draw ?scores (nat k)) (\<lambda>sampled.
          bind_p (lift_p (selection_log_probability (pl_temperature pl) ?scores sampled)) (\<lambda>log_probability.
          bind_p (record_step (selection_step pl ctx rows ?scores sampled
            (filter (\<lambda>i. i \<in> set sampled) (score_order ?scores)) log_probability))
            (\<lambda>_. ret_p (filter (\<lambda>i. i \<in> set sampled) (score_order ?scores))))) pl"
      by (simp add: pl_select_def with_p_def rows(1) each Let_def del: map_eq_conv)
    also have "\<dots> = (Inr ?is, pl\<lparr>pl_rng := g, pl_collector := map_option (\<lambda>steps. steps @ [?s]) (pl_collector pl)\<rparr>)"
      unfolding bind_p_def [of "sample_order draw ?scores (nat k)"] js(1)
      by (simp only: prod.case sum.case log bind_p_returned)
        (simp add: bind_p_def record_step_def modify_p_def ret_p_def)
    finally have s: "pl_select draw frontier (PInt k) ctx pl =
        (Inr ?is, pl\<lparr>pl_rng := g, pl_collector := map_option (\<lambda>steps. steps @ [?s]) (pl_collector pl)\<rparr>)" .
    have fields: "rs_behavior_scores ?s = ?scores" "rs_returned_indices ?s = ?is" "rs_sampled_indices ?s = js"
      "rs_selection_log_probability ?s = order_log_probability ?scores (pl_temperature pl) {..< length ?scores} js"
      by (simp_all add: selection_step_def)
    have sampled: "distinct js" using js(2) by (simp add: orders_def)
    show ?thesis
    proof (intro exI conjI)
      show "pl_select draw frontier (PInt k) ctx pl =
        (Inr ?is, pl\<lparr>pl_rng := g, pl_collector := map_option (\<lambda>steps. steps @ [?s]) (pl_collector pl)\<rparr>)" by (rule s)
      show "validated_pruner_indices (index_list ?is) (length frontier) k = Inr ?is"
        using order js(2) base(2) assms(3) by (auto simp: validated_indices_iff orders_def)
      show "length ?is = min (nat k) (length frontier)" unfolding order(3) n(2) ..
      show "frontier_scores (pl_base pl) frontier ctx = Inr ?scores" by (rule scores)
      show "?is = filter (\<lambda>i. i \<in> set ?is) (score_order ?scores)" unfolding order(1) ..
      have "\<exists>s' g'. pl\<lparr>pl_rng := g, pl_collector := map_option (\<lambda>steps. steps @ [?s]) (pl_collector pl)\<rparr> =
            pl\<lparr>pl_rng := g', pl_collector := map_option (\<lambda>steps. steps @ [s']) (pl_collector pl)\<rparr> \<and>
          rs_behavior_scores s' = ?scores \<and> rs_returned_indices s' = ?is \<and> distinct (rs_sampled_indices s') \<and>
          set (rs_sampled_indices s') = set ?is \<and>
          selection_log_probability (pl_temperature pl) ?scores (rs_sampled_indices s') = Inr (rs_selection_log_probability s')"
        by (intro exI [of _ ?s] exI [of _ g]) (simp only: fields order(1) log sampled simp_thms)
      with False show "if length frontier \<le> nat k
        then pl\<lparr>pl_rng := g, pl_collector := map_option (\<lambda>steps. steps @ [?s]) (pl_collector pl)\<rparr> = pl
        else \<exists>s' g'. pl\<lparr>pl_rng := g, pl_collector := map_option (\<lambda>steps. steps @ [?s]) (pl_collector pl)\<rparr> =
            pl\<lparr>pl_rng := g', pl_collector := map_option (\<lambda>steps. steps @ [s']) (pl_collector pl)\<rparr> \<and>
          rs_behavior_scores s' = ?scores \<and> rs_returned_indices s' = ?is \<and> distinct (rs_sampled_indices s') \<and>
          set (rs_sampled_indices s') = set ?is \<and>
          selection_log_probability (pl_temperature pl) ?scores (rs_sampled_indices s') = Inr (rs_selection_log_probability s')"
        by (simp only: if_False)
    qed
  qed
qed

definition demo_explorer :: "linear_pruner \<Rightarrow> nat pl_pruner" where
  "demo_explorer lp = \<lparr>pl_base = lp, pl_temperature = 1, pl_seed = 7, pl_rng = 7, pl_collector = Some []\<rparr>"

theorem exploration_keeps_the_contract_witness:
  "\<exists>lp is pl'. demo_pruner = Inr lp \<and>
     pl_select (\<lambda>g. (g, Suc g)) [demo_view 1, demo_view 3] (PInt 1) demo_prune_context (demo_explorer lp) = (Inr is, pl') \<and>
     length is = 1 \<and> validated_pruner_indices (index_list is) 2 1 = Inr is"
proof -
  from demo_pruner_Inr obtain lp where lp: "demo_pruner = Inr lp" by blast
  then have init: "linear_pruner_init (\<lambda>_. None) (PList (map (\<lambda>s. PStr s) pruner_feature_names))
      (PList (PInt 2 # replicate 29 (PInt 0))) PNone [] = Inr (pl_base (demo_explorer lp))"
    by (simp add: demo_pruner_def demo_explorer_def)
  obtain "is" pl' where "pl_select (\<lambda>g. (g, Suc g)) [demo_view 1, demo_view 3] (PInt 1) demo_prune_context (demo_explorer lp) =
      (Inr is, pl')" "validated_pruner_indices (index_list is) (length [demo_view 1, demo_view 3]) 1 = Inr is"
    "length is = min (nat 1) (length [demo_view 1, demo_view 3])"
    using exploration_keeps_the_contract [OF init demo_fits zero_less_one, of "\<lambda>g. (g, Suc g)"]
    by (elim exE conjE) (rule that)
  with lp show ?thesis by (auto simp: numeral_2_eq_2)
qed

end
