(* ===== verification/Learned_Value.thy ===== *)
theory Learned_Value
  imports Combat_Observation Learned_Pruner
begin

text \<open>
  \<open>decision/value_features.py\<close> and \<open>decision/learned_value.py\<close>, with the version checks of \<open>decision/oracle_log.py\<close>:
  the features of a Combat state that carries the identity of its cards, and the linear value model over
  them.  The features are exact rationals; only the stacks of a power may be infinite or NaN.
\<close>

section \<open>Arithmetic of floats\<close>

fun fl_add :: "pyfloat \<Rightarrow> pyfloat \<Rightarrow> pyfloat" where
  "fl_add (Fin a) (Fin b) = Fin (a + b)"
| "fl_add NaN _ = NaN"
| "fl_add _ NaN = NaN"
| "fl_add PosInf NegInf = NaN"
| "fl_add NegInf PosInf = NaN"
| "fl_add PosInf _ = PosInf"
| "fl_add NegInf _ = NegInf"
| "fl_add _ f = f"

text \<open>the product with a finite number\<close>

fun fl_scale :: "rat \<Rightarrow> pyfloat \<Rightarrow> pyfloat" where
  "fl_scale c (Fin a) = Fin (c * a)"
| "fl_scale c NaN = NaN"
| "fl_scale c PosInf = (if c = 0 then NaN else if 0 < c then PosInf else NegInf)"
| "fl_scale c NegInf = (if c = 0 then NaN else if 0 < c then NegInf else PosInf)"

fun fl_abs :: "pyfloat \<Rightarrow> pyfloat" where
  "fl_abs (Fin a) = Fin \<bar>a\<bar>"
| "fl_abs NaN = NaN"
| "fl_abs _ = PosInf"

section \<open>Contract of the input\<close>

definition oracle_value_mask_version :: string where
  "oracle_value_mask_version = ''1.2''"

definition require_oracle_value_mask_version :: "pydict \<Rightarrow> exn + unit" where
  "require_oracle_value_mask_version dto =
     raise_if (\<not> py_eq (dget dto ''mask_version'') (PStr oracle_value_mask_version)) ValueError"

definition oracle_value_dto_contract :: "pydict \<Rightarrow> exn + string" where
  "oracle_value_dto_contract dto =
     then_r (require_oracle_value_mask_version dto) (\<lambda>_. prune_non_empty_str (dget dto ''dto_version''))"

definition require_oracle_value_dto_version :: "pydict \<Rightarrow> string \<Rightarrow> exn + unit" where
  "require_oracle_value_dto_version dto expected =
     then_r (oracle_value_dto_contract dto) (\<lambda>actual. raise_if (actual \<noteq> expected) ValueError)"

section \<open>Cards\<close>

fun required_nonnegative_int :: "pyval \<Rightarrow> exn + int" where
  "required_nonnegative_int (PInt i) = (if i < 0 then Inl ValueError else Inr i)"
| "required_nonnegative_int _ = Inl ValueError"

fun required_positive_int :: "pyval \<Rightarrow> exn + int" where
  "required_positive_int (PInt i) = (if i \<le> 0 then Inl ValueError else Inr i)"
| "required_positive_int _ = Inl ValueError"

text \<open>the amount of the enchantment; its id and status are only checked\<close>

definition card_enchantment :: "pyval \<Rightarrow> exn + int option" where
  "card_enchantment v =
     (case v of
        PNone \<Rightarrow> Inr None
      | PDict d \<Rightarrow>
          if \<not> is_nonempty_str (dget d ''id'') then Inl ValueError
          else (case dget d ''amount'' of
             PInt amount \<Rightarrow>
               if dget d ''status'' = PNone \<or> is_str (dget d ''status'') then Inr (Some amount) else Inl ValueError
           | _ \<Rightarrow> Inl ValueError)
      | _ \<Rightarrow> Inl ValueError)"

text \<open>what the loop reads from a card\<close>

record card_facts =
  cf_upgrade_level :: int
  cf_enchantment :: "int option"
  cf_type :: string
  cf_tinker :: bool

definition read_card :: "pydict \<Rightarrow> exn + card_facts" where
  "read_card cd =
     then_r (required_nonnegative_int (dget cd ''upgradeLevel'')) (\<lambda>upgrade_level.
     then_r (card_enchantment (dget cd ''enchantment'')) (\<lambda>enchantment.
     case (case dget cd ''type'' of PNone \<Rightarrow> Inr [] | PStr s \<Rightarrow> Inr (py_lower s) | _ \<Rightarrow> Inl ValueError) of
       Inl e \<Rightarrow> Inl e
     | Inr normalized_type \<Rightarrow>
         Inr \<lparr>cf_upgrade_level = upgrade_level, cf_enchantment = enchantment, cf_type = normalized_type,
              cf_tinker = (dget cd ''tinkerTimeType'' \<noteq> PNone \<or> dget cd ''tinkerTimeRider'' \<noteq> PNone)\<rparr>))"

text \<open>\<open>_iter_cards\<close>: the zone, the card and how many copies of it there are\<close>

definition hand_card :: "pydict \<Rightarrow> exn + (card_facts \<times> int)" where
  "hand_card cd =
     (if \<not> is_nonempty_str (dget cd ''id'') then Inl ValueError
      else then_r (read_card cd) (\<lambda>c. Inr (c, 1)))"

definition pile_card :: "pydict \<Rightarrow> exn + (card_facts \<times> int)" where
  "pile_card cd =
     (if \<not> is_nonempty_str (dget cd ''id'') then Inl ValueError
      else then_r (required_positive_int (dget cd ''count'')) (\<lambda>n. then_r (read_card cd) (\<lambda>c. Inr (c, n))))"

definition zone_cards :: "(pydict \<Rightarrow> exn + (card_facts \<times> int)) \<Rightarrow> pydict \<Rightarrow> string \<Rightarrow> exn + (string \<times> card_facts \<times> int) list" where
  "zone_cards read dto zone =
     then_r (mapping_sequence True (dget dto zone)) (\<lambda>cards.
     then_r (map_r read cards) (\<lambda>cs. Inr (map (\<lambda>c. (zone, c)) cs)))"

definition iter_cards :: "pydict \<Rightarrow> exn + (string \<times> card_facts \<times> int) list" where
  "iter_cards dto =
     then_r (zone_cards hand_card dto ''hand'') (\<lambda>hand.
     then_r (zone_cards pile_card dto ''drawPile'') (\<lambda>draw.
     then_r (zone_cards pile_card dto ''discardPile'') (\<lambda>discarded.
     then_r (zone_cards pile_card dto ''exhaustPile'') (\<lambda>exhausted.
     Inr (hand @ draw @ discarded @ exhausted)))))"

section \<open>The summary\<close>

record card_summary =
  cs_hand_size :: int
  cs_draw_pile_size :: int
  cs_discard_pile_size :: int
  cs_exhaust_pile_size :: int
  cs_known_card_count :: int
  cs_upgraded_card_count :: int
  cs_upgrade_level_sum :: int
  cs_max_upgrade_level :: int
  cs_enchanted_card_count :: int
  cs_enchantment_amount_sum :: int
  cs_tinker_time_card_count :: int
  cs_attack_card_count :: int
  cs_skill_card_count :: int
  cs_power_card_count :: int
  cs_upgraded_attack_count :: int
  cs_upgraded_skill_count :: int
  cs_enchanted_attack_count :: int
  cs_enchanted_skill_count :: int
  cs_hand_upgraded_card_count :: int
  cs_hand_upgrade_level_sum :: int
  cs_hand_enchanted_card_count :: int
  cs_hand_enchantment_amount_sum :: int

definition empty_summary :: card_summary where
  "empty_summary =
     \<lparr>cs_hand_size = 0, cs_draw_pile_size = 0, cs_discard_pile_size = 0, cs_exhaust_pile_size = 0,
      cs_known_card_count = 0, cs_upgraded_card_count = 0, cs_upgrade_level_sum = 0, cs_max_upgrade_level = 0,
      cs_enchanted_card_count = 0, cs_enchantment_amount_sum = 0, cs_tinker_time_card_count = 0,
      cs_attack_card_count = 0, cs_skill_card_count = 0, cs_power_card_count = 0, cs_upgraded_attack_count = 0,
      cs_upgraded_skill_count = 0, cs_enchanted_attack_count = 0, cs_enchanted_skill_count = 0,
      cs_hand_upgraded_card_count = 0, cs_hand_upgrade_level_sum = 0, cs_hand_enchanted_card_count = 0,
      cs_hand_enchantment_amount_sum = 0\<rparr>"

text \<open>the body of the loop; \<open>x += count\<close> under a condition adds the count or nothing\<close>

definition count_if :: "bool \<Rightarrow> int \<Rightarrow> int" where
  "count_if b n = (if b then n else 0)"

definition count_card :: "string \<times> card_facts \<times> int \<Rightarrow> card_summary \<Rightarrow> card_summary" where
  "count_card entry s =
     (case entry of (zone, c, n) \<Rightarrow>
       let upgraded = (0 < cf_upgrade_level c); enchanted = (cf_enchantment c \<noteq> None);
           amount = (case cf_enchantment c of None \<Rightarrow> 0 | Some a \<Rightarrow> a);
           attack = (cf_type c = ''attack''); skill = (cf_type c = ''skill''); hand = (zone = ''hand'') in
       \<lparr>cs_hand_size = cs_hand_size s + count_if hand n,
        cs_draw_pile_size = cs_draw_pile_size s + count_if (zone = ''drawPile'') n,
        cs_discard_pile_size = cs_discard_pile_size s + count_if (zone = ''discardPile'') n,
        cs_exhaust_pile_size = cs_exhaust_pile_size s + count_if (zone = ''exhaustPile'') n,
        cs_known_card_count = cs_known_card_count s + n,
        cs_upgraded_card_count = cs_upgraded_card_count s + count_if upgraded n,
        cs_upgrade_level_sum = cs_upgrade_level_sum s + cf_upgrade_level c * n,
        cs_max_upgrade_level = max (cs_max_upgrade_level s) (cf_upgrade_level c),
        cs_enchanted_card_count = cs_enchanted_card_count s + count_if enchanted n,
        cs_enchantment_amount_sum = cs_enchantment_amount_sum s + count_if enchanted (amount * n),
        cs_tinker_time_card_count = cs_tinker_time_card_count s + count_if (cf_tinker c) n,
        cs_attack_card_count = cs_attack_card_count s + count_if attack n,
        cs_skill_card_count = cs_skill_card_count s + count_if skill n,
        cs_power_card_count = cs_power_card_count s + count_if (cf_type c = ''power'') n,
        cs_upgraded_attack_count = cs_upgraded_attack_count s + count_if (attack \<and> upgraded) n,
        cs_upgraded_skill_count = cs_upgraded_skill_count s + count_if (skill \<and> upgraded) n,
        cs_enchanted_attack_count = cs_enchanted_attack_count s + count_if (attack \<and> enchanted) n,
        cs_enchanted_skill_count = cs_enchanted_skill_count s + count_if (skill \<and> enchanted) n,
        cs_hand_upgraded_card_count = cs_hand_upgraded_card_count s + count_if (hand \<and> upgraded) n,
        cs_hand_upgrade_level_sum = cs_hand_upgrade_level_sum s + count_if hand (cf_upgrade_level c * n),
        cs_hand_enchanted_card_count = cs_hand_enchanted_card_count s + count_if (hand \<and> enchanted) n,
        cs_hand_enchantment_amount_sum =
          cs_hand_enchantment_amount_sum s + count_if (hand \<and> enchanted) (amount * n)\<rparr>)"

definition combat_card_summary :: "pydict \<Rightarrow> exn + card_summary" where
  "combat_card_summary dto =
     then_r (require_oracle_value_mask_version dto) (\<lambda>_.
     then_r (iter_cards dto) (\<lambda>cards. Inr (fold count_card cards empty_summary)))"

section \<open>Features\<close>

definition value_feature_schema_version :: int where
  "value_feature_schema_version = 2"

definition value_feature_names :: "string list" where
  "value_feature_names =
     [''player_hp_ratio'', ''player_block'', ''energy'', ''energy_present'', ''enemy_hp_ratio'', ''incoming_damage'',
      ''danger_ratio'', ''enemies_alive'', ''hand_size'', ''potion_count'', ''player_power_stacks'', ''enemy_power_stacks'',
      ''lethal_threat'', ''draw_pile_size'', ''discard_pile_size'', ''exhaust_pile_size'', ''known_card_count'',
      ''upgraded_card_count'', ''upgrade_level_sum'', ''max_upgrade_level'', ''enchanted_card_count'',
      ''enchantment_amount_sum'', ''tinker_time_card_count'', ''attack_card_count'', ''skill_card_count'',
      ''power_card_count'', ''upgraded_attack_count'', ''upgraded_skill_count'', ''enchanted_attack_count'',
      ''enchanted_skill_count'', ''hand_upgraded_card_count'', ''hand_upgrade_level_sum'', ''hand_enchanted_card_count'',
      ''hand_enchantment_amount_sum'']"

definition int_float :: "int \<Rightarrow> exn + pyfloat" where
  "int_float i = (if float_overflows i then Inl OverflowError else Inr (Fin (of_int i)))"

fun power_stacks :: "pyfloat \<Rightarrow> pydict list \<Rightarrow> exn + pyfloat" where
  "power_stacks acc [] = Inr acc"
| "power_stacks acc (pw # powers) =
     (case dget_default pw ''amount'' (PFloat (Fin 1)) of
        PInt i \<Rightarrow> then_r (int_float i) (\<lambda>f. power_stacks (fl_add acc (fl_abs f)) powers)
      | PFloat f \<Rightarrow> power_stacks (fl_add acc (fl_abs f)) powers
      | _ \<Rightarrow> power_stacks acc powers)"

definition power_stack_amount :: "pydict list \<Rightarrow> exn + pyfloat" where
  "power_stack_amount powers = power_stacks (Fin 0) powers"

text \<open>the features that are attributes of the summary, in the order of the names\<close>

definition summary_counts :: "card_summary \<Rightarrow> int list" where
  "summary_counts s =
     [cs_draw_pile_size s, cs_discard_pile_size s, cs_exhaust_pile_size s, cs_known_card_count s,
      cs_upgraded_card_count s, cs_upgrade_level_sum s, cs_max_upgrade_level s, cs_enchanted_card_count s,
      cs_enchantment_amount_sum s, cs_tinker_time_card_count s, cs_attack_card_count s, cs_skill_card_count s,
      cs_power_card_count s, cs_upgraded_attack_count s, cs_upgraded_skill_count s, cs_enchanted_attack_count s,
      cs_enchanted_skill_count s, cs_hand_upgraded_card_count s, cs_hand_upgrade_level_sum s,
      cs_hand_enchanted_card_count s, cs_hand_enchantment_amount_sum s]"

definition feature_values :: "combat_observation \<Rightarrow> card_summary \<Rightarrow> exn + pyfloat list" where
  "feature_values ob cards =
     (let enemies = ob_enemies ob; alive = alive_enemies ob;
          total_hp = sum_list (map eo_max_hp enemies); enemy_max_hp = (if total_hp = 0 then 1 else total_hp) in
      then_r (int_float (cs_hand_size cards)) (\<lambda>hand_size.
      then_r (power_stack_amount (ob_player_powers ob)) (\<lambda>player_stacks.
      then_r (map_r (\<lambda>e. power_stack_amount (eo_powers e)) alive) (\<lambda>stacks.
      then_r (map_r int_float (summary_counts cards)) (\<lambda>counts.
      Inr ([Fin (ob_hp ob / ob_max_hp ob), Fin (ob_block ob),
            Fin (case ob_energy ob of None \<Rightarrow> 0 | Some e \<Rightarrow> e), Fin (if ob_energy ob = None then 0 else 1),
            Fin (sum_list (map eo_hp enemies) / enemy_max_hp), Fin (incoming_damage ob), Fin (danger_ratio ob),
            Fin (of_nat (length alive)), hand_size, Fin (of_nat (length (ob_potions ob))), player_stacks,
            foldl fl_add (Fin 0) stacks, Fin (if lethal_threat ob then 1 else 0)] @ counts))))))"

definition combat_value_features :: "pydict \<Rightarrow> exn + pyfloat list" where
  "combat_value_features dto =
     then_r (combat_card_summary dto) (\<lambda>cards.
     then_r (observe True dto) (\<lambda>ob. feature_values ob cards))"

section \<open>The linear value model\<close>

definition learned_value_artifact_schema_version :: int where
  "learned_value_artifact_schema_version = 3"

record linear_value =
  lv_coefficients :: "rat list"
  lv_intercept :: rat
  lv_mean :: "rat list"
  lv_scale :: "rat list"
  lv_required_dto_version :: string
  lv_terminal_values :: "(string \<times> rat) list"
  lv_artifact_sha256 :: "string option"

text \<open>\<open>_finite\<close>\<close>

definition value_finite :: "pyval \<Rightarrow> exn + rat" where
  "value_finite v =
     (case v of
        PInt i \<Rightarrow> if float_overflows i then Inl OverflowError else Inr (of_int i)
      | PFloat (Fin r) \<Rightarrow> Inr r
      | _ \<Rightarrow> Inl ValueError)"

definition terminal_entries :: "pydict \<Rightarrow> exn + (string \<times> rat) list" where
  "terminal_entries values =
     map_r (\<lambda>(k, v). then_r (value_finite v) (\<lambda>r. Inr (k, r))) (filter (\<lambda>e. fst e \<in> {''victory'', ''defeat''}) values)"

definition linear_value_init ::
  "pyval list \<Rightarrow> pyval \<Rightarrow> pyval list \<Rightarrow> pyval list \<Rightarrow> pyval \<Rightarrow> pydict \<Rightarrow> string option \<Rightarrow> exn + linear_value" where
  "linear_value_init coefficients intercept mean scale dto_version terminal_values sha =
     (let expected = length value_feature_names in
      if \<not> (length coefficients = length mean \<and> length mean = length scale \<and> length scale = expected) then Inl ValueError
      else then_r (prune_non_empty_str dto_version) (\<lambda>required.
        then_r (map_r value_finite coefficients) (\<lambda>cs.
        then_r (value_finite intercept) (\<lambda>b.
        then_r (map_r value_finite mean) (\<lambda>ms.
        then_r (map_r value_finite scale) (\<lambda>ss.
        if \<exists>s \<in> set ss. s \<le> 0 then Inl ValueError
        else then_r (terminal_entries terminal_values) (\<lambda>ts.
          Inr \<lparr>lv_coefficients = cs, lv_intercept = b, lv_mean = ms, lv_scale = ss, lv_required_dto_version = required,
               lv_terminal_values = ts, lv_artifact_sha256 = sha\<rparr>)))))))"

text \<open>\<open>_artifact_required_dto_version\<close>\<close>

definition artifact_required_dto_version :: "pydict \<Rightarrow> exn + pyval" where
  "artifact_required_dto_version payload =
     (if is_nonempty_str (dget payload ''required_dto_version'') then Inr (dget payload ''required_dto_version'')
      else
        (let train = (case dget payload ''metrics'' of PDict metrics \<Rightarrow> dget metrics ''train'' | _ \<Rightarrow> PNone);
             derived = (case train of PDict t \<Rightarrow> dget t ''dto_version'' | _ \<Rightarrow> PNone)
         in if is_nonempty_str derived then Inr derived else Inl ValueError))"

fun value_sequence :: "pyval \<Rightarrow> exn + pyval list" where
  "value_sequence (PList vs) = Inr vs"
| "value_sequence _ = Inl ValueError"

definition linear_value_from_payload :: "pyval \<Rightarrow> string \<Rightarrow> exn + linear_value" where
  "linear_value_from_payload payload sha256 =
     (case payload of
        PDict d \<Rightarrow>
          if \<not> py_eq (dget d ''artifact_schema_version'') (PInt learned_value_artifact_schema_version) then Inl ValueError
          else if \<not> py_eq (dget d ''feature_schema_version'') (PInt value_feature_schema_version) then Inl ValueError
          else if \<not> py_eq (dget d ''required_mask_version'') (PStr oracle_value_mask_version) then Inl ValueError
          else
            then_r (artifact_required_dto_version d) (\<lambda>dto_version.
            then_r (if py_truthy (dget d ''feature_names'') then py_items (dget d ''feature_names'') else Inr []) (\<lambda>names.
            if names \<noteq> map (\<lambda>s. PStr s) value_feature_names then Inl ValueError
            else case (case dget d ''terminal_values'' of PNone \<Rightarrow> Some [] | PDict values \<Rightarrow> Some values | _ \<Rightarrow> None) of
              None \<Rightarrow> Inl ValueError
            | Some terminal_values \<Rightarrow>
                then_r (value_sequence (dget d ''coefficients'')) (\<lambda>coefficients.
                then_r (value_sequence (dget d ''mean'')) (\<lambda>mean.
                then_r (value_sequence (dget d ''scale'')) (\<lambda>scale.
                linear_value_init coefficients (dget d ''intercept'') mean scale dto_version terminal_values (Some sha256))))))
      | _ \<Rightarrow> Inl ValueError)"

text \<open>\<open>outcome in {...}\<close> raises \<open>TypeError\<close> when the outcome is a list or an object\<close>

definition learned_terminal_outcome :: "pydict \<Rightarrow> exn + string option" where
  "learned_terminal_outcome dto =
     (let outcome = dget dto ''outcome'' in
      if \<not> hashable outcome then Inl TypeError
      else if outcome = PStr ''victory'' \<or> outcome = PStr ''run_victory'' then Inr (Some ''victory'')
      else if outcome = PStr ''defeat'' then Inr (Some ''defeat'')
      else Inr (case dget dto ''transition'' of
          PDict transition \<Rightarrow>
            (if dget transition ''kind'' \<noteq> PStr ''combat_completed'' then None
             else if dget transition ''victory'' = PBool True then Some ''victory''
             else if dget transition ''victory'' = PBool False then Some ''defeat''
             else None)
        | _ \<Rightarrow> None))"

definition learned_exact_terminal_utility :: "linear_value \<Rightarrow> pydict \<Rightarrow> exn + rat option" where
  "learned_exact_terminal_utility lv dto =
     then_r (require_oracle_value_dto_version dto (lv_required_dto_version lv)) (\<lambda>_.
     then_r (learned_terminal_outcome dto) (\<lambda>outcome.
     Inr (case outcome of None \<Rightarrow> None | Some o' \<Rightarrow> map_of (lv_terminal_values lv) o')))"

definition linear_score :: "linear_value \<Rightarrow> pyfloat list \<Rightarrow> pyfloat" where
  "linear_score lv features =
     foldl (\<lambda>score (v, mean, scale, c). fl_add score (fl_scale c (fl_scale (1 / scale) (fl_add v (Fin (- mean))))))
       (Fin (lv_intercept lv)) (zip features (zip (lv_mean lv) (zip (lv_scale lv) (lv_coefficients lv))))"

definition learned_evaluate :: "linear_value \<Rightarrow> pydict \<Rightarrow> exn + pyfloat" where
  "learned_evaluate lv dto =
     then_r (learned_exact_terminal_utility lv dto) (\<lambda>exact.
     case exact of
       Some r \<Rightarrow> Inr (Fin r)
     | None \<Rightarrow> then_r (combat_value_features dto) (\<lambda>features. Inr (linear_score lv features)))"

definition learned_evaluate_batch :: "linear_value \<Rightarrow> pydict list \<Rightarrow> exn + pyfloat list" where
  "learned_evaluate_batch lv dtos = map_r (learned_evaluate lv) dtos"

section \<open>Order and copies do not matter\<close>

lemma count_if_add: "count_if b (m + n) = count_if b m + count_if b n"
  by (simp add: count_if_def)

lemma count_card_commute: "count_card x (count_card y s) = count_card y (count_card x s)"
  by (cases x; cases y) (simp add: count_card_def Let_def ac_simps)

text \<open>an entry with more copies is two entries\<close>

lemma count_card_copies: "count_card (zone, c, m + n) s = count_card (zone, c, n) (count_card (zone, c, m) s)"
  by (simp add: count_card_def Let_def count_if_add distrib_left add.assoc)

lemma summary_mset: "mset xs = mset ys \<Longrightarrow> fold count_card xs s = fold count_card ys s"
  by (rule fold_multiset_equiv [THEN fun_cong]) (simp_all add: fun_eq_iff count_card_commute)

lemma map_r_raises: "map_r f xs = Inl e \<Longrightarrow> \<exists>x \<in> set xs. f x = Inl e"
  by (induction xs) (auto simp: then_r_eq_Inl)

lemma map_r_all: "map_r f xs = Inr ys \<Longrightarrow> x \<in> set xs \<Longrightarrow> \<exists>y. f x = Inr y"
  by (induction xs arbitrary: ys) (auto simp: then_r_eq_Inr)

text \<open>a list of readings that may fail depends on the order only by the exception\<close>

lemma map_r_mset:
  assumes "mset xs = mset ys" "\<And>x e. x \<in> set xs \<Longrightarrow> f x = Inl e \<Longrightarrow> e = err"
  shows "(map_r f xs = Inl err \<and> map_r f ys = Inl err) \<or>
    (\<exists>us vs. map_r f xs = Inr us \<and> map_r f ys = Inr vs \<and> mset us = mset vs)"
proof (cases "\<exists>x \<in> set xs. f x = Inl err")
  case True
  have fails: "map_r f zs = Inl err" if "mset zs = mset xs" for zs
  proof -
    have set: "set zs = set xs" using that by (rule mset_eq_setD)
    show ?thesis
    proof (cases "map_r f zs")
      case (Inl e)
      then have "\<exists>z \<in> set zs. f z = Inl e" by (rule map_r_raises)
      with Inl assms(2) set show ?thesis by auto
    next
      case (Inr us)
      with True set map_r_all [OF Inr] show ?thesis by fastforce
    qed
  qed
  with assms(1) show ?thesis by simp
next
  case False
  define g where "g x = (case f x of Inr y \<Rightarrow> y | Inl _ \<Rightarrow> undefined)" for x
  have "f x = Inr (g x)" if "x \<in> set xs" for x
    using False assms(2) [OF that] that by (cases "f x") (auto simp: g_def)
  moreover from assms(1) have "set ys = set xs" by (metis mset_eq_setD)
  ultimately have "map_r f xs = Inr (map g xs)" "map_r f ys = Inr (map g ys)" by (auto intro!: map_r_Inr)
  with assms(1) show ?thesis by simp
qed

definition same_cards :: "(exn + 'a list) \<Rightarrow> (exn + 'a list) \<Rightarrow> bool" where
  "same_cards r r' \<longleftrightarrow> (r = Inl ValueError \<and> r' = Inl ValueError) \<or> (\<exists>us vs. r = Inr us \<and> r' = Inr vs \<and> mset us = mset vs)"

lemma read_card_raises: "read_card d = Inl e \<Longrightarrow> e = ValueError"
  by (auto simp: read_card_def then_r_eq_Inl card_enchantment_def elim!: required_nonnegative_int.elims
      split: pyval.splits if_splits)

lemma hand_card_raises: "hand_card d = Inl e \<Longrightarrow> e = ValueError"
  by (auto simp: hand_card_def then_r_eq_Inl dest: read_card_raises split: if_splits)

lemma pile_card_raises: "pile_card d = Inl e \<Longrightarrow> e = ValueError"
  by (auto simp: pile_card_def then_r_eq_Inl elim!: required_positive_int.elims dest: read_card_raises split: if_splits)

definition mapping_of :: "pyval \<Rightarrow> exn + pydict" where
  "mapping_of v = (case v of PDict d \<Rightarrow> Inr d | _ \<Rightarrow> Inl ValueError)"

lemma mapping_of_raises: "mapping_of v = Inl e \<Longrightarrow> e = ValueError"
  by (auto simp: mapping_of_def split: pyval.splits)

lemma obs_mappings_strict: "obs_mappings True vs = map_r mapping_of vs"
  by (induction vs) (simp_all add: mapping_of_def split: pyval.split)

lemma zone_cards_list:
  "dget dto zone = PList vs \<Longrightarrow> zone_cards read dto zone =
     then_r (map_r mapping_of vs) (\<lambda>ds. then_r (map_r read ds) (\<lambda>cs. Inr (map (\<lambda>c. (zone, c)) cs)))"
  by (simp add: zone_cards_def mapping_sequence_def obs_mappings_strict)

lemma zone_cards_raises:
  assumes "\<And>d e. read d = Inl e \<Longrightarrow> e = ValueError" "zone_cards read dto zone = Inl e"
  shows "e = ValueError"
proof -
  have "e = ValueError" if "mapping_sequence True v = Inl e" for v
    using that by (auto simp: mapping_sequence_def obs_mappings_strict mapping_of_def dest!: map_r_raises split: pyval.splits)
  with assms show ?thesis by (auto simp: zone_cards_def then_r_eq_Inl dest!: map_r_raises)
qed

lemma hand_zone_raises: "zone_cards hand_card dto zone = Inl e \<Longrightarrow> e = ValueError"
  by (erule zone_cards_raises [rotated]) (rule hand_card_raises)

lemma pile_zone_raises: "zone_cards pile_card dto zone = Inl e \<Longrightarrow> e = ValueError"
  by (erule zone_cards_raises [rotated]) (rule pile_card_raises)

text \<open>the same cards in every zone, in any order\<close>

definition same_zone :: "pydict \<Rightarrow> pydict \<Rightarrow> string \<Rightarrow> bool" where
  "same_zone dto dto' zone \<longleftrightarrow> dget dto' zone = dget dto zone \<or>
     (\<exists>vs ws. dget dto zone = PList vs \<and> dget dto' zone = PList ws \<and> mset vs = mset ws)"

definition card_zones :: "string list" where
  "card_zones = [''hand'', ''drawPile'', ''discardPile'', ''exhaustPile'']"

lemma same_zone_cards:
  assumes "same_zone dto dto' zone" "\<And>d e. read d = Inl e \<Longrightarrow> e = ValueError"
  shows "same_cards (zone_cards read dto zone) (zone_cards read dto' zone)"
  using assms(1) unfolding same_zone_def
proof
  assume eq: "dget dto' zone = dget dto zone"
  then have "zone_cards read dto' zone = zone_cards read dto zone" by (simp add: zone_cards_def)
  with zone_cards_raises [OF assms(2)] show ?thesis
    by (cases "zone_cards read dto zone") (auto simp: same_cards_def)
next
  assume "\<exists>vs ws. dget dto zone = PList vs \<and> dget dto' zone = PList ws \<and> mset vs = mset ws"
  then obtain vs ws where z: "dget dto zone = PList vs" "dget dto' zone = PList ws" "mset vs = mset ws" by blast
  from map_r_mset [OF z(3), of mapping_of ValueError] mapping_of_raises
  consider "map_r mapping_of vs = Inl ValueError" "map_r mapping_of ws = Inl ValueError"
    | ds es where "map_r mapping_of vs = Inr ds" "map_r mapping_of ws = Inr es" "mset ds = mset es" by blast
  then show ?thesis
  proof cases
    case 1
    then show ?thesis by (simp add: zone_cards_list [OF z(1)] zone_cards_list [OF z(2)] same_cards_def)
  next
    case 2
    from map_r_mset [OF 2(3), of read ValueError] assms(2) show ?thesis
      using 2(1,2) by (auto simp: zone_cards_list [OF z(1)] zone_cards_list [OF z(2)] same_cards_def)
  qed
qed

lemma same_iter_cards:
  assumes "list_all (same_zone dto dto') card_zones"
  shows "same_cards (iter_cards dto) (iter_cards dto')"
proof -
  have "same_cards (zone_cards hand_card dto ''hand'') (zone_cards hand_card dto' ''hand'')"
    using assms by (intro same_zone_cards hand_card_raises) (simp_all add: card_zones_def)
  moreover have "same_cards (zone_cards pile_card dto zone) (zone_cards pile_card dto' zone)"
    if "zone \<in> {''drawPile'', ''discardPile'', ''exhaustPile''}" for zone
    using assms that by (intro same_zone_cards pile_card_raises) (auto simp: card_zones_def)
  then have "same_cards (zone_cards pile_card dto ''drawPile'') (zone_cards pile_card dto' ''drawPile'')"
    "same_cards (zone_cards pile_card dto ''discardPile'') (zone_cards pile_card dto' ''discardPile'')"
    "same_cards (zone_cards pile_card dto ''exhaustPile'') (zone_cards pile_card dto' ''exhaustPile'')" by simp_all
  ultimately show ?thesis
    unfolding same_cards_def iter_cards_def by (elim disjE exE conjE) simp_all
qed

lemma same_summary:
  assumes "list_all (same_zone dto dto') card_zones" "dget dto' ''mask_version'' = dget dto ''mask_version''"
  shows "combat_card_summary dto' = combat_card_summary dto"
proof -
  from same_iter_cards [OF assms(1)] consider "iter_cards dto = Inl ValueError" "iter_cards dto' = Inl ValueError"
    | us vs where "iter_cards dto = Inr us" "iter_cards dto' = Inr vs" "mset us = mset vs"
    unfolding same_cards_def by blast
  then show ?thesis
  proof cases
    case 2
    with summary_mset [OF 2(3), of empty_summary] show ?thesis
      by (simp add: combat_card_summary_def require_oracle_value_mask_version_def assms(2))
  qed (simp add: combat_card_summary_def require_oracle_value_mask_version_def assms(2))
qed

section \<open>The invariant of a summary\<close>

definition summary_ok :: "card_summary \<Rightarrow> bool" where
  "summary_ok s \<longleftrightarrow>
     cs_known_card_count s = cs_hand_size s + cs_draw_pile_size s + cs_discard_pile_size s + cs_exhaust_pile_size s \<and>
     list_all (\<lambda>n. 0 \<le> n) [cs_hand_size s, cs_draw_pile_size s, cs_discard_pile_size s, cs_exhaust_pile_size s,
       cs_max_upgrade_level s, cs_tinker_time_card_count s, cs_power_card_count s] \<and>
     cs_attack_card_count s + cs_skill_card_count s + cs_power_card_count s \<le> cs_known_card_count s \<and>
     0 \<le> cs_upgraded_attack_count s \<and> cs_upgraded_attack_count s \<le> cs_attack_card_count s \<and>
     0 \<le> cs_upgraded_skill_count s \<and> cs_upgraded_skill_count s \<le> cs_skill_card_count s \<and>
     0 \<le> cs_enchanted_attack_count s \<and> cs_enchanted_attack_count s \<le> cs_attack_card_count s \<and>
     0 \<le> cs_enchanted_skill_count s \<and> cs_enchanted_skill_count s \<le> cs_skill_card_count s \<and>
     cs_upgraded_attack_count s + cs_upgraded_skill_count s \<le> cs_upgraded_card_count s \<and>
     cs_enchanted_attack_count s + cs_enchanted_skill_count s \<le> cs_enchanted_card_count s \<and>
     cs_upgraded_card_count s \<le> cs_known_card_count s \<and> cs_enchanted_card_count s \<le> cs_known_card_count s \<and>
     0 \<le> cs_hand_upgraded_card_count s \<and> cs_hand_upgraded_card_count s \<le> cs_hand_size s \<and>
     cs_hand_upgraded_card_count s \<le> cs_upgraded_card_count s \<and>
     0 \<le> cs_hand_enchanted_card_count s \<and> cs_hand_enchanted_card_count s \<le> cs_hand_size s \<and>
     cs_hand_enchanted_card_count s \<le> cs_enchanted_card_count s \<and>
     0 \<le> cs_hand_upgrade_level_sum s \<and> cs_hand_upgrade_level_sum s \<le> cs_upgrade_level_sum s \<and>
     cs_upgraded_card_count s \<le> cs_upgrade_level_sum s \<and> cs_max_upgrade_level s \<le> cs_upgrade_level_sum s \<and>
     cs_tinker_time_card_count s \<le> cs_known_card_count s"

definition entry_ok :: "string \<times> card_facts \<times> int \<Rightarrow> bool" where
  "entry_ok entry \<longleftrightarrow> (case entry of (zone, c, n) \<Rightarrow> zone \<in> set card_zones \<and> 0 < n \<and> 0 \<le> cf_upgrade_level c)"

lemma count_if_bounds:
  assumes "0 < n"
  shows "0 \<le> count_if b n" "count_if b n \<le> n" "count_if (a \<and> b) n \<le> count_if a n" "count_if (a \<and> b) n \<le> count_if b n"
    and "\<not> (a \<and> b) \<Longrightarrow> count_if (a \<and> c) n + count_if (b \<and> c) n \<le> count_if c n"
  using assms by (auto simp: count_if_def)

lemma count_if_zones:
  "zone \<in> set card_zones \<Longrightarrow> count_if (zone = ''hand'') n + count_if (zone = ''drawPile'') n +
     count_if (zone = ''discardPile'') n + count_if (zone = ''exhaustPile'') n = n"
  by (auto simp: card_zones_def count_if_def)

lemma count_if_types:
  "0 < n \<Longrightarrow> count_if (t = ''attack'') n + count_if (t = ''skill'') n + count_if (t = ''power'') n \<le> n"
  by (auto simp: count_if_def)

lemma level_bounds:
  fixes l n :: int
  assumes "0 < n" "0 \<le> l"
  shows "0 \<le> l * n" "l \<le> l * n" "count_if (0 < l) n \<le> l * n" "0 \<le> count_if b (l * n)" "count_if b (l * n) \<le> l * n"
  using assms mult_left_mono [of 1 n l] mult_right_mono [of 1 l n] by (auto simp: count_if_def)

lemma count_card_ok:
  assumes "entry_ok entry" "summary_ok s"
  shows "summary_ok (count_card entry s)"
proof -
  obtain zone c n where e: "entry = (zone, c, n)" by (cases entry)
  from assms(1) have n: "0 < n" "0 \<le> cf_upgrade_level c" and zone: "zone \<in> set card_zones"
    by (simp_all add: entry_ok_def e)
  have types: "\<not> (cf_type c = ''attack'' \<and> cf_type c = ''skill'')" by auto
  note s = assms(2) [unfolded summary_ok_def list.pred_inject]
  have level: "max (cs_max_upgrade_level s) (cf_upgrade_level c) \<le> cs_upgrade_level_sum s + cf_upgrade_level c * n"
    "0 \<le> max (cs_max_upgrade_level s) (cf_upgrade_level c)"
    using s level_bounds(1,2) [OF n] n by auto
  let ?l = "cf_upgrade_level c" and ?a = "cf_type c = ''attack''" and ?k = "cf_type c = ''skill''"
  let ?u = "0 < ?l" and ?e = "cf_enchantment c \<noteq> None" and ?h = "zone = ''hand''"
  have pos: "0 \<le> count_if ?h n" "0 \<le> count_if (zone = ''drawPile'') n" "0 \<le> count_if (zone = ''discardPile'') n"
    "0 \<le> count_if (zone = ''exhaustPile'') n" "0 \<le> count_if (cf_tinker c) n" "0 \<le> count_if (cf_type c = ''power'') n"
    "0 \<le> count_if (?a \<and> ?u) n" "0 \<le> count_if (?k \<and> ?u) n" "0 \<le> count_if (?a \<and> ?e) n" "0 \<le> count_if (?k \<and> ?e) n"
    "0 \<le> count_if (?h \<and> ?u) n" "0 \<le> count_if (?h \<and> ?e) n" "count_if (cf_tinker c) n \<le> n"
    "count_if ?u n \<le> n" "count_if ?e n \<le> n"
    by (intro count_if_bounds(1,2) n(1))+
  have sub: "count_if (?a \<and> ?u) n \<le> count_if ?a n" "count_if (?k \<and> ?u) n \<le> count_if ?k n"
    "count_if (?a \<and> ?e) n \<le> count_if ?a n" "count_if (?k \<and> ?e) n \<le> count_if ?k n"
    "count_if (?h \<and> ?u) n \<le> count_if ?h n" "count_if (?h \<and> ?e) n \<le> count_if ?h n"
    "count_if (?h \<and> ?u) n \<le> count_if ?u n" "count_if (?h \<and> ?e) n \<le> count_if ?e n"
    by (intro count_if_bounds(3,4) n(1))+
  note bounds = pos sub count_if_bounds(5) [OF n(1) types, of ?u] count_if_bounds(5) [OF n(1) types, of ?e]
    count_if_zones [OF zone, of n] count_if_types [OF n(1), of "cf_type c"]
    level_bounds(1-3) [OF n] level_bounds(4,5) [OF n, of ?h]
  show ?thesis
    unfolding summary_ok_def count_card_def e Let_def prod.case card_summary.select_convs list.pred_inject
    by (intro conjI TrueI; use s level bounds in \<open>elim conjE, linarith\<close>)
qed

lemma empty_summary_ok: "summary_ok empty_summary"
  by (simp add: summary_ok_def empty_summary_def)

lemma fold_count_ok: "list_all entry_ok entries \<Longrightarrow> summary_ok s \<Longrightarrow> summary_ok (fold count_card entries s)"
  by (induction entries arbitrary: s) (simp_all add: count_card_ok)

lemma read_card_level: "read_card d = Inr c \<Longrightarrow> 0 \<le> cf_upgrade_level c"
  by (auto simp: read_card_def then_r_eq_Inr elim!: required_nonnegative_int.elims split: sum.splits pyval.splits if_splits)

lemma zone_cards_ok:
  assumes "zone_cards read dto zone = Inr cs" "zone \<in> set card_zones"
    and "\<And>d c n. read d = Inr (c, n) \<Longrightarrow> 0 < n \<and> 0 \<le> cf_upgrade_level c"
  shows "list_all entry_ok cs"
  using assms by (auto simp: zone_cards_def then_r_eq_Inr list_all_iff entry_ok_def dest!: map_r_elem)

lemma iter_cards_ok: "iter_cards dto = Inr cs \<Longrightarrow> list_all entry_ok cs"
proof -
  have hand: "list_all entry_ok cs" if "zone_cards hand_card dto ''hand'' = Inr cs" for cs
    using that by (rule zone_cards_ok) (auto simp: card_zones_def hand_card_def then_r_eq_Inr read_card_level split: if_splits)
  have pile: "list_all entry_ok cs" if "zone_cards pile_card dto zone = Inr cs" "zone \<in> set card_zones" for cs zone
    using that by (rule zone_cards_ok)
      (auto simp: pile_card_def then_r_eq_Inr read_card_level elim!: required_positive_int.elims split: if_splits)
  show "iter_cards dto = Inr cs \<Longrightarrow> list_all entry_ok cs"
    using hand pile by (auto simp: iter_cards_def then_r_eq_Inr card_zones_def)
qed

lemma card_summary_raises: "combat_card_summary dto = Inl e \<Longrightarrow> e = ValueError"
  by (auto simp: combat_card_summary_def require_oracle_value_mask_version_def iter_cards_def then_r_eq_Inl
      dest: hand_zone_raises pile_zone_raises)

lemma card_summary_ok: "combat_card_summary dto = Inr s \<Longrightarrow> summary_ok s"
  using fold_count_ok [OF iter_cards_ok empty_summary_ok] by (auto simp: combat_card_summary_def then_r_eq_Inr)

text \<open>C26: A card summary is consistent: its zones add up to the cards known, the cards of a type, the upgraded and
  the enchanted ones are among those they refine, no count is negative, and the levels dominate the counts of
  upgraded cards; a summary is returned or \<open>ValueError\<close> raised.\<close>

theorem card_summary_is_consistent:
  "case combat_card_summary dto of Inl e \<Rightarrow> e = ValueError | Inr s \<Rightarrow> summary_ok s"
  using card_summary_raises card_summary_ok by (simp split: sum.split)

section \<open>What an evaluation depends on\<close>

lemma then_r_assoc: "then_r (then_r r f) g = then_r r (\<lambda>x. then_r (f x) g)"
  by (cases r) simp_all

lemma lenient_mappings: "\<exists>ds. mapping_sequence False v = Inr ds"
proof -
  have "\<exists>ds. obs_mappings False vs = Inr ds" for vs by (induction vs) (auto split: pyval.split)
  then show ?thesis by (simp add: mapping_sequence_def split: pyval.split)
qed

text \<open>the observation reads the cards of the hand only into \<open>hand\<close>\<close>

lemma observe_hand:
  assumes "\<forall>k. k \<notin> set card_zones \<longrightarrow> dget dto' k = dget dto k"
  shows "\<exists>hand. observe True dto' = then_r (observe True dto) (\<lambda>ob. Inr (ob\<lparr>ob_hand := hand\<rparr>))"
proof -
  obtain hand hand' where hands: "mapping_sequence False (dget dto ''hand'') = Inr hand"
    "mapping_sequence False (dget dto' ''hand'') = Inr hand'"
    using lenient_mappings by metis
  have same: "dget dto' ''hp'' = dget dto ''hp''" "dget dto' ''maxHp'' = dget dto ''maxHp''" "dget dto' ''block'' = dget dto ''block''"
    "dget dto' ''energy'' = dget dto ''energy''" "dget dto' ''maxEnergy'' = dget dto ''maxEnergy''" "dget dto' ''turnNumber'' = dget dto ''turnNumber''"
    "dget dto' ''enemies'' = dget dto ''enemies''" "dget dto' ''potions'' = dget dto ''potions''" "dget dto' ''playerPowers'' = dget dto ''playerPowers''"
    by (rule assms [rule_format], simp add: card_zones_def)+
  have "observe True dto' = then_r (observe True dto) (\<lambda>ob. Inr (ob\<lparr>ob_hand := hand'\<rparr>))"
    by (simp add: observe_def hands same then_r_assoc)
  then show ?thesis ..
qed

lemma feature_values_hand: "feature_values (ob\<lparr>ob_hand := hand\<rparr>) cards = feature_values ob cards"
  by (simp add: feature_values_def alive_enemies_def incoming_damage_def incoming_before_block_def danger_ratio_def
      lethal_threat_def)

text \<open>C24: The learned value does not depend on the hidden order of cards: two states that agree outside the card zones,
  and whose hand and piles hold the same entries in any order, get the same value or raise the same exception.\<close>

theorem learned_value_ignores_card_order:
  assumes "list_all (same_zone dto dto') card_zones" "\<forall>k. k \<notin> set card_zones \<longrightarrow> dget dto' k = dget dto k"
  shows "learned_evaluate lv dto' = learned_evaluate lv dto"
proof -
  have same: "dget dto' ''mask_version'' = dget dto ''mask_version''" "dget dto' ''dto_version'' = dget dto ''dto_version''"
    "dget dto' ''outcome'' = dget dto ''outcome''" "dget dto' ''transition'' = dget dto ''transition''"
    by (rule assms(2) [rule_format], simp add: card_zones_def)+
  obtain hand where ob: "observe True dto' = then_r (observe True dto) (\<lambda>ob. Inr (ob\<lparr>ob_hand := hand\<rparr>))"
    using observe_hand [OF assms(2)] by (elim exE) (rule that)
  have "combat_value_features dto' = combat_value_features dto"
    using same_summary [OF assms(1)] same
    by (simp add: combat_value_features_def ob then_r_assoc feature_values_hand)
  moreover have "learned_exact_terminal_utility lv dto' = learned_exact_terminal_utility lv dto"
    unfolding learned_exact_terminal_utility_def require_oracle_value_dto_version_def oracle_value_dto_contract_def
      require_oracle_value_mask_version_def learned_terminal_outcome_def same ..
  ultimately show ?thesis by (simp add: learned_evaluate_def cong: option.case_cong)
qed

definition demo_card :: "string \<Rightarrow> int \<Rightarrow> pyval" where
  "demo_card i level = PDict [(''id'', PStr i), (''upgradeLevel'', PInt level), (''count'', PInt 2), (''type'', PStr ''Attack'')]"

definition demo_value_dto :: "string \<Rightarrow> pyval list \<Rightarrow> pydict" where
  "demo_value_dto version pile =
     [(''mask_version'', PStr ''1.2''), (''dto_version'', PStr version), (''hp'', PInt 5), (''maxHp'', PInt 10), (''drawPile'', PList pile)]"

definition demo_value :: linear_value where
  "demo_value =
     \<lparr>lv_coefficients = replicate 34 1, lv_intercept = 0, lv_mean = replicate 34 0, lv_scale = replicate 34 1,
      lv_required_dto_version = ''v'', lv_terminal_values = [(''victory'', 1)], lv_artifact_sha256 = None\<rparr>"

theorem learned_value_ignores_card_order_witness:
  "learned_evaluate demo_value (demo_value_dto ''v'' [demo_card ''a'' 0, demo_card ''b'' 1]) =
     learned_evaluate demo_value (demo_value_dto ''v'' [demo_card ''b'' 1, demo_card ''a'' 0]) \<and>
   isl (learned_evaluate demo_value (demo_value_dto ''v'' [demo_card ''b'' 1, demo_card ''a'' 0])) = False"
proof -
  let ?dto = "demo_value_dto ''v'' [demo_card ''b'' 1, demo_card ''a'' 0]"
  let ?dto' = "demo_value_dto ''v'' [demo_card ''a'' 0, demo_card ''b'' 1]"
  have "list_all (same_zone ?dto ?dto') card_zones"
    by (simp add: card_zones_def same_zone_def demo_value_dto_def)
  moreover have "\<forall>k. k \<notin> set card_zones \<longrightarrow> dget ?dto' k = dget ?dto k"
    by (simp add: card_zones_def demo_value_dto_def)
  moreover have "isl (learned_evaluate demo_value ?dto) = False" by code_simp
  ultimately show ?thesis using learned_value_ignores_card_order [of ?dto ?dto' demo_value] by simp
qed

section \<open>Exceptions\<close>

lemma power_stacks_raises: "power_stacks acc powers = Inl e \<Longrightarrow> e = OverflowError"
  by (induction powers arbitrary: acc)
    (auto simp: then_r_eq_Inl int_float_def split: pyval.splits if_splits)

lemma int_float_raises: "int_float i = Inl e \<Longrightarrow> e = OverflowError"
  by (simp add: int_float_def split: if_splits)

lemma feature_values_raises: "feature_values ob cards = Inl e \<Longrightarrow> e = OverflowError"
  by (auto simp: feature_values_def Let_def then_r_eq_Inl power_stack_amount_def
      dest: power_stacks_raises int_float_raises dest!: map_r_raises)

lemma observe_raises: "observe True dto = Inl e \<Longrightarrow> e = ValueError"
  using tolerates_observe [of dto] by (auto simp: tolerates_def)

lemma contract_raises: "require_oracle_value_dto_version dto v = Inl e \<Longrightarrow> e = ValueError"
  by (auto simp: require_oracle_value_dto_version_def oracle_value_dto_contract_def
      require_oracle_value_mask_version_def then_r_eq_Inl elim!: prune_non_empty_str.elims split: if_splits)

lemma contract_returns:
  "require_oracle_value_dto_version dto v = Inr u \<longleftrightarrow>
     dget dto ''mask_version'' = PStr oracle_value_mask_version \<and> dget dto ''dto_version'' = PStr v \<and> v \<noteq> []"
  by (cases "dget dto ''dto_version''")
    (auto simp: require_oracle_value_dto_version_def oracle_value_dto_contract_def require_oracle_value_mask_version_def
      then_r_eq_Inr)



end
