(* ===== verification/Spec2Isabelle.thy ===== *)
theory Spec2Isabelle
  imports Episode Damage_Race Oracle_Properties Pruner_Exploration Learned_Value
begin

text \<open>
  A verification development of \<open>sts2_training\<close> (\<open>src/src/sts2_training\<close>, below by the paths inside
  it): the client half of a training system that plays a card game through a remote emulator.  The
  game, its rules and the server are not part of the repository.  What the repository promises is
  that it talks to the server safely over connections that fail, and that the decisions it takes
  are legal ones.

  Parts and their interaction.  The decision engine reads a decision and takes it: a single action by
  itself, an event by evaluating its options on branches of the emulator, otherwise by the beam
  search, and when that gives no action by the heuristic selector; then it commits.  The episode runner
  starts an instance, lets the engine play it to its end and closes it.  The beam search
  asks a policy for candidate actions, sends batches of \<open>emulate_actions\<close> through the asynchronous
  client, scores the resulting states by a value model, prunes and goes one ply deeper until a budget
  is spent.  The client turns calls into numbered requests, checks every response against the
  contract, and keeps a request whose outcome is unknown for an exact replay.  Requests travel over
  one TCP connection with an epoch-checked handshake.  Every selection is recorded by an audit.

  Theories, in the order of the layers; the names of functions and attributes are those of the code
  unless HOL has them already.
  \<^item> \<open>Py_Value\<close>: the prelude.  JSON values, the built-in operations of Python the sources use, the
    results of code that may raise and of methods (\<open>('s, 'e, 'a) py\<close>), weakest preconditions (\<open>wp\<close>), and the
    collections \<open>py_simps\<close>, \<open>keeps_intro\<close>, \<open>returns_intro\<close> and \<open>raises_intro\<close>.
  \<^item> \<open>Transport\<close>: \<open>api/transport.py\<close> (replay tokens and exceptions), \<open>api/response_router.py\<close>.
  \<^item> \<open>Selection_Audit\<close>: \<open>selection_log.py\<close>, the class \<open>SelectionAudit\<close>.
  \<^item> \<open>Api_Contract\<close>: \<open>api/contract.py\<close>, the requests, their responses and the active instance.
  \<^item> \<open>Async_Client\<close>: \<open>api/async_client.py\<close>, every operation of the client over an abstract connection.
  \<^item> \<open>Client_Sequence\<close>: the client on a recording connection.  Sessions are the inductive predicate
    \<open>session_reach\<close>, the invariant \<open>wire_inv\<close> is kept by every operation, under the locale
    \<open>replay_connection\<close> that states what a connection must promise.
  \<^item> \<open>Client_Log\<close>, \<open>Client_Errors\<close>: what one call of the client puts on the wire, and what a commit raises,
    under the locale \<open>ordinary_connection\<close>, interpreted on TCP.
  \<^item> \<open>Tcp_Connection\<close>: \<open>api/tcp_connection.py\<close>, with an interpretation of that locale.
  \<^item> \<open>Combat_Decision\<close>: \<open>decision/combat_decision.py\<close> and the reading of decisions in
    \<open>decision/beam_search.py\<close>.
  \<^item> \<open>Stable_Pruner\<close>: \<open>decision/stable_pruner.py\<close>; a pruner is the locale \<open>frontier_pruner\<close>, interpreted
    on \<open>ValueTopKPruner\<close>.
  \<^item> \<open>Candidate_Coverage\<close>: \<open>decision/candidate_coverage.py\<close>, the branches a ranking may not drop.
  \<^item> \<open>Combat_Observation\<close>: \<open>decision/combat_observation.py\<close>, what is read from a state, tolerantly and
    strictly.
  \<^item> \<open>Action_Classification\<close>, \<open>Choice_Semantics\<close>: \<open>selection/action_classification.py\<close>,
    \<open>selection/choice_semantics.py\<close> and \<open>selection/choice_card_heuristic.py\<close>.
  \<^item> \<open>Prior_Policy\<close>: \<open>decision/policy.py\<close>, the bootstrap policy.
  \<^item> \<open>Heuristic_Value\<close>: \<open>decision/value.py\<close>, the heuristic value function.
  \<^item> \<open>Damage_Race\<close>: \<open>decision/damage_race_value.py\<close>, the other value model, with what its closed forms
    minimise.
  \<^item> \<open>Heuristic_Selector\<close>: the selectors of \<open>selection\<close>.
  \<^item> \<open>Beam_Engine\<close>, \<open>Beam_Frontier\<close>, \<open>Beam_Search\<close>: \<open>decision/beam_search.py\<close>, the class
    \<open>BeamSearchEngine\<close>: its state and cleanup, one ply, and the loop with the choice of the best leaf.
  \<^item> \<open>Beam_Safety\<close>, \<open>Beam_Invariant\<close>, \<open>Beam_Loop\<close>: the locale \<open>search_world\<close> (what the client, the
    policy, the value model and the pruner keep when the engine calls them the way the locale says)
    and the rules that show every function of the search calls them that way.
  \<^item> \<open>Beam_Guarantees\<close>: interpretations of \<open>search_world\<close>, what a search returns, the order of its
    calls, and its termination.
  \<^item> \<open>Search_Session\<close>: the search on the asynchronous client, so that a search is a piece of a session.
  \<^item> \<open>Search_Modes\<close>: \<open>decision/search_modes.py\<close>, the named budgets of a search.
  \<^item> \<open>Event_Branch_Search\<close>, \<open>Event_Ownership\<close>: \<open>decision/event_branch_search.py\<close>, and on the asynchronous
    client, under the locale \<open>branch_connection\<close>, who owns the branches an evaluation has created.
  \<^item> \<open>Decision_Engine\<close>: \<open>decision/engine.py\<close>, what it decides, and the locale \<open>decision_world\<close> of what its
    calls keep.
  \<^item> \<open>Decision_Session\<close>: the engine on the asynchronous client: \<open>session_property\<close>, a property of the
    client that its calls keep, gives the locales of the searches and of the engine; interpreted on
    the reachable states and on the commits on the wire.
  \<^item> \<open>Decision_Liveness\<close>: with a clock that advances a decision of the engine returns or raises.
  \<^item> \<open>Episode\<close>: \<open>runner/episode.py\<close> and \<open>runner/beam_scope.py\<close>, an instance driven to its end: the locale
    \<open>episode_world\<close> of what an episode keeps, its commits on the wire, and its termination.
  \<^item> \<open>Search_Trace\<close>: \<open>decision/search_trace.py\<close>, the events of a trace, the record that
    \<open>_prune_stable_frontier\<close> writes of a pruning step, and its replay.
  \<^item> \<open>Oracle_Targets\<close>, \<open>Oracle_Properties\<close>: \<open>decision/oracle_search.py\<close>, the training targets derived from a
    trace, and what they mean over the tree that the trace describes: reachability replaces the queue of
    descendants and the walk of a fault, a maximum and a mean replace the loops over leaves.
  \<^item> \<open>Learned_Pruner\<close>: \<open>decision/pruner_features.py\<close> and \<open>decision/learned_pruner.py\<close>, a pruner that ranks by
    weighted features, with its constructor and its artifact.
  \<^item> \<open>Pruner_Exploration\<close>: \<open>decision/pruner_rl.py\<close>, the exploration around it: draws, log probabilities and
    the policy gradient, which is shown to be a derivative.
  \<^item> \<open>Learned_Value\<close>: \<open>decision/value_features.py\<close>, \<open>decision/learned_value.py\<close> and the version checks of
    \<open>decision/oracle_log.py\<close>: the summary of the cards, the features and the linear value model.
  \<^item> This theory: the properties of sessions over TCP and of searches on them.

  State.  An object is a record of its attributes; a subclass extends the record.  A method is a
  function from the state to a result and the state, so an exception keeps the changes made before
  it, as in Python.  Methods that wait are one transition each: the client serialises its operations
  with a lock, and the outcomes of the waits are data of the environment (\<open>tcp_script\<close>, the clock).
  The world of a search or an engine is a parameter \<open>'w\<close> with the clock, the client and the models in it.

  Bounds and fuel.  The unbounded loops that need fuel are the loop of a search over plies and the
  loop of an episode over decisions: one unit per iteration, \<open>None\<close> when it runs out.  With a clock that
  advances by at least \<open>d\<close> between two readings, \<open>timeout / d\<close> iterations of a search and as many rounds
  of an episode as decisions are allowed are enough, which are properties.  Python's integers are
  \<open>int\<close>.  A float is a rational, an infinity or NaN: comparisons are exact, the rounding of the
  arithmetic is not modelled.  Where the code takes roots, exponentials and logarithms the floats are
  reals.

  Parameters.  The JSON codec, the sockets, the clock, the random numbers and \<open>uuid4\<close>, the policy, the
  value model and the pruner of a search, the fallback of an engine and the card scores read from the
  data file are arguments of the definitions that use them.  \<open>shaped_codec\<close> states that the server
  answers a rejection with a \<open>fault_kind\<close> that is a string, a number or null; what happens otherwise is a
  property below.

  Not modelled: message texts of exceptions, logging and timing statistics, and the recording of traces
  during a search other than that of a pruning step (none of them changes what the code does), the local
  process transport (another provider of the same calls), the call that runs an oracle collection with
  its copies of the models and their provenance, the files of teacher data, the learned action
  policy and the training data (feature vectors and regressions over floats), the board evaluation,
  the other drivers and the experiments under \<open>runner\<close> and \<open>tools\<close> (files, processes and
  statistics around the episode runner), and the visualizer.
\<close>

section \<open>A session to evaluate\<close>

text \<open>
  A codec and a peer for the witnesses: the peer greets, then answers the first request with a
  completed \<open>start_instance\<close>.  The codec reads two fixed lines.
\<close>

definition demo_hello :: pyval where
  "demo_hello = PDict
     [(''transport_operation'', PStr ''hello''), (''schema_version'', PStr ''0.8''),
      (''client_session_id'', PStr ''s''), (''server_epoch'', PStr ''e'')]"

definition demo_started :: "pydict \<Rightarrow> pyval" where
  "demo_started rest = PDict
     ([(''schema_version'', PStr ''0.8''), (''client_session_id'', PStr ''s''),
       (''request_seq'', PInt 1), (''request_id'', PStr ''s:1''),
       (''operation'', PStr ''start_instance''), (''server_epoch'', PStr ''e'')] @ rest)"

definition demo_codec :: "pydict \<Rightarrow> codec" where
  "demo_codec rest =
     \<lparr>dumps = (\<lambda>_. ''q''),
      loads = (\<lambda>line. if line = ''h'' @ [newline] then Some demo_hello
                      else if line = ''r'' @ [newline] then Some (demo_started rest)
                      else None)\<rparr>"

definition demo_tcp :: "io list \<Rightarrow> tcp" where
  "demo_tcp script =
     \<lparr>tcp_session = ''s'', tcp_max_message = 1000, tcp_max_response = 1000, tcp_stream = None,
      tcp_closed = False, tcp_epoch = None, tcp_script = script, tcp_written = [], tcp_clock = [],
      tcp_locks = []\<rparr>"

definition demo_script :: "io list" where
  "demo_script = [IoDone, IoDone, IoDone, IoBytes (''h'' @ [newline]), IoDone, IoBytes (''r'' @ [newline])]"

definition demo_client :: "io list \<Rightarrow> tcp wire client" where
  "demo_client script =
     \<lparr>session_id = ''s'', audit_state = audit_init False, instance_id = None, instance_type = None,
      pending_start_instance_type = None, max_emulate_actions_items = None,
      connection = \<lparr>wire_conn = demo_tcp script, wire_log = []\<rparr>, next_request_seq = 1,
      pending_retry = None, session_invalid = False, emulate_actions_boundaries = {},
      pending_retry_cleanup = None\<rparr>"

definition demo_completed :: pydict where
  "demo_completed = [(''status'', PStr ''completed''), (''instance_id'', PStr ''i'')]"

lemma demo_client_init:
  "client_init ''s'' \<lparr>wire_conn = demo_tcp script, wire_log = []\<rparr> False = Inr (demo_client script)"
  by (simp add: client_init_def demo_client_def validate_non_empty_str_def)

definition demo_call :: "pydict \<Rightarrow> exn option \<times> tcp wire client" where
  "demo_call rest =
     run_call (record_ops (tcp_ops (demo_codec rest))) 5 (Start_Instance []) (demo_client demo_script)"

definition demo_request :: pydict where
  "demo_request =
     [(''schema_version'', PStr ''0.8''), (''client_session_id'', PStr ''s''),
      (''request_seq'', PInt 1), (''request_id'', PStr ''s:1''),
      (''operation'', PStr ''start_instance''), (''instance_config'', PDict [])]"

lemma demo_call_log:
  "log_of (snd (demo_call demo_completed)) = [(demo_request, Inr (demo_started demo_completed))]"
  by code_simp

lemma demo_call_next: "next_request_seq (snd (demo_call demo_completed)) = 2"
  by code_simp

definition demo_queued :: pydict where
  "demo_queued = [(''status'', PStr ''queued'')]"

lemma demo_completed_shaped: "shaped_codec (demo_codec demo_completed)"
  by (auto simp: shaped_codec_def demo_codec_def demo_hello_def demo_started_def demo_completed_def
      well_shaped_def split: if_splits)

lemma demo_queued_shaped: "shaped_codec (demo_codec demo_queued)"
  by (auto simp: shaped_codec_def demo_codec_def demo_hello_def demo_started_def demo_queued_def
      well_shaped_def split: if_splits)

lemma demo_reach:
  "session_reach (tcp_ops (demo_codec rest)) ''s'' False (snd (demo_call rest))"
proof -
  have "session_reach (tcp_ops (demo_codec rest)) ''s'' False (demo_client demo_script)"
    by (rule session_reach.start) (rule demo_client_init)
  then show ?thesis unfolding demo_call_def by (rule reach_run_call)
qed

text \<open>the first request times out after it was sent, and is replayed\<close>

definition demo_replayed :: "tcp wire client" where
  "demo_replayed =
     snd (run_call (record_ops (tcp_ops (demo_codec demo_completed))) 5 (Retry (from_message demo_request))
       (snd (run_call (record_ops (tcp_ops (demo_codec demo_completed))) 5 (Start_Instance [])
         (demo_client ([IoDone, IoDone, IoDone, IoBytes (''h'' @ [newline]), IoDone, IoTimeout, IoDone]
            @ demo_script)))))"

lemma demo_replayed_log:
  "log_of demo_replayed =
     [(demo_request, Inl (TransportError TransportPlain True (Some (from_message demo_request)))),
      (demo_request, Inr (demo_started demo_completed))]"
  by code_simp

lemma demo_replayed_reach:
  "session_reach (tcp_ops (demo_codec demo_completed)) ''s'' False demo_replayed"
  unfolding demo_replayed_def
  by (rule reach_run_call, rule reach_run_call, rule session_reach.start, rule demo_client_init)

section \<open>One logical request stream\<close>

text \<open>C1: Over the TCP connection, in every state a session can reach, two requests that both may
  have been executed by the server and carry the same sequence number are the same message: the
  number of a request that may have been executed is never given to another request.\<close>

theorem at_most_once:
  assumes "shaped_codec cx"
    and "session_reach (tcp_ops cx) session logger s"
    and "x \<in> set (log_of s)" "y \<in> set (log_of s)"
    and "may_have_executed (snd x)" "may_have_executed (snd y)" "entry_seq x = entry_seq y"
  shows "fst x = fst y"
proof -
  have "one_message (log_of s)"
    using tcp.reach_wire_inv [OF assms(2) well_shaped_tcp [OF assms(1)]]
    by (simp add: wire_inv_def wire_ok_def)
  with assms(3-7) show ?thesis unfolding one_message_def by blast
qed

theorem at_most_once_witness:
  "fst (log_of demo_replayed ! 0) = fst (log_of demo_replayed ! 1)"
  using at_most_once [OF demo_completed_shaped demo_replayed_reach, where
      x = "log_of demo_replayed ! 0" and y = "log_of demo_replayed ! 1"]
  by (simp add: demo_replayed_log)

text \<open>C28: The requests on the wire carry the numbers 1, 2, 3, ... in ascending order: the numbers never
  go down, none exceeds the client's next number, and each number below it was answered.\<close>

theorem sequence_without_gaps:
  assumes "shaped_codec cx"
    and "session_reach (tcp_ops cx) session logger s"
  shows "sorted (map entry_seq (log_of s)) \<and>
    (\<forall>x \<in> set (log_of s). 1 \<le> entry_seq x \<and> entry_seq x \<le> next_request_seq s) \<and>
    {1 ..< next_request_seq s} \<subseteq> entry_seq ` {x \<in> set (log_of s). \<not> isl (snd x)}"
  using tcp.reach_wire_inv [OF assms(2) well_shaped_tcp [OF assms(1)]]
  by (simp add: wire_inv_def wire_ok_def gapless_def)

theorem sequence_without_gaps_witness:
  "{1 ..< next_request_seq (snd (demo_call demo_completed))}
     \<subseteq> entry_seq ` {x \<in> set (log_of (snd (demo_call demo_completed))). \<not> isl (snd x)}"
  using sequence_without_gaps [OF demo_completed_shaped demo_reach] by blast

text \<open>C27: A request of the current number that may have been executed is never lost: its exact replay
  token is pending, or the session has been closed to further requests.\<close>

theorem unresolved_is_replayable:
  assumes "shaped_codec cx"
    and "session_reach (tcp_ops cx) session logger s"
    and "x \<in> set (log_of s)" "may_have_executed (snd x)" "entry_seq x = next_request_seq s"
  shows "session_invalid s \<or> pending_retry s = Some (from_message (fst x))"
  using tcp.reach_wire_inv [OF assms(2) well_shaped_tcp [OF assms(1)]] assms(3-5)
  by (simp add: wire_inv_def wire_ok_def)

lemma demo_unresolved:
  "log_of (snd (demo_call demo_queued)) =
     [(demo_request, Inr (demo_started demo_queued))]"
  "next_request_seq (snd (demo_call demo_queued)) = 1"
  "session_invalid (snd (demo_call demo_queued)) = False"
  by code_simp+

theorem unresolved_is_replayable_witness:
  "pending_retry (snd (demo_call demo_queued)) = Some (from_message demo_request)"
  using unresolved_is_replayable [OF demo_queued_shaped demo_reach,
      where x = "(demo_request, Inr (demo_started demo_queued))"]
  by (simp add: demo_unresolved entry_seq_def demo_request_def)

text \<open>C34: While a request is unresolved, or after the session was invalidated, every fresh operation
  raises and sends nothing: the log of the wire, the sequence number and the pending token stay.\<close>

theorem fresh_requests_fail_closed:
  assumes "pending_retry s \<noteq> None \<or> session_invalid s" "fresh_call c"
    and "run_call (record_ops ops) t c s = (r, s')"
  shows "r \<noteq> None \<and> log_of s' = log_of s \<and> next_request_seq s' = next_request_seq s \<and>
    pending_retry s' = pending_retry s \<and> session_invalid s' = session_invalid s"
  using fresh_call_blocked [of s c ops t r s'] assms by (simp add: blocked_def core_def)

theorem fresh_requests_fail_closed_witness:
  "fst (run_call (record_ops (tcp_ops (demo_codec []))) 5 (Start_Instance [])
     (demo_client [] \<lparr>session_invalid := True\<rparr>)) \<noteq> None"
  using fresh_requests_fail_closed [of "demo_client [] \<lparr>session_invalid := True\<rparr>" "Start_Instance []"
      "tcp_ops (demo_codec [])" 5, OF _ _ prod.collapse [symmetric]]
  by simp

section \<open>One exchange\<close>


lemma demo_timeout:
  "exchange (demo_codec []) demo_request None (Some 5)
     (demo_tcp [IoDone, IoDone, IoDone, IoBytes (''h'' @ [newline]), IoDone]) =
   (Inl (TransportError TransportPlain True (Some (from_message demo_request))),
    (demo_tcp []) \<lparr>tcp_epoch := Some ''e'', tcp_written := [''q'' @ [newline], ''q'' @ [newline]]\<rparr>)"
  by code_simp


text \<open>A response is returned only after the request line was written, and it carries the server
  epoch the connection is pinned to.\<close>

theorem exchange_response_epoch:
  assumes "exchange cx m timeout_s deadline s = (Inr v, t)"
  shows "requested cx s m t \<and>
    (\<exists>r ep. v = PDict r \<and> dget r ''server_epoch'' = PStr ep \<and> tcp_epoch t = Some ep)"
  using wpD_Inr [OF exchange_wp assms] by (simp add: answered_def)

lemma demo_exchange:
  "exchange (demo_codec demo_completed) demo_request None (Some 5) (demo_tcp demo_script) =
   (Inr (demo_started demo_completed),
    (demo_tcp []) \<lparr>tcp_epoch := Some ''e'', tcp_stream := Some False,
       tcp_written := [''q'' @ [newline], ''q'' @ [newline]]\<rparr>)"
  by code_simp

theorem exchange_response_epoch_witness:
  "tcp_epoch (snd (exchange (demo_codec demo_completed) demo_request None (Some 5) (demo_tcp demo_script))) = Some ''e''"
  using exchange_response_epoch [OF demo_exchange] unfolding demo_exchange
  by (auto simp: demo_started_def)

text \<open>
  A peer outside the hypothesis: it rejects the first request with a \<open>fault_kind\<close> that is a JSON
  list.  The second call starts another instance over the same connection.
\<close>

definition demo_odd :: pydict where
  "demo_odd = [(''status'', PStr ''rejected''), (''error'', PStr ''no''), (''fault_kind'', PList [])]"

definition demo_reused :: "tcp wire client" where
  "demo_reused =
     snd (run_call (record_ops (tcp_ops (demo_codec demo_odd))) 5
            (Start_Instance [(''instance_type'', PStr ''whole_run'')])
       (snd (run_call (record_ops (tcp_ops (demo_codec demo_odd))) 5 (Start_Instance [])
         (demo_client (demo_script @ [IoDone, IoDone, IoBytes (''r'' @ [newline])])))))"

lemma demo_reused_log:
  "map (\<lambda>x. (entry_seq x, may_have_executed (snd x))) (log_of demo_reused) = [(1, True), (1, True)]"
  "map fst (log_of demo_reused) =
     [demo_request, butlast demo_request @ [(''instance_config'', PDict [(''instance_type'', PStr ''whole_run'')])]]"
  by code_simp+


section \<open>A search over the connection\<close>

text \<open>A beam search on the asynchronous client over TCP is a piece of a session: started in a state a
  session can reach, it ends in one, also when it raises, whatever the search's policy, value model and
  pruner do; so during a search no two messages that may both have been executed share a sequence
  number, and every number used up was answered.\<close>

theorem search_over_tcp:
  assumes "shaped_codec cx" "session_reach (tcp_ops cx) session logger (fst (se_world s))"
    and "search (session_engine (record_ops (tcp_ops cx)) en) inst search_id root_decision timeout n s = (r, t)"
    and "dget root_decision ''decision_point_id'' \<noteq> PStr []"
  shows "session_reach (tcp_ops cx) session logger (fst (se_world t)) \<and>
    one_message (log_of (fst (se_world t))) \<and>
    gapless (next_request_seq (fst (se_world t))) (log_of (fst (se_world t)))"
proof -
  have reach: "session_reach (tcp_ops cx) session logger (fst (se_world t))"
    using session.search_wp [OF assms(2,4), of en inst search_id timeout n] assms(3)
    by (auto simp: wp_def session.searched_def split: sum.splits)
  with tcp.reach_wire_inv [OF reach well_shaped_tcp [OF assms(1)]] show ?thesis
    by (simp add: wire_inv_def wire_ok_def)
qed

theorem search_over_tcp_witness:
  "one_message (log_of (fst (se_world (snd (search
     (session_engine (record_ops (tcp_ops (demo_codec demo_completed))) demo_engine) ''i'' ''s'' demo_decision
     (PInt 10) 3 (idle_search (snd (demo_call demo_completed), 0)))))))"
proof -
  have "session_reach (tcp_ops (demo_codec demo_completed)) ''s'' False
      (fst (se_world (idle_search (snd (demo_call demo_completed), 0 :: nat))))"
    using demo_reach by (simp add: idle_search_def)
  from search_over_tcp [OF demo_completed_shaped this prod.collapse [symmetric]] show ?thesis
    by (simp add: demo_decision_def)
qed

end
